(* ===== verification/Go_Base.thy ===== *)
theory Go_Base
  imports Main
begin

text \<open>
  The prelude of the development: the parts of Go and of its standard library that the
  program rests on, and the generic lemmas the component theories share.

  \<^item> \<open>string\<close> is a list of bytes, as a Go string is; the operations of package
    \<open>strings\<close> the source uses are written out over it.
  \<^item> Go's \<open>int\<close> and \<open>int64\<close> are \<open>int\<close> values kept in range by \<open>i64\<close>, the
    two's-complement wrap-around; division truncates and panics on zero (\<open>None\<close>).
  \<^item> An \<open>error\<close> value is a \<open>goerr\<close>: a tree of wrapped errors with the text
    \<open>Error()\<close> returns and the identity test \<open>errors.Is\<close> makes.
  \<^item> A \<open>context.Context\<close> is what \<open>ctx.Err()\<close> reports over logical time.

  Collections: \<open>go_strings\<close> holds the equations that evaluate string code,
  \<open>go_errors\<close> those that read an error tree.
\<close>

named_theorems go_strings \<open>evaluation of string operations\<close>
named_theorems go_errors \<open>reading error trees\<close>

section \<open>Strings\<close>

definition has_prefix :: "string \<Rightarrow> string \<Rightarrow> bool" where
  "has_prefix s p \<longleftrightarrow> take (length p) s = p"

definition has_suffix :: "string \<Rightarrow> string \<Rightarrow> bool" where
  "has_suffix s p \<longleftrightarrow> has_prefix (rev s) (rev p)"

fun contains_str :: "string \<Rightarrow> string \<Rightarrow> bool" where
  "contains_str [] sub = (sub = [])"
| "contains_str (c # cs) sub = (has_prefix (c # cs) sub \<or> contains_str cs sub)"

definition trim_suffix :: "string \<Rightarrow> string \<Rightarrow> string" where
  "trim_suffix s p = (if has_suffix s p then take (length s - length p) s else s)"

text \<open>\<open>strings.Cut\<close> at the first occurrence of a one-byte separator.\<close>

fun cut_at :: "char \<Rightarrow> string \<Rightarrow> string \<times> string \<times> bool" where
  "cut_at sep [] = ([], [], False)"
| "cut_at sep (c # cs) =
     (if c = sep then ([], cs, True)
      else (case cut_at sep cs of (a, b, found) \<Rightarrow> (c # a, b, found)))"

text \<open>\<open>strings.Split\<close> at a one-byte separator: always at least one field.\<close>

fun split_on :: "char \<Rightarrow> string \<Rightarrow> string list" where
  "split_on sep [] = [[]]"
| "split_on sep (c # cs) =
     (if c = sep then [] # split_on sep cs
      else (case split_on sep cs of [] \<Rightarrow> [[c]] | f # fs \<Rightarrow> (c # f) # fs))"

fun join_with :: "string \<Rightarrow> string list \<Rightarrow> string" where
  "join_with sep [] = []"
| "join_with sep [f] = f"
| "join_with sep (f # g # fs) = f @ sep @ join_with sep (g # fs)"

text \<open>
  \<open>strings.TrimSpace\<close>. The white space runes of \<open>unicode.IsSpace\<close> are finitely
  many; \<open>space_encodings\<close> lists their UTF-8 encodings.
\<close>

definition space_encodings :: "string list" where
  "space_encodings =
     [[CHR 0x09], [CHR 0x0A], [CHR 0x0B], [CHR 0x0C], [CHR 0x0D], [CHR 0x20],
      [CHR 0xC2, CHR 0x85], [CHR 0xC2, CHR 0xA0],
      [CHR 0xE1, CHR 0x9A, CHR 0x80],
      [CHR 0xE2, CHR 0x80, CHR 0x80], [CHR 0xE2, CHR 0x80, CHR 0x81],
      [CHR 0xE2, CHR 0x80, CHR 0x82], [CHR 0xE2, CHR 0x80, CHR 0x83],
      [CHR 0xE2, CHR 0x80, CHR 0x84], [CHR 0xE2, CHR 0x80, CHR 0x85],
      [CHR 0xE2, CHR 0x80, CHR 0x86], [CHR 0xE2, CHR 0x80, CHR 0x87],
      [CHR 0xE2, CHR 0x80, CHR 0x88], [CHR 0xE2, CHR 0x80, CHR 0x89],
      [CHR 0xE2, CHR 0x80, CHR 0x8A], [CHR 0xE2, CHR 0x80, CHR 0xA8],
      [CHR 0xE2, CHR 0x80, CHR 0xA9], [CHR 0xE2, CHR 0x80, CHR 0xAF],
      [CHR 0xE2, CHR 0x81, CHR 0x9F], [CHR 0xE3, CHR 0x80, CHR 0x80]]"

fun strip_first :: "string list \<Rightarrow> string \<Rightarrow> string option" where
  "strip_first [] s = None"
| "strip_first (p # ps) s =
     (if p \<noteq> [] \<and> has_prefix s p then Some (drop (length p) s) else strip_first ps s)"

lemma has_prefix_iff: "has_prefix s p \<longleftrightarrow> (\<exists>r. s = p @ r)"
  unfolding has_prefix_def by (metis append_eq_conv_conj append_take_drop_id)

lemma strip_first_shorter: "strip_first ps s = Some s' \<Longrightarrow> length s' < length s"
proof (induction ps s rule: strip_first.induct)
  case (1 s)
  then show ?case by simp
next
  case (2 p ps s)
  show ?case
  proof (cases "p \<noteq> [] \<and> has_prefix s p")
    case True
    then obtain r where "s = p @ r" by (auto simp: has_prefix_iff)
    with True 2 show ?thesis by auto
  next
    case False
    with 2 show ?thesis by auto
  qed
qed

function trim_left_of :: "string list \<Rightarrow> string \<Rightarrow> string" where
  "trim_left_of ps s =
     (case strip_first ps s of None \<Rightarrow> s | Some s' \<Rightarrow> trim_left_of ps s')"
  by pat_completeness auto
termination
  by (relation "measure (\<lambda>(ps, s). length s)") (auto dest: strip_first_shorter)

declare trim_left_of.simps [simp del]

definition trim_space :: "string \<Rightarrow> string" where
  "trim_space s =
     rev (trim_left_of (map rev space_encodings) (rev (trim_left_of space_encodings s)))"

text \<open>ASCII case mapping: bytes outside A-Z are left alone.\<close>

definition lower_char :: "char \<Rightarrow> char" where
  "lower_char c = (if 65 \<le> (of_char c :: nat) \<and> (of_char c :: nat) \<le> 90
                   then char_of ((of_char c :: nat) + 32) else c)"

definition to_lower :: "string \<Rightarrow> string" where
  "to_lower s = map lower_char s"

lemma has_prefix_simps [simp, go_strings]:
  "has_prefix s []"
  "has_prefix [] (c # p) = False"
  "has_prefix (d # s) (c # p) = (d = c \<and> has_prefix s p)"
  by (auto simp: has_prefix_def)

lemma has_prefix_append [simp]: "has_prefix (p @ r) p"
  by (auto simp: has_prefix_iff)

lemma has_prefix_append2: "has_prefix s p \<Longrightarrow> has_prefix (s @ t) p"
  by (auto simp: has_prefix_iff)

lemma trim_left_of_empty [simp]: "trim_left_of ps [] = []"
proof -
  have "strip_first ps [] = None"
    using strip_first_shorter [of ps "[]"] by (cases "strip_first ps []") auto
  then show ?thesis by (subst trim_left_of.simps) simp
qed

lemma trim_space_empty [simp]: "trim_space [] = []"
  by (simp add: trim_space_def)

text \<open>
  A string whose first and last byte cannot belong to a white space encoding is its own
  trimmed form; this covers every string of printable ASCII.
\<close>

definition plain_char :: "char \<Rightarrow> bool" where
  "plain_char c \<longleftrightarrow> 32 < (of_char c :: nat) \<and> (of_char c :: nat) < 127"

lemma strip_first_None:
  "list_all (\<lambda>p. p = [] \<or> hd p \<noteq> c) ps \<Longrightarrow> strip_first ps (c # s) = None"
  by (induction ps) (auto simp: neq_Nil_conv)

lemma space_encodings_not_plain:
  "list_all (\<lambda>p. \<not> plain_char (hd p)) space_encodings"
  "list_all (\<lambda>p. \<not> plain_char (hd p)) (map rev space_encodings)"
  by code_simp+

lemma strip_first_plain:
  assumes "plain_char c"
  shows "strip_first space_encodings (c # s) = None"
    and "strip_first (map rev space_encodings) (c # s) = None"
  using assms space_encodings_not_plain
  by (auto intro!: strip_first_None simp: list_all_iff)

lemma trim_space_plain:
  assumes "plain_char c" "plain_char d" "s = c # t" "s = u @ [d]"
  shows "trim_space s = s"
proof -
  have r: "rev s = d # rev u" using assms(4) by simp
  have "trim_left_of space_encodings s = s"
    using assms(1,3) by (subst trim_left_of.simps) (simp add: strip_first_plain)
  moreover have "trim_left_of (map rev space_encodings) (rev s) = rev s"
    using assms(2) r by (subst trim_left_of.simps) (simp add: strip_first_plain)
  ultimately show ?thesis by (simp add: trim_space_def)
qed

lemma cut_at_found:
  "cut_at sep s = (a, b, True) \<Longrightarrow> s = a @ sep # b \<and> sep \<notin> set a"
  by (induction s arbitrary: a b) (auto split: if_splits prod.splits)

lemma cut_at_not_found:
  "cut_at sep s = (a, b, False) \<Longrightarrow> a = s \<and> b = [] \<and> sep \<notin> set s"
  by (induction s arbitrary: a b) (auto split: if_splits prod.splits)

lemma split_on_nonempty [simp]: "split_on sep s \<noteq> []"
  by (cases s) (auto split: list.splits)

lemma split_on_fields: "f \<in> set (split_on sep s) \<Longrightarrow> sep \<notin> set f"
proof (induction s arbitrary: f)
  case Nil
  then show ?case by simp
next
  case (Cons c cs)
  then show ?case by (auto split: if_splits list.splits)
qed

lemma join_with_Cons: "fs \<noteq> [] \<Longrightarrow> join_with sep (f # fs) = f @ sep @ join_with sep fs"
  by (cases fs) auto

section \<open>Integers\<close>

text \<open>
  Go's 64-bit \<open>int\<close>: results wrap around in two's complement. \<open>quo\<close> is Go's
  \<open>/\<close>: it truncates towards zero, wraps, and panics (\<open>None\<close>) on a zero divisor.
\<close>

definition i64 :: "int \<Rightarrow> int" where
  "i64 x = (x + 2 ^ 63) mod 2 ^ 64 - 2 ^ 63"

definition in_i64 :: "int \<Rightarrow> bool" where
  "in_i64 x \<longleftrightarrow> - (2 ^ 63) \<le> x \<and> x < 2 ^ 63"

definition tdiv :: "int \<Rightarrow> int \<Rightarrow> int" where
  "tdiv a b = i64 (sgn a * sgn b * (\<bar>a\<bar> div \<bar>b\<bar>))"

definition quo :: "int \<Rightarrow> int \<Rightarrow> int option" where
  "quo a b = (if b = 0 then None else Some (tdiv a b))"

lemma i64_id [simp]: "in_i64 x \<Longrightarrow> i64 x = x"
  by (simp add: i64_def in_i64_def)

lemma in_i64_i64 [simp]: "in_i64 (i64 x)"
proof -
  have "0 \<le> (x + 2 ^ 63) mod 2 ^ 64" "(x + 2 ^ 63) mod 2 ^ 64 < (2 ^ 64 :: int)"
    by (rule pos_mod_sign, simp) (rule pos_mod_bound, simp)
  then show ?thesis by (simp add: i64_def in_i64_def)
qed

lemma tdiv_nonneg: "0 \<le> a \<Longrightarrow> 0 < b \<Longrightarrow> in_i64 a \<Longrightarrow> tdiv a b = a div b"
proof -
  assume a: "0 \<le> a" "0 < b" "in_i64 a"
  have "sgn a * sgn b * (\<bar>a\<bar> div \<bar>b\<bar>) = a div b"
    using a by (cases "a = 0") (auto simp: sgn_if)
  moreover have "in_i64 (a div b)"
  proof -
    have "a div b \<le> a div 1" using a by (intro zdiv_mono2) auto
    then have "a div b \<le> a" by simp
    moreover have "0 \<le> a div b" using a by (simp add: pos_imp_zdiv_nonneg_iff)
    ultimately show ?thesis using a(3) by (simp add: in_i64_def)
  qed
  ultimately show ?thesis by (simp only: tdiv_def i64_id)
qed

lemma quo_nonneg: "0 \<le> a \<Longrightarrow> 0 < b \<Longrightarrow> in_i64 a \<Longrightarrow> quo a b = Some (a div b)"
  by (simp add: quo_def tdiv_nonneg)

lemma quo_Some: "b \<noteq> 0 \<Longrightarrow> \<exists>q. quo a b = Some q"
  by (simp add: quo_def)

text \<open>Decimal output (\<open>strconv.Itoa\<close>, the verb \<open>%d\<close>).\<close>

definition digit_char :: "nat \<Rightarrow> char" where
  "digit_char d = char_of (48 + d)"

fun show_nat :: "nat \<Rightarrow> string" where
  "show_nat n = (if n < 10 then [digit_char n] else show_nat (n div 10) @ [digit_char (n mod 10)])"

declare show_nat.simps [simp del]

definition itoa :: "int \<Rightarrow> string" where
  "itoa n = (if n < 0 then CHR ''-'' # show_nat (nat (- n)) else show_nat (nat n))"

text \<open>
  The verb \<open>%q\<close> (\<open>strconv.Quote\<close>): exact on ASCII; bytes from 0x80 up are copied, as
  Go does for those that form printable runes.
\<close>

definition hex_digit :: "nat \<Rightarrow> char" where
  "hex_digit d = (if d < 10 then char_of (48 + d) else char_of (87 + d))"

definition quote_char :: "char \<Rightarrow> string" where
  "quote_char c =
     (if c = CHR 0x22 then [CHR 0x5C, CHR 0x22]
      else if c = CHR 0x5C then [CHR 0x5C, CHR 0x5C]
      else if c = CHR 0x07 then [CHR 0x5C, CHR ''a'']
      else if c = CHR 0x08 then [CHR 0x5C, CHR ''b'']
      else if c = CHR 0x0C then [CHR 0x5C, CHR ''f'']
      else if c = CHR 0x0A then [CHR 0x5C, CHR ''n'']
      else if c = CHR 0x0D then [CHR 0x5C, CHR ''r'']
      else if c = CHR 0x09 then [CHR 0x5C, CHR ''t'']
      else if c = CHR 0x0B then [CHR 0x5C, CHR ''v'']
      else if (of_char c :: nat) < 32 \<or> (of_char c :: nat) = 127
        then [CHR 0x5C, CHR ''x'', hex_digit (of_char c div 16), hex_digit (of_char c mod 16)]
      else [c])"

definition quote :: "string \<Rightarrow> string" where
  "quote s = [CHR 0x22] @ concat (map quote_char s) @ [CHR 0x22]"

text \<open>
  A byte as a rune, printed: the runes from 161 to 255 other than 173 are printable, two bytes
  each in UTF-8.
\<close>

definition printed_byte :: "nat \<Rightarrow> string" where
  "printed_byte n =
     (if 32 \<le> n \<and> n < 127 then [char_of n]
      else if 161 \<le> n \<and> n \<noteq> 173 then [char_of (192 + n div 64), char_of (128 + n mod 64)]
      else [])"

definition ascii :: "string \<Rightarrow> bool" where
  "ascii s \<longleftrightarrow> (\<forall>c \<in> set s. (of_char c :: nat) < 128)"

section \<open>Errors\<close>

text \<open>
  \<open>ENew name text\<close> is the value of a package variable made by \<open>errors.New\<close>: its
  identity is \<open>name\<close>. \<open>EText\<close> is an error made on the spot, never equal to a package
  variable. \<open>EWrap pre e post\<close> is \<open>fmt.Errorf\<close> with one \<open>%w\<close> verb (the texts
  around it), \<open>EWrap2\<close> with two, \<open>EJoin\<close> is a non-empty \<open>errors.Join\<close>.
\<close>

datatype goerr =
    ENew string string
  | EText string
  | EWrap string goerr string
  | EWrap2 string goerr string goerr string
  | EJoin "goerr list"

fun error_text :: "goerr \<Rightarrow> string" where
  "error_text (ENew n t) = t"
| "error_text (EText t) = t"
| "error_text (EWrap p e q) = p @ error_text e @ q"
| "error_text (EWrap2 p e q f r) = p @ error_text e @ q @ error_text f @ r"
| "error_text (EJoin es) = join_with [CHR 0x0A] (map error_text es)"

text \<open>\<open>errors.Is(err, target)\<close> for a target that is a package variable.\<close>

fun errors_is :: "goerr \<Rightarrow> goerr \<Rightarrow> bool" where
  "errors_is (ENew n t) target = (ENew n t = target)"
| "errors_is (EText t) target = False"
| "errors_is (EWrap p e q) target = errors_is e target"
| "errors_is (EWrap2 p e q f r) target = (errors_is e target \<or> errors_is f target)"
| "errors_is (EJoin es) target = list_ex (\<lambda>e. errors_is e target) es"

declare errors_is.simps [go_errors]

text \<open>\<open>errors.Join\<close> of a list of non-nil errors: nil when the list is empty.\<close>

definition errors_join :: "goerr list \<Rightarrow> goerr option" where
  "errors_join es = (if es = [] then None else Some (EJoin es))"

type_synonym 'a res = "goerr + 'a"

abbreviation (input) Err :: "goerr \<Rightarrow> 'a res" where "Err \<equiv> Inl"
abbreviation (input) Ok :: "'a \<Rightarrow> 'a res" where "Ok \<equiv> Inr"

lemma errors_join_None [simp]: "errors_join es = None \<longleftrightarrow> es = []"
  by (simp add: errors_join_def)

lemma errors_join_is [go_errors]:
  "errors_join es = Some e \<Longrightarrow> errors_is e t = list_ex (\<lambda>x. errors_is x t) es"
  by (auto simp: errors_join_def split: if_splits)

section \<open>Contexts\<close>

text \<open>
  \<open>CtxErr c t\<close> is what \<open>ctx.Err()\<close> returns at logical time \<open>t\<close>, \<open>None\<close> while the
  context is live. \<open>CtxEnd c\<close> is the error it reports once done, for a wait that only
  the context ends. \<open>CtxCarrier c\<close> is the trace context it carries, as
  \<open>telemetry.Inject\<close> reads it: \<open>None\<close> when it carries none.
\<close>

record ctx =
  CtxErr :: "nat \<Rightarrow> goerr option"
  CtxEnd :: goerr
  CtxCarrier :: "(string \<rightharpoonup> string) option"

definition Canceled :: goerr where
  "Canceled = ENew ''context.Canceled'' ''context canceled''"

definition DeadlineExceeded :: goerr where
  "DeadlineExceeded = ENew ''context.DeadlineExceeded'' ''context deadline exceeded''"

definition Background :: ctx where
  "Background = \<lparr>CtxErr = \<lambda>t. None, CtxEnd = Canceled, CtxCarrier = None\<rparr>"

text \<open>\<open>context.WithoutCancel\<close>: the values stay, the cancellation goes.\<close>

definition without_cancel :: "ctx \<Rightarrow> ctx" where
  "without_cancel c = c\<lparr>CtxErr := (\<lambda>t. None)\<rparr>"

text \<open>
  \<open>context.WithTimeout\<close>, the deadline given as the logical time at which it passes; the
  parent's own end comes first when it is earlier.
\<close>

definition with_deadline :: "nat \<Rightarrow> ctx \<Rightarrow> ctx" where
  "with_deadline d c =
     c\<lparr>CtxErr := (\<lambda>t. case CtxErr c t of Some e \<Rightarrow> Some e
                      | None \<Rightarrow> if d \<le> t then Some DeadlineExceeded else None),
       CtxEnd := DeadlineExceeded\<rparr>"

lemma ctx_simps [simp]:
  "CtxErr Background t = None"
  "CtxErr (without_cancel c) t = None"
  "CtxCarrier (without_cancel c) = CtxCarrier c"
  "CtxCarrier (with_deadline d c) = CtxCarrier c"
  by (simp_all add: Background_def without_cancel_def with_deadline_def)

section \<open>Maps\<close>

lemma map_upd_other: "k \<noteq> k' \<Longrightarrow> (m(k \<mapsto> v)) k' = m k'"
  by simp

end
