(* ===== verification/Domain.thy ===== *)
theory Domain
  imports Go_Base
begin

text \<open>
  \<open>internal/domain\<close>: jobs, their status, and the transformation specification with its
  validation. Go's \<open>JobStatus\<close> and \<open>Format\<close> are string types with named constants,
  and stay strings here: a value read back from a database need not be one of them.
\<close>

section \<open>Job status\<close>

type_synonym job_status = string

definition StatusPending :: job_status where "StatusPending = ''pending''"
definition StatusProcessing :: job_status where "StatusProcessing = ''processing''"
definition StatusDone :: job_status where "StatusDone = ''done''"
definition StatusFailed :: job_status where "StatusFailed = ''failed''"

lemmas status_defs = StatusPending_def StatusProcessing_def StatusDone_def StatusFailed_def

lemma status_distinct [simp]:
  "StatusPending \<noteq> StatusProcessing" "StatusProcessing \<noteq> StatusPending"
  "StatusPending \<noteq> StatusDone" "StatusDone \<noteq> StatusPending"
  "StatusPending \<noteq> StatusFailed" "StatusFailed \<noteq> StatusPending"
  "StatusProcessing \<noteq> StatusDone" "StatusDone \<noteq> StatusProcessing"
  "StatusProcessing \<noteq> StatusFailed" "StatusFailed \<noteq> StatusProcessing"
  "StatusDone \<noteq> StatusFailed" "StatusFailed \<noteq> StatusDone"
  by (simp_all add: status_defs)

definition status_valid :: "job_status \<Rightarrow> bool" where
  "status_valid s =
     (if s = StatusPending \<or> s = StatusProcessing \<or> s = StatusDone \<or> s = StatusFailed
      then True else False)"

definition status_terminal :: "job_status \<Rightarrow> bool" where
  "status_terminal s = (s = StatusDone \<or> s = StatusFailed)"

lemma status_valid_simps [simp]:
  "status_valid StatusPending" "status_valid StatusProcessing"
  "status_valid StatusDone" "status_valid StatusFailed"
  by (simp_all add: status_valid_def)

lemma status_terminal_simps [simp]:
  "\<not> status_terminal StatusPending" "\<not> status_terminal StatusProcessing"
  "status_terminal StatusDone" "status_terminal StatusFailed"
  by (simp_all add: status_terminal_def)

lemma status_validE:
  assumes "status_valid s"
  obtains "s = StatusPending" | "s = StatusProcessing" | "s = StatusDone" | "s = StatusFailed"
  using assms by (auto simp: status_valid_def split: if_splits)

section \<open>Output formats\<close>

type_synonym format = string

definition FormatJPEG :: format where "FormatJPEG = ''jpeg''"
definition FormatPNG :: format where "FormatPNG = ''png''"
definition FormatWebP :: format where "FormatWebP = ''webp''"
definition FormatAVIF :: format where "FormatAVIF = ''avif''"

lemmas format_defs = FormatJPEG_def FormatPNG_def FormatWebP_def FormatAVIF_def

lemma format_distinct [simp]:
  "FormatJPEG \<noteq> FormatPNG" "FormatPNG \<noteq> FormatJPEG"
  "FormatJPEG \<noteq> FormatWebP" "FormatWebP \<noteq> FormatJPEG"
  "FormatJPEG \<noteq> FormatAVIF" "FormatAVIF \<noteq> FormatJPEG"
  "FormatPNG \<noteq> FormatWebP" "FormatWebP \<noteq> FormatPNG"
  "FormatPNG \<noteq> FormatAVIF" "FormatAVIF \<noteq> FormatPNG"
  "FormatWebP \<noteq> FormatAVIF" "FormatAVIF \<noteq> FormatWebP"
  by (simp_all add: format_defs)

definition format_valid :: "format \<Rightarrow> bool" where
  "format_valid f =
     (if f = FormatJPEG \<or> f = FormatPNG \<or> f = FormatWebP \<or> f = FormatAVIF
      then True else False)"

definition format_ext :: "format \<Rightarrow> string" where
  "format_ext f =
     (if f = FormatJPEG then ''jpg''
      else if f = FormatPNG \<or> f = FormatWebP \<or> f = FormatAVIF then f
      else [])"

definition format_lossy :: "format \<Rightarrow> bool" where
  "format_lossy f = (f = FormatJPEG \<or> f = FormatWebP \<or> f = FormatAVIF)"

lemma format_validE:
  assumes "format_valid f"
  obtains "f = FormatJPEG" | "f = FormatPNG" | "f = FormatWebP" | "f = FormatAVIF"
  using assms by (auto simp: format_valid_def split: if_splits)

lemma format_lossy_iff: "format_valid f \<Longrightarrow> format_lossy f \<longleftrightarrow> f \<noteq> FormatPNG"
  by (erule format_validE) (simp_all add: format_lossy_def)

lemma format_ext_empty: "format_ext f = [] \<longleftrightarrow> \<not> format_valid f"
  by (auto simp: format_ext_def format_valid_def format_defs)

lemma format_ext_inj:
  "format_valid f \<Longrightarrow> format_valid g \<Longrightarrow> format_ext f = format_ext g \<Longrightarrow> f = g"
  by (elim format_validE) (auto simp: format_ext_def format_defs)

lemma format_ext_no_slash: "CHR ''/'' \<notin> set (format_ext f)"
  by (auto simp: format_ext_def format_defs)

section \<open>The transformation specification\<close>

record transformation_spec =
  Width :: int
  Height :: int
  Format :: format
  Quality :: int
  Watermark :: bool
  StripMetadata :: bool

definition MaxDimension :: int where "MaxDimension = 10000"

definition ErrInvalidDimensions :: goerr where
  "ErrInvalidDimensions = ENew ''domain.ErrInvalidDimensions'' ''invalid dimensions''"
definition ErrInvalidFormat :: goerr where
  "ErrInvalidFormat = ENew ''domain.ErrInvalidFormat'' ''invalid format''"
definition ErrInvalidQuality :: goerr where
  "ErrInvalidQuality = ENew ''domain.ErrInvalidQuality'' ''invalid quality''"

lemmas domain_errs [go_errors] =
  ErrInvalidDimensions_def ErrInvalidFormat_def ErrInvalidQuality_def

text \<open>The three blocks of \<open>Validate\<close>, each the errors it appends, then their join.\<close>

definition dimension_errors :: "transformation_spec \<Rightarrow> goerr list" where
  "dimension_errors s =
     (if Width s < 0 \<or> Height s < 0 then
        [EWrap [] ErrInvalidDimensions
          ('': width '' @ itoa (Width s) @ '' and height '' @ itoa (Height s)
            @ '' must not be negative'')]
      else if Width s = 0 \<and> Height s = 0 then
        [EWrap [] ErrInvalidDimensions '': at least one of width or height must be set'']
      else if Width s > MaxDimension \<or> Height s > MaxDimension then
        [EWrap [] ErrInvalidDimensions
          ('': width '' @ itoa (Width s) @ '' and height '' @ itoa (Height s)
            @ '' must not exceed '' @ itoa MaxDimension)]
      else [])"

definition format_errors :: "transformation_spec \<Rightarrow> goerr list" where
  "format_errors s =
     (if \<not> format_valid (Format s) then
        [EWrap [] ErrInvalidFormat
          ('': '' @ quote (Format s) @ '' is not a supported output format'')]
      else [])"

definition quality_errors :: "transformation_spec \<Rightarrow> goerr list" where
  "quality_errors s =
     (if Quality s < 0 \<or> Quality s > 100 then
        [EWrap [] ErrInvalidQuality
          ('': '' @ itoa (Quality s) @ '' is outside the range 0-100'')]
      else if Quality s \<noteq> 0 \<and> format_valid (Format s) \<and> \<not> format_lossy (Format s) then
        [EWrap [] ErrInvalidQuality
          ('': format '' @ Format s @ '' is lossless and accepts no quality'')]
      else [])"

definition spec_validate :: "transformation_spec \<Rightarrow> goerr option" where
  "spec_validate s = errors_join (dimension_errors s @ format_errors s @ quality_errors s)"

text \<open>What a specification must satisfy, as the documentation of the type words it.\<close>

definition dimensions_ok :: "transformation_spec \<Rightarrow> bool" where
  "dimensions_ok s \<longleftrightarrow>
     0 \<le> Width s \<and> Width s \<le> MaxDimension \<and> 0 \<le> Height s \<and> Height s \<le> MaxDimension \<and>
     \<not> (Width s = 0 \<and> Height s = 0)"

definition quality_ok :: "transformation_spec \<Rightarrow> bool" where
  "quality_ok s \<longleftrightarrow> 0 \<le> Quality s \<and> Quality s \<le> 100 \<and> (Format s = FormatPNG \<longrightarrow> Quality s = 0)"

definition spec_ok :: "transformation_spec \<Rightarrow> bool" where
  "spec_ok s \<longleftrightarrow> dimensions_ok s \<and> format_valid (Format s) \<and> quality_ok s"

lemma dimension_errors_nil: "dimension_errors s = [] \<longleftrightarrow> dimensions_ok s"
  by (auto simp: dimension_errors_def dimensions_ok_def MaxDimension_def)

lemma format_errors_nil: "format_errors s = [] \<longleftrightarrow> format_valid (Format s)"
  by (simp add: format_errors_def)

lemma quality_errors_nil: "quality_errors s = [] \<longleftrightarrow> quality_ok s"
  by (auto simp: quality_errors_def quality_ok_def format_lossy_def format_valid_def
      split: if_splits)

lemmas spec_errors_nil = dimension_errors_nil format_errors_nil quality_errors_nil

lemma spec_validate_None: "spec_validate s = None \<longleftrightarrow> spec_ok s"
  by (simp add: spec_validate_def spec_errors_nil spec_ok_def)

lemma dimension_errors_is:
  "list_ex (\<lambda>e. errors_is e ErrInvalidDimensions) (dimension_errors s) \<longleftrightarrow> \<not> dimensions_ok s"
  "\<not> list_ex (\<lambda>e. errors_is e ErrInvalidFormat) (dimension_errors s)"
  "\<not> list_ex (\<lambda>e. errors_is e ErrInvalidQuality) (dimension_errors s)"
  using dimension_errors_nil [of s]
  by (auto simp: dimension_errors_def go_errors split: if_splits)

lemma format_errors_is:
  "list_ex (\<lambda>e. errors_is e ErrInvalidFormat) (format_errors s) \<longleftrightarrow> \<not> format_valid (Format s)"
  "\<not> list_ex (\<lambda>e. errors_is e ErrInvalidDimensions) (format_errors s)"
  "\<not> list_ex (\<lambda>e. errors_is e ErrInvalidQuality) (format_errors s)"
  by (auto simp: format_errors_def go_errors)

lemma quality_errors_is:
  "list_ex (\<lambda>e. errors_is e ErrInvalidQuality) (quality_errors s) \<longleftrightarrow> \<not> quality_ok s"
  "\<not> list_ex (\<lambda>e. errors_is e ErrInvalidDimensions) (quality_errors s)"
  "\<not> list_ex (\<lambda>e. errors_is e ErrInvalidFormat) (quality_errors s)"
  using quality_errors_nil [of s]
  by (auto simp: quality_errors_def go_errors split: if_splits)

lemmas spec_errors_is = dimension_errors_is format_errors_is quality_errors_is

lemma spec_validate_is:
  assumes "spec_validate s = Some e"
  shows "errors_is e ErrInvalidDimensions \<or> errors_is e ErrInvalidFormat \<or> errors_is e ErrInvalidQuality"
proof -
  from assms have "e = EJoin (dimension_errors s @ format_errors s @ quality_errors s)"
    by (simp add: spec_validate_def errors_join_def split: if_splits)
  moreover from assms have "\<not> spec_ok s" by (metis option.distinct(1) spec_validate_None)
  ultimately show ?thesis by (auto simp: spec_errors_is spec_ok_def)
qed

section \<open>Jobs\<close>

text \<open>Instants are nanoseconds since the Unix epoch.\<close>

record job =
  ID :: string
  OriginalKey :: string
  ResultKey :: string
  Status :: job_status
  Transformation :: transformation_spec
  CreatedAt :: int
  UpdatedAt :: int
  Error :: string

section \<open>The lifecycle a job is meant to follow\<close>

text \<open>
  The abstract state machine behind the status strings: a job is pending, then processing,
  then done or failed; creation may also fail a pending job outright. Statuses are ordered
  by how far along they are, so a history of a job is a non-decreasing sequence.
\<close>

datatype lifecycle = LPending | LProcessing | LDone | LFailed

fun lc_rank :: "lifecycle \<Rightarrow> nat" where
  "lc_rank LPending = 0"
| "lc_rank LProcessing = 1"
| "lc_rank LDone = 2"
| "lc_rank LFailed = 3"

lemma lc_rank_inj: "lc_rank a = lc_rank b \<longleftrightarrow> a = b"
  by (cases a; cases b) auto

instantiation lifecycle :: linorder
begin

definition less_eq_lifecycle :: "lifecycle \<Rightarrow> lifecycle \<Rightarrow> bool" where
  "less_eq_lifecycle a b \<longleftrightarrow> lc_rank a \<le> lc_rank b"

definition less_lifecycle :: "lifecycle \<Rightarrow> lifecycle \<Rightarrow> bool" where
  "less_lifecycle a b \<longleftrightarrow> lc_rank a < lc_rank b"

instance
  by standard (auto simp: less_eq_lifecycle_def less_lifecycle_def lc_rank_inj)

end

inductive lc_step :: "lifecycle \<Rightarrow> lifecycle \<Rightarrow> bool" where
  claim: "lc_step LPending LProcessing"
| finish: "lc_step LProcessing LDone"
| give_up: "lc_step LProcessing LFailed"
| reject: "lc_step LPending LFailed"

inductive_cases lc_stepE: "lc_step a b"
inductive_simps lc_step_terminal: "lc_step LDone b" "lc_step LFailed b"

code_pred lc_step .

lemma lc_step_less: "lc_step a b \<Longrightarrow> a < b"
  by (auto elim!: lc_stepE simp: less_lifecycle_def)

fun lc_status :: "lifecycle \<Rightarrow> job_status" where
  "lc_status LPending = StatusPending"
| "lc_status LProcessing = StatusProcessing"
| "lc_status LDone = StatusDone"
| "lc_status LFailed = StatusFailed"

definition abs_status :: "job_status \<Rightarrow> lifecycle option" where
  "abs_status s = (if s = StatusPending then Some LPending
                   else if s = StatusProcessing then Some LProcessing
                   else if s = StatusDone then Some LDone
                   else if s = StatusFailed then Some LFailed else None)"

lemma abs_status_simps [simp]:
  "abs_status StatusPending = Some LPending"
  "abs_status StatusProcessing = Some LProcessing"
  "abs_status StatusDone = Some LDone"
  "abs_status StatusFailed = Some LFailed"
  by (simp_all add: abs_status_def)

lemma abs_status_lc_status [simp]: "abs_status (lc_status l) = Some l"
  by (cases l) simp_all

lemma abs_status_valid: "abs_status s \<noteq> None \<longleftrightarrow> status_valid s"
  by (simp add: abs_status_def status_valid_def)

lemma abs_status_terminal:
  "abs_status s = Some l \<Longrightarrow> status_terminal s \<longleftrightarrow> (\<nexists>l'. lc_step l l')"
  by (auto simp: abs_status_def lc_step_terminal intro: lc_step.intros split: if_splits)

section \<open>Properties\<close>

text \<open>
  C15: \<open>Validate\<close> returns nil exactly for the specifications its documentation describes (sides
  within 0 and the maximum, not both 0, a known format, a quality from 0 to 100 that is 0 for
  the lossless format), and an error otherwise that is each of the three sentinel errors
  exactly when the part of the specification it names is wrong.
\<close>

theorem spec_validation:
  "case spec_validate s of
     None \<Rightarrow> spec_ok s
   | Some e \<Rightarrow> \<not> spec_ok s \<and>
       errors_is e ErrInvalidDimensions = (\<not> dimensions_ok s) \<and>
       errors_is e ErrInvalidFormat = (\<not> format_valid (Format s)) \<and>
       errors_is e ErrInvalidQuality = (\<not> quality_ok s)"
proof (cases "spec_validate s")
  case None
  moreover from None have "spec_ok s" by (simp add: spec_validate_None)
  ultimately show ?thesis by simp
next
  case (Some e)
  then have "\<not> spec_ok s" by (metis option.distinct(1) spec_validate_None)
  moreover from Some have "e = EJoin (dimension_errors s @ format_errors s @ quality_errors s)"
    by (simp add: spec_validate_def errors_join_def split: if_splits)
  ultimately show ?thesis by (simp add: Some spec_errors_is)
qed

end
