(* ===== verification/Ports.thy ===== *)
theory Ports
  imports Domain "HOL-Library.Multiset"
begin

text \<open>
  \<open>internal/ports\<close>: the interfaces between the use cases and the adapters. A Go interface
  value is a record of its methods; each method takes the state of the world \<open>'w\<close> and
  returns the new one. What a caller may rely on is stated as locales, one per interface,
  over an abstraction of the world: the objects stored, the jobs recorded, the identifiers
  enqueued. There are two strengths. The strict contracts say that a failed operation has no
  effect, which the in-process adapters satisfy; the plain ones allow a failed operation to
  have taken effect all the same, as a remote service that timed out may. The plain contracts
  follow from the strict ones (\<open>sublocale\<close>).
\<close>

section \<open>The interfaces\<close>

text \<open>
  An \<open>io.Reader\<close> is the bytes it yields before it ends, and the error it ends with
  (\<open>None\<close> for \<open>io.EOF\<close>). A nil reader is \<open>None\<close> of type \<open>reader option\<close>.
\<close>

datatype reader = Reader (reader_bytes: string) (reader_err: "goerr option")

definition ErrJobNotFound :: goerr where
  "ErrJobNotFound = ENew ''ports.ErrJobNotFound'' ''job not found''"

record 'w storage_port =
  Put :: "ctx \<Rightarrow> string \<Rightarrow> reader option \<Rightarrow> 'w \<Rightarrow> goerr option \<times> 'w"
  GetObject :: "ctx \<Rightarrow> string \<Rightarrow> 'w \<Rightarrow> reader res \<times> 'w"
  CloseObject :: "reader \<Rightarrow> 'w \<Rightarrow> 'w"

record 'w queue_port =
  Enqueue :: "ctx \<Rightarrow> string \<Rightarrow> 'w \<Rightarrow> goerr option \<times> 'w"

text \<open>\<open>ports.Acknowledger\<close>: optional, so holders keep an \<open>acker_port option\<close>.\<close>

record 'w acker_port =
  Ack :: "ctx \<Rightarrow> string \<Rightarrow> 'w \<Rightarrow> goerr option \<times> 'w"
  Nack :: "ctx \<Rightarrow> string \<Rightarrow> 'w \<Rightarrow> goerr option \<times> 'w"

text \<open>\<open>ports.Delivery\<close>: a nil map is \<open>None\<close>.\<close>

record delivery =
  JobID :: string
  Meta :: "(string \<rightharpoonup> string) option"

record 'w repo_port =
  Save :: "ctx \<Rightarrow> job option \<Rightarrow> 'w \<Rightarrow> goerr option \<times> 'w"
  GetJob :: "ctx \<Rightarrow> string \<Rightarrow> 'w \<Rightarrow> job res \<times> 'w"
  UpdateStatus :: "ctx \<Rightarrow> string \<Rightarrow> job_status \<Rightarrow> string \<Rightarrow> goerr option \<Rightarrow> 'w
                   \<Rightarrow> goerr option \<times> 'w"

record 'w processor_port =
  Process :: "ctx \<Rightarrow> reader option \<Rightarrow> transformation_spec \<Rightarrow> 'w \<Rightarrow> reader res \<times> 'w"

section \<open>Contracts\<close>

text \<open>
  What a status update does to a stored job: the status is set, \<open>UpdatedAt\<close> stamped, the
  result key recorded when non-empty, and the error set or cleared.
\<close>

definition err_string :: "goerr option \<Rightarrow> string" where
  "err_string pe = (case pe of None \<Rightarrow> [] | Some e \<Rightarrow> error_text e)"

definition updated_job :: "job_status \<Rightarrow> string \<Rightarrow> goerr option \<Rightarrow> int \<Rightarrow> job \<Rightarrow> job" where
  "updated_job s rk pe t j =
     j\<lparr>Status := s, UpdatedAt := t, ResultKey := (if rk = [] then ResultKey j else rk),
       Error := err_string pe\<rparr>"

lemma updated_job_simps [simp]:
  "ID (updated_job s rk pe t j) = ID j"
  "OriginalKey (updated_job s rk pe t j) = OriginalKey j"
  "Transformation (updated_job s rk pe t j) = Transformation j"
  "CreatedAt (updated_job s rk pe t j) = CreatedAt j"
  "UpdatedAt (updated_job s rk pe t j) = t"
  "Status (updated_job s rk pe t j) = s"
  "ResultKey (updated_job s rk pe t j) = (if rk = [] then ResultKey j else rk)"
  "Error (updated_job s rk pe t j) = err_string pe"
  by (simp_all add: updated_job_def)

text \<open>
  What a reader opened on an object may yield: its content, or a part of it and then an
  error. Where there is no object (a directory, say) a reader that does open only fails.
\<close>

definition reads_from :: "reader \<Rightarrow> string option \<Rightarrow> bool" where
  "reads_from r ob \<longleftrightarrow>
     (if reader_err r = None then ob = Some (reader_bytes r)
      else (case ob of None \<Rightarrow> reader_bytes r = [] | Some b \<Rightarrow> has_prefix b (reader_bytes r)))"

text \<open>
  Object storage. \<open>loc\<close> maps a key to the location it names; two keys may name the same
  one. A key with no location is one the store refuses, or one that it keeps for itself and
  that the contract says nothing about beyond leaving the other objects alone.
\<close>

fun store_at :: "string option \<Rightarrow> string \<Rightarrow> (string \<rightharpoonup> string) \<Rightarrow> (string \<rightharpoonup> string)" where
  "store_at None b m = m"
| "store_at (Some p) b m = m(p \<mapsto> b)"

lemma store_at_other [simp]: "l \<noteq> Some p \<Longrightarrow> store_at l b m p = m p"
  by (cases l) auto

locale blob_store =
  fixes st :: "'w storage_port"
    and loc :: "string \<Rightarrow> string option"
    and objs :: "'w \<Rightarrow> string \<rightharpoonup> string"
  assumes put_ok: "Put st c k d w = (None, w') \<Longrightarrow>
      \<exists>b. d = Some (Reader b None) \<and> objs w' = store_at (loc k) b (objs w)"
    and put_err: "Put st c k d w = (Some e, w') \<Longrightarrow>
      objs w' = objs w \<or>
      (\<exists>b. d = Some (Reader b None) \<and> objs w' = store_at (loc k) b (objs w))"
    and get_ok: "GetObject st c k w = (Inr r, w') \<Longrightarrow>
      objs w' = objs w \<and> (\<forall>p. loc k = Some p \<longrightarrow> reads_from r (objs w p))"
    and get_err: "GetObject st c k w = (Inl e, w') \<Longrightarrow> objs w' = objs w"
    and close_objs: "objs (CloseObject st r w) = objs w"
begin

lemma put_frame: "Put st c k d w = (x, w') \<Longrightarrow> loc k \<noteq> Some p \<Longrightarrow> objs w' p = objs w p"
  using put_ok [of c k d w w'] put_err [of c k d w _ w'] by (cases x) auto

lemma get_objs: "GetObject st c k w = (x, w') \<Longrightarrow> objs w' = objs w"
  by (cases x) (auto dest: get_ok get_err)

end

locale strict_blob_store =
  fixes st :: "'w storage_port"
    and loc :: "string \<Rightarrow> string option"
    and objs :: "'w \<Rightarrow> string \<rightharpoonup> string"
  assumes sput_ok: "Put st c k d w = (None, w') \<Longrightarrow>
      \<exists>b. d = Some (Reader b None) \<and> objs w' = store_at (loc k) b (objs w)"
    and sput_err: "Put st c k d w = (Some e, w') \<Longrightarrow> objs w' = objs w"
    and sget_ok: "GetObject st c k w = (Inr r, w') \<Longrightarrow>
      objs w' = objs w \<and> (\<forall>p. loc k = Some p \<longrightarrow> reads_from r (objs w p))"
    and sget_err: "GetObject st c k w = (Inl e, w') \<Longrightarrow> objs w' = objs w"
    and sclose: "objs (CloseObject st r w) = objs w"

sublocale strict_blob_store \<subseteq> blob_store
  by unfold_locales (blast dest: sput_ok sput_err sget_ok sget_err intro: sclose)+

text \<open>
  The job repository. \<open>storable\<close> holds of the jobs the repository can represent exactly; an
  update is described for an identifier under which a job can be read.
\<close>

locale job_store =
  fixes rp :: "'w repo_port"
    and storable :: "job \<Rightarrow> bool"
    and jobs :: "'w \<Rightarrow> string \<rightharpoonup> job"
  assumes save_ok: "Save rp c (Some j) w = (None, w') \<Longrightarrow> storable j \<Longrightarrow>
      jobs w' = (jobs w)(ID j \<mapsto> j)"
    and save_err: "Save rp c (Some j) w = (Some e, w') \<Longrightarrow> storable j \<Longrightarrow>
      jobs w' = jobs w \<or> jobs w' = (jobs w)(ID j \<mapsto> j)"
    and load_ok: "GetJob rp c i w = (Inr j, w') \<Longrightarrow> jobs w' = jobs w \<and> jobs w i = Some j"
    and load_err: "GetJob rp c i w = (Inl e, w') \<Longrightarrow> jobs w' = jobs w"
    and upd_ok: "UpdateStatus rp c i s rk pe w = (None, w') \<Longrightarrow> jobs w i = Some j \<Longrightarrow>
      \<exists>t. status_valid s \<and> jobs w' = (jobs w)(i \<mapsto> updated_job s rk pe t j)"
    and upd_err: "UpdateStatus rp c i s rk pe w = (Some e, w') \<Longrightarrow> jobs w i = Some j \<Longrightarrow>
      jobs w' = jobs w \<or>
      (\<exists>t. status_valid s \<and> jobs w' = (jobs w)(i \<mapsto> updated_job s rk pe t j))"
begin

lemma load_jobs: "GetJob rp c i w = (x, w') \<Longrightarrow> jobs w' = jobs w"
  by (cases x) (auto dest: load_ok load_err)

lemma upd_cases:
  assumes "UpdateStatus rp c i s rk pe w = (x, w')" "jobs w i = Some j"
  obtains "x \<noteq> None" "jobs w' = jobs w"
  | t where "status_valid s" "jobs w' = (jobs w)(i \<mapsto> updated_job s rk pe t j)"
  using assms upd_ok [of c i s rk pe w w' j] upd_err [of c i s rk pe w _ w' j] by (cases x) auto

end

locale strict_job_store =
  fixes rp :: "'w repo_port"
    and storable :: "job \<Rightarrow> bool"
    and jobs :: "'w \<Rightarrow> string \<rightharpoonup> job"
  assumes ssave_ok: "Save rp c (Some j) w = (None, w') \<Longrightarrow> storable j \<Longrightarrow>
      jobs w' = (jobs w)(ID j \<mapsto> j)"
    and ssave_err: "Save rp c (Some j) w = (Some e, w') \<Longrightarrow> jobs w' = jobs w"
    and sload_ok: "GetJob rp c i w = (Inr j, w') \<Longrightarrow> jobs w' = jobs w \<and> jobs w i = Some j"
    and sload_err: "GetJob rp c i w = (Inl e, w') \<Longrightarrow> jobs w' = jobs w"
    and supd_ok: "UpdateStatus rp c i s rk pe w = (None, w') \<Longrightarrow> jobs w i = Some j \<Longrightarrow>
      \<exists>t. status_valid s \<and> jobs w' = (jobs w)(i \<mapsto> updated_job s rk pe t j)"
    and supd_err: "UpdateStatus rp c i s rk pe w = (Some e, w') \<Longrightarrow> jobs w' = jobs w"

sublocale strict_job_store \<subseteq> job_store
  by unfold_locales
    (blast dest: ssave_ok ssave_err sload_ok sload_err supd_ok supd_err)+

text \<open>The queue: which identifiers are waiting, with multiplicity; no order is promised.\<close>

locale work_queue =
  fixes qp :: "'w queue_port"
    and waiting :: "'w \<Rightarrow> string multiset"
  assumes enq_ok: "Enqueue qp c i w = (None, w') \<Longrightarrow> i \<noteq> [] \<and> waiting w' = add_mset i (waiting w)"
    and enq_err: "Enqueue qp c i w = (Some e, w') \<Longrightarrow>
      waiting w' = waiting w \<or> waiting w' = add_mset i (waiting w)"

locale strict_work_queue =
  fixes qp :: "'w queue_port"
    and waiting :: "'w \<Rightarrow> string multiset"
  assumes senq_ok: "Enqueue qp c i w = (None, w') \<Longrightarrow> i \<noteq> [] \<and> waiting w' = add_mset i (waiting w)"
    and senq_err: "Enqueue qp c i w = (Some e, w') \<Longrightarrow> waiting w' = waiting w"

sublocale strict_work_queue \<subseteq> work_queue
  by unfold_locales (auto dest: senq_ok senq_err)

text \<open>The three together, with a processor: no operation touches another one's state.\<close>

locale backend =
  blob_store st loc objs + job_store rp storable jobs + work_queue qp waiting
  for st :: "'w storage_port" and loc and objs
    and rp :: "'w repo_port" and storable and jobs
    and qp :: "'w queue_port" and waiting +
  fixes pp :: "'w processor_port"
  assumes put_other: "Put st c k d w = (x, w') \<Longrightarrow> jobs w' = jobs w \<and> waiting w' = waiting w"
    and get_other: "GetObject st c k w = (y, w') \<Longrightarrow> jobs w' = jobs w \<and> waiting w' = waiting w"
    and close_other: "jobs (CloseObject st r w) = jobs w"
      "waiting (CloseObject st r w) = waiting w"
    and save_other: "Save rp c jo w = (x, w') \<Longrightarrow> objs w' = objs w \<and> waiting w' = waiting w"
    and load_other: "GetJob rp c i w = (z, w') \<Longrightarrow> objs w' = objs w \<and> waiting w' = waiting w"
    and upd_other: "UpdateStatus rp c i s rk pe w = (x, w') \<Longrightarrow>
      objs w' = objs w \<and> waiting w' = waiting w"
    and enq_other: "Enqueue qp c i w = (x, w') \<Longrightarrow> objs w' = objs w \<and> jobs w' = jobs w"
    and process_other: "Process pp c inp sp w = (u, w') \<Longrightarrow>
      objs w' = objs w \<and> jobs w' = jobs w \<and> waiting w' = waiting w"

locale strict_backend =
  strict_blob_store st loc objs + strict_job_store rp storable jobs + strict_work_queue qp waiting +
  backend st loc objs rp storable jobs qp waiting pp
  for st :: "'w storage_port" and loc and objs
    and rp :: "'w repo_port" and storable and jobs
    and qp :: "'w queue_port" and waiting
    and pp :: "'w processor_port"

end
