(* ===== verification/Usecase.thy ===== *)
theory Usecase
  imports Ports
begin

text \<open>
  \<open>internal/usecase\<close>: \<open>CreateJob\<close> and \<open>ProcessJob\<close>, over the ports as records of
  operations on a world \<open>'w\<close>. Every call the code makes is a call here, in its order, and
  every early return a branch. The contracts the use cases keep are proved once, inside
  the locales of theory \<open>Ports\<close>.
\<close>

section \<open>Keys and identifiers (usecase.go)\<close>

definition original_key :: "string \<Rightarrow> string" where
  "original_key i = ''originals/'' @ i"

definition result_key :: "string \<Rightarrow> transformation_spec \<Rightarrow> string" where
  "result_key i sp =
     (let ext = format_ext (Format sp) in
      if ext = [] then ''results/'' @ i else ''results/'' @ i @ ''.'' @ ext)"

definition hex_encode :: "string \<Rightarrow> string" where
  "hex_encode bs =
     concat (map (\<lambda>c. [hex_digit (of_char c div 16), hex_digit (of_char c mod 16)]) bs)"

text \<open>\<open>newID\<close> from what \<open>rand.Read\<close> gave it: an error panics (\<open>None\<close>).\<close>

definition new_id :: "string res \<Rightarrow> string option" where
  "new_id buf = (case buf of Inl e \<Rightarrow> None | Inr bs \<Rightarrow> Some (hex_encode bs))"

section \<open>CreateJob (create\_job.go)\<close>

definition ErrNoSource :: goerr where
  "ErrNoSource = ENew ''usecase.ErrNoSource'' ''no source image provided''"

record 'w create_job =
  cj_storage :: "'w storage_port"
  cj_jobs :: "'w repo_port"
  cj_queue :: "'w queue_port"
  cj_newID :: "'w \<Rightarrow> string \<times> 'w"
  cj_now :: "'w \<Rightarrow> int \<times> 'w"

definition new_create_job ::
  "'w storage_port \<Rightarrow> 'w repo_port \<Rightarrow> 'w queue_port \<Rightarrow> ('w \<Rightarrow> string \<times> 'w) \<Rightarrow> ('w \<Rightarrow> int \<times> 'w)
   \<Rightarrow> 'w create_job" where
  "new_create_job st rp qp nid nw =
     \<lparr>cj_storage = st, cj_jobs = rp, cj_queue = qp, cj_newID = nid, cj_now = nw\<rparr>"

definition created_job :: "string \<Rightarrow> transformation_spec \<Rightarrow> int \<Rightarrow> job" where
  "created_job i sp t =
     \<lparr>ID = i, OriginalKey = original_key i, ResultKey = [], Status = StatusPending,
      Transformation = sp, CreatedAt = t, UpdatedAt = t, Error = []\<rparr>"

definition create_job_execute ::
  "'w create_job \<Rightarrow> ctx \<Rightarrow> reader option \<Rightarrow> transformation_spec \<Rightarrow> 'w \<Rightarrow> job res \<times> 'w" where
  "create_job_execute uc c source sp w =
    (case source of None \<Rightarrow> (Inl ErrNoSource, w) | Some _ \<Rightarrow>
     (case spec_validate sp of
        Some e \<Rightarrow> (Inl (EWrap ''create job: invalid transformation: '' e []), w)
      | None \<Rightarrow>
     (case cj_newID uc w of (i, w1) \<Rightarrow>
     (case Put (cj_storage uc) c (original_key i) source w1 of
        (Some e, w2) \<Rightarrow> (Inl (EWrap (''create job '' @ i @ '': store original: '') e []), w2)
      | (None, w2) \<Rightarrow>
     (case cj_now uc w2 of (t, w3) \<Rightarrow>
     (let job = created_job i sp t in
     (case Save (cj_jobs uc) c (Some job) w3 of
        (Some e, w4) \<Rightarrow> (Inl (EWrap (''create job '' @ i @ '': save: '') e []), w4)
      | (None, w4) \<Rightarrow>
     (case Enqueue (cj_queue uc) c i w4 of
        (None, w5) \<Rightarrow> (Inr job, w5)
      | (Some e, w5) \<Rightarrow>
        (let enqueueErr = EWrap (''create job '' @ i @ '': enqueue: '') e [] in
         (case UpdateStatus (cj_jobs uc) c i StatusFailed [] (Some enqueueErr) w5 of
            (Some markErr, w6) \<Rightarrow>
              (Inl (EJoin [enqueueErr, EWrap ''mark failed: '' markErr []]), w6)
          | (None, w6) \<Rightarrow> (Inl enqueueErr, w6)))))))))))"

section \<open>ProcessJob (process\_job.go)\<close>

definition ErrJobNotPending :: goerr where
  "ErrJobNotPending = ENew ''usecase.ErrJobNotPending'' ''job is not pending''"

record 'w process_job =
  pj_storage :: "'w storage_port"
  pj_jobs :: "'w repo_port"
  pj_processor :: "'w processor_port"

definition new_process_job ::
  "'w storage_port \<Rightarrow> 'w repo_port \<Rightarrow> 'w processor_port \<Rightarrow> 'w process_job" where
  "new_process_job st rp pp = \<lparr>pj_storage = st, pj_jobs = rp, pj_processor = pp\<rparr>"

text \<open>The source is closed on every path once it is open (\<open>defer src.Close()\<close>).\<close>

definition transform :: "'w process_job \<Rightarrow> ctx \<Rightarrow> job \<Rightarrow> 'w \<Rightarrow> string res \<times> 'w" where
  "transform uc c j w =
    (case GetObject (pj_storage uc) c (OriginalKey j) w of
       (Inl e, w1) \<Rightarrow> (Inl (EWrap (''read original '' @ OriginalKey j @ '': '') e []), w1)
     | (Inr src, w1) \<Rightarrow>
    (case Process (pj_processor uc) c (Some src) (Transformation j) w1 of
       (Inl e, w2) \<Rightarrow> (Inl (EWrap ''transform: '' e []), CloseObject (pj_storage uc) src w2)
     | (Inr out, w2) \<Rightarrow>
    (let rk = result_key (ID j) (Transformation j) in
    (case Put (pj_storage uc) c rk (Some out) w2 of
       (Some e, w3) \<Rightarrow>
         (Inl (EWrap (''store result '' @ rk @ '': '') e []), CloseObject (pj_storage uc) src w3)
     | (None, w3) \<Rightarrow> (Inr rk, CloseObject (pj_storage uc) src w3)))))"

text \<open>A Go pair of a job pointer and an error: both may be present.\<close>

definition fail_job ::
  "'w process_job \<Rightarrow> ctx \<Rightarrow> job \<Rightarrow> goerr \<Rightarrow> 'w \<Rightarrow> (job option \<times> goerr option) \<times> 'w" where
  "fail_job uc c j procErr w =
    (let wrapped = EWrap (''process job '' @ ID j @ '': '') procErr [] in
     (case UpdateStatus (pj_jobs uc) c (ID j) StatusFailed [] (Some wrapped) w of
        (Some e, w1) \<Rightarrow> ((None, Some (EJoin [wrapped, EWrap ''mark failed: '' e []])), w1)
      | (None, w1) \<Rightarrow>
        ((Some (j\<lparr>Status := StatusFailed, Error := error_text wrapped\<rparr>), Some wrapped), w1)))"

definition process_job_execute ::
  "'w process_job \<Rightarrow> ctx \<Rightarrow> string \<Rightarrow> 'w \<Rightarrow> (job option \<times> goerr option) \<times> 'w" where
  "process_job_execute uc c jobID w =
    (case GetJob (pj_jobs uc) c jobID w of
       (Inl e, w1) \<Rightarrow> ((None, Some (EWrap (''process job '' @ jobID @ '': load: '') e [])), w1)
     | (Inr job, w1) \<Rightarrow>
    (if Status job \<noteq> StatusPending then
       ((Some job,
         Some (EWrap (''process job '' @ jobID @ '': '') ErrJobNotPending ('': '' @ Status job))), w1)
     else
    (case UpdateStatus (pj_jobs uc) c jobID StatusProcessing [] None w1 of
       (Some e, w2) \<Rightarrow> ((None, Some (EWrap (''process job '' @ jobID @ '': claim: '') e [])), w2)
     | (None, w2) \<Rightarrow>
    (let job = job\<lparr>Status := StatusProcessing\<rparr> in
    (case transform uc c job w2 of
       (Inl e, w3) \<Rightarrow> fail_job uc c job e w3
     | (Inr rk, w3) \<Rightarrow>
    (case UpdateStatus (pj_jobs uc) c jobID StatusDone rk None w3 of
       (Some e, w4) \<Rightarrow>
         ((None, Some (EWrap (''process job '' @ jobID @ '': mark done: '') e [])), w4)
     | (None, w4) \<Rightarrow>
         ((Some (job\<lparr>Status := StatusDone, ResultKey := rk, Error := []\<rparr>), None), w4)))))))"

section \<open>Keys\<close>

lemma result_key_nonempty [simp]: "result_key i sp \<noteq> []"
  by (simp add: result_key_def Let_def)

lemma original_result_keys_differ [simp]: "original_key i \<noteq> result_key k sp"
  by (simp add: original_key_def result_key_def Let_def)

lemma original_key_inj: "original_key i = original_key k \<longleftrightarrow> i = k"
  by (simp add: original_key_def)

lemma result_key_valid:
  "format_valid (Format sp) \<Longrightarrow> result_key i sp = ''results/'' @ i @ ''.'' @ format_ext (Format sp)"
  by (simp add: result_key_def Let_def format_ext_empty)

lemma hex_digit_chars: "d < 16 \<Longrightarrow> hex_digit d \<in> set ''0123456789abcdef''"
proof -
  assume "d < 16"
  then have "d \<in> set [0..<16]" by simp
  moreover have "\<forall>d \<in> set [0..<16]. hex_digit d \<in> set ''0123456789abcdef''" by code_simp
  ultimately show ?thesis by blast
qed

lemma hex_encode_chars: "set (hex_encode bs) \<subseteq> set ''0123456789abcdef''"
proof
  fix x assume "x \<in> set (hex_encode bs)"
  then obtain c where "x = hex_digit (of_char c div 16) \<or> x = hex_digit (of_char c mod 16)"
    by (auto simp: hex_encode_def)
  moreover have "(of_char c :: nat) div 16 < 16"
    using nat_of_char_less_256 [of c] by (simp add: less_mult_imp_div_less)
  ultimately show "x \<in> set ''0123456789abcdef''"
    using hex_digit_chars [of "of_char c div 16"] hex_digit_chars [of "of_char c mod 16"]
    by fastforce
qed

lemma length_hex_encode: "length (hex_encode bs) = 2 * length bs"
  by (induction bs) (simp_all add: hex_encode_def)

end
