(* ===== verification/Usecase_Contracts.thy ===== *)
theory Usecase_Contracts
  imports Usecase
begin

text \<open>
  What the use cases guarantee over any adapters that keep the contracts of theory
  \<open>Ports\<close>. The lemmas of locale \<open>backend\<close> hold for remote services, whose failed calls may
  have taken effect; those of \<open>strict_backend\<close> for the in-process adapters. Interpretations
  on the modelled adapters turn them into facts about the wired program.
\<close>

section \<open>Processing a job\<close>

text \<open>
  How a stored job may change while it is processed: its identity, source and
  specification stay, and its status follows lifecycle steps.
\<close>

definition job_progress :: "job \<Rightarrow> job \<Rightarrow> bool" where
  "job_progress j j' \<longleftrightarrow>
     ID j' = ID j \<and> OriginalKey j' = OriginalKey j \<and> Transformation j' = Transformation j \<and>
     CreatedAt j' = CreatedAt j \<and>
     (\<exists>a b. abs_status (Status j) = Some a \<and> abs_status (Status j') = Some b \<and> lc_step\<^sup>+\<^sup>+ a b)"

lemma job_progress_trans: "job_progress a b \<Longrightarrow> job_progress b c \<Longrightarrow> job_progress a c"
  by (auto simp: job_progress_def)

lemma job_progress_claim: "Status j = StatusPending \<Longrightarrow> job_progress j (updated_job StatusProcessing rk pe t j)"
  by (auto simp: job_progress_def intro: lc_step.claim)

lemma job_progress_finish: "Status j = StatusProcessing \<Longrightarrow> job_progress j (updated_job StatusDone rk pe t j)"
  by (auto simp: job_progress_def intro: lc_step.finish)

lemma job_progress_give_up: "Status j = StatusProcessing \<Longrightarrow> job_progress j (updated_job StatusFailed rk pe t j)"
  by (auto simp: job_progress_def intro: lc_step.give_up)

lemmas job_progress_intros = job_progress_claim job_progress_finish job_progress_give_up

text \<open>The store before and after: the job moved along its lifecycle, or did not move.\<close>

definition jobs_progress :: "string \<Rightarrow> (string \<rightharpoonup> job) \<Rightarrow> (string \<rightharpoonup> job) \<Rightarrow> bool" where
  "jobs_progress i m m' \<longleftrightarrow>
     m' = m \<or> (\<exists>j j'. m i = Some j \<and> job_progress j j' \<and> m' = m(i \<mapsto> j'))"

lemma jobs_progress_refl [simp]: "jobs_progress i m m"
  by (simp add: jobs_progress_def)

lemma jobs_progress_step:
  "m i = Some j \<Longrightarrow> job_progress j j' \<Longrightarrow> jobs_progress i (m(i \<mapsto> j')) m' \<Longrightarrow> jobs_progress i m m'"
  by (auto simp: jobs_progress_def intro: job_progress_trans)

lemma jobs_progress_one: "m i = Some j \<Longrightarrow> job_progress j j' \<Longrightarrow> jobs_progress i m (m(i \<mapsto> j'))"
  by (auto simp: jobs_progress_def)

context backend begin

lemma close_all: "objs (CloseObject st r w) = objs w" "jobs (CloseObject st r w) = jobs w"
  "waiting (CloseObject st r w) = waiting w"
  by (simp_all add: close_objs close_other)

lemma transform_cases:
  assumes "transform (new_process_job st rp pp) c j w = (r, w')"
  obtains
    (read) e where "GetObject st c (OriginalKey j) w = (Inl e, w')"
      "r = Inl (EWrap (''read original '' @ OriginalKey j @ '': '') e [])"
  | (process) src w1 e w2 where "GetObject st c (OriginalKey j) w = (Inr src, w1)"
      "Process pp c (Some src) (Transformation j) w1 = (Inl e, w2)"
      "r = Inl (EWrap ''transform: '' e [])" "w' = CloseObject st src w2"
  | (store) src w1 out w2 x w3 where "GetObject st c (OriginalKey j) w = (Inr src, w1)"
      "Process pp c (Some src) (Transformation j) w1 = (Inr out, w2)"
      "Put st c (result_key (ID j) (Transformation j)) (Some out) w2 = (x, w3)"
      "w' = CloseObject st src w3"
      "r = (case x of None \<Rightarrow> Inr (result_key (ID j) (Transformation j))
            | Some e \<Rightarrow> Inl (EWrap (''store result '' @ result_key (ID j) (Transformation j) @ '': '') e []))"
  using assms
  by (auto simp: transform_def new_process_job_def Let_def
      split: prod.splits sum.splits option.splits)

lemma transform_jobs:
  assumes "transform (new_process_job st rp pp) c j w = (r, w')"
  shows "jobs w' = jobs w" "waiting w' = waiting w"
  using assms
  by (cases rule: transform_cases;
      force simp: close_all dest: get_other process_other put_other)+

lemma transform_frame:
  assumes "transform (new_process_job st rp pp) c j w = (r, w')"
    and "loc (result_key (ID j) (Transformation j)) \<noteq> Some p"
  shows "objs w' p = objs w p"
  using assms(1)
proof (cases rule: transform_cases)
  case (store src w1 out w2 x w3)
  from put_frame [OF store(3) assms(2)] get_objs [OF store(1)] process_other [OF store(2)] store(4)
  show ?thesis by (simp add: close_all)
next
  case (process src w1 e w2)
  from get_objs [OF process(1)] process_other [OF process(2)] process(4)
  show ?thesis by (simp add: close_all)
next
  case (read e)
  from get_objs [OF read(1)] show ?thesis by simp
qed

text \<open>
  A successful transformation read the original, ran the processor on it and stored what
  the processor returned under the result key.
\<close>

lemma transform_ok:
  assumes "transform (new_process_job st rp pp) c j w = (Inr rk, w')"
  obtains src w1 out w2 where
    "\<forall>p. loc (OriginalKey j) = Some p \<longrightarrow> reads_from src (objs w p)"
    "GetObject st c (OriginalKey j) w = (Inr src, w1)"
    "Process pp c (Some src) (Transformation j) w1 = (Inr (Reader out None), w2)"
    "rk = result_key (ID j) (Transformation j)" "objs w' = store_at (loc rk) out (objs w)"
proof -
  from assms obtain src w1 r w2 w3 where
    g: "GetObject st c (OriginalKey j) w = (Inr src, w1)"
    and p: "Process pp c (Some src) (Transformation j) w1 = (Inr r, w2)"
    and s: "Put st c (result_key (ID j) (Transformation j)) (Some r) w2 = (None, w3)"
    and e: "rk = result_key (ID j) (Transformation j)" "w' = CloseObject st src w3"
    by (cases rule: transform_cases) (auto split: option.splits)
  note get_ok [OF g]
  moreover from put_ok [OF s] obtain out where "r = Reader out None"
    and o3: "objs w3 = store_at (loc rk) out (objs w2)" using e by auto
  moreover have "objs w2 = objs w1" using process_other [OF p] by simp
  ultimately show ?thesis using that g p e by (auto simp: close_all)
qed

lemma fail_job_jobs:
  assumes "fail_job (new_process_job st rp pp) c j e w = (r, w')"
    and "jobs w (ID j) = Some s" "Status s = StatusProcessing"
  shows "jobs_progress (ID j) (jobs w) (jobs w')"
proof -
  from assms(1) obtain x we where
    "UpdateStatus rp c (ID j) StatusFailed [] (Some we) w = (x, w')"
    by (auto simp: fail_job_def new_process_job_def Let_def split: prod.splits option.splits)
  from this assms(2) show ?thesis
    by (cases rule: upd_cases) (use assms(2,3) in \<open>auto intro: jobs_progress_one job_progress_intros\<close>)
qed

text \<open>Whatever happens, one job moves along its lifecycle and no other job is touched.\<close>

lemma process_jobs_progress:
  assumes "process_job_execute (new_process_job st rp pp) c i w = (r, w')"
    and "\<And>j. jobs w i = Some j \<Longrightarrow> ID j = i"
  shows "jobs_progress i (jobs w) (jobs w')"
proof -
  obtain ld w1 where g: "GetJob rp c i w = (ld, w1)" by fastforce
  note w1 = load_jobs [OF g]
  show ?thesis
  proof (cases ld)
    case (Inl e)
    with assms g w1 show ?thesis by (simp add: process_job_execute_def new_process_job_def)
  next
    case (Inr j)
    from load_ok [OF g [unfolded Inr]] have j: "jobs w i = Some j" by simp
    show ?thesis
    proof (cases "Status j = StatusPending")
      case False
      with assms g w1 Inr show ?thesis by (simp add: process_job_execute_def new_process_job_def)
    next
      case True
      obtain x w2 where u: "UpdateStatus rp c i StatusProcessing [] None w1 = (x, w2)" by fastforce
      show ?thesis
      proof (cases x)
        case (Some e)
        with assms g Inr True u have "w' = w2"
          by (simp add: process_job_execute_def new_process_job_def)
        have j1: "jobs w1 i = Some j" using j w1 by simp
        from u j1 show ?thesis
          by (cases rule: upd_cases)
            (use \<open>w' = w2\<close> j w1 True in \<open>auto intro: jobs_progress_one job_progress_intros\<close>)
      next
        case None
        from upd_ok [OF u [unfolded None], of j] j w1 obtain t where
          w2: "jobs w2 = (jobs w)(i \<mapsto> updated_job StatusProcessing [] None t j)" by auto
        define s where "s = updated_job StatusProcessing [] None t j"
        have s: "jobs w2 i = Some s" "Status s = StatusProcessing" "job_progress j s"
          using w2 True by (auto simp: s_def intro: job_progress_intros)
        let ?j = "j\<lparr>Status := StatusProcessing\<rparr>"
        have idj: "ID ?j = i" using assms(2) j by simp
        obtain tr w3 where tr: "transform (new_process_job st rp pp) c ?j w2 = (tr, w3)" by fastforce
        note w3 = transform_jobs(1) [OF tr]
        have "jobs_progress i (jobs w2) (jobs w')"
        proof (cases tr)
          case (Inl e)
          with assms(1) g Inr True u None tr have
            "fail_job (new_process_job st rp pp) c ?j e w3 = (r, w')"
            by (simp add: process_job_execute_def new_process_job_def)
          from fail_job_jobs [OF this] s w3 idj show ?thesis by simp
        next
          case (Inr rk)
          obtain y w4 where d: "UpdateStatus rp c i StatusDone rk None w3 = (y, w4)" by fastforce
          with assms(1) g \<open>ld = Inr j\<close> True u None tr Inr have "w' = w4"
            by (auto simp: process_job_execute_def new_process_job_def split: option.splits)
          have s3: "jobs w3 i = Some s" using s w3 by simp
          from d s3 show ?thesis
            by (cases rule: upd_cases)
              (use \<open>w' = w4\<close> s w3 in \<open>auto intro: jobs_progress_one job_progress_intros\<close>)
        qed
        with j s(3) w2 show ?thesis
          by (auto simp: s_def intro: jobs_progress_step)
      qed
    qed
  qed
qed

text \<open>
  A run that returns a job and no error: the job was pending, its result is stored under
  its result key and the repository holds it as done with that key and no error.
\<close>

lemma process_ok:
  assumes "process_job_execute (new_process_job st rp pp) c i w = ((Some j, None), w')"
    and "\<And>j. jobs w i = Some j \<Longrightarrow> ID j = i"
  obtains j0 s src w1 out w2 where
    "jobs w i = Some j0" "Status j0 = StatusPending"
    "\<forall>p. loc (OriginalKey j0) = Some p \<longrightarrow> reads_from src (objs w p)"
    "Process pp c (Some src) (Transformation j0) w1 = (Inr (Reader out None), w2)"
    "objs w' = store_at (loc (result_key i (Transformation j0))) out (objs w)"
    "jobs w' = (jobs w)(i \<mapsto> s)" "waiting w' = waiting w"
    "j = j0\<lparr>Status := StatusDone, ResultKey := result_key i (Transformation j0), Error := []\<rparr>"
    "s = j\<lparr>UpdatedAt := UpdatedAt s\<rparr>"
proof -
  let ?uc = "new_process_job st rp pp"
  from assms(1) obtain j0 w1 w2 rk w3 w4 where
    g: "GetJob rp c i w = (Inr j0, w1)" and pend: "Status j0 = StatusPending"
    and u: "UpdateStatus rp c i StatusProcessing [] None w1 = (None, w2)"
    and tr: "transform ?uc c (j0\<lparr>Status := StatusProcessing\<rparr>) w2 = (Inr rk, w3)"
    and d: "UpdateStatus rp c i StatusDone rk None w3 = (None, w')"
    and j: "j = j0\<lparr>Status := StatusDone, ResultKey := rk, Error := []\<rparr>"
    by (auto simp: process_job_execute_def new_process_job_def fail_job_def Let_def
        split: prod.splits sum.splits option.splits if_splits)
  from load_ok [OF g] have j0: "jobs w i = Some j0" and w1: "jobs w1 = jobs w" by simp_all
  from upd_ok [OF u, of j0] j0 w1 obtain t where
    w2: "jobs w2 = (jobs w)(i \<mapsto> updated_job StatusProcessing [] None t j0)" by auto
  from upd_ok [OF d, of "updated_job StatusProcessing [] None t j0"] transform_jobs(1) [OF tr] w2
  obtain t' where
    w': "jobs w' = (jobs w)(i \<mapsto>
      updated_job StatusDone rk None t' (updated_job StatusProcessing [] None t j0))" by auto
  have o: "objs w2 = objs w" "objs w' = objs w3" "waiting w' = waiting w"
    using load_other [OF g] upd_other [OF u] upd_other [OF d] transform_jobs(2) [OF tr] by auto
  have idj: "ID j0 = i" using assms(2) j0 .
  let ?s = "updated_job StatusDone rk None t' (updated_job StatusProcessing [] None t j0)"
  have rk: "rk \<noteq> []" by (rule transform_ok [OF tr]) simp
  have s: "?s = j\<lparr>UpdatedAt := UpdatedAt ?s\<rparr>"
    using j rk by (simp add: updated_job_def err_string_def)
  from tr show ?thesis
  proof (rule transform_ok)
    fix src wa out wb
    assume "\<forall>p. loc (OriginalKey (j0\<lparr>Status := StatusProcessing\<rparr>)) = Some p \<longrightarrow>
        reads_from src (objs w2 p)"
      "Process pp c (Some src) (Transformation (j0\<lparr>Status := StatusProcessing\<rparr>)) wa
       = (Inr (Reader out None), wb)"
      "rk = result_key (ID (j0\<lparr>Status := StatusProcessing\<rparr>))
              (Transformation (j0\<lparr>Status := StatusProcessing\<rparr>))"
      "objs w3 = store_at (loc rk) out (objs w2)"
    with o j s idj w' show ?thesis
      by (intro that [OF j0 pend, of src wa out wb ?s]) simp_all
  qed
qed

text \<open>A job that is not pending is reported as such and nothing is done about it.\<close>

lemma process_skip:
  assumes "GetJob rp c i w = (Inr j, w1)" "Status j \<noteq> StatusPending"
  shows "\<exists>e. process_job_execute (new_process_job st rp pp) c i w = ((Some j, Some e), w1) \<and>
             errors_is e ErrJobNotPending \<and> jobs w1 = jobs w \<and> objs w1 = objs w \<and>
             waiting w1 = waiting w"
  using assms load_other [OF assms(1)] load_ok [OF assms(1)]
  by (simp add: process_job_execute_def new_process_job_def go_errors ErrJobNotPending_def)

end

section \<open>Creating a job\<close>

text \<open>The use case with its identifier source and clock, which touch none of the stores.\<close>

locale create_env =
  backend st loc objs rp storable jobs qp waiting pp
  for st :: "'w storage_port" and loc and objs
    and rp :: "'w repo_port" and storable and jobs
    and qp :: "'w queue_port" and waiting and pp :: "'w processor_port" +
  fixes nid :: "'w \<Rightarrow> string \<times> 'w"
    and nw :: "'w \<Rightarrow> int \<times> 'w"
  assumes nid_other: "nid w = (i, w') \<Longrightarrow> objs w' = objs w \<and> jobs w' = jobs w \<and> waiting w' = waiting w"
    and nw_other: "nw w = (t, w') \<Longrightarrow> objs w' = objs w \<and> jobs w' = jobs w \<and> waiting w' = waiting w"

lemma create_rejects:
  "create_job_execute uc c None sp w = (Inl ErrNoSource, w)"
  "spec_validate sp = Some e \<Longrightarrow>
   create_job_execute uc c (Some d) sp w =
     (Inl (EWrap ''create job: invalid transformation: '' e []), w)"
  by (simp_all add: create_job_execute_def)

text \<open>The branches past validation, with the world each one leaves.\<close>

lemma create_cases:
  assumes "create_job_execute (new_create_job st rp qp nid nw) c (Some d) sp w = (r, w')"
    and "spec_validate sp = None"
  obtains
    (store) i w1 e where "nid w = (i, w1)" "Put st c (original_key i) (Some d) w1 = (Some e, w')"
      "r = Inl (EWrap (''create job '' @ i @ '': store original: '') e [])"
  | (save) i w1 w2 t w3 e where "nid w = (i, w1)"
      "Put st c (original_key i) (Some d) w1 = (None, w2)" "nw w2 = (t, w3)"
      "Save rp c (Some (created_job i sp t)) w3 = (Some e, w')"
      "r = Inl (EWrap (''create job '' @ i @ '': save: '') e [])"
  | (sent) i w1 w2 t w3 w4 where "nid w = (i, w1)"
      "Put st c (original_key i) (Some d) w1 = (None, w2)" "nw w2 = (t, w3)"
      "Save rp c (Some (created_job i sp t)) w3 = (None, w4)"
      "Enqueue qp c i w4 = (None, w')" "r = Inr (created_job i sp t)"
  | (unsent) i w1 w2 t w3 w4 e w5 x where "nid w = (i, w1)"
      "Put st c (original_key i) (Some d) w1 = (None, w2)" "nw w2 = (t, w3)"
      "Save rp c (Some (created_job i sp t)) w3 = (None, w4)"
      "Enqueue qp c i w4 = (Some e, w5)"
      "UpdateStatus rp c i StatusFailed []
        (Some (EWrap (''create job '' @ i @ '': enqueue: '') e [])) w5 = (x, w')"
      "r = Inl (case x of
         None \<Rightarrow> EWrap (''create job '' @ i @ '': enqueue: '') e []
       | Some m \<Rightarrow> EJoin [EWrap (''create job '' @ i @ '': enqueue: '') e [],
                          EWrap ''mark failed: '' m []])"
  using assms
  by (auto simp: create_job_execute_def new_create_job_def Let_def
      split: prod.splits option.splits)

lemma create_needs_source_and_spec:
  assumes "create_job_execute uc c src sp w = (Inr j, w')"
  obtains d where "src = Some d" "spec_validate sp = None"
  using assms by (auto simp: create_job_execute_def split: option.splits)

lemma created_job_simps [simp]:
  "ID (created_job i sp t) = i" "OriginalKey (created_job i sp t) = original_key i"
  "Status (created_job i sp t) = StatusPending" "Transformation (created_job i sp t) = sp"
  "ResultKey (created_job i sp t) = []" "Error (created_job i sp t) = []"
  "CreatedAt (created_job i sp t) = t" "UpdatedAt (created_job i sp t) = t"
  by (simp_all add: created_job_def)

context create_env begin

text \<open>
  The job that is returned is the one that was persisted, its source is stored under its
  original key, its identifier is waiting on the queue, and nothing else changed.
\<close>

lemma create_ok:
  assumes "create_job_execute (new_create_job st rp qp nid nw) c src sp w = (Inr j, w')"
    and "storable j"
  shows "spec_ok sp \<and> j = created_job (fst (nid w)) sp (CreatedAt j) \<and>
         (\<exists>b. src = Some (Reader b None) \<and>
              objs w' = store_at (loc (OriginalKey j)) b (objs w)) \<and>
         jobs w' = (jobs w)(ID j \<mapsto> j) \<and> waiting w' = add_mset (ID j) (waiting w)"
proof -
  from assms(1) obtain d where d: "src = Some d" and v: "spec_validate sp = None"
    by (rule create_needs_source_and_spec)
  from assms(1) [unfolded d] v show ?thesis
  proof (cases rule: create_cases)
    case (sent i w1 w2 t w3 w4)
    from sent(6) have j: "j = created_job i sp t" by simp
    from put_ok [OF sent(2)] obtain b where
      "d = Reader b None" "objs w2 = store_at (loc (original_key i)) b (objs w1)" by auto
    moreover have "jobs w4 = (jobs w3)(i \<mapsto> j)" using save_ok [OF sent(4)] assms(2) j by simp
    moreover have "waiting w' = add_mset i (waiting w4)" using enq_ok [OF sent(5)] by simp
    ultimately show ?thesis
      using j d v sent(1) nid_other [OF sent(1)] put_other [OF sent(2)] nw_other [OF sent(3)]
        save_other [OF sent(4)] enq_other [OF sent(5)]
      by (simp add: spec_validate_None)
  qed simp_all
qed

end

text \<open>With in-process adapters, what a failed creation leaves behind.\<close>

locale strict_create_env =
  strict_backend st loc objs rp storable jobs qp waiting pp +
  create_env st loc objs rp storable jobs qp waiting pp nid nw
  for st :: "'w storage_port" and loc and objs
    and rp :: "'w repo_port" and storable and jobs
    and qp :: "'w queue_port" and waiting and pp :: "'w processor_port"
    and nid :: "'w \<Rightarrow> string \<times> 'w" and nw :: "'w \<Rightarrow> int \<times> 'w"
begin

lemma create_failed:
  assumes "create_job_execute (new_create_job st rp qp nid nw) c src sp w = (Inl e, w')"
    and "\<And>i t. storable (created_job i sp t)"
  shows "waiting w' = waiting w \<and>
         (\<forall>p. loc (original_key (fst (nid w))) \<noteq> Some p \<longrightarrow> objs w' p = objs w p) \<and>
         (jobs w' = jobs w \<or>
          (\<exists>t t' x. jobs w' = (jobs w)(fst (nid w) \<mapsto>
                updated_job StatusFailed [] (Some x) t' (created_job (fst (nid w)) sp t)) \<and> e = x) \<or>
          (\<exists>t x m. jobs w' = (jobs w)(fst (nid w) \<mapsto> created_job (fst (nid w)) sp t) \<and>
                e = EJoin [x, EWrap ''mark failed: '' m []]))"
proof (cases src)
  case None
  with assms(1) show ?thesis by (simp add: create_rejects)
next
  case (Some d)
  show ?thesis
  proof (cases "spec_validate sp")
    case (Some x)
    with assms(1) \<open>src = Some d\<close> show ?thesis by (simp add: create_rejects)
  next
    case None
    from assms(1) [unfolded \<open>src = Some d\<close>] None show ?thesis
    proof (cases rule: create_cases)
      case (store i w1 x)
      with nid_other [OF store(1)] put_other [OF store(2)] sput_err [OF store(2)]
      show ?thesis by simp
    next
      case (save i w1 w2 t w3 x)
      with nid_other [OF save(1)] put_other [OF save(2)] put_frame [OF save(2)]
        nw_other [OF save(3)] save_other [OF save(4)] ssave_err [OF save(4)]
      show ?thesis by simp
    next
      case (unsent i w1 w2 t w3 w4 x w5 m)
      have j4: "jobs w4 = (jobs w)(i \<mapsto> created_job i sp t)"
        using ssave_ok [OF unsent(4)] assms(2) nw_other [OF unsent(3)] put_other [OF unsent(2)]
          nid_other [OF unsent(1)] by simp
      have f: "waiting w' = waiting w"
        "\<forall>p. loc (original_key i) \<noteq> Some p \<longrightarrow> objs w' p = objs w p" "jobs w5 = jobs w4"
        using unsent nid_other [OF unsent(1)] put_other [OF unsent(2)] put_frame [OF unsent(2)]
          nw_other [OF unsent(3)] save_other [OF unsent(4)] enq_other [OF unsent(5)]
          senq_err [OF unsent(5)] upd_other [OF unsent(6)] by auto
      show ?thesis
      proof (cases m)
        case None
        from supd_ok [OF unsent(6) [unfolded None], of "created_job i sp t"] j4 f(3) obtain t' where
          "jobs w' = (jobs w)(i \<mapsto> updated_job StatusFailed []
             (Some (EWrap (''create job '' @ i @ '': enqueue: '') x [])) t' (created_job i sp t))"
          by auto
        with None f unsent(1,7) show ?thesis by auto
      next
        case (Some y)
        with supd_err [OF unsent(6) [unfolded Some]] j4 f unsent(1,7) show ?thesis by auto
      qed
    qed simp
  qed
qed

end

end
