(* ===== verification/Memrepo.thy ===== *)
theory Memrepo
  imports Ports
begin

text \<open>
  \<open>internal/adapters/memrepo\<close>: the job repository as a map under a lock. Each method runs
  under the lock from its first access to its last, so it is one step on the map; \<open>ce\<close> is
  what \<open>ctx.Err()\<close> returned at its start and \<open>now\<close> what the clock returned. Jobs are
  records, copied in and out as the code copies them.
\<close>

type_synonym mem_repo = "string \<rightharpoonup> job"

definition memrepo_new :: mem_repo where
  "memrepo_new = Map.empty"

definition memrepo_save :: "goerr option \<Rightarrow> job option \<Rightarrow> mem_repo \<Rightarrow> goerr option \<times> mem_repo" where
  "memrepo_save ce job r =
     (case ce of Some e \<Rightarrow> (Some e, r) | None \<Rightarrow>
     (case job of
        None \<Rightarrow> (Some (EText ''memrepo: save: nil job''), r)
      | Some j \<Rightarrow>
          if ID j = [] then (Some (EText ''memrepo: save: empty job id''), r)
          else (None, r(ID j \<mapsto> j))))"

definition memrepo_get :: "goerr option \<Rightarrow> string \<Rightarrow> mem_repo \<Rightarrow> job res" where
  "memrepo_get ce i r =
     (case ce of Some e \<Rightarrow> Inl e | None \<Rightarrow>
     (case r i of
        None \<Rightarrow> Inl (EWrap (''memrepo: get '' @ i @ '': '') ErrJobNotFound [])
      | Some j \<Rightarrow> Inr j))"

definition memrepo_update ::
  "goerr option \<Rightarrow> int \<Rightarrow> string \<Rightarrow> job_status \<Rightarrow> string \<Rightarrow> goerr option \<Rightarrow> mem_repo
   \<Rightarrow> goerr option \<times> mem_repo" where
  "memrepo_update ce now i status resultKey procErr r =
     (case ce of Some e \<Rightarrow> (Some e, r) | None \<Rightarrow>
      if \<not> status_valid status then
        (Some (EText (''memrepo: update '' @ i @ '': invalid status '' @ quote status)), r)
      else
     (case r i of
        None \<Rightarrow> (Some (EWrap (''memrepo: update '' @ i @ '': '') ErrJobNotFound []), r)
      | Some j \<Rightarrow>
         (let j = j\<lparr>Status := status, UpdatedAt := now\<rparr>;
              j = (if resultKey \<noteq> [] then j\<lparr>ResultKey := resultKey\<rparr> else j);
              j = (case procErr of Some e \<Rightarrow> j\<lparr>Error := error_text e\<rparr> | None \<Rightarrow> j\<lparr>Error := []\<rparr>)
          in (None, r(i \<mapsto> j)))))"

definition memrepo_len :: "mem_repo \<Rightarrow> nat" where
  "memrepo_len r = card (dom r)"

section \<open>What the operations do\<close>

lemma memrepo_save_ok:
  "memrepo_save ce jo r = (None, r') \<longleftrightarrow>
   ce = None \<and> (\<exists>j. jo = Some j \<and> ID j \<noteq> [] \<and> r' = r(ID j \<mapsto> j))"
  by (auto simp: memrepo_save_def split: option.splits if_splits)

lemma memrepo_save_err: "memrepo_save ce jo r = (Some e, r') \<Longrightarrow> r' = r"
  by (auto simp: memrepo_save_def split: option.splits if_splits)

lemma memrepo_get_ok: "memrepo_get ce i r = Inr j \<longleftrightarrow> ce = None \<and> r i = Some j"
  by (auto simp: memrepo_get_def split: option.splits)

lemma memrepo_get_missing:
  "r i = None \<Longrightarrow> \<exists>e. memrepo_get None i r = Inl e \<and> errors_is e ErrJobNotFound"
  by (simp add: memrepo_get_def ErrJobNotFound_def go_errors)

lemma memrepo_update_ok:
  "memrepo_update ce t i s rk pe r = (None, r') \<longleftrightarrow>
   ce = None \<and> status_valid s \<and> (\<exists>j. r i = Some j \<and> r' = r(i \<mapsto> updated_job s rk pe t j))"
  by (auto simp: memrepo_update_def updated_job_def err_string_def Let_def split: option.splits)

lemma memrepo_update_err: "memrepo_update ce t i s rk pe r = (Some e, r') \<Longrightarrow> r' = r"
  by (auto simp: memrepo_update_def Let_def split: option.splits if_splits)

lemma memrepo_update_missing:
  "status_valid s \<Longrightarrow> r i = None \<Longrightarrow>
   \<exists>e. memrepo_update None t i s rk pe r = (Some e, r) \<and> errors_is e ErrJobNotFound"
  by (simp add: memrepo_update_def ErrJobNotFound_def go_errors)

lemmas memrepo_laws =
  memrepo_save_ok memrepo_save_err memrepo_get_ok memrepo_update_ok memrepo_update_err

section \<open>The repository invariant\<close>

text \<open>Every job is filed under its own, non-empty, identifier.\<close>

definition memrepo_inv :: "mem_repo \<Rightarrow> bool" where
  "memrepo_inv r \<longleftrightarrow> (\<forall>i j. r i = Some j \<longrightarrow> ID j = i) \<and> r [] = None"

lemma memrepo_inv_new: "memrepo_inv memrepo_new"
  by (simp add: memrepo_inv_def memrepo_new_def)

lemma memrepo_inv_save: "memrepo_inv r \<Longrightarrow> memrepo_save ce jo r = (x, r') \<Longrightarrow> memrepo_inv r'"
  by (cases x) (auto simp: memrepo_inv_def memrepo_save_ok split: if_splits dest: memrepo_save_err)

lemma memrepo_inv_update:
  "memrepo_inv r \<Longrightarrow> memrepo_update ce t i s rk pe r = (x, r') \<Longrightarrow> memrepo_inv r'"
  by (cases x) (auto simp: memrepo_inv_def memrepo_update_ok split: if_splits dest: memrepo_update_err)

lemma memrepo_inv_ID: "memrepo_inv r \<Longrightarrow> r i = Some j \<Longrightarrow> ID j = i"
  by (simp add: memrepo_inv_def)

section \<open>Properties\<close>

text \<open>
  What the repository returns after a write. A saved job is read back as it was, and a
  status update of a stored job shows in its next read as \<open>updated_job\<close>: status and time set,
  result key kept unless a new one is given, error set or cleared; other jobs read as before.
\<close>

theorem repo_read_back:
  assumes "ID j \<noteq> []" "status_valid s"
  shows "memrepo_get None k (snd (memrepo_save None (Some j) r))
      = (if k = ID j then Inr j else memrepo_get None k r) \<and>
    memrepo_get None k (snd (memrepo_update None t (ID j) s rk pe (r(ID j \<mapsto> j))))
      = (if k = ID j then Inr (updated_job s rk pe t j) else memrepo_get None k r)"
proof -
  have "memrepo_save None (Some j) r = (None, r(ID j \<mapsto> j))"
    using assms(1) by (simp add: memrepo_save_ok)
  moreover have "memrepo_update None t (ID j) s rk pe (r(ID j \<mapsto> j))
      = (None, r(ID j \<mapsto> updated_job s rk pe t j))"
    using assms(2) by (auto simp: memrepo_update_ok)
  ultimately show ?thesis by (simp add: memrepo_get_def)
qed

definition sample_job :: job where
  "sample_job =
     \<lparr>ID = ''j'', OriginalKey = ''originals/j'', ResultKey = [], Status = StatusPending,
      Transformation = \<lparr>Width = 4, Height = 0, Format = FormatPNG, Quality = 0,
        Watermark = False, StripMetadata = True\<rparr>,
      CreatedAt = 1, UpdatedAt = 1, Error = []\<rparr>"

theorem repo_read_back_witness:
  "memrepo_get None ''j'' (snd (memrepo_save None (Some sample_job) memrepo_new)) = Inr sample_job"
proof -
  have "ID sample_job \<noteq> []" "status_valid StatusDone" "ID sample_job = ''j''"
    by (simp_all add: sample_job_def status_valid_def)
  with repo_read_back [of sample_job StatusDone "''j''" memrepo_new] show ?thesis by simp
qed

text \<open>
  What the repository refuses, it refuses without effect and with the reason: a nil job,
  a job without an identifier, a status that is none of the four, and, as \<open>ErrJobNotFound\<close>, a
  job it does not have; and every operation keeps each job filed under its own identifier.
\<close>

theorem repo_refuses:
  assumes "memrepo_inv r" "status_valid s" "\<not> status_valid s'" "r i = None"
  shows "\<exists>e1 e2 e3 e4 e5.
    memrepo_save None None r = (Some e1, r) \<and>
    memrepo_save None (Some (j\<lparr>ID := []\<rparr>)) r = (Some e2, r) \<and>
    memrepo_update None t i s' rk pe r = (Some e3, r) \<and>
    memrepo_update None t i s rk pe r = (Some e4, r) \<and> errors_is e4 ErrJobNotFound \<and>
    memrepo_get None i r = Inl e5 \<and> errors_is e5 ErrJobNotFound \<and>
    memrepo_inv (snd (memrepo_save None (Some j) r)) \<and>
    memrepo_inv (snd (memrepo_update None t (ID j) s rk pe r))"
  using memrepo_update_missing [of s r i t rk pe] memrepo_get_missing [of r i]
    memrepo_inv_save [of r None "Some j"] memrepo_inv_update [of r None t "ID j" s rk pe] assms
  by (simp add: memrepo_save_def [of None None] memrepo_save_def [of None "Some (j\<lparr>ID := []\<rparr>)"]
      memrepo_update_def [of None t i s'])
    (metis prod.collapse)

theorem repo_refuses_witness:
  "\<exists>e. memrepo_get None ''x'' memrepo_new = Inl e \<and> errors_is e ErrJobNotFound"
proof -
  have "status_valid StatusDone" "\<not> status_valid ''odd''" "memrepo_new ''x'' = None"
    by (simp_all add: status_valid_def status_defs memrepo_new_def)
  from repo_refuses [OF memrepo_inv_new this, of sample_job 0 "[]" None] show ?thesis by blast
qed

end
