(* ===== verification/Memqueue.thy ===== *)
theory Memqueue
  imports Ports
begin

text \<open>
  \<open>internal/adapters/memqueue\<close>: a queue over a buffered channel. The channel is its
  buffer, capacity and closed flag; a method that may block returns \<open>None\<close> where no case of
  its \<open>select\<close> is ready. The consumer goroutines are a step relation: any of them, the
  producers and \<open>Close\<close> may move next.
\<close>

section \<open>The queue\<close>

record mem_queue =
  mq_buf :: "delivery list"
  mq_cap :: nat
  mq_closed :: bool

definition ErrClosed :: goerr where
  "ErrClosed = ENew ''memqueue.ErrClosed'' ''queue is closed''"

definition DefaultBuffer :: int where "DefaultBuffer = 1024"

definition mq_new :: "int \<Rightarrow> mem_queue" where
  "mq_new buffer =
     (let buffer = (if buffer \<le> 0 then DefaultBuffer else buffer)
      in \<lparr>mq_buf = [], mq_cap = nat buffer, mq_closed = False\<rparr>)"

text \<open>
  \<open>make(chan ports.Delivery, buffer)\<close> panics when the elements, of 24 bytes each, take more than
  the runtime can address: 2^48 bytes on a 64-bit Linux less the channel's header of 96 (up to
  112 in newer releases, which makes no difference to the number of elements). \<open>New\<close> returns
  \<open>mq_new\<close> where that does not happen; running out of real memory is not modelled.
\<close>

definition max_deliveries :: int where
  "max_deliveries = (2 ^ 48 - 96) div 24"

definition mq_make :: "int \<Rightarrow> mem_queue option" where
  "mq_make buffer =
     (if max_deliveries < (if buffer \<le> 0 then DefaultBuffer else buffer) then None
      else Some (mq_new buffer))"

lemma mq_new_room: "0 < mq_cap (mq_new n)"
  by (simp add: mq_new_def Let_def DefaultBuffer_def)

lemma mq_make_cases:
  "mq_make buffer = None \<longleftrightarrow> max_deliveries < buffer"
  "mq_make buffer = Some q \<Longrightarrow> q = mq_new buffer \<and> 0 < mq_cap q"
  using mq_new_room [of buffer]
  by (auto simp: mq_make_def max_deliveries_def DefaultBuffer_def split: if_splits)

text \<open>
  \<open>Enqueue\<close>, at the moment its \<open>select\<close> fires. \<open>ce\<close> is \<open>ctx.Err()\<close> then, and \<open>pick_send\<close>
  the choice Go makes at random when both the send and \<open>ctx.Done()\<close> are ready.
\<close>

definition mq_enqueue ::
  "bool \<Rightarrow> goerr option \<Rightarrow> (string \<rightharpoonup> string) option \<Rightarrow> string \<Rightarrow> mem_queue
   \<Rightarrow> (goerr option \<times> mem_queue) option" where
  "mq_enqueue pick_send ce meta jobID q =
     (if jobID = [] then Some (Some (EText ''memqueue: empty job id''), q)
      else if mq_closed q then
        Some (Some (EWrap (''memqueue: enqueue '' @ jobID @ '': '') ErrClosed []), q)
      else if length (mq_buf q) < mq_cap q \<and> (ce = None \<or> pick_send) then
        Some (None, q\<lparr>mq_buf := mq_buf q @ [\<lparr>JobID = jobID, Meta = meta\<rparr>]\<rparr>)
      else (case ce of
              Some e \<Rightarrow> Some (Some (EWrap (''memqueue: enqueue '' @ jobID @ '': '') e []), q)
            | None \<Rightarrow> None))"

text \<open>\<open>delivery, ok := <-q.ch\<close>: a closed channel yields what is left, then \<open>ok = false\<close>.\<close>

definition mq_receive :: "mem_queue \<Rightarrow> (delivery option \<times> mem_queue) option" where
  "mq_receive q =
     (case mq_buf q of
        d # ds \<Rightarrow> Some (Some d, q\<lparr>mq_buf := ds\<rparr>)
      | [] \<Rightarrow> if mq_closed q then Some (None, q) else None)"

definition mq_close :: "mem_queue \<Rightarrow> mem_queue" where
  "mq_close q = (if mq_closed q then q else q\<lparr>mq_closed := True\<rparr>)"

definition mq_len :: "mem_queue \<Rightarrow> nat" where
  "mq_len q = length (mq_buf q)"

definition mq_depth :: "mem_queue \<Rightarrow> nat res" where
  "mq_depth q = Inr (length (mq_buf q))"

lemma mq_enqueue_ok:
  "mq_enqueue ps ce m i q = Some (None, q') \<longleftrightarrow>
   i \<noteq> [] \<and> \<not> mq_closed q \<and> length (mq_buf q) < mq_cap q \<and> (ce = None \<or> ps) \<and>
   q' = q\<lparr>mq_buf := mq_buf q @ [\<lparr>JobID = i, Meta = m\<rparr>]\<rparr>"
  by (auto simp: mq_enqueue_def split: option.splits if_splits)

lemma mq_enqueue_err: "mq_enqueue ps ce m i q = Some (Some e, q') \<Longrightarrow> q' = q"
  by (auto simp: mq_enqueue_def split: option.splits if_splits)

lemma mq_enqueue_blocks:
  "mq_enqueue ps ce m i q = None \<longleftrightarrow>
   i \<noteq> [] \<and> \<not> mq_closed q \<and> mq_cap q \<le> length (mq_buf q) \<and> ce = None"
  by (auto simp: mq_enqueue_def split: option.splits)

lemma mq_receive_simps:
  "mq_receive q = None \<longleftrightarrow> mq_buf q = [] \<and> \<not> mq_closed q"
  "mq_receive q = Some (None, q') \<longleftrightarrow> mq_buf q = [] \<and> mq_closed q \<and> q' = q"
  "mq_receive q = Some (Some d, q') \<longleftrightarrow> (\<exists>ds. mq_buf q = d # ds \<and> q' = q\<lparr>mq_buf := ds\<rparr>)"
  by (auto simp: mq_receive_def split: list.splits)

lemma mq_close_simps [simp]:
  "mq_closed (mq_close q)" "mq_buf (mq_close q) = mq_buf q" "mq_cap (mq_close q) = mq_cap q"
  "mq_close (mq_close q) = mq_close q"
  by (simp_all add: mq_close_def)

lemmas mq_laws = mq_enqueue_ok mq_receive_simps

section \<open>Producers, consumers and Close, interleaved\<close>

text \<open>
  A consumer started by \<open>ConsumeDeliveries\<close> waits in its outer \<open>select\<close>, holds a delivery
  in its inner one, or has returned and closed its channel.
\<close>

datatype consumer = Waiting | Holding delivery | Returned

fun held :: "consumer \<Rightarrow> delivery list" where
  "held (Holding d) = [d]"
| "held _ = []"

text \<open>
  Ghost fields record the history: what was accepted, in order, what consumers pulled off
  the channel, in order, what they handed over and what they dropped.
\<close>

record mq_sys =
  sys_q :: mem_queue
  sys_consumers :: "consumer list"
  sys_done :: "nat set"
  sys_accepted :: "delivery list"
  sys_pulled :: "delivery list"
  sys_handed :: "delivery list"
  sys_dropped :: "delivery list"

definition mq_sys_init :: "int \<Rightarrow> mq_sys" where
  "mq_sys_init buffer =
     \<lparr>sys_q = mq_new buffer, sys_consumers = [], sys_done = {}, sys_accepted = [],
      sys_pulled = [], sys_handed = [], sys_dropped = []\<rparr>"

inductive mq_step :: "mq_sys \<Rightarrow> mq_sys \<Rightarrow> bool" where
  enqueue: "mq_enqueue ps ce m i (sys_q s) = Some (None, q') \<Longrightarrow>
    mq_step s (s\<lparr>sys_q := q', sys_accepted := sys_accepted s @ [\<lparr>JobID = i, Meta = m\<rparr>]\<rparr>)"
| refuse: "mq_enqueue ps ce m i (sys_q s) = Some (Some e, q') \<Longrightarrow> mq_step s (s\<lparr>sys_q := q'\<rparr>)"
| close: "mq_step s (s\<lparr>sys_q := mq_close (sys_q s)\<rparr>)"
| consume: "mq_step s (s\<lparr>sys_consumers := sys_consumers s @ [Waiting]\<rparr>)"
| cancel: "mq_step s (s\<lparr>sys_done := insert k (sys_done s)\<rparr>)"
| pull: "k < length (sys_consumers s) \<Longrightarrow> sys_consumers s ! k = Waiting \<Longrightarrow>
    mq_receive (sys_q s) = Some (Some d, q') \<Longrightarrow>
    mq_step s (s\<lparr>sys_q := q', sys_consumers := (sys_consumers s)[k := Holding d],
                 sys_pulled := sys_pulled s @ [d]\<rparr>)"
| drained: "k < length (sys_consumers s) \<Longrightarrow> sys_consumers s ! k = Waiting \<Longrightarrow>
    mq_receive (sys_q s) = Some (None, q') \<Longrightarrow>
    mq_step s (s\<lparr>sys_q := q', sys_consumers := (sys_consumers s)[k := Returned]\<rparr>)"
| stop: "k < length (sys_consumers s) \<Longrightarrow> sys_consumers s ! k = Waiting \<Longrightarrow> k \<in> sys_done s \<Longrightarrow>
    mq_step s (s\<lparr>sys_consumers := (sys_consumers s)[k := Returned]\<rparr>)"
| hand: "k < length (sys_consumers s) \<Longrightarrow> sys_consumers s ! k = Holding d \<Longrightarrow>
    mq_step s (s\<lparr>sys_consumers := (sys_consumers s)[k := Waiting],
                 sys_handed := sys_handed s @ [d]\<rparr>)"
| drop: "k < length (sys_consumers s) \<Longrightarrow> sys_consumers s ! k = Holding d \<Longrightarrow> k \<in> sys_done s \<Longrightarrow>
    mq_step s (s\<lparr>sys_consumers := (sys_consumers s)[k := Returned],
                 sys_dropped := sys_dropped s @ [d]\<rparr>)"

inductive_cases mq_stepE: "mq_step s t"

inductive mq_reachable :: "int \<Rightarrow> mq_sys \<Rightarrow> bool" for buffer :: int where
  start: "mq_reachable buffer (mq_sys_init buffer)"
| step: "mq_reachable buffer s \<Longrightarrow> mq_step s t \<Longrightarrow> mq_reachable buffer t"

definition in_hand :: "consumer list \<Rightarrow> delivery multiset" where
  "in_hand cs = mset (concat (map held cs))"

lemma in_hand_append [simp]: "in_hand (cs @ [Waiting]) = in_hand cs"
  by (simp add: in_hand_def)

lemma in_hand_update:
  "k < length cs \<Longrightarrow> in_hand (cs[k := c]) + mset (held (cs ! k)) = in_hand cs + mset (held c)"
proof (induction cs arbitrary: k)
  case Nil
  then show ?case by simp
next
  case (Cons x xs)
  then show ?case by (cases k) (auto simp: in_hand_def)
qed

text \<open>
  The channel is first in, first out and bounded; what consumers pulled is handed over,
  dropped or still in hand; and only a cancelled consumer drops.
\<close>

definition mq_inv :: "int \<Rightarrow> mq_sys \<Rightarrow> bool" where
  "mq_inv buffer s \<longleftrightarrow>
     mq_cap (sys_q s) = mq_cap (mq_new buffer) \<and>
     length (mq_buf (sys_q s)) \<le> mq_cap (sys_q s) \<and>
     sys_accepted s = sys_pulled s @ mq_buf (sys_q s) \<and>
     mset (sys_pulled s) =
       mset (sys_handed s) + mset (sys_dropped s) + in_hand (sys_consumers s) \<and>
     (sys_done s = {} \<longrightarrow> sys_dropped s = [])"

lemma mq_inv_init: "mq_inv buffer (mq_sys_init buffer)"
  by (simp add: mq_inv_def mq_sys_init_def mq_new_def in_hand_def Let_def)

lemma mq_step_inv: "mq_step s t \<Longrightarrow> mq_inv buffer s \<Longrightarrow> mq_inv buffer t"
proof (induction rule: mq_step.induct)
  case (enqueue ps ce m i s q')
  then show ?case by (auto simp: mq_inv_def mq_laws)
next
  case (refuse ps ce m i s e q')
  then show ?case by (auto simp: mq_inv_def dest: mq_enqueue_err)
next
  case (pull k s d q')
  then show ?case
    using in_hand_update [of k "sys_consumers s" "Holding d"] by (auto simp: mq_inv_def mq_laws)
next
  case (drained k s q')
  then show ?case
    using in_hand_update [of k "sys_consumers s" Returned] by (auto simp: mq_inv_def mq_laws)
next
  case (stop k s)
  then show ?case
    using in_hand_update [of k "sys_consumers s" Returned] by (auto simp: mq_inv_def)
next
  case (hand k s d)
  then show ?case
    using in_hand_update [of k "sys_consumers s" Waiting] by (auto simp: mq_inv_def)
next
  case (drop k s d)
  then show ?case
    using in_hand_update [of k "sys_consumers s" Returned] by (auto simp: mq_inv_def)
qed (auto simp: mq_inv_def)

lemma mq_reachable_inv: "mq_reachable buffer s \<Longrightarrow> mq_inv buffer s"
  by (induction rule: mq_reachable.induct) (auto intro: mq_inv_init mq_step_inv)

lemma mq_step_closed:
  "mq_step s t \<Longrightarrow> mq_closed (sys_q s) \<Longrightarrow> mq_closed (sys_q t) \<and> sys_accepted t = sys_accepted s"
  by (induction rule: mq_step.induct) (auto simp: mq_laws dest: mq_enqueue_err)

lemma mq_steps_closed:
  "mq_step\<^sup>*\<^sup>* s t \<Longrightarrow> mq_closed (sys_q s) \<Longrightarrow> mq_closed (sys_q t) \<and> sys_accepted t = sys_accepted s"
  by (induction rule: rtranclp_induct) (auto dest: mq_step_closed)

section \<open>Properties\<close>

text \<open>
  C21: however producers, consumers, cancellations and \<open>Close\<close> interleave, the queue is bounded by
  its capacity and first in, first out: what was accepted is what consumers pulled followed
  by what is buffered, in order. Nothing pulled disappears: it was handed over, is in the
  hand of a consumer, or was dropped, and nothing is dropped unless a consumer was cancelled.
\<close>

theorem queue_conserves:
  assumes "mq_reachable buffer s"
  shows "length (mq_buf (sys_q s)) \<le> mq_cap (mq_new buffer) \<and>
    sys_accepted s = sys_pulled s @ mq_buf (sys_q s) \<and>
    mset (sys_pulled s) = mset (sys_handed s) + mset (sys_dropped s) + in_hand (sys_consumers s) \<and>
    (sys_dropped s = [] \<or> sys_done s \<noteq> {})"
  using mq_reachable_inv [OF assms] by (auto simp: mq_inv_def)

theorem queue_conserves_witness:
  "\<exists>s. mq_reachable 1 s \<and> mq_buf (sys_q s) = [\<lparr>JobID = ''a'', Meta = None\<rparr>] \<and>
       sys_accepted s = mq_buf (sys_q s)"
proof -
  let ?d = "\<lparr>JobID = ''a'', Meta = None\<rparr>"
  let ?q = "(mq_new 1)\<lparr>mq_buf := [?d]\<rparr>"
  let ?s = "(mq_sys_init 1)\<lparr>sys_q := ?q, sys_accepted := [?d]\<rparr>"
  have "mq_enqueue True None None ''a'' (mq_new 1) = Some (None, ?q)"
    by (simp add: mq_enqueue_def mq_new_def Let_def)
  then have "mq_step (mq_sys_init 1) ?s"
    using mq_step.enqueue [of True None None "''a''" "mq_sys_init 1" ?q]
    by (simp add: mq_sys_init_def)
  then have r: "mq_reachable 1 ?s" using mq_reachable.start mq_reachable.step by blast
  from queue_conserves [OF r] have "sys_accepted ?s = sys_pulled ?s @ mq_buf (sys_q ?s)" by blast
  moreover have "sys_pulled ?s = []" by (simp add: mq_sys_init_def)
  ultimately show ?thesis using r by (intro exI [of _ ?s]) simp
qed

text \<open>
  Closing is final and loses nothing: after \<open>Close\<close>, nothing more is accepted, and what was
  accepted before has been pulled or is still buffered, in order.
\<close>

theorem queue_closed_for_good:
  assumes "mq_reachable buffer s" "mq_closed (sys_q s)" "mq_step\<^sup>*\<^sup>* s t"
  shows "mq_closed (sys_q t) \<and> sys_accepted t = sys_accepted s \<and>
    sys_accepted s = sys_pulled t @ mq_buf (sys_q t)"
proof -
  have "mq_reachable buffer t"
    using assms(3,1) by (induction rule: rtranclp_induct) (auto intro: mq_reachable.step)
  from mq_reachable_inv [OF this] mq_steps_closed [OF assms(3,2)] show ?thesis
    by (simp add: mq_inv_def)
qed

theorem queue_closed_for_good_witness:
  "\<exists>s. mq_reachable 1 s \<and> mq_closed (sys_q s) \<and> sys_accepted s = sys_pulled s @ mq_buf (sys_q s)"
proof -
  let ?s = "(mq_sys_init 1)\<lparr>sys_q := mq_close (sys_q (mq_sys_init 1))\<rparr>"
  have r: "mq_reachable 1 ?s" by (intro mq_reachable.step [OF mq_reachable.start] mq_step.close)
  have c: "mq_closed (sys_q ?s)" by simp
  from queue_closed_for_good [OF r c rtranclp.rtrancl_refl] r c show ?thesis by blast
qed

end
