(* ===== verification/Filepath.thy ===== *)
theory Filepath
  imports Go_Base
begin

text \<open>
  The part of Go's \<open>path/filepath\<close> the file store uses, on Unix (separator \<open>/\<close>, where
  \<open>FromSlash\<close> is the identity): \<open>Clean\<close>, \<open>Join\<close>, \<open>Dir\<close>, \<open>IsAbs\<close>. \<open>Clean\<close> reads the
  elements of a path from left to right and keeps a stack of those that count.
\<close>

abbreviation slash :: char where "slash \<equiv> CHR ''/''"

definition is_abs :: "string \<Rightarrow> bool" where
  "is_abs p = has_prefix p [slash]"

definition clean_step :: "bool \<Rightarrow> string list \<Rightarrow> string \<Rightarrow> string list" where
  "clean_step rooted stack f =
     (if f = [] \<or> f = ''.'' then stack
      else if f = ''..'' then
        (case stack of
           [] \<Rightarrow> if rooted then [] else [''..'']
         | t # ts \<Rightarrow> if t = ''..'' then ''..'' # stack else ts)
      else f # stack)"

definition clean_elems :: "bool \<Rightarrow> string list \<Rightarrow> string list" where
  "clean_elems rooted fs = rev (foldl (clean_step rooted) [] fs)"

definition path_clean :: "string \<Rightarrow> string" where
  "path_clean p =
     (if p = [] then ''.''
      else let rooted = is_abs p; es = clean_elems rooted (split_on slash p) in
        if rooted then slash # join_with [slash] es
        else if es = [] then ''.'' else join_with [slash] es)"

text \<open>\<open>filepath.Join\<close> of two elements.\<close>

definition path_join :: "string \<Rightarrow> string \<Rightarrow> string" where
  "path_join a b =
     (if a = [] then (if b = [] then [] else path_clean b)
      else if b = [] then path_clean a
      else path_clean (a @ [slash] @ b))"

definition path_dir :: "string \<Rightarrow> string" where
  "path_dir p = path_clean (rev (dropWhile (\<lambda>c. c \<noteq> slash) (rev p)))"

section \<open>Elements\<close>

text \<open>An ordinary path element: a name, not \<open>.\<close>, \<open>..\<close> or empty.\<close>

definition path_name :: "string \<Rightarrow> bool" where
  "path_name f \<longleftrightarrow> f \<noteq> [] \<and> f \<noteq> ''.'' \<and> f \<noteq> ''..'' \<and> slash \<notin> set f"

lemma split_on_no_sep: "sep \<notin> set f \<Longrightarrow> split_on sep f = [f]"
  by (induction f) auto

lemma split_on_append:
  "split_on sep (a @ sep # b) = split_on sep a @ split_on sep b"
proof (induction a)
  case Nil
  then show ?case by simp
next
  case (Cons c cs)
  then show ?case by (auto split: list.splits)
qed

lemma split_join:
  "fs \<noteq> [] \<Longrightarrow> (\<And>f. f \<in> set fs \<Longrightarrow> sep \<notin> set f) \<Longrightarrow> split_on sep (join_with [sep] fs) = fs"
proof (induction fs)
  case Nil
  then show ?case by simp
next
  case (Cons f fs)
  show ?case
  proof (cases fs)
    case Nil
    with Cons.prems show ?thesis by (simp add: split_on_no_sep)
  next
    case (Cons g gs)
    with Cons.IH Cons.prems show ?thesis
      by (simp add: join_with_Cons split_on_append split_on_no_sep)
  qed
qed

lemma join_with_append:
  "fs \<noteq> [] \<Longrightarrow> gs \<noteq> [] \<Longrightarrow> join_with sep (fs @ gs) = join_with sep fs @ sep @ join_with sep gs"
proof (induction fs)
  case Nil
  then show ?case by simp
next
  case (Cons f fs)
  show ?case
  proof (cases "fs = []")
    case True
    from Cons.prems(2) have "join_with sep (f # gs) = f @ sep @ join_with sep gs"
      by (rule join_with_Cons)
    with True show ?thesis by simp
  next
    case False
    then have ne: "fs @ gs \<noteq> []" by simp
    have e1: "join_with sep (f # fs @ gs) = f @ sep @ join_with sep (fs @ gs)"
      by (rule join_with_Cons [OF ne])
    have e2: "join_with sep (f # fs) = f @ sep @ join_with sep fs"
      by (rule join_with_Cons [OF False])
    have e3: "join_with sep (fs @ gs) = join_with sep fs @ sep @ join_with sep gs"
      by (rule Cons.IH [OF False Cons.prems(2)])
    show ?thesis unfolding append_Cons e1 e2 e3 append_assoc by (rule refl)
  qed
qed

lemma join_with_inj:
  assumes "fs \<noteq> []" "gs \<noteq> []" "\<And>f. f \<in> set fs \<union> set gs \<Longrightarrow> sep \<notin> set f"
    "join_with [sep] fs = join_with [sep] gs"
  shows "fs = gs"
proof -
  have "split_on sep (join_with [sep] fs) = fs" by (rule split_join) (simp_all add: assms)
  moreover have "split_on sep (join_with [sep] gs) = gs" by (rule split_join) (simp_all add: assms)
  ultimately show ?thesis using assms(4) by metis
qed

section \<open>What Clean leaves\<close>

text \<open>
  The stack during \<open>Clean\<close>: names above, and, in a relative path only, \<open>..\<close> elements
  below.
\<close>

definition clean_stack :: "bool \<Rightarrow> string list \<Rightarrow> bool" where
  "clean_stack rooted st \<longleftrightarrow>
     (\<exists>names ups. st = names @ replicate ups ''..'' \<and> (\<forall>f \<in> set names. path_name f) \<and>
                  (rooted \<longrightarrow> ups = 0))"

lemma clean_stack_Nil [simp]: "clean_stack rooted []"
  by (simp add: clean_stack_def)

lemma path_name_not_up: "path_name f \<Longrightarrow> f \<noteq> ''..''"
  by (simp add: path_name_def)

lemma clean_stack_step:
  assumes "clean_stack rooted st" "slash \<notin> set f"
  shows "clean_stack rooted (clean_step rooted st f)"
proof -
  from assms(1) obtain names ups where st: "st = names @ replicate ups ''..''"
    "\<forall>g \<in> set names. path_name g" "rooted \<longrightarrow> ups = 0"
    by (auto simp: clean_stack_def)
  consider "f = [] \<or> f = ''.''" | "f = ''..''" | "path_name f"
    using assms(2) by (auto simp: path_name_def)
  then show ?thesis
  proof cases
    case 1
    with assms(1) show ?thesis by (auto simp: clean_step_def)
  next
    case 2
    show ?thesis
    proof (cases names)
      case (Cons n ns)
      with st 2 path_name_not_up [of n] show ?thesis
        by (auto simp: clean_step_def clean_stack_def intro!: exI [of _ ns] exI [of _ ups])
    next
      case Nil
      have "clean_step rooted st f = (if rooted then [] else replicate (Suc ups) ''..'')"
        using st Nil 2 by (cases ups) (auto simp: clean_step_def)
      moreover have "clean_stack False (replicate (Suc ups) ''..'')"
        unfolding clean_stack_def by (intro exI [of _ "[]"] exI [of _ "Suc ups"]) simp
      ultimately show ?thesis by (cases rooted) simp_all
    qed
  next
    case 3
    then have "clean_step rooted st f = f # st" by (simp add: clean_step_def path_name_def)
    with st 3 show ?thesis
      by (auto simp: clean_stack_def intro!: exI [of _ "f # names"] exI [of _ ups])
  qed
qed

lemma clean_stack_foldl:
  "clean_stack rooted st \<Longrightarrow> (\<And>f. f \<in> set fs \<Longrightarrow> slash \<notin> set f) \<Longrightarrow>
   clean_stack rooted (foldl (clean_step rooted) st fs)"
  by (induction fs arbitrary: st) (auto intro: clean_stack_step)

text \<open>The elements of a cleaned path: \<open>..\<close> elements, in a relative path only, then names.\<close>

lemma clean_elems_shape:
  obtains ups names where "clean_elems rooted (split_on slash p) = replicate ups ''..'' @ names"
    "\<forall>f \<in> set names. path_name f" "rooted \<longrightarrow> ups = 0"
proof -
  have "clean_stack rooted (foldl (clean_step rooted) [] (split_on slash p))"
    by (rule clean_stack_foldl) (auto dest: split_on_fields)
  then show ?thesis
    using that by (fastforce simp: clean_elems_def clean_stack_def)
qed

lemma foldl_clean_names:
  "\<forall>f \<in> set fs. path_name f \<Longrightarrow> foldl (clean_step rooted) st fs = rev fs @ st"
  by (induction fs arbitrary: st) (auto simp: clean_step_def path_name_def)

lemma clean_elems_names: "\<forall>f \<in> set fs. path_name f \<Longrightarrow> clean_elems rooted fs = fs"
  by (simp add: clean_elems_def foldl_clean_names)

text \<open>An absolute path of names is its own clean form; so is a relative one.\<close>

lemma names_no_slash: "\<forall>f \<in> set fs. path_name f \<Longrightarrow> f \<in> set fs \<Longrightarrow> slash \<notin> set f"
  by (simp add: path_name_def)

lemma path_clean_abs_names:
  assumes "\<forall>f \<in> set fs. path_name f"
  shows "path_clean (slash # join_with [slash] fs) = slash # join_with [slash] fs"
proof -
  have "split_on slash (join_with [slash] fs) = (if fs = [] then [[]] else fs)"
    using assms by (auto intro!: split_join simp: path_name_def)
  moreover have "clean_elems True ([] # (if fs = [] then [[]] else fs)) = fs"
    using assms foldl_clean_names [of fs True "[]"]
    by (auto simp: clean_elems_def clean_step_def)
  ultimately show ?thesis by (simp add: path_clean_def is_abs_def)
qed

lemma join_names_head:
  assumes "f \<noteq> []" "slash \<notin> set f"
  shows "\<not> is_abs (join_with [slash] (f # fs))" "join_with [slash] (f # fs) \<noteq> []"
  using assms by (cases f; cases fs; auto simp: is_abs_def)+

lemma path_clean_rel_names:
  assumes "\<forall>f \<in> set fs. path_name f" "fs \<noteq> []"
  shows "path_clean (join_with [slash] fs) = join_with [slash] fs"
proof -
  obtain f gs where fs: "fs = f # gs" using assms(2) by (cases fs) auto
  have "f \<noteq> []" "slash \<notin> set f" using assms(1) fs by (auto simp: path_name_def)
  note j = join_names_head [OF this, of gs]
  have "split_on slash (join_with [slash] fs) = fs"
    using assms by (intro split_join) (auto simp: path_name_def)
  then show ?thesis
    using j assms fs by (simp add: path_clean_def clean_elems_names del: join_with.simps)
qed

end
