(* ===== verification/Localstorage.thy ===== *)
theory Localstorage
  imports Filepath Ports
begin

text \<open>
  \<open>internal/adapters/localstorage\<close>: objects as files under a root directory. A file system
  is a map from absolute paths to the contents of regular files; directories are not tracked,
  what they make fail is part of the oracle \<open>os_faults\<close>. \<open>Put\<close> is a list of file system
  steps, so that what a crash or a concurrent reader sees in between can be stated.
\<close>

section \<open>Keys and paths\<close>

definition ErrInvalidKey :: goerr where
  "ErrInvalidKey = ENew ''localstorage.ErrInvalidKey'' ''invalid storage key''"

text \<open>
  \<open>filepath.Abs\<close> and \<open>New\<close>: \<open>cwd\<close> is what \<open>os.Getwd\<close> returned, \<open>mk\<close> the error of
  \<open>os.MkdirAll\<close> on the root.
\<close>

definition path_abs :: "string res \<Rightarrow> string \<Rightarrow> string res" where
  "path_abs cwd p =
     (if is_abs p then Inr (path_clean p)
      else (case cwd of Inl e \<Rightarrow> Inl e | Inr d \<Rightarrow> Inr (path_join d p)))"

definition local_new :: "string res \<Rightarrow> (string \<Rightarrow> goerr option) \<Rightarrow> string \<Rightarrow> string res" where
  "local_new cwd mk dir =
     (if trim_space dir = [] then
        Inl (EWrap ''localstorage: '' ErrInvalidKey '': root directory is empty'')
      else (case path_abs cwd dir of
        Inl e \<Rightarrow> Inl (EWrap (''localstorage: resolve root '' @ quote dir @ '': '') e [])
      | Inr root \<Rightarrow>
          (case mk root of
             Some e \<Rightarrow> Inl (EWrap (''localstorage: create root '' @ quote root @ '': '') e [])
           | None \<Rightarrow> Inr root)))"

definition escapes_root :: "string \<Rightarrow> goerr" where
  "escapes_root key =
     EWrap ''localstorage: '' ErrInvalidKey ('': '' @ quote key @ '' escapes the storage root'')"

definition resolve :: "string \<Rightarrow> string \<Rightarrow> string res" where
  "resolve root key =
     (if trim_space key = [] then
        Inl (EWrap ''localstorage: '' ErrInvalidKey '': key is empty'')
      else if CHR 0x00 \<in> set key then
        Inl (EWrap ''localstorage: '' ErrInvalidKey '': key contains a null byte'')
      else
        let clean = path_clean key in
        if is_abs clean \<or> clean = ''.'' \<or> has_prefix clean ''..'' then Inl (escapes_root key)
        else
          let path = path_join root clean in
          if path \<noteq> root \<and> \<not> has_prefix path (root @ [slash]) then Inl (escapes_root key)
          else Inr path)"

text \<open>A root as \<open>New\<close> leaves it: absolute, clean, and not the file system's own root.\<close>

definition root_of :: "string list \<Rightarrow> string" where
  "root_of rs = slash # join_with [slash] rs"

definition root_ok :: "string list \<Rightarrow> bool" where
  "root_ok rs \<longleftrightarrow> rs \<noteq> [] \<and> (\<forall>f \<in> set rs. path_name f)"

lemma path_clean_abs:
  assumes "is_abs p"
  obtains rs where "path_clean p = root_of rs" "\<forall>f \<in> set rs. path_name f"
proof -
  from assms have "p \<noteq> []" by (auto simp: is_abs_def)
  obtain ups names where "clean_elems True (split_on slash p) = replicate ups ''..'' @ names"
    "\<forall>f \<in> set names. path_name f" "True \<longrightarrow> ups = 0" by (rule clean_elems_shape)
  with assms \<open>p \<noteq> []\<close> show ?thesis
    by (intro that [of names]) (simp_all add: path_clean_def root_of_def)
qed

lemma is_abs_append: "is_abs d \<Longrightarrow> is_abs (d @ x)"
  by (auto simp: is_abs_def intro: has_prefix_append2)

lemma local_new_root:
  assumes "local_new cwd mk dir = Inr root" "\<And>d. cwd = Inr d \<Longrightarrow> is_abs d"
  obtains rs where "root = root_of rs" "\<forall>f \<in> set rs. path_name f" "mk root = None"
proof -
  from assms(1) have r: "path_abs cwd dir = Inr root" "mk root = None" and ne: "dir \<noteq> []"
    by (auto simp: local_new_def split: if_splits sum.splits option.splits)
  have "\<exists>p. is_abs p \<and> root = path_clean p"
  proof (cases "is_abs dir")
    case True
    with r show ?thesis by (auto simp: path_abs_def)
  next
    case False
    with r obtain d where d: "cwd = Inr d" "root = path_join d dir"
      by (auto simp: path_abs_def split: sum.splits)
    with assms(2) have "is_abs d" by simp
    with d ne show ?thesis
      by (auto simp: path_join_def is_abs_def intro!: exI [of _ "d @ slash # dir"]
          intro: has_prefix_append2)
  qed
  then show ?thesis using r(2) that by (metis path_clean_abs)
qed

section \<open>What resolve accepts\<close>

definition key_names :: "string \<Rightarrow> string list" where
  "key_names key = clean_elems False (split_on slash key)"

lemma path_name_dots: "path_name f \<Longrightarrow> f \<noteq> [] \<and> slash \<notin> set f \<and> f \<noteq> ''.'' \<and> f \<noteq> ''..''"
  by (simp add: path_name_def)

lemma has_prefix_join:
  "has_prefix (join_with [slash] (f # fs)) ''..'' \<longleftrightarrow> has_prefix f ''..''" if "slash \<notin> set f"
proof -
  have "has_prefix (f @ slash # x) ''..'' \<longleftrightarrow> has_prefix f ''..''" for x
    by (cases f; cases "tl f") (auto simp: has_prefix_def)
  then show ?thesis by (cases fs) simp_all
qed

lemma root_join:
  assumes "\<forall>f \<in> set rs. path_name f" "\<forall>f \<in> set ns. path_name f" "ns \<noteq> []"
  shows "path_join (root_of rs) (join_with [slash] ns) = root_of (rs @ ns)"
proof -
  from assms(2,3) obtain n ms where ns: "ns = n # ms" "n \<noteq> []" "slash \<notin> set n"
    by (cases ns) (auto simp: path_name_def)
  note j = join_names_head [OF ns(2,3), of ms]
  have e: "path_join (root_of rs) (join_with [slash] ns)
      = path_clean (root_of rs @ [slash] @ join_with [slash] ns)"
    using j(2) ns(1) by (simp add: path_join_def root_of_def del: join_with.simps)
  show ?thesis
  proof (cases "rs = []")
    case False
    have "root_of rs @ [slash] @ join_with [slash] ns = root_of (rs @ ns)"
      using join_with_append [OF False assms(3), of "[slash]"] by (simp add: root_of_def)
    moreover have "path_clean (root_of (rs @ ns)) = root_of (rs @ ns)"
      unfolding root_of_def using assms by (intro path_clean_abs_names) auto
    ultimately show ?thesis using e by simp
  next
    case True
    have "split_on slash (join_with [slash] ns) = ns"
      using assms(3) by (rule split_join) (use assms(2) in \<open>simp add: path_name_def\<close>)
    then have "path_clean (slash # slash # join_with [slash] ns) = root_of ns"
      using clean_elems_names [OF assms(2), of True]
      by (simp add: path_clean_def is_abs_def root_of_def clean_elems_def clean_step_def
          del: join_with.simps)
    with e True show ?thesis by (simp add: root_of_def)
  qed
qed

lemma root_prefix:
  assumes "rs \<noteq> []" "ns \<noteq> []"
  shows "has_prefix (root_of (rs @ ns)) (root_of rs @ [slash])"
proof -
  have "root_of (rs @ ns) = (root_of rs @ [slash]) @ join_with [slash] ns"
    using join_with_append [OF assms, of "[slash]"] by (simp add: root_of_def)
  then show ?thesis by (simp only: has_prefix_append)
qed

lemma not_root_prefix:
  assumes "\<forall>f \<in> set ns. path_name f" "ns \<noteq> []"
  shows "\<not> has_prefix (root_of ns) (root_of [] @ [slash])" "root_of ns \<noteq> root_of []"
proof -
  from assms obtain n ms where "ns = n # ms" "n \<noteq> []" "slash \<notin> set n"
    by (cases ns) (auto simp: path_name_def)
  with join_names_head [of n ms]
  show "\<not> has_prefix (root_of ns) (root_of [] @ [slash])" "root_of ns \<noteq> root_of []"
    by (auto simp: root_of_def is_abs_def)
qed

text \<open>
  The keys \<open>resolve\<close> takes are the relative, non-blank ones without NUL whose clean form
  consists of names, the first not starting with two dots; the path is the root followed by
  those names.
\<close>

definition key_ok :: "string \<Rightarrow> bool" where
  "key_ok key \<longleftrightarrow> trim_space key \<noteq> [] \<and> CHR 0x00 \<notin> set key \<and> \<not> is_abs key \<and>
     key_names key \<noteq> [] \<and> \<not> has_prefix (hd (key_names key)) ''..''"

lemma key_names_shape:
  obtains ups names where "key_names key = replicate ups ''..'' @ names"
    "\<forall>f \<in> set names. path_name f"
  unfolding key_names_def by (rule clean_elems_shape)

lemma key_ok_names:
  assumes "key_ok key"
  shows "\<forall>f \<in> set (key_names key). path_name f"
proof -
  obtain ups names where k: "key_names key = replicate ups ''..'' @ names"
    "\<forall>f \<in> set names. path_name f" by (rule key_names_shape)
  with assms have "ups = 0" by (cases ups) (auto simp: key_ok_def)
  with k show ?thesis by simp
qed

lemma clean_key:
  assumes "\<not> is_abs key" "key \<noteq> []"
  shows "path_clean key = (if key_names key = [] then ''.'' else join_with [slash] (key_names key))"
  using assms by (simp add: path_clean_def key_names_def Let_def)

lemma key_rejected:
  assumes "\<not> key_ok key"
  shows "\<exists>e. resolve root key = Inl e \<and> errors_is e ErrInvalidKey"
proof (cases "trim_space key = [] \<or> CHR 0x00 \<in> set key")
  case True
  then show ?thesis by (auto simp: resolve_def ErrInvalidKey_def)
next
  case False
  then have ne: "key \<noteq> []" by auto
  have "is_abs (path_clean key) \<or> path_clean key = ''.'' \<or> has_prefix (path_clean key) ''..''"
  proof (cases "is_abs key")
    case True
    with ne show ?thesis by (auto simp: path_clean_def is_abs_def Let_def)
  next
    case rel: False
    note c = clean_key [OF rel ne]
    show ?thesis
    proof (cases "key_names key")
      case (Cons f fs)
      have "slash \<notin> set f"
      proof -
        obtain ups names where "key_names key = replicate ups ''..'' @ names"
          "\<forall>f \<in> set names. path_name f" by (rule key_names_shape)
        with Cons have "f = ''..'' \<or> path_name f" by (cases ups) auto
        then show ?thesis by (auto simp: path_name_def)
      qed
      moreover have "has_prefix f ''..''" using assms False rel Cons by (simp add: key_ok_def)
      ultimately show ?thesis using c Cons has_prefix_join by simp
    qed (use c in simp)
  qed
  with False show ?thesis
    by (simp add: resolve_def escapes_root_def ErrInvalidKey_def Let_def)
qed

lemma key_accepted:
  assumes "key_ok key" "\<forall>f \<in> set rs. path_name f"
  shows "resolve (root_of rs) key =
    (if rs = [] then Inl (escapes_root key) else Inr (root_of (rs @ key_names key)))"
proof -
  note ns = key_ok_names [OF assms(1)]
  from assms(1) have k: "trim_space key \<noteq> []" "CHR 0x00 \<notin> set key" "\<not> is_abs key"
    "key_names key \<noteq> []" "\<not> has_prefix (hd (key_names key)) ''..''" by (simp_all add: key_ok_def)
  from k(1) have ne: "key \<noteq> []" by auto
  from k(4) ns obtain f fs where f: "key_names key = f # fs" "f \<noteq> []" "slash \<notin> set f" "f \<noteq> ''.''"
    by (cases "key_names key") (auto simp: path_name_def)
  have c: "path_clean key = join_with [slash] (key_names key)"
    using clean_key [OF k(3) ne] k(4) by simp
  have "\<not> is_abs (path_clean key)" "\<not> has_prefix (path_clean key) ''..''"
    using join_names_head [OF f(2,3), of fs] k(5) has_prefix_join [OF f(3), of fs] c f(1)
    by simp_all
  moreover have "path_clean key \<noteq> ''.''"
  proof
    assume "path_clean key = ''.''"
    then have "join_with [slash] (f # fs) = ''.''" using c f(1) by simp
    with f(2,3,4) show False by (cases fs; cases f) auto
  qed
  moreover have "path_join (root_of rs) (path_clean key) = root_of (rs @ key_names key)"
    unfolding c by (rule root_join [OF assms(2) ns k(4)])
  ultimately show ?thesis
    using k(1,2) root_prefix [OF _ k(4), of rs] not_root_prefix [OF ns k(4)]
    by (simp add: resolve_def Let_def)
qed

lemma resolve_cases:
  assumes "\<forall>f \<in> set rs. path_name f"
  shows "resolve (root_of rs) key = Inr p \<longleftrightarrow>
    rs \<noteq> [] \<and> key_ok key \<and> p = root_of (rs @ key_names key)"
  using key_accepted [OF _ assms] key_rejected [of key "root_of rs"]
  by (cases "key_ok key") auto

section \<open>File system steps\<close>

type_synonym fs = "string \<rightharpoonup> string"

datatype fs_op =
    FsCreate string
  | FsAppend string string
  | FsRename string string
  | FsRemove string

fun fs_apply :: "fs \<Rightarrow> fs_op \<Rightarrow> fs" where
  "fs_apply m (FsCreate p) = m(p \<mapsto> [])"
| "fs_apply m (FsAppend p b) = (case m p of None \<Rightarrow> m | Some c \<Rightarrow> m(p \<mapsto> c @ b))"
| "fs_apply m (FsRename p q) = (case m p of None \<Rightarrow> m | Some c \<Rightarrow> (m(p := None))(q \<mapsto> c))"
| "fs_apply m (FsRemove p) = m(p := None)"

definition fs_run :: "fs_op list \<Rightarrow> fs \<Rightarrow> fs" where
  "fs_run ops m = foldl fs_apply m ops"

lemma fs_run_simps [simp]:
  "fs_run [] m = m" "fs_run (x # xs) m = fs_run xs (fs_apply m x)"
  "fs_run (xs @ ys) m = fs_run ys (fs_run xs m)"
  by (simp_all add: fs_run_def)

text \<open>
  What the operating system may do to one call: the errors it reports, the random names
  \<open>os.CreateTemp\<close> tries, the sizes of the writes \<open>io.Copy\<close> makes, where a write or a later
  read of the file breaks off, and which paths without a file are directories.
\<close>

record os_faults =
  os_mkdir :: "string \<Rightarrow> goerr option"
  os_tmp_names :: "nat list"
  os_create :: "string \<Rightarrow> goerr option"
  os_chunks :: "nat list"
  os_write :: "(nat \<times> goerr) option"
  os_close :: "goerr option"
  os_rename :: "goerr option"
  os_remove_fails :: bool
  os_open :: "string \<Rightarrow> goerr option"
  os_read :: "(nat \<times> goerr) option"
  os_is_dir :: "string \<Rightarrow> bool"

definition ErrNotExist :: goerr where
  "ErrNotExist = ENew ''fs.ErrNotExist'' ''file does not exist''"

definition ErrExist :: goerr where
  "ErrExist = ENew ''fs.ErrExist'' ''file already exists''"

text \<open>
  \<open>os.CreateTemp(dir, ".tmp-*")\<close>: random names are tried with \<open>O_EXCL\<close> until one is free,
  another error is met, or the attempts are used up.
\<close>

definition tmp_path :: "string \<Rightarrow> string \<Rightarrow> string" where
  "tmp_path dir r = dir @ (if has_suffix dir [slash] then [] else [slash]) @ ''.tmp-'' @ r"

fun create_temp ::
  "(string \<Rightarrow> goerr option) \<Rightarrow> (string \<Rightarrow> bool) \<Rightarrow> nat list \<Rightarrow> string \<Rightarrow> fs \<Rightarrow> string res" where
  "create_temp cr isdir [] dir m =
     Inl (EWrap (''createtemp '' @ tmp_path dir ''*'' @ '': '') ErrExist [])"
| "create_temp cr isdir (r # rs) dir m =
     (let p = tmp_path dir (show_nat r) in
      if m p \<noteq> None \<or> isdir p then create_temp cr isdir rs dir m
      else (case cr p of Some e \<Rightarrow> Inl e | None \<Rightarrow> Inr p))"

text \<open>The writes of \<open>io.Copy\<close>: the bytes in order, in pieces of the given sizes.\<close>

fun pieces :: "nat list \<Rightarrow> string \<Rightarrow> string list" where
  "pieces [] b = (if b = [] then [] else [b])"
| "pieces (n # ns) b = (if b = [] then [] else take n b # pieces ns (drop n b))"

definition copy_to :: "os_faults \<Rightarrow> reader \<Rightarrow> string \<times> goerr option" where
  "copy_to f r =
     (case os_write f of
        Some (n, e) \<Rightarrow> if n < length (reader_bytes r) then (take n (reader_bytes r), Some e)
                      else (reader_bytes r, reader_err r)
      | None \<Rightarrow> (reader_bytes r, reader_err r))"

section \<open>Put and Get\<close>

text \<open>
  The steps a \<open>Put\<close> makes and what it returns. The deferred removal of the temporary file
  is the last step on every path that created one.
\<close>

definition local_put ::
  "os_faults \<Rightarrow> string \<Rightarrow> goerr option \<Rightarrow> string \<Rightarrow> reader option \<Rightarrow> fs
   \<Rightarrow> goerr option \<times> fs_op list" where
  "local_put f root ce key data m =
    (case ce of Some e \<Rightarrow> (Some e, []) | None \<Rightarrow>
    (case data of
       None \<Rightarrow> (Some (EText (''localstorage: put '' @ quote key @ '': no data'')), [])
     | Some r \<Rightarrow>
    (case resolve root key of Inl e \<Rightarrow> (Some e, []) | Inr path \<Rightarrow>
    (case os_mkdir f (path_dir path) of
       Some e \<Rightarrow>
         (Some (EWrap (''localstorage: put '' @ quote key @ '': create directory: '') e []), [])
     | None \<Rightarrow>
    (case create_temp (os_create f) (os_is_dir f) (os_tmp_names f) (path_dir path) m of
       Inl e \<Rightarrow>
         (Some (EWrap (''localstorage: put '' @ quote key @ '': create temp file: '') e []), [])
     | Inr tmp \<Rightarrow>
    (let rm = (if os_remove_fails f then [] else [FsRemove tmp]) in
    (case copy_to f r of (written, cerr) \<Rightarrow>
    (let ops = FsCreate tmp # map (FsAppend tmp) (pieces (os_chunks f) written) in
    (case cerr of
       Some e \<Rightarrow> (Some (EWrap (''localstorage: put '' @ quote key @ '': write: '') e []), ops @ rm)
     | None \<Rightarrow>
    (case os_close f of
       Some e \<Rightarrow> (Some (EWrap (''localstorage: put '' @ quote key @ '': close: '') e []), ops @ rm)
     | None \<Rightarrow>
    (case os_rename f of
       Some e \<Rightarrow> (Some (EWrap (''localstorage: put '' @ quote key @ '': rename: '') e []), ops @ rm)
     | None \<Rightarrow> (None, ops @ [FsRename tmp path] @ rm))))))))))))"

text \<open>
  A file that \<open>Get\<close> opened is not written again, only replaced, so its content is that at
  the opening; a directory opens too, and then does not read.
\<close>

definition local_get ::
  "os_faults \<Rightarrow> string \<Rightarrow> goerr option \<Rightarrow> string \<Rightarrow> fs \<Rightarrow> reader res" where
  "local_get f root ce key m =
    (case ce of Some e \<Rightarrow> Inl e | None \<Rightarrow>
    (case resolve root key of Inl e \<Rightarrow> Inl e | Inr path \<Rightarrow>
    (case os_open f path of
       Some e \<Rightarrow>
         if errors_is e ErrNotExist
         then Inl (EWrap (''localstorage: get '' @ quote key @ '': '') ErrNotExist [])
         else Inl (EWrap (''localstorage: get '' @ quote key @ '': '') e [])
     | None \<Rightarrow>
    (case m path of
       Some b \<Rightarrow>
         (case os_read f of
            Some (n, e) \<Rightarrow> if n < length b then Inr (Reader (take n b) (Some e)) else Inr (Reader b None)
          | None \<Rightarrow> Inr (Reader b None))
     | None \<Rightarrow>
         if os_is_dir f path
         then Inr (Reader [] (Some (EText (''read '' @ path @ '': is a directory''))))
         else Inl (EWrap (''localstorage: get '' @ quote key @ '': '') ErrNotExist [])))))"

section \<open>What Put does to the file system\<close>

lemma concat_pieces: "concat (pieces ns b) = b"
  by (induction ns b rule: pieces.induct) auto

lemma create_temp_fresh:
  "create_temp cr isdir rs dir m = Inr p \<Longrightarrow> \<exists>r \<in> set rs. p = tmp_path dir (show_nat r) \<and> m p = None"
  by (induction cr isdir rs dir m rule: create_temp.induct)
    (auto simp: Let_def split: if_splits option.splits)

lemma fs_run_appends:
  "m p = Some c \<Longrightarrow> fs_run (map (FsAppend p) bs) m = m(p \<mapsto> c @ concat bs)"
  by (induction bs arbitrary: m c) auto

lemma fs_run_write:
  "fs_run (FsCreate p # map (FsAppend p) (pieces ns b)) m = m(p \<mapsto> b)"
  using fs_run_appends [of "m(p \<mapsto> [])" p "[]" "pieces ns b"] by (simp add: concat_pieces)

text \<open>The two shapes a non-empty list of steps has.\<close>

lemma local_put_cases:
  assumes "local_put f root ce key data m = (x, ops)"
  obtains
    (nothing) e where "x = Some e" "ops = []"
  | (wrote) r path dir suffix written e where "data = Some r" "resolve root key = Inr path"
      "dir = path_dir path" "suffix \<in> set (os_tmp_names f)" "m (tmp_path dir (show_nat suffix)) = None"
      "x = Some e"
      "ops = (FsCreate (tmp_path dir (show_nat suffix)) #
              map (FsAppend (tmp_path dir (show_nat suffix))) (pieces (os_chunks f) written)) @
             (if os_remove_fails f then [] else [FsRemove (tmp_path dir (show_nat suffix))])"
  | (replaced) b path dir suffix where "data = Some (Reader b None)"
      "resolve root key = Inr path" "dir = path_dir path"
      "suffix \<in> set (os_tmp_names f)" "m (tmp_path dir (show_nat suffix)) = None" "x = None"
      "ops = (FsCreate (tmp_path dir (show_nat suffix)) #
              map (FsAppend (tmp_path dir (show_nat suffix))) (pieces (os_chunks f) b)) @
             [FsRename (tmp_path dir (show_nat suffix)) path] @
             (if os_remove_fails f then [] else [FsRemove (tmp_path dir (show_nat suffix))])"
proof (cases "data = None \<or> ce \<noteq> None")
  case True
  with assms obtain e where "x = Some e" "ops = []" by (auto simp: local_put_def split: option.splits)
    then show ?thesis by (rule nothing)
next
  case False
  then obtain r where d: "data = Some r" "ce = None" by auto
  show ?thesis
  proof (cases "resolve root key")
    case (Inl e)
    with assms d obtain e where "x = Some e" "ops = []" by (auto simp: local_put_def)
    then show ?thesis by (rule nothing)
  next
    case path: (Inr path)
    show ?thesis
    proof (cases "os_mkdir f (path_dir path)")
      case (Some e)
      with assms d path obtain e where "x = Some e" "ops = []" by (auto simp: local_put_def)
    then show ?thesis by (rule nothing)
    next
      case mk: None
      show ?thesis
      proof (cases "create_temp (os_create f) (os_is_dir f) (os_tmp_names f) (path_dir path) m")
        case (Inl e)
        with assms d path mk obtain e where "x = Some e" "ops = []" by (auto simp: local_put_def)
    then show ?thesis by (rule nothing)
      next
        case (Inr tmp)
        from create_temp_fresh [OF this] obtain s where
          s: "s \<in> set (os_tmp_names f)" "tmp = tmp_path (path_dir path) (show_nat s)" "m tmp = None" by auto
        obtain written cerr where c: "copy_to f r = (written, cerr)" by fastforce
        show ?thesis
        proof (cases "x = None")
          case True
          with assms d path mk Inr c have "cerr = None"
            "ops = (FsCreate tmp # map (FsAppend tmp) (pieces (os_chunks f) written)) @
                   [FsRename tmp path] @ (if os_remove_fails f then [] else [FsRemove tmp])"
            by (auto simp: local_put_def Let_def split: option.splits)
          moreover from c this(1) have "r = Reader written None"
            by (cases r) (auto simp: copy_to_def split: option.splits if_splits)
          ultimately show ?thesis
            using d path s True by (intro replaced [of written path "path_dir path" s]) simp_all
        next
          case False
          with assms d path mk Inr c have
            "ops = (FsCreate tmp # map (FsAppend tmp) (pieces (os_chunks f) written)) @
                   (if os_remove_fails f then [] else [FsRemove tmp])"
            by (auto simp: local_put_def Let_def split: option.splits)
          with d path s False show ?thesis
            by (auto intro: wrote [of r path "path_dir path" s _ written])
        qed
      qed
    qed
  qed
qed

text \<open>Names the store keeps for itself: those of its temporary files.\<close>

definition tmp_name :: "string \<Rightarrow> bool" where
  "tmp_name p \<longleftrightarrow> has_prefix (last (split_on slash p)) ''.tmp-''"

lemma show_nat_digits: "c \<in> set (show_nat n) \<Longrightarrow> \<exists>d < 10. c = digit_char d"
proof (induction n rule: show_nat.induct)
  case (1 n)
  show ?case
  proof (cases "n < 10")
    case True
    with 1(2) show ?thesis by (auto simp: show_nat.simps [of n])
  next
    case False
    with 1(2) have "c \<in> set (show_nat (n div 10)) \<or> c = digit_char (n mod 10)"
      by (subst (asm) show_nat.simps) auto
    moreover have "n mod 10 < 10" by simp
    ultimately show ?thesis using 1(1) [OF False] by blast
  qed
qed

lemma slash_not_digit: "slash \<notin> set (show_nat n)"
proof
  assume "slash \<in> set (show_nat n)"
  then obtain d where "d < 10" "slash = digit_char d" by (blast dest: show_nat_digits)
  then have "(of_char slash :: nat) = 48 + d"
    by (simp only: digit_char_def of_char_of) simp
  moreover have "(of_char slash :: nat) = 47" by simp
  ultimately show False by simp
qed

lemma tmp_path_split:
  "\<exists>d. tmp_path dir r = d @ slash # ''.tmp-'' @ r"
proof (cases "has_suffix dir [slash]")
  case True
  then obtain d where "rev dir = slash # d" by (auto simp: has_suffix_def has_prefix_iff)
  then have "dir = rev d @ [slash]" by (metis rev.simps(2) rev_rev_ident)
  with True show ?thesis by (simp add: tmp_path_def)
next
  case False
  then show ?thesis by (simp add: tmp_path_def)
qed

lemma tmp_name_tmp_path: "tmp_name (tmp_path dir (show_nat n))"
proof -
  obtain d where d: "tmp_path dir (show_nat n) = d @ slash # ''.tmp-'' @ show_nat n"
    using tmp_path_split by blast
  have "split_on slash (''.tmp-'' @ show_nat n) = [''.tmp-'' @ show_nat n]"
    by (rule split_on_no_sep) (simp add: slash_not_digit)
  then have "split_on slash (tmp_path dir (show_nat n)) = split_on slash d @ [''.tmp-'' @ show_nat n]"
    unfolding d split_on_append by (rule arg_cong)
  then show ?thesis by (simp add: tmp_name_def)
qed

lemma tmp_path_other: "\<not> tmp_name p \<Longrightarrow> p \<noteq> tmp_path dir (show_nat n)"
  using tmp_name_tmp_path by blast

lemma take_within: "n \<le> length a \<Longrightarrow> take n (a @ b) = take n a"
  by simp

lemma take_beyond: "\<not> n \<le> length a \<Longrightarrow> take n (a @ b) = a @ take (n - length a) b"
  by simp

text \<open>While the temporary file is written, everything else stays as it was.\<close>

lemma fs_run_appends_other:
  "q \<noteq> p \<Longrightarrow> fs_run (map (FsAppend p) bs) m q = m q"
  by (induction bs arbitrary: m) (auto split: option.splits)

lemma write_prefix_other:
  assumes "q \<noteq> p" "n \<le> Suc (length bs)"
  shows "fs_run (take n (FsCreate p # map (FsAppend p) bs)) m q = m q"
  using assms by (cases n) (simp_all add: take_map fs_run_appends_other)

text \<open>
  At every moment of a \<open>Put\<close> a path that is not a temporary file's holds what it held
  before, or it is the object's path and holds the complete new content.
\<close>

lemma put_prefix:
  assumes "local_put f root ce key data m = (x, ops)" "\<not> tmp_name p"
  shows "fs_run (take n ops) m p = m p \<or>
         (\<exists>b. data = Some (Reader b None) \<and> resolve root key = Inr p \<and>
              fs_run (take n ops) m p = Some b \<and> x = None)"
  using assms(1)
proof (cases rule: local_put_cases)
  case nothing
  then show ?thesis by simp
next
  case (wrote r path dir suffix written e)
  let ?t = "tmp_path dir (show_nat suffix)"
  let ?w = "FsCreate ?t # map (FsAppend ?t) (pieces (os_chunks f) written)"
  have p: "p \<noteq> ?t" by (rule tmp_path_other [OF assms(2)])
  show ?thesis
  proof (cases "n \<le> length ?w")
    case True
    have "take n ops = take n ?w" unfolding wrote(7) by (rule take_within [OF True])
    with True write_prefix_other [OF p, of n "pieces (os_chunks f) written" m] show ?thesis by simp
  next
    case False
    have t: "take n ops = ?w @ take (n - length ?w) (if os_remove_fails f then [] else [FsRemove ?t])"
      unfolding wrote(7) by (rule take_beyond [OF False])
    have "fs_run (take n ops) m p = m p"
      unfolding t fs_run_simps(3) fs_run_write by (cases "n - length ?w") (use p in auto)
    then show ?thesis ..
  qed
next
  case (replaced b path dir suffix)
  let ?t = "tmp_path dir (show_nat suffix)"
  let ?w = "FsCreate ?t # map (FsAppend ?t) (pieces (os_chunks f) b)"
  let ?rest = "[FsRename ?t path] @ (if os_remove_fails f then [] else [FsRemove ?t])"
  have p: "p \<noteq> ?t" by (rule tmp_path_other [OF assms(2)])
  show ?thesis
  proof (cases "n \<le> length ?w")
    case True
    have "take n ops = take n ?w" unfolding replaced(7) by (rule take_within [OF True])
    with True write_prefix_other [OF p, of n "pieces (os_chunks f) b" m] show ?thesis by simp
  next
    case False
    then obtain k where k: "n = length ?w + Suc k" by (metis less_imp_Suc_add not_le add_Suc_right)
    have t: "take n ops = ?w @ FsRename ?t path # take k (if os_remove_fails f then [] else [FsRemove ?t])"
      unfolding replaced(7) take_beyond [OF False] by (simp add: k)
    have "fs_run (take n ops) m p = (if p = path then Some b else m p)"
      unfolding t fs_run_simps(3) fs_run_write
      using p by (cases k) auto
    with replaced(1,2,6) show ?thesis by auto
  qed
qed

lemma put_success:
  assumes "local_put f root ce key data m = (None, ops)" "\<not> tmp_name p"
  shows "\<exists>b. data = Some (Reader b None) \<and>
             fs_run ops m p = (if resolve root key = Inr p then Some b else m p)"
  using assms(1)
proof (cases rule: local_put_cases)
  case (replaced b path dir suffix)
  have p: "p \<noteq> tmp_path dir (show_nat suffix)" by (rule tmp_path_other [OF assms(2)])
  show ?thesis
    unfolding replaced(7) fs_run_simps(3) fs_run_write
    using p replaced(1,2) by auto
qed simp_all

lemma put_failure:
  assumes "local_put f root ce key data m = (Some e, ops)"
  shows "(\<not> tmp_name p \<longrightarrow> fs_run ops m p = m p) \<and> (\<not> os_remove_fails f \<longrightarrow> fs_run ops m = m)"
  using assms
proof (cases rule: local_put_cases)
  case nothing
  then show ?thesis by simp
next
  case (wrote r path dir suffix written e)
  have "\<not> tmp_name p \<Longrightarrow> p \<noteq> tmp_path dir (show_nat suffix)" by (rule tmp_path_other)
  with wrote(5) show ?thesis unfolding wrote(7) fs_run_simps(3) fs_run_write by auto
qed simp_all

section \<open>Properties\<close>

text \<open>
  C19: \<open>resolve\<close> confines every key to the storage root. Below a root other than \<open>/\<close> it accepts
  exactly the keys of \<open>key_ok\<close>, and gives the root followed by the names the key cleans to, none
  of which is empty, a dot element or contains a separator; it refuses every other key with
  \<open>ErrInvalidKey\<close>. With the file system's own root it refuses every key.
\<close>

theorem resolve_confines:
  assumes "\<forall>f \<in> set rs. path_name f"
  shows "case resolve (root_of rs) key of
     Inr p \<Rightarrow> rs \<noteq> [] \<and> key_ok key \<and> p = root_of (rs @ key_names key) \<and>
             has_prefix p (root_of rs @ [slash]) \<and> list_all path_name (key_names key)
   | Inl e \<Rightarrow> errors_is e ErrInvalidKey \<and> \<not> (rs \<noteq> [] \<and> key_ok key)"
proof (cases "key_ok key")
  case False
  then show ?thesis using key_rejected [OF False, of "root_of rs"] by auto
next
  case True
  note names = key_ok_names [OF True]
  from True have ne: "key_names key \<noteq> []" by (simp add: key_ok_def)
  show ?thesis
  proof (cases "rs = []")
    case rs: True
    then show ?thesis
      using key_accepted [OF True assms] by (simp add: escapes_root_def ErrInvalidKey_def)
  next
    case False
    then show ?thesis
      using key_accepted [OF True assms] names True root_prefix [OF False ne]
      by (simp add: list_all_iff)
  qed
qed

theorem resolve_confines_witness:
  "resolve ''/data'' ''../etc/passwd'' \<noteq> Inr ''/etc/passwd'' \<and>
   resolve ''/data'' ''a/../b'' = Inr ''/data/b''"
proof -
  have n: "\<forall>f \<in> set [''data'']. path_name f" by (simp add: path_name_def)
  have r: "root_of [''data''] = ''/data''" by (simp add: root_of_def)
  have "\<not> has_prefix ''/etc/passwd'' (root_of [''data''] @ [slash])" by (simp add: r)
  then have "resolve ''/data'' ''../etc/passwd'' \<noteq> Inr ''/etc/passwd''"
    using resolve_confines [OF n, of "''../etc/passwd''"] unfolding r
    by (auto split: sum.splits)
  moreover have "resolve ''/data'' ''a/../b'' = Inr ''/data/b''" by code_simp
  ultimately show ?thesis ..
qed

text \<open>
  C20: \<open>Put\<close> is atomic for readers. After any number of its file system steps, whatever fails,
  a path that is not a temporary file's holds what it held before, or it is the path of the
  key and holds the complete new content.
\<close>

theorem put_atomic:
  assumes "local_put f root ce key data m = (x, ops)" "\<not> tmp_name p"
  shows "fs_run (take n ops) m p = m p \<or>
    (\<exists>b. data = Some (Reader b None) \<and> resolve root key = Inr p \<and> fs_run (take n ops) m p = Some b)"
  using put_prefix [OF assms] by blast

definition sample_faults :: os_faults where
  "sample_faults =
     \<lparr>os_mkdir = \<lambda>p. None, os_tmp_names = [7, 8], os_create = \<lambda>p. None, os_chunks = [2],
      os_write = None, os_close = None, os_rename = None, os_remove_fails = False,
      os_open = \<lambda>p. None, os_read = None, os_is_dir = \<lambda>p. False\<rparr>"

lemma sample_put:
  "fst (local_put sample_faults ''/data'' None ''a/b'' (Some (Reader ''pixels'' None)) Map.empty) = None"
  by code_simp

theorem put_atomic_witness:
  "\<exists>ops. fs_run (take 3 ops) Map.empty ''/data/a/b'' \<in> {None, Some ''pixels''} \<and>
     local_put sample_faults ''/data'' None ''a/b'' (Some (Reader ''pixels'' None)) Map.empty = (None, ops)"
proof -
  obtain ops where p: "local_put sample_faults ''/data'' None ''a/b'' (Some (Reader ''pixels'' None)) Map.empty
      = (None, ops)" using sample_put by (metis prod.collapse)
  moreover have "\<not> tmp_name ''/data/a/b''" by (simp add: tmp_name_def)
  ultimately show ?thesis using put_atomic [OF p, of "''/data/a/b''" 3] by auto
qed

text \<open>
  What a finished \<open>Put\<close> left. Success: the key's path holds exactly the bytes of the
  reader, which ended without an error, and no other object changed. Failure: no object
  changed, and unless the removal itself failed no temporary file is left.
\<close>

theorem put_outcome:
  assumes "local_put f root ce key data m = (x, ops)"
  shows "case x of
     None \<Rightarrow> \<exists>b. data = Some (Reader b None) \<and>
               (\<forall>p. tmp_name p \<or> fs_run ops m p = (if resolve root key = Inr p then Some b else m p))
   | Some e \<Rightarrow> (\<forall>p. tmp_name p \<or> fs_run ops m p = m p) \<and> (os_remove_fails f \<or> fs_run ops m = m)"
proof (cases x)
  case None
  have "\<not> tmp_name []" by (simp add: tmp_name_def)
  from put_success [OF assms [unfolded None] this] obtain b where "data = Some (Reader b None)" by blast
  with put_success [OF assms [unfolded None]] None show ?thesis by fastforce
next
  case (Some e)
  with put_failure [OF assms [unfolded Some]] show ?thesis by auto
qed

theorem put_outcome_witness:
  "\<exists>ops. fs_run ops Map.empty ''/data/a/b'' = Some ''pixels'' \<and>
     local_put sample_faults ''/data'' None ''a/b'' (Some (Reader ''pixels'' None)) Map.empty = (None, ops)"
proof -
  obtain ops where p: "local_put sample_faults ''/data'' None ''a/b'' (Some (Reader ''pixels'' None)) Map.empty
      = (None, ops)" using sample_put by (metis prod.collapse)
  have "\<not> tmp_name ''/data/a/b''" by (simp add: tmp_name_def)
  moreover have "resolve ''/data'' ''a/b'' = Inr ''/data/a/b''" by code_simp
  ultimately have "fs_run ops Map.empty ''/data/a/b'' = Some ''pixels''"
    using put_outcome [OF p] by auto
  with p show ?thesis by blast
qed

end
