(* ===== verification/Geometry.thy ===== *)
theory Geometry
  imports Domain
begin

text \<open>
  The size arithmetic of \<open>internal/adapters/imageproc/imageproc.go\<close>: target sizes,
  thumbnails, watermark boxes, on Go's wrapping \<open>int\<close>. A result \<open>None\<close> is a run-time
  panic (division by zero); \<open>Some (Inl e)\<close> is a returned error.
\<close>

section \<open>Definitions\<close>

definition ErrUnsupportedFormat :: goerr where
  "ErrUnsupportedFormat = ENew ''imageproc.ErrUnsupportedFormat'' ''unsupported output format''"
definition ErrEmptySource :: goerr where
  "ErrEmptySource = ENew ''imageproc.ErrEmptySource'' ''source image has no dimensions''"
definition ErrNoTargetSize :: goerr where
  "ErrNoTargetSize = ENew ''imageproc.ErrNoTargetSize'' ''resize requires a width or a height''"
definition ErrInvalidMaxDimension :: goerr where
  "ErrInvalidMaxDimension =
     ENew ''imageproc.ErrInvalidMaxDimension'' ''thumbnail requires a positive maximum dimension''"

lemmas imageproc_errs [go_errors] =
  ErrUnsupportedFormat_def ErrEmptySource_def ErrNoTargetSize_def ErrInvalidMaxDimension_def

definition scale_dimension :: "int \<Rightarrow> int \<Rightarrow> int \<Rightarrow> int option" where
  "scale_dimension value reference target =
     quo (i64 (i64 (value * target) + tdiv reference 2)) reference"

definition at_least_one :: "int \<Rightarrow> int" where
  "at_least_one v = (if v < 1 then 1 else v)"

definition empty_source :: "int \<Rightarrow> int \<Rightarrow> goerr" where
  "empty_source srcW srcH =
     EWrap [] ErrEmptySource ('': source is '' @ itoa srcW @ ''x'' @ itoa srcH)"

definition target_size ::
  "int \<Rightarrow> int \<Rightarrow> int \<Rightarrow> int \<Rightarrow> bool \<Rightarrow> (int \<times> int) res option" where
  "target_size srcW srcH wantW wantH keepAspect =
     (if srcW \<le> 0 \<or> srcH \<le> 0 then Some (Inl (empty_source srcW srcH))
      else if wantW \<le> 0 \<and> wantH \<le> 0 then Some (Inl ErrNoTargetSize)
      else if wantW \<le> 0 then
        map_option (\<lambda>w. Inr (at_least_one w, at_least_one wantH)) (scale_dimension srcW srcH wantH)
      else if wantH \<le> 0 then
        map_option (\<lambda>h. Inr (at_least_one wantW, at_least_one h)) (scale_dimension srcH srcW wantW)
      else if \<not> keepAspect then Some (Inr (at_least_one wantW, at_least_one wantH))
      else if i64 (srcW * wantH) \<le> i64 (srcH * wantW) then
        map_option (\<lambda>w. Inr (at_least_one w, at_least_one wantH)) (scale_dimension srcW srcH wantH)
      else
        map_option (\<lambda>h. Inr (at_least_one wantW, at_least_one h)) (scale_dimension srcH srcW wantW))"

definition thumbnail_size :: "int \<Rightarrow> int \<Rightarrow> int \<Rightarrow> (int \<times> int) res option" where
  "thumbnail_size srcW srcH maxDim =
     (if srcW \<le> 0 \<or> srcH \<le> 0 then Some (Inl (empty_source srcW srcH))
      else if maxDim \<le> 0 then
        Some (Inl (EWrap [] ErrInvalidMaxDimension ('': got '' @ itoa maxDim)))
      else if srcW \<le> maxDim \<and> srcH \<le> maxDim then Some (Inr (srcW, srcH))
      else if srcW \<ge> srcH then
        map_option (\<lambda>h. Inr (maxDim, at_least_one h)) (scale_dimension srcH srcW maxDim)
      else
        map_option (\<lambda>w. Inr (at_least_one w, maxDim)) (scale_dimension srcW srcH maxDim))"

definition watermark_box :: "int \<Rightarrow> int \<Rightarrow> int \<times> int \<times> int \<times> int" where
  "watermark_box w h =
     (at_least_one (tdiv w 2), at_least_one (tdiv h 12),
      at_least_one (tdiv w 40), at_least_one (tdiv h 40))"

definition normalize_format :: "string \<Rightarrow> format res" where
  "normalize_format f =
     (if \<not> format_valid f then Inl (EWrap [] ErrUnsupportedFormat ('': '' @ quote f)) else Inr f)"

section \<open>Rounding\<close>

text \<open>\<open>(n + r div 2) div r\<close> is \<open>n / r\<close> rounded to nearest.\<close>

lemma round_div_nearest:
  fixes n r :: int
  assumes "0 < r"
  shows "2 * \<bar>((n + r div 2) div r) * r - n\<bar> \<le> r"
proof -
  define m where "m = (n + r div 2) mod r"
  have m: "0 \<le> m" "m < r" using assms by (simp_all add: m_def)
  have "((n + r div 2) div r) * r = n + r div 2 - m"
    by (simp add: m_def minus_mod_eq_div_mult)
  moreover have "2 * (r div 2) \<le> r" "r \<le> 2 * (r div 2) + 1" by presburger+
  ultimately show ?thesis using m unfolding abs_if by (simp split: if_split)
qed

lemma round_div_le:
  fixes n r k :: int
  assumes "0 < r" "n \<le> r * k"
  shows "(n + r div 2) div r \<le> k"
proof -
  have "(n + r div 2) div r \<le> (r div 2 + r * k) div r"
    using assms by (intro zdiv_mono1) auto
  also have "\<dots> = k + (r div 2) div r" using assms by simp
  also have "(r div 2) div r = 0" using assms by (intro div_pos_pos_trivial) auto
  finally show ?thesis by simp
qed

section \<open>The size functions\<close>

text \<open>A side of a decodable image: a PNG's is below \<open>2 ^ 31\<close>, the other formats' are smaller.\<close>

definition image_side :: "int \<Rightarrow> bool" where
  "image_side n \<longleftrightarrow> 0 < n \<and> n < 2 ^ 31"

lemma image_side_mult:
  assumes "image_side a" "image_side b"
  shows "0 \<le> a * b" "a * b \<le> (2 ^ 31 - 1) * (2 ^ 31 - 1)"
  using assms mult_mono [of a "2 ^ 31 - 1" b "2 ^ 31 - 1"] by (auto simp: image_side_def)

lemma scale_dimension_exact:
  assumes "image_side v" "image_side r" "image_side t"
  shows "scale_dimension v r t = Some ((v * t + r div 2) div r)"
proof -
  note vt = image_side_mult [OF assms(1,3)]
  have r: "0 < r" "r < 2 ^ 31" using assms by (auto simp: image_side_def)
  have half: "tdiv r 2 = r div 2" using r by (simp add: tdiv_nonneg in_i64_def)
  have b: "0 \<le> r div 2" "r div 2 < 2 ^ 31" using r by auto
  have "in_i64 (v * t)" "in_i64 (v * t + r div 2)"
    using vt b by (simp_all add: in_i64_def)
  then show ?thesis
    using vt b r half by (simp add: scale_dimension_def quo_nonneg)
qed

lemma scale_dimension_returns: "r \<noteq> 0 \<Longrightarrow> \<exists>d. scale_dimension v r t = Some d"
  by (simp add: scale_dimension_def quo_Some)

lemma at_least_one_ge [simp]: "1 \<le> at_least_one v"
  by (simp add: at_least_one_def)

lemma at_least_one_id [simp]: "1 \<le> v \<Longrightarrow> at_least_one v = v"
  by (simp add: at_least_one_def)

lemma at_least_one_le: "v \<le> k \<Longrightarrow> 1 \<le> k \<Longrightarrow> at_least_one v \<le> k"
  by (simp add: at_least_one_def)

text \<open>
  A side \<open>d\<close> derived from a source of \<open>num\<close> by \<open>den\<close> pixels so that \<open>den\<close> becomes
  \<open>want\<close>: the nearest whole number of pixels, and at least one.
\<close>

definition nearest_side :: "int \<Rightarrow> int \<Rightarrow> int \<Rightarrow> int \<Rightarrow> bool" where
  "nearest_side num den want d \<longleftrightarrow>
     (\<exists>q. 2 * \<bar>q * den - num * want\<bar> \<le> den \<and> d = at_least_one q)"

lemma scale_dimension_nearest:
  assumes "image_side num" "image_side den" "image_side want"
    "scale_dimension num den want = Some q"
  shows "nearest_side num den want (at_least_one q)"
  using assms round_div_nearest [of den "num * want"]
  by (auto simp: nearest_side_def scale_dimension_exact image_side_def)

lemma image_side_cmp:
  assumes "image_side a" "image_side b" "image_side c" "image_side d"
  shows "i64 (a * b) \<le> i64 (c * d) \<longleftrightarrow> a * b \<le> c * d"
  using image_side_mult [OF assms(1,2)] image_side_mult [OF assms(3,4)]
  by (simp add: in_i64_def)

lemma target_size_fit_width:
  assumes "image_side srcW" "image_side srcH" "image_side wantW" "image_side wantH"
    "srcW * wantH \<le> srcH * wantW"
  shows "\<exists>w. target_size srcW srcH wantW wantH True = Some (Inr (w, wantH)) \<and>
             1 \<le> w \<and> w \<le> wantW \<and> nearest_side srcW srcH wantH w"
proof -
  let ?q = "(srcW * wantH + srcH div 2) div srcH"
  have q: "scale_dimension srcW srcH wantH = Some ?q"
    using assms by (intro scale_dimension_exact)
  have pos: "0 < srcW" "0 < srcH" "0 < wantW" "0 < wantH"
    using assms by (auto simp: image_side_def)
  have "?q \<le> wantW" using pos assms(5) by (intro round_div_le)
  then have "at_least_one ?q \<le> wantW" using pos by (intro at_least_one_le) auto
  moreover have "nearest_side srcW srcH wantH (at_least_one ?q)"
    using assms q by (intro scale_dimension_nearest)
  ultimately show ?thesis
    using pos q assms image_side_cmp [OF assms(1,4,2,3)]
    by (simp add: target_size_def)
qed

lemma target_size_fit_height:
  assumes "image_side srcW" "image_side srcH" "image_side wantW" "image_side wantH"
    "srcH * wantW < srcW * wantH"
  shows "\<exists>h. target_size srcW srcH wantW wantH True = Some (Inr (wantW, h)) \<and>
             1 \<le> h \<and> h \<le> wantH \<and> nearest_side srcH srcW wantW h"
proof -
  let ?q = "(srcH * wantW + srcW div 2) div srcW"
  have q: "scale_dimension srcH srcW wantW = Some ?q"
    using assms by (intro scale_dimension_exact)
  have pos: "0 < srcW" "0 < srcH" "0 < wantW" "0 < wantH"
    using assms by (auto simp: image_side_def)
  have "?q \<le> wantH" using pos assms(5) by (intro round_div_le) auto
  then have "at_least_one ?q \<le> wantH" using pos by (intro at_least_one_le) auto
  moreover have "nearest_side srcH srcW wantW (at_least_one ?q)"
    using assms q by (intro scale_dimension_nearest)
  ultimately show ?thesis
    using pos q assms image_side_cmp [OF assms(1,4,2,3)]
    by (simp add: target_size_def)
qed

lemma target_size_positive:
  "target_size srcW srcH wantW wantH k = Some (Inr (w, h)) \<Longrightarrow> 1 \<le> w \<and> 1 \<le> h"
  by (auto simp: target_size_def split: if_splits)

lemma target_size_returns: "target_size srcW srcH wantW wantH k \<noteq> None"
  using scale_dimension_returns [of srcH srcW wantH] scale_dimension_returns [of srcW srcH wantW]
  by (auto simp: target_size_def)

lemma thumbnail_size_returns: "thumbnail_size srcW srcH m \<noteq> None"
  using scale_dimension_returns [of srcW srcH m] scale_dimension_returns [of srcH srcW m]
  by (auto simp: thumbnail_size_def)

lemma thumbnail_wide:
  assumes "image_side srcW" "image_side srcH" "image_side m" "m < srcW" "srcH \<le> srcW"
  shows "\<exists>h. thumbnail_size srcW srcH m = Some (Inr (m, h)) \<and> 1 \<le> h \<and> h \<le> m \<and> h \<le> srcH \<and>
             nearest_side srcH srcW m h"
proof -
  let ?q = "(srcH * m + srcW div 2) div srcW"
  have q: "scale_dimension srcH srcW m = Some ?q"
    using assms by (intro scale_dimension_exact)
  have pos: "0 < srcW" "0 < srcH" "0 < m" using assms by (auto simp: image_side_def)
  have "srcH * m \<le> srcW * m" "srcH * m \<le> srcW * srcH"
    using pos assms(4,5) by (auto simp: mult.commute [of srcW srcH])
  then have "?q \<le> m" "?q \<le> srcH" using pos by (auto intro!: round_div_le)
  then have "at_least_one ?q \<le> m" "at_least_one ?q \<le> srcH"
    using pos by (auto intro!: at_least_one_le)
  moreover have "nearest_side srcH srcW m (at_least_one ?q)"
    using assms q by (intro scale_dimension_nearest)
  ultimately show ?thesis using pos q assms by (simp add: thumbnail_size_def)
qed

lemma thumbnail_tall:
  assumes "image_side srcW" "image_side srcH" "image_side m" "m < srcH" "srcW < srcH"
  shows "\<exists>w. thumbnail_size srcW srcH m = Some (Inr (w, m)) \<and> 1 \<le> w \<and> w \<le> m \<and> w \<le> srcW \<and>
             nearest_side srcW srcH m w"
proof -
  let ?q = "(srcW * m + srcH div 2) div srcH"
  have q: "scale_dimension srcW srcH m = Some ?q"
    using assms by (intro scale_dimension_exact)
  have pos: "0 < srcW" "0 < srcH" "0 < m" using assms by (auto simp: image_side_def)
  have "srcW * m \<le> srcH * m" "srcW * m \<le> srcH * srcW"
    using pos assms(4,5) by (auto simp: mult.commute [of srcH srcW])
  then have "?q \<le> m" "?q \<le> srcW" using pos by (auto intro!: round_div_le)
  then have "at_least_one ?q \<le> m" "at_least_one ?q \<le> srcW"
    using pos by (auto intro!: at_least_one_le)
  moreover have "nearest_side srcW srcH m (at_least_one ?q)"
    using assms q by (intro scale_dimension_nearest)
  ultimately show ?thesis using pos q assms by (simp add: thumbnail_size_def)
qed

section \<open>Properties\<close>

text \<open>
  C16: fitting an image into a box (both sides wanted, aspect ratio kept) yields a size inside
  the box that touches it on one side, the other side being the source's proportion rounded
  to the nearest pixel, and at least one.
\<close>

theorem target_size_fits:
  assumes "image_side srcW" "image_side srcH" "image_side wantW" "image_side wantH"
  shows "\<exists>w h. target_size srcW srcH wantW wantH True = Some (Inr (w, h)) \<and>
    1 \<le> w \<and> w \<le> wantW \<and> 1 \<le> h \<and> h \<le> wantH \<and>
    (h = wantH \<and> nearest_side srcW srcH wantH w \<or> w = wantW \<and> nearest_side srcH srcW wantW h)"
proof (cases "srcW * wantH \<le> srcH * wantW")
  case True
  from target_size_fit_width [OF assms True] assms(4) show ?thesis by (auto simp: image_side_def)
next
  case False
  then have "srcH * wantW < srcW * wantH" by simp
  from target_size_fit_height [OF assms this] assms(3) show ?thesis by (auto simp: image_side_def)
qed

theorem target_size_fits_witness:
  "\<exists>w h. target_size 4000 3000 800 800 True = Some (Inr (w, h)) \<and> 1 \<le> w \<and> w \<le> 800 \<and> h \<le> 800"
proof -
  have "image_side 4000" "image_side 3000" "image_side 800" by (simp_all add: image_side_def)
  from target_size_fits [OF this(1,2,3,3)] show ?thesis by blast
qed

text \<open>
  With one side wanted the other is the source's proportion rounded to the nearest pixel,
  and at least one; with both wanted and no aspect ratio to keep the size is the one wanted.
\<close>

theorem target_size_derives:
  assumes "image_side srcW" "image_side srcH" "image_side want"
  shows "(\<exists>w. target_size srcW srcH 0 want True = Some (Inr (w, want)) \<and> nearest_side srcW srcH want w) \<and>
    (\<exists>h. target_size srcW srcH want 0 True = Some (Inr (want, h)) \<and> nearest_side srcH srcW want h) \<and>
    target_size srcW srcH want want False = Some (Inr (want, want))"
proof -
  have "0 < srcW" "0 < srcH" "1 \<le> want" using assms by (auto simp: image_side_def)
  moreover obtain q where "scale_dimension srcW srcH want = Some q"
    using scale_dimension_exact [OF assms] by blast
  moreover obtain r where "scale_dimension srcH srcW want = Some r"
    using scale_dimension_exact [OF assms(2,1,3)] by blast
  ultimately show ?thesis
    using scale_dimension_nearest [OF assms] scale_dimension_nearest [OF assms(2,1,3)]
    by (simp add: target_size_def)
qed

theorem target_size_derives_witness: "\<exists>w. target_size 30000 7 0 5 True = Some (Inr (w, 5))"
proof -
  have "image_side 30000" "image_side 7" "image_side 5" by (simp_all add: image_side_def)
  from target_size_derives [OF this] show ?thesis by blast
qed

text \<open>
  A thumbnail is the image itself when it is within the bound, and otherwise an image
  whose longest side is the bound, no side longer than the source's.
\<close>

theorem thumbnail_bounds:
  assumes "image_side srcW" "image_side srcH" "image_side m"
  shows "\<exists>w h. thumbnail_size srcW srcH m = Some (Inr (w, h)) \<and>
    1 \<le> w \<and> w \<le> srcW \<and> 1 \<le> h \<and> h \<le> srcH \<and>
    max w h = min m (max srcW srcH)"
proof -
  have pos: "1 \<le> srcW" "1 \<le> srcH" "1 \<le> m" using assms by (auto simp: image_side_def)
  consider "srcW \<le> m \<and> srcH \<le> m" | "m < srcW \<and> srcH \<le> srcW" | "m < srcH \<and> srcW < srcH"
    by linarith
  then show ?thesis
  proof cases
    case 1
    with pos show ?thesis by (simp add: thumbnail_size_def)
  next
    case 2
    with thumbnail_wide [OF assms] pos show ?thesis by (force simp: max_def min_def)
  next
    case 3
    with thumbnail_tall [OF assms] pos show ?thesis by (force simp: max_def min_def)
  qed
qed

theorem thumbnail_bounds_witness:
  "\<exists>w h. thumbnail_size 4000 3000 256 = Some (Inr (w, h)) \<and> max w h = 256"
proof -
  have "image_side 4000" "image_side 3000" "image_side 256" by (simp_all add: image_side_def)
  moreover have "min 256 (max 4000 3000) = (256::int)" by simp
  ultimately show ?thesis using thumbnail_bounds [of 4000 3000 256] by metis
qed

definition proper_size :: "(int \<times> int) res option \<Rightarrow> bool" where
  "proper_size r =
     (case r of
        None \<Rightarrow> False
      | Some (Inl e) \<Rightarrow> True
      | Some (Inr (w, h)) \<Rightarrow> 1 \<le> w \<and> 1 \<le> h)"

lemma thumbnail_size_proper: "proper_size (thumbnail_size srcW srcH m)"
  using scale_dimension_returns [of srcW srcH m] scale_dimension_returns [of srcH srcW m]
  by (auto simp: thumbnail_size_def proper_size_def)

lemma target_size_proper: "proper_size (target_size srcW srcH wantW wantH k)"
  using target_size_returns [of srcW srcH wantW wantH k] target_size_positive [of srcW srcH wantW wantH k]
  by (auto simp: proper_size_def split: option.splits sum.splits)

text \<open>
  The size functions never panic: on any 64-bit inputs they return an error or a size with
  positive sides.
\<close>

theorem sizes_never_panic:
  "proper_size (target_size srcW srcH wantW wantH keepAspect) \<and> proper_size (thumbnail_size srcW srcH m)"
  by (simp add: target_size_proper thumbnail_size_proper)

end
