(* ===== verification/Pipeline.thy ===== *)
theory Pipeline
  imports Geometry Ports
begin

text \<open>
  \<open>internal/adapters/imageproc\<close>: the transformation pipeline \<open>Process\<close>, written once over the
  operations a backend offers on an image, and the pure-Go backend (\<open>purego.go\<close>). The codecs
  and the pixel arithmetic are library code and a parameter, \<open>pixel_lib\<close>. The world of a
  backend counts the decoded images it holds. Tracing spans do not affect what the pipeline
  returns and are left out.
\<close>

section \<open>Settings\<close>

record config =
  watermarkText :: string
  fontName :: string

datatype img_option = WithWatermarkText string | WithFont string

fun apply_img_option :: "img_option \<Rightarrow> config \<Rightarrow> config" where
  "apply_img_option (WithWatermarkText text) c = (if text \<noteq> [] then c\<lparr>watermarkText := text\<rparr> else c)"
| "apply_img_option (WithFont name) c = (if name \<noteq> [] then c\<lparr>fontName := name\<rparr> else c)"

definition DefaultWatermarkText :: string where
  "DefaultWatermarkText = ''ImageForge''"

definition new_config :: "img_option list \<Rightarrow> config" where
  "new_config opts =
     foldl (\<lambda>c opt. apply_img_option opt c)
       \<lparr>watermarkText = DefaultWatermarkText, fontName = ''sans 12''\<rparr> opts"

section \<open>The pipeline\<close>

text \<open>
  What a backend does with an image \<open>'i\<close>. The resize computes sizes with machine division:
  \<open>None\<close> would be a run-time panic. An operation that fails leaves the image to be closed.
\<close>

record ('i, 'w) img_ops =
  op_open :: "reader \<Rightarrow> 'w \<Rightarrow> 'i res \<times> 'w"
  op_close :: "'i \<Rightarrow> 'w \<Rightarrow> 'w"
  op_strip :: "'i \<Rightarrow> 'i res"
  op_resize :: "int \<Rightarrow> int \<Rightarrow> bool \<Rightarrow> 'i \<Rightarrow> 'i res option"
  op_watermark :: "string \<Rightarrow> 'i \<Rightarrow> 'i res"
  op_convert :: "string \<Rightarrow> int \<Rightarrow> 'i \<Rightarrow> string res"

text \<open>
  The stages after \<open>Open\<close>, up to the deferred \<open>Close\<close>; \<open>ce1\<close> is what the second
  \<open>ctx.Err()\<close> returns.
\<close>

definition run_stages ::
  "('i, 'w) img_ops \<Rightarrow> config \<Rightarrow> goerr option \<Rightarrow> transformation_spec \<Rightarrow> 'i \<Rightarrow> reader res option" where
  "run_stages ops cfg ce1 sp img =
    (case (if StripMetadata sp then op_strip ops img else Inr img) of
       Inl e \<Rightarrow> Some (Inl (EWrap ''imageproc: strip metadata: '' e []))
     | Inr img \<Rightarrow>
    (case op_resize ops (Width sp) (Height sp) (Width sp = 0 \<or> Height sp = 0) img of
       None \<Rightarrow> None
     | Some (Inl e) \<Rightarrow> Some (Inl (EWrap ''imageproc: resize: '' e []))
     | Some (Inr img) \<Rightarrow>
    (case (if Watermark sp then op_watermark ops (watermarkText cfg) img else Inr img) of
       Inl e \<Rightarrow> Some (Inl (EWrap ''imageproc: watermark: '' e []))
     | Inr img \<Rightarrow>
    (case ce1 of
       Some e \<Rightarrow> Some (Inl e)
     | None \<Rightarrow>
    (case op_convert ops (Format sp) (Quality sp) img of
       Inl e \<Rightarrow> Some (Inl (EWrap ''imageproc: encode: '' e []))
     | Inr out \<Rightarrow> Some (Inr (Reader out None)))))))"

definition imageproc_process ::
  "('i, 'w) img_ops \<Rightarrow> config \<Rightarrow> goerr option \<Rightarrow> goerr option \<Rightarrow> reader option
   \<Rightarrow> transformation_spec \<Rightarrow> 'w \<Rightarrow> reader res option \<times> 'w" where
  "imageproc_process ops cfg ce0 ce1 input sp w =
    (case input of
       None \<Rightarrow> (Some (Inl (EWrap ''imageproc: '' ErrEmptySource [])), w)
     | Some r \<Rightarrow>
    (case spec_validate sp of
       Some e \<Rightarrow> (Some (Inl (EWrap ''imageproc: '' e [])), w)
     | None \<Rightarrow>
    (case ce0 of
       Some e \<Rightarrow> (Some (Inl e), w)
     | None \<Rightarrow>
    (case op_open ops r w of
       (Inl e, w1) \<Rightarrow> (Some (Inl (EWrap ''imageproc: open source: '' e [])), w1)
     | (Inr img, w1) \<Rightarrow> (run_stages ops cfg ce1 sp img, op_close ops img w1)))))"

text \<open>The only panic is the resize's.\<close>

lemma run_stages_panics:
  assumes "run_stages ops cfg ce1 sp i = None"
  shows "\<exists>a b k j. op_resize ops a b k j = None"
proof -
  from assms obtain j where "op_resize ops (Width sp) (Height sp) (Width sp = 0 \<or> Height sp = 0) j = None"
    by (auto simp: run_stages_def split: option.split_asm sum.split_asm)
  then show ?thesis by blast
qed

text \<open>What each stage did, when the pipeline succeeded.\<close>

lemma process_stages:
  assumes "imageproc_process ops cfg ce0 ce1 inp sp w = (Some (Inr out), w')"
  obtains r src w1 a b c where
    "inp = Some r" "op_open ops r w = (Inr src, w1)"
    "(if StripMetadata sp then op_strip ops src else Inr src) = Inr a"
    "op_resize ops (Width sp) (Height sp) (Width sp = 0 \<or> Height sp = 0) a = Some (Inr b)"
    "(if Watermark sp then op_watermark ops (watermarkText cfg) b else Inr b) = Inr c"
    "op_convert ops (Format sp) (Quality sp) c = Inr (reader_bytes out)"
proof -
  from assms obtain r src w1 where o: "inp = Some r" "op_open ops r w = (Inr src, w1)"
    and s: "run_stages ops cfg ce1 sp src = Some (Inr out)"
    by (auto simp: imageproc_process_def split: option.splits sum.splits prod.splits)
  from s obtain a where a: "(if StripMetadata sp then op_strip ops src else Inr src) = Inr a"
    unfolding run_stages_def by (split sum.split_asm) auto
  with s obtain b where
    b: "op_resize ops (Width sp) (Height sp) (Width sp = 0 \<or> Height sp = 0) a = Some (Inr b)"
    by (auto simp: run_stages_def split: option.split_asm sum.split_asm)
  with s a obtain c where c: "(if Watermark sp then op_watermark ops (watermarkText cfg) b else Inr b) = Inr c"
    unfolding run_stages_def by (simp only: a b sum.case option.case) (split sum.split_asm; simp)
  with s a b have "op_convert ops (Format sp) (Quality sp) c = Inr (reader_bytes out)"
    unfolding run_stages_def by (simp only: a b c sum.case option.case) (auto split: option.split_asm sum.split_asm)
  with o a b c that show ?thesis by blast
qed

text \<open>
  The contract a backend keeps: an image that opened is held until it is closed. The
  pipeline then holds nothing when it returns, on every path.
\<close>

locale image_backend =
  fixes ops :: "('i, 'w) img_ops"
    and live :: "'w \<Rightarrow> nat"
  assumes open_holds: "op_open ops r w = (Inr i, w') \<Longrightarrow> live w' = Suc (live w)"
    and open_fails: "op_open ops r w = (Inl e, w') \<Longrightarrow> live w' = live w"
    and close_drops: "live (op_close ops i w) = live w - 1"
    and resize_returns: "op_resize ops a b k i \<noteq> None"
begin

lemma process_live:
  "imageproc_process ops cfg ce0 ce1 inp sp w = (r, w') \<Longrightarrow> live w' = live w"
  by (cases inp; cases "spec_validate sp"; cases ce0;
      (cases "op_open ops (the inp) w"; cases "fst (op_open ops (the inp) w)")?)
    (auto simp: imageproc_process_def close_drops dest: open_holds open_fails)

lemma process_no_panic: "fst (imageproc_process ops cfg ce0 ce1 inp sp w) \<noteq> None"
proof -
  have "run_stages ops cfg ce1 sp i \<noteq> None" for i
    using run_stages_panics [of ops cfg ce1 sp i] resize_returns by blast
  then show ?thesis
    by (cases inp; cases "spec_validate sp"; cases ce0;
        (cases "op_open ops (the inp) w"; cases "fst (op_open ops (the inp) w)")?)
      (simp_all add: imageproc_process_def)
qed

end

section \<open>The pure-Go backend\<close>

text \<open>
  The image library: decoders and encoders, \<open>image.NewRGBA\<close> of a rectangle at the origin, the
  Catmull-Rom scaler and the copy of an image, each onto all of a canvas, and the bitmap face with
  the width of a text in pixels, its line height and descent. \<open>px_text\<close> draws a text on a canvas,
  ending at the given right edge, on the given baseline. That there is memory for a canvas is
  taken for granted.
\<close>

record 'p pixel_lib =
  px_decode :: "reader \<Rightarrow> 'p res"
  px_dx :: "'p \<Rightarrow> int"
  px_dy :: "'p \<Rightarrow> int"
  px_new_rgba :: "int \<Rightarrow> int \<Rightarrow> 'p"
  px_catmull_rom :: "'p \<Rightarrow> 'p \<Rightarrow> 'p"
  px_copy :: "'p \<Rightarrow> 'p \<Rightarrow> 'p"
  px_text_width :: "string \<Rightarrow> int"
  px_face_height :: int
  px_face_descent :: int
  px_text :: "'p \<Rightarrow> string \<Rightarrow> int \<Rightarrow> int \<Rightarrow> 'p"
  px_jpeg :: "int \<Rightarrow> 'p \<Rightarrow> string res"
  px_png :: "'p \<Rightarrow> string res"

definition Backend :: string where "Backend = ''purego''"

definition defaultJPEGQuality :: int where "defaultJPEGQuality = 75"

definition pure_open :: "'p pixel_lib \<Rightarrow> reader \<Rightarrow> 'p res" where
  "pure_open lib r =
     (case px_decode lib r of
        Inl e \<Rightarrow> Inl (EWrap ''decode: '' e [])
      | Inr img \<Rightarrow>
          if px_dx lib img \<le> 0 \<or> px_dy lib img \<le> 0 then Inl (EWrap ''decode: '' ErrEmptySource [])
          else Inr img)"

definition pure_scale :: "'p pixel_lib \<Rightarrow> 'p \<Rightarrow> int \<Rightarrow> int \<Rightarrow> 'p" where
  "pure_scale lib src width height = px_catmull_rom lib (px_new_rgba lib width height) src"

definition pure_resize :: "'p pixel_lib \<Rightarrow> int \<Rightarrow> int \<Rightarrow> bool \<Rightarrow> 'p \<Rightarrow> 'p res option" where
  "pure_resize lib width height keepAspect img =
     (case target_size (px_dx lib img) (px_dy lib img) width height keepAspect of
        None \<Rightarrow> None
      | Some (Inl e) \<Rightarrow> Some (Inl e)
      | Some (Inr (tw, th)) \<Rightarrow>
          if tw = px_dx lib img \<and> th = px_dy lib img then Some (Inr img)
          else Some (Inr (pure_scale lib img tw th)))"

definition pure_thumbnail :: "'p pixel_lib \<Rightarrow> int \<Rightarrow> 'p \<Rightarrow> 'p res option" where
  "pure_thumbnail lib maxDim img =
     (case thumbnail_size (px_dx lib img) (px_dy lib img) maxDim of
        None \<Rightarrow> None
      | Some (Inl e) \<Rightarrow> Some (Inl e)
      | Some (Inr (tw, th)) \<Rightarrow>
          if tw = px_dx lib img \<and> th = px_dy lib img then Some (Inr img)
          else Some (Inr (pure_scale lib img tw th)))"

definition pure_strip :: "'p \<Rightarrow> 'p res" where
  "pure_strip img = Inr img"

definition pure_watermark :: "'p pixel_lib \<Rightarrow> string \<Rightarrow> 'p \<Rightarrow> 'p res" where
  "pure_watermark lib text img =
     (if text = [] then Inr img
      else
        let dx = px_dx lib img; dy = px_dy lib img; textW = px_text_width lib text in
        (case watermark_box dx dy of (_, _, marginX, marginY) \<Rightarrow>
          if i64 (textW + i64 (2 * marginX)) > dx \<or>
             i64 (px_face_height lib + i64 (2 * marginY)) > dy
          then Inl (EText (''watermark '' @ quote text @ '' needs '' @ itoa textW @ ''x'' @
                 itoa (px_face_height lib) @ '' pixels, image is '' @ itoa dx @ ''x'' @ itoa dy))
          else
            let dst = px_copy lib (px_new_rgba lib dx dy) img in
            Inr (px_text lib dst text (i64 (px_dx lib dst - marginX))
                   (i64 (i64 (px_dy lib dst - marginY) - px_face_descent lib)))))"

definition pure_convert :: "'p pixel_lib \<Rightarrow> string \<Rightarrow> int \<Rightarrow> 'p \<Rightarrow> string res" where
  "pure_convert lib format quality img =
     (case normalize_format format of
        Inl e \<Rightarrow> Inl e
      | Inr f \<Rightarrow>
          if f = FormatJPEG then
            (case px_jpeg lib (if quality \<le> 0 then defaultJPEGQuality else quality) img of
               Inl e \<Rightarrow> Inl (EWrap (''encode '' @ f @ '': '') e [])
             | Inr out \<Rightarrow> Inr out)
          else if f = FormatPNG then
            (case px_png lib img of
               Inl e \<Rightarrow> Inl (EWrap (''encode '' @ f @ '': '') e [])
             | Inr out \<Rightarrow> Inr out)
          else if f = FormatWebP \<or> f = FormatAVIF then
            Inl (EWrap [] ErrUnsupportedFormat
                  ('': '' @ f @ '' cannot be encoded by the '' @ Backend @ '' backend''))
          else Inl (EWrap [] ErrUnsupportedFormat ('': '' @ quote format)))"

text \<open>The backend, over the number of decoded images held.\<close>

definition pure_ops :: "'p pixel_lib \<Rightarrow> ('p, nat) img_ops" where
  "pure_ops lib =
     \<lparr>op_open = (\<lambda>r n. case pure_open lib r of Inl e \<Rightarrow> (Inl e, n) | Inr i \<Rightarrow> (Inr i, Suc n)),
      op_close = (\<lambda>i n. n - 1),
      op_strip = pure_strip,
      op_resize = pure_resize lib,
      op_watermark = pure_watermark lib,
      op_convert = pure_convert lib\<rparr>"

lemma pure_ops_simps [simp]:
  "op_resize (pure_ops lib) = pure_resize lib" "op_convert (pure_ops lib) = pure_convert lib"
  "(if b then op_strip (pure_ops lib) i else Inr i) = Inr i"
  "(if b then op_watermark (pure_ops lib) t i else Inr i)
   = (if b then pure_watermark lib t i else Inr i)"
  by (simp_all add: pure_ops_def pure_strip_def)

lemma pure_resize_returns: "pure_resize lib a b k i \<noteq> None"
  using target_size_returns [of "px_dx lib i" "px_dy lib i" a b k]
  by (auto simp: pure_resize_def split: option.splits sum.splits)

lemma pure_thumbnail_returns: "pure_thumbnail lib m i \<noteq> None"
  using thumbnail_size_returns [of "px_dx lib i" "px_dy lib i" m]
  by (auto simp: pure_thumbnail_def split: option.splits sum.splits)

interpretation pure: image_backend "pure_ops lib" "\<lambda>n. n" for lib :: "'p pixel_lib"
  by unfold_locales
    (auto simp: pure_ops_def pure_resize_returns split: sum.splits)

section \<open>What a pure-Go transformation yields\<close>

text \<open>
  What is relied on of the library: a canvas has the size it was made with, and scaling,
  copying and drawing onto it keep that size.
\<close>

definition pixel_lib_ok :: "'p pixel_lib \<Rightarrow> bool" where
  "pixel_lib_ok lib \<longleftrightarrow>
     (\<forall>w h. 0 < w \<longrightarrow> 0 < h \<longrightarrow> px_dx lib (px_new_rgba lib w h) = w \<and> px_dy lib (px_new_rgba lib w h) = h) \<and>
     (\<forall>d s. px_dx lib (px_catmull_rom lib d s) = px_dx lib d \<and> px_dy lib (px_catmull_rom lib d s) = px_dy lib d) \<and>
     (\<forall>d s. px_dx lib (px_copy lib d s) = px_dx lib d \<and> px_dy lib (px_copy lib d s) = px_dy lib d) \<and>
     (\<forall>d t x y. px_dx lib (px_text lib d t x y) = px_dx lib d \<and> px_dy lib (px_text lib d t x y) = px_dy lib d)"

lemma pure_resize_size:
  assumes "pixel_lib_ok lib" "pure_resize lib width height k img = Some (Inr p)"
  shows "target_size (px_dx lib img) (px_dy lib img) width height k
         = Some (Inr (px_dx lib p, px_dy lib p))"
proof -
  from assms(2) obtain tw th where
    t: "target_size (px_dx lib img) (px_dy lib img) width height k = Some (Inr (tw, th))"
    and p: "p = (if tw = px_dx lib img \<and> th = px_dy lib img then img else pure_scale lib img tw th)"
    by (auto simp: pure_resize_def split: option.splits sum.splits if_splits)
  have "0 < tw" "0 < th" using target_size_positive [OF t] by auto
  with assms(1) p t show ?thesis by (auto simp: pixel_lib_ok_def pure_scale_def)
qed

lemma pure_watermark_size:
  assumes "pixel_lib_ok lib" "pure_watermark lib text img = Inr p" "0 < px_dx lib img" "0 < px_dy lib img"
  shows "px_dx lib p = px_dx lib img \<and> px_dy lib p = px_dy lib img"
  using assms
  by (auto simp: pure_watermark_def pixel_lib_ok_def Let_def split: if_splits prod.splits)

lemma pure_convert_format:
  "pure_convert lib f q img = Inr out \<Longrightarrow> f = FormatJPEG \<or> f = FormatPNG"
  by (auto simp: pure_convert_def normalize_format_def split: if_splits sum.splits)

lemma pure_process_ok:
  assumes "pixel_lib_ok lib"
    "imageproc_process (pure_ops lib) cfg ce0 ce1 inp sp n = (Some (Inr out), n')"
  obtains r src p where
    "inp = Some r" "spec_ok sp" "ce0 = None" "ce1 = None" "px_decode lib r = Inr src"
    "0 < px_dx lib src" "0 < px_dy lib src"
    "target_size (px_dx lib src) (px_dy lib src) (Width sp) (Height sp) (Width sp = 0 \<or> Height sp = 0)
       = Some (Inr (px_dx lib p, px_dy lib p))"
    "pure_convert lib (Format sp) (Quality sp) p = Inr (reader_bytes out)" "reader_err out = None"
proof -
  from assms(2) obtain r where r: "inp = Some r" "spec_validate sp = None" "ce0 = None"
    by (auto simp: imageproc_process_def split: option.splits)
  with assms(2) obtain src where o: "pure_open lib r = Inr src"
    and s: "run_stages (pure_ops lib) cfg ce1 sp src = Some (Inr out)"
    by (auto simp: imageproc_process_def pure_ops_def split: sum.splits)
  from o have d: "px_decode lib r = Inr src" "0 < px_dx lib src" "0 < px_dy lib src"
    by (auto simp: pure_open_def split: sum.splits if_splits)
  from s obtain q where
    q: "pure_resize lib (Width sp) (Height sp) (Width sp = 0 \<or> Height sp = 0) src = Some (Inr q)"
    by (auto simp: run_stages_def split: option.splits sum.splits)
  with s obtain p where
    p: "(if Watermark sp then pure_watermark lib (watermarkText cfg) q else Inr q) = Inr p"
    by (auto simp: run_stages_def split: sum.splits if_splits)
  from s q p have e: "ce1 = None" "pure_convert lib (Format sp) (Quality sp) p = Inr (reader_bytes out)"
    "reader_err out = None"
    by (auto simp: run_stages_def split: option.splits sum.splits if_splits)
  have "px_dx lib p = px_dx lib q \<and> px_dy lib p = px_dy lib q"
    using p pure_watermark_size [OF assms(1)] target_size_positive [OF pure_resize_size [OF assms(1) q]]
    by (auto split: if_splits)
  with pure_resize_size [OF assms(1) q] r d e show ?thesis
    by (intro that [of r src p]) (simp_all add: spec_validate_None)
qed

section \<open>Properties\<close>

text \<open>
  C17: when the pipeline over the pure-Go backend succeeds, the specification was valid, both
  looks at the context found it live, the source decoded to an image with pixels, and the
  result is the encoding, as JPEG or PNG, of an image of exactly the size \<open>targetSize\<close> gives for
  that source and specification.
\<close>

theorem process_output_size:
  assumes "pixel_lib_ok lib"
    "imageproc_process (pure_ops lib) cfg ce0 ce1 inp sp n = (Some (Inr out), n')"
  shows "\<exists>r src p. inp = Some r \<and> spec_ok sp \<and> ce0 = None \<and> ce1 = None \<and>
    px_decode lib r = Inr src \<and> 0 < px_dx lib src \<and> 0 < px_dy lib src \<and>
    target_size (px_dx lib src) (px_dy lib src) (Width sp) (Height sp) (Width sp = 0 \<or> Height sp = 0)
      = Some (Inr (px_dx lib p, px_dy lib p)) \<and>
    (Format sp = FormatJPEG \<or> Format sp = FormatPNG) \<and>
    pure_convert lib (Format sp) (Quality sp) p = Inr (reader_bytes out) \<and> reader_err out = None"
proof -
  from assms obtain r src p where
    f: "inp = Some r" "spec_ok sp" "ce0 = None" "ce1 = None" "px_decode lib r = Inr src"
    "0 < px_dx lib src" "0 < px_dy lib src"
    "target_size (px_dx lib src) (px_dy lib src) (Width sp) (Height sp) (Width sp = 0 \<or> Height sp = 0)
       = Some (Inr (px_dx lib p, px_dy lib p))"
    "pure_convert lib (Format sp) (Quality sp) p = Inr (reader_bytes out)" "reader_err out = None"
    by (rule pure_process_ok)
  then show ?thesis using pure_convert_format [OF f(9)] by (intro exI [of _ r] exI [of _ src] exI [of _ p]) simp
qed

definition sample_lib :: "(int \<times> int) pixel_lib" where
  "sample_lib =
     \<lparr>px_decode = \<lambda>r. Inr (8, 4), px_dx = fst, px_dy = snd, px_new_rgba = Pair,
      px_catmull_rom = (\<lambda>d s. d), px_copy = (\<lambda>d s. d),
      px_text_width = \<lambda>t. 7 * int (length t), px_face_height = 13, px_face_descent = 2,
      px_text = \<lambda>d t x y. d, px_jpeg = \<lambda>q p. Inr ''jpeg'', px_png = \<lambda>p. Inr ''png''\<rparr>"

definition sample_spec :: "format \<Rightarrow> transformation_spec" where
  "sample_spec f =
     \<lparr>Width = 4, Height = 0, Format = f, Quality = 0, Watermark = False, StripMetadata = True\<rparr>"

theorem process_output_size_witness:
  "\<exists>src p. px_decode sample_lib (Reader [] None) = Inr src \<and>
     target_size (px_dx sample_lib src) (px_dy sample_lib src) 4 0 True
       = Some (Inr (px_dx sample_lib p, px_dy sample_lib p))"
proof -
  have "pixel_lib_ok sample_lib" by (simp add: pixel_lib_ok_def sample_lib_def)
  moreover have "imageproc_process (pure_ops sample_lib) (new_config []) None None
      (Some (Reader [] None)) (sample_spec FormatPNG) 0 = (Some (Inr (Reader ''png'' None)), 0)"
    by code_simp
  ultimately show ?thesis
    using process_output_size [of sample_lib "new_config []" None None "Some (Reader [] None)"
        "sample_spec FormatPNG" 0 "Reader ''png'' None" 0]
    by (auto simp: sample_spec_def)
qed

text \<open>
  The pipeline never panics and closes the image it opened on every path: it returns a
  result or an error, and holds as many decoded images after as before.
\<close>

theorem process_releases_image:
  "fst (imageproc_process (pure_ops lib) cfg ce0 ce1 inp sp n) \<noteq> None \<and>
   snd (imageproc_process (pure_ops lib) cfg ce0 ce1 inp sp n) = n"
  using pure.process_no_panic [of lib cfg ce0 ce1 inp sp n]
    pure.process_live [of lib cfg ce0 ce1 inp sp n]
  by (cases "imageproc_process (pure_ops lib) cfg ce0 ce1 inp sp n") auto

text \<open>
  The pure-Go backend refuses WebP and AVIF: with every earlier stage passed, converting
  returns an error that is \<open>ErrUnsupportedFormat\<close>, and it does so exactly for the names that are
  not its two formats.
\<close>

theorem pure_formats:
  "case pure_convert lib f q img of
     Inr out \<Rightarrow> f \<in> {FormatJPEG, FormatPNG}
   | Inl e \<Rightarrow> f \<in> {FormatJPEG, FormatPNG} \<or> errors_is e ErrUnsupportedFormat"
  by (auto simp: pure_convert_def normalize_format_def format_valid_def go_errors
      split: sum.splits if_splits)

end
