(* ===== verification/Memory_Backend.thy ===== *)
theory Memory_Backend
  imports Usecase_Contracts Memrepo Memqueue Localstorage Pipeline
begin

text \<open>
  The in-process wiring (\<open>BACKEND=memory\<close> in \<open>internal/adapters/backend.go\<close>, with the pure-Go
  image backend): file store, map repository, channel queue. This theory puts the adapters'
  models behind the ports of theory \<open>Ports\<close>, discharges the ports' contracts, and so turns
  the lemmas about the use cases into facts about this wiring.

  A call takes one instant of logical time (a transformation two, for its two looks at the
  context), and what the environment does at an instant is given by \<open>mem_env\<close>.
\<close>

section \<open>The world and its ports\<close>

record mem_world =
  w_files :: fs
  w_open :: nat
  w_images :: nat
  w_jobs :: mem_repo
  w_queue :: mem_queue
  w_tick :: nat

record 'p mem_env =
  env_root :: "string list"
  env_clock :: "nat \<Rightarrow> int"
  env_rand :: "nat \<Rightarrow> string"
  env_faults :: "nat \<Rightarrow> os_faults"
  env_pick :: "nat \<Rightarrow> bool"
  env_lib :: "'p pixel_lib"
  env_cfg :: config

definition after_call :: "mem_world \<Rightarrow> mem_world" where
  "after_call w = w\<lparr>w_tick := Suc (w_tick w)\<rparr>"

definition mem_storage :: "'p mem_env \<Rightarrow> mem_world storage_port" where
  "mem_storage env =
     \<lparr>Put = (\<lambda>c k d w.
        case local_put (env_faults env (w_tick w)) (root_of (env_root env)) (CtxErr c (w_tick w))
               k d (w_files w) of
          (x, ops) \<Rightarrow> (x, after_call (w\<lparr>w_files := fs_run ops (w_files w)\<rparr>))),
      GetObject = (\<lambda>c k w.
        case local_get (env_faults env (w_tick w)) (root_of (env_root env)) (CtxErr c (w_tick w))
               k (w_files w) of
          Inl e \<Rightarrow> (Inl e, after_call w)
        | Inr r \<Rightarrow> (Inr r, after_call (w\<lparr>w_open := Suc (w_open w)\<rparr>))),
      CloseObject = (\<lambda>r w. w\<lparr>w_open := w_open w - 1\<rparr>)\<rparr>"

definition mem_jobs :: "'p mem_env \<Rightarrow> mem_world repo_port" where
  "mem_jobs env =
     \<lparr>Save = (\<lambda>c j w.
        case memrepo_save (CtxErr c (w_tick w)) j (w_jobs w) of
          (x, r) \<Rightarrow> (x, after_call (w\<lparr>w_jobs := r\<rparr>))),
      GetJob = (\<lambda>c i w. (memrepo_get (CtxErr c (w_tick w)) i (w_jobs w), after_call w)),
      UpdateStatus = (\<lambda>c i s rk pe w.
        case memrepo_update (CtxErr c (w_tick w)) (env_clock env (w_tick w)) i s rk pe (w_jobs w) of
          (x, r) \<Rightarrow> (x, after_call (w\<lparr>w_jobs := r\<rparr>)))\<rparr>"

text \<open>
  A send that finds the buffer full waits. Run alone, as a port is here, nobody takes anything off
  the buffer meanwhile, so the wait ends with the context, if ever. Where others run, theory
  \<open>Mem_System\<close> holds a creation back for as long as its send has to wait (\<open>mem_blocked\<close>) and the error
  of this branch is never given; theories \<open>Memqueue\<close> and \<open>Queue_Lock\<close> have the queue's own interleavings.
\<close>

definition mem_enqueue :: "'p mem_env \<Rightarrow> mem_world queue_port" where
  "mem_enqueue env =
     \<lparr>Enqueue = (\<lambda>c i w.
        case mq_enqueue (env_pick env (w_tick w)) (CtxErr c (w_tick w)) (CtxCarrier c) i (w_queue w) of
          Some (x, q) \<Rightarrow> (x, after_call (w\<lparr>w_queue := q\<rparr>))
        | None \<Rightarrow> (Some (EWrap (''memqueue: enqueue '' @ i @ '': '') (CtxEnd c) []), after_call w))\<rparr>"

text \<open>The pipeline never panics (\<open>pure.process_no_panic\<close>), so the last branch is dead.\<close>

definition mem_processor :: "'p mem_env \<Rightarrow> mem_world processor_port" where
  "mem_processor env =
     \<lparr>Process = (\<lambda>c inp sp w.
        case imageproc_process (pure_ops (env_lib env)) (env_cfg env)
               (CtxErr c (w_tick w)) (CtxErr c (Suc (w_tick w))) inp sp (w_images w) of
          (Some r, n) \<Rightarrow> (r, after_call (after_call (w\<lparr>w_images := n\<rparr>)))
        | (None, n) \<Rightarrow> (Inl (EText ''runtime error: integer divide by zero''), w\<lparr>w_images := n\<rparr>))\<rparr>"

definition mem_new_id :: "'p mem_env \<Rightarrow> mem_world \<Rightarrow> string \<times> mem_world" where
  "mem_new_id env w = (the (new_id (Inr (env_rand env (w_tick w)))), after_call w)"

definition mem_now :: "'p mem_env \<Rightarrow> mem_world \<Rightarrow> int \<times> mem_world" where
  "mem_now env w = (env_clock env (w_tick w), after_call w)"

definition mem_create :: "'p mem_env \<Rightarrow> mem_world create_job" where
  "mem_create env =
     new_create_job (mem_storage env) (mem_jobs env) (mem_enqueue env) (mem_new_id env) (mem_now env)"

definition mem_process :: "'p mem_env \<Rightarrow> mem_world process_job" where
  "mem_process env = new_process_job (mem_storage env) (mem_jobs env) (mem_processor env)"

section \<open>What the contracts speak of\<close>

text \<open>Objects are the files that are not temporary ones; a key names the path it resolves to.\<close>

definition mem_objs :: "mem_world \<Rightarrow> string \<rightharpoonup> string" where
  "mem_objs w p = (if tmp_name p then None else w_files w p)"

definition mem_loc :: "'p mem_env \<Rightarrow> string \<Rightarrow> string option" where
  "mem_loc env k =
     (case resolve (root_of (env_root env)) k of
        Inr p \<Rightarrow> if tmp_name p then None else Some p
      | Inl e \<Rightarrow> None)"

definition mem_waiting :: "mem_world \<Rightarrow> string multiset" where
  "mem_waiting w = mset (map JobID (mq_buf (w_queue w)))"

lemma after_call_simps [simp]:
  "w_files (after_call w) = w_files w" "w_open (after_call w) = w_open w"
  "w_images (after_call w) = w_images w" "w_jobs (after_call w) = w_jobs w"
  "w_queue (after_call w) = w_queue w" "mem_objs (after_call w) = mem_objs w"
  "mem_waiting (after_call w) = mem_waiting w"
  by (simp_all add: after_call_def mem_objs_def mem_waiting_def fun_eq_iff)

lemma mem_objs_update [simp]:
  "mem_objs (w\<lparr>w_open := n\<rparr>) = mem_objs w" "mem_objs (w\<lparr>w_images := n\<rparr>) = mem_objs w"
  "mem_objs (w\<lparr>w_jobs := r\<rparr>) = mem_objs w" "mem_objs (w\<lparr>w_queue := q\<rparr>) = mem_objs w"
  "mem_waiting (w\<lparr>w_open := n\<rparr>) = mem_waiting w" "mem_waiting (w\<lparr>w_images := n\<rparr>) = mem_waiting w"
  "mem_waiting (w\<lparr>w_jobs := r\<rparr>) = mem_waiting w" "mem_waiting (w\<lparr>w_files := m\<rparr>) = mem_waiting w"
  by (simp_all add: mem_objs_def mem_waiting_def fun_eq_iff)

section \<open>The ports keep their contracts\<close>

lemma mem_put_ok:
  assumes "Put (mem_storage env) c k d w = (None, w')"
  shows "\<exists>b. d = Some (Reader b None) \<and> mem_objs w' = store_at (mem_loc env k) b (mem_objs w)"
proof -
  let ?f = "env_faults env (w_tick w)" and ?root = "root_of (env_root env)"
  from assms obtain ops where
    p: "local_put ?f ?root (CtxErr c (w_tick w)) k d (w_files w) = (None, ops)"
    and w': "w' = after_call (w\<lparr>w_files := fs_run ops (w_files w)\<rparr>)"
    by (auto simp: mem_storage_def split: prod.splits)
  from put_success [OF p, of "[]"] obtain b where b: "d = Some (Reader b None)"
    by (auto simp: tmp_name_def)
  have "mem_objs w' q = store_at (mem_loc env k) b (mem_objs w) q" for q
  proof (cases "tmp_name q")
    case True
    then show ?thesis
      by (auto simp: w' mem_objs_def mem_loc_def split: sum.splits)
  next
    case False
    with put_success [OF p False] b show ?thesis
      by (auto simp: w' mem_objs_def mem_loc_def split: sum.splits)
  qed
  with b show ?thesis by blast
qed

lemma mem_put_err: "Put (mem_storage env) c k d w = (Some e, w') \<Longrightarrow> mem_objs w' = mem_objs w"
  using put_failure
  by (fastforce simp: mem_storage_def mem_objs_def fun_eq_iff split: prod.splits)

lemma mem_get_cases:
  assumes "GetObject (mem_storage env) c k w = (x, w')"
  obtains (err) e where "x = Inl e" "w' = after_call w"
  | (ok) r where "x = Inr r" "w' = after_call (w\<lparr>w_open := Suc (w_open w)\<rparr>)"
      "local_get (env_faults env (w_tick w)) (root_of (env_root env)) (CtxErr c (w_tick w)) k (w_files w)
       = Inr r"
proof (cases "local_get (env_faults env (w_tick w)) (root_of (env_root env)) (CtxErr c (w_tick w)) k
    (w_files w)")
  case (Inl e)
  with assms have "x = Inl e" "w' = after_call w" by (auto simp: mem_storage_def)
  then show ?thesis by (rule err)
next
  case (Inr r)
  with assms have "x = Inr r" "w' = after_call (w\<lparr>w_open := Suc (w_open w)\<rparr>)"
    by (auto simp: mem_storage_def)
  then show ?thesis using Inr by (rule ok)
qed

lemma has_prefix_take: "has_prefix b (take n b)"
  by (metis append_take_drop_id has_prefix_iff)

lemma local_get_reads:
  assumes "local_get f root ce k m = Inr r" "resolve root k = Inr p"
  shows "reads_from r (m p)"
  using assms
  by (auto simp: local_get_def reads_from_def has_prefix_take split: option.splits if_splits prod.splits)

interpretation mem_blobs: strict_blob_store "mem_storage env" "mem_loc env" mem_objs
  for env :: "'p mem_env"
proof
  fix c k d w w'
  show "Put (mem_storage env) c k d w = (None, w') \<Longrightarrow>
    \<exists>b. d = Some (Reader b None) \<and> mem_objs w' = store_at (mem_loc env k) b (mem_objs w)"
    by (rule mem_put_ok)
  show "Put (mem_storage env) c k d w = (Some e, w') \<Longrightarrow> mem_objs w' = mem_objs w" for e
    by (rule mem_put_err)
  show "GetObject (mem_storage env) c k w = (Inr r, w') \<Longrightarrow>
    mem_objs w' = mem_objs w \<and> (\<forall>p. mem_loc env k = Some p \<longrightarrow> reads_from r (mem_objs w p))" for r
    by (erule mem_get_cases)
      (auto simp: mem_loc_def mem_objs_def [of _ "p" for p] dest: local_get_reads
        split: sum.splits if_splits)
  show "GetObject (mem_storage env) c k w = (Inl e, w') \<Longrightarrow> mem_objs w' = mem_objs w" for e
    by (erule mem_get_cases) auto
  show "mem_objs (CloseObject (mem_storage env) r w) = mem_objs w" for r
    by (simp add: mem_storage_def)
qed

interpretation mem_repo: strict_job_store "mem_jobs env" "\<lambda>j. True" w_jobs
  for env :: "'p mem_env"
  by unfold_locales
    (auto simp: mem_jobs_def memrepo_laws dest: memrepo_save_err memrepo_update_err
      split: prod.splits)

interpretation mem_work: strict_work_queue "mem_enqueue env" mem_waiting
  for env :: "'p mem_env"
  by unfold_locales
    (auto simp: mem_enqueue_def mem_waiting_def mq_enqueue_ok dest: mq_enqueue_err
      split: option.splits)

lemma mem_storage_other:
  "Put (mem_storage env) c k d w = (x, w') \<Longrightarrow>
     w_jobs w' = w_jobs w \<and> mem_waiting w' = mem_waiting w \<and> w_open w' = w_open w \<and> w_images w' = w_images w"
  "GetObject (mem_storage env) c k w = (y, w') \<Longrightarrow>
     w_jobs w' = w_jobs w \<and> mem_waiting w' = mem_waiting w \<and> w_images w' = w_images w"
  "w_jobs (CloseObject (mem_storage env) r w) = w_jobs w"
  "mem_waiting (CloseObject (mem_storage env) r w) = mem_waiting w"
  "w_images (CloseObject (mem_storage env) r w) = w_images w"
  "w_open (CloseObject (mem_storage env) r w) = w_open w - 1"
  by (auto simp: mem_storage_def split: prod.splits sum.splits)

lemma mem_jobs_other:
  "Save (mem_jobs env) c j w = (x, w') \<Longrightarrow>
     mem_objs w' = mem_objs w \<and> mem_waiting w' = mem_waiting w \<and> w_open w' = w_open w \<and> w_images w' = w_images w"
  "GetJob (mem_jobs env) c i w = (z, w') \<Longrightarrow>
     mem_objs w' = mem_objs w \<and> mem_waiting w' = mem_waiting w \<and> w_open w' = w_open w \<and> w_images w' = w_images w"
  "UpdateStatus (mem_jobs env) c i s rk pe w = (x, w') \<Longrightarrow>
     mem_objs w' = mem_objs w \<and> mem_waiting w' = mem_waiting w \<and> w_open w' = w_open w \<and> w_images w' = w_images w"
  by (auto simp: mem_jobs_def split: prod.splits)

lemma mem_enqueue_other:
  "Enqueue (mem_enqueue env) c i w = (x, w') \<Longrightarrow> mem_objs w' = mem_objs w \<and> w_jobs w' = w_jobs w"
  by (auto simp: mem_enqueue_def split: option.splits)

lemma mem_processor_other:
  assumes "Process (mem_processor env) c inp sp w = (u, w')"
  shows "mem_objs w' = mem_objs w \<and> w_jobs w' = w_jobs w \<and> mem_waiting w' = mem_waiting w \<and>
         w_open w' = w_open w \<and> w_images w' = w_images w"
proof -
  obtain r n where p: "imageproc_process (pure_ops (env_lib env)) (env_cfg env)
      (CtxErr c (w_tick w)) (CtxErr c (Suc (w_tick w))) inp sp (w_images w) = (r, n)" by fastforce
  with pure.process_live [OF p] assms show ?thesis
    by (auto simp: mem_processor_def split: option.splits)
qed

interpretation mem: strict_create_env "mem_storage env" "mem_loc env" mem_objs
  "mem_jobs env" "\<lambda>j. True" w_jobs "mem_enqueue env" mem_waiting "mem_processor env"
  "mem_new_id env" "mem_now env"
  for env :: "'p mem_env"
  by unfold_locales
    (auto dest: mem_storage_other(1,2) mem_jobs_other mem_enqueue_other mem_processor_other
      simp: mem_storage_other mem_new_id_def mem_now_def)

section \<open>Where objects live\<close>

text \<open>Identifiers as \<open>newID\<close> makes them: hexadecimal digits.\<close>

definition id_ok :: "string \<Rightarrow> bool" where
  "id_ok i \<longleftrightarrow> i \<noteq> [] \<and> set i \<subseteq> set ''0123456789abcdef''"

lemma id_ok_new: "bs \<noteq> [] \<Longrightarrow> id_ok (hex_encode bs)"
  using hex_encode_chars [of bs] length_hex_encode [of bs] by (auto simp: id_ok_def)

lemma hex_char_plain:
  "c \<in> set ''0123456789abcdef'' \<Longrightarrow>
   plain_char c \<and> c \<noteq> slash \<and> c \<noteq> CHR ''.'' \<and> c \<noteq> CHR 0x00"
  by (auto simp: plain_char_def)

lemma id_ok_chars:
  "id_ok i \<Longrightarrow> c \<in> set i \<Longrightarrow> plain_char c \<and> c \<noteq> slash \<and> c \<noteq> CHR ''.'' \<and> c \<noteq> CHR 0x00"
  using hex_char_plain by (auto simp: id_ok_def simp del: list.set)

lemma two_names_loc:
  assumes "root_ok (env_root env)" "path_name a" "path_name b"
    "\<not> has_prefix a ''..''" "\<not> has_prefix b ''.tmp-''"
    "CHR 0x00 \<notin> set a" "CHR 0x00 \<notin> set b" "plain_char (hd a)" "plain_char (last b)"
  shows "mem_loc env (a @ slash # b) = Some (root_of (env_root env @ [a, b]))"
proof -
  let ?k = "a @ slash # b"
  have ne: "a \<noteq> []" "b \<noteq> []" using assms by (auto simp: path_name_def)
  have "split_on slash ?k = [a, b]"
    using assms by (simp add: split_on_append split_on_no_sep path_name_def)
  then have kn: "key_names ?k = [a, b]"
    using assms by (simp add: key_names_def clean_elems_names)
  have "trim_space ?k = ?k"
    using assms ne by (intro trim_space_plain [of "hd a" "last b" _ "tl a @ slash # b" "a @ slash # butlast b"]) simp_all
  then have "key_ok ?k"
    using assms ne kn by (cases a) (auto simp: key_ok_def is_abs_def path_name_def)
  then have "resolve (root_of (env_root env)) ?k = Inr (root_of (env_root env @ [a, b]))"
    using assms(1) kn by (simp add: resolve_cases root_ok_def)
  moreover have "split_on slash (root_of (env_root env @ [a, b])) = [] # env_root env @ [a, b]"
  proof -
    have "split_on slash (join_with [slash] (env_root env @ [a, b])) = env_root env @ [a, b]"
      by (rule split_join) (use assms in \<open>auto simp: root_ok_def path_name_def\<close>)
    then show ?thesis by (simp add: root_of_def)
  qed
  ultimately show ?thesis using assms(5) by (simp add: mem_loc_def tmp_name_def)
qed

lemma mem_loc_original:
  assumes "root_ok (env_root env)" "id_ok i"
  shows "mem_loc env (original_key i) = Some (root_of (env_root env @ [''originals'', i]))"
proof -
  have i: "i \<noteq> []" "\<forall>c \<in> set i. plain_char c \<and> c \<noteq> slash \<and> c \<noteq> CHR ''.'' \<and> c \<noteq> CHR 0x00"
    using assms(2) id_ok_chars by (auto simp: id_ok_def)
  then have "path_name i" "\<not> has_prefix i ''.tmp-''" "plain_char (last i)"
    by (cases i; auto simp: path_name_def)+
  then have "mem_loc env (''originals'' @ slash # i) = Some (root_of (env_root env @ [''originals'', i]))"
    using i assms(1) by (intro two_names_loc) (auto simp: path_name_def plain_char_def)
  then show ?thesis by (simp add: original_key_def)
qed

lemma format_ext_chars:
  "format_valid f \<Longrightarrow> format_ext f \<noteq> [] \<and>
   (\<forall>c \<in> set (format_ext f). plain_char c \<and> c \<noteq> slash \<and> c \<noteq> CHR 0x00)"
  by (erule format_validE) (simp_all add: format_ext_def format_defs plain_char_def)

lemma mem_loc_result:
  assumes "root_ok (env_root env)" "id_ok i" "format_valid (Format sp)"
  shows "mem_loc env (result_key i sp)
    = Some (root_of (env_root env @ [''results'', i @ ''.'' @ format_ext (Format sp)]))"
proof -
  let ?b = "i @ ''.'' @ format_ext (Format sp)"
  have i: "i \<noteq> []" "\<forall>c \<in> set i. plain_char c \<and> c \<noteq> slash \<and> c \<noteq> CHR ''.'' \<and> c \<noteq> CHR 0x00"
    using assms(2) id_ok_chars by (auto simp: id_ok_def)
  note x = format_ext_chars [OF assms(3)]
  have "path_name ?b" "\<not> has_prefix ?b ''.tmp-''" "plain_char (last ?b)"
    using i x by (cases i; auto simp: path_name_def)+
  then have "mem_loc env (''results'' @ slash # ?b) = Some (root_of (env_root env @ [''results'', ?b]))"
    using i x assms(1) by (intro two_names_loc) (auto simp: path_name_def plain_char_def)
  then show ?thesis using assms(3) by (simp add: result_key_valid)
qed

lemma root_of_inj:
  assumes "\<forall>f \<in> set as. path_name f" "\<forall>f \<in> set bs. path_name f" "as \<noteq> []" "bs \<noteq> []"
    "root_of as = root_of bs"
  shows "as = bs"
  by (rule join_with_inj [of as bs slash]) (use assms in \<open>auto simp: root_of_def path_name_def\<close>)

section \<open>Nothing is left open\<close>

lemma mem_transform_handles:
  assumes "transform (mem_process env) c j w = (r, w')"
  shows "w_open w' = w_open w \<and> w_images w' = w_images w"
  using assms unfolding mem_process_def
proof (cases rule: mem.transform_cases)
  case (read e)
  from read(1) show ?thesis by (cases rule: mem_get_cases) auto
next
  case (process src w1 e w2)
  from process(1) have "w_open w1 = Suc (w_open w)" "w_images w1 = w_images w"
    by (cases rule: mem_get_cases; simp)+
  with mem_processor_other [OF process(2)] process(4) show ?thesis
    by (simp add: mem_storage_other)
next
  case (store src w1 out w2 x w3)
  from store(1) have "w_open w1 = Suc (w_open w)" "w_images w1 = w_images w"
    by (cases rule: mem_get_cases; simp)+
  with mem_processor_other [OF store(2)] mem_storage_other(1) [OF store(3)] store(4) show ?thesis
    by (simp add: mem_storage_other)
qed

lemma mem_fail_handles:
  assumes "fail_job (mem_process env) c j e w = (r, w')"
  shows "w_open w' = w_open w \<and> w_images w' = w_images w"
proof -
  from assms obtain x we where "UpdateStatus (mem_jobs env) c (ID j) StatusFailed [] (Some we) w = (x, w')"
    by (auto simp: fail_job_def mem_process_def new_process_job_def Let_def split: prod.splits option.splits)
  then show ?thesis using mem_jobs_other(3) by blast
qed

lemma mem_process_handles:
  assumes "process_job_execute (mem_process env) c i w = (r, w')"
  shows "w_open w' = w_open w \<and> w_images w' = w_images w"
proof -
  let ?same = "\<lambda>w1 w2. w_open w2 = w_open w1 \<and> w_images w2 = w_images w1"
  have pj: "pj_jobs (mem_process env) = mem_jobs env" by (simp add: mem_process_def new_process_job_def)
  obtain ld w1 where g: "GetJob (mem_jobs env) c i w = (ld, w1)" by fastforce
  note w1 = mem_jobs_other(2) [OF g]
  show ?thesis
  proof (cases ld)
    case (Inl e)
    with assms g w1 pj show ?thesis by (simp add: process_job_execute_def)
  next
    case (Inr j)
    obtain x w2 where u: "UpdateStatus (mem_jobs env) c i StatusProcessing [] None w1 = (x, w2)" by fastforce
    note w2 = mem_jobs_other(3) [OF u]
    obtain tr w3 where tr: "transform (mem_process env) c (j\<lparr>Status := StatusProcessing\<rparr>) w2 = (tr, w3)"
      by fastforce
    note w3 = mem_transform_handles [OF tr]
    show ?thesis
    proof (cases "Status j \<noteq> StatusPending \<or> x \<noteq> None")
      case True
      with assms g u w1 w2 pj Inr show ?thesis
        by (cases "Status j = StatusPending"; cases x) (auto simp: process_job_execute_def)
    next
      case False
      show ?thesis
      proof (cases tr)
        case (Inl e)
        with assms g u tr pj \<open>ld = Inr j\<close> False have
          "fail_job (mem_process env) c (j\<lparr>Status := StatusProcessing\<rparr>) e w3 = (r, w')"
          by (simp add: process_job_execute_def)
        from mem_fail_handles [OF this] w1 w2 w3 show ?thesis by simp
      next
        case (Inr rk)
        obtain y w4 where d: "UpdateStatus (mem_jobs env) c i StatusDone rk None w3 = (y, w4)" by fastforce
        with assms g u tr pj \<open>ld = Inr j\<close> False Inr have "w' = w4"
          by (auto simp: process_job_execute_def split: option.splits)
        with mem_jobs_other(3) [OF d] w1 w2 w3 show ?thesis by simp
      qed
    qed
  qed
qed

end
