(* ===== verification/Backoff.thy ===== *)
theory Backoff
  imports Go_Base
begin

text \<open>
  \<open>internal/adapters/sqsqueue/backoff.go\<close>: the delay between failed receives. Durations are
  nanoseconds, Go's \<open>int64\<close>. The product is a \<open>float64\<close>: both bounds are rounded to 53
  significant bits (to nearest, ties to even), scaling by a power of two is exact, and so the
  value is a whole number. Converting it back is exact in range and gives the smallest
  \<open>int64\<close> out of it, as amd64 does.
\<close>

definition DefaultBackoffBase :: int where "DefaultBackoffBase = 250 * 10 ^ 6"
definition DefaultBackoffMax :: int where "DefaultBackoffMax = 30 * 10 ^ 9"

fun bit_count :: "nat \<Rightarrow> nat" where
  "bit_count n = (if n = 0 then 0 else Suc (bit_count (n div 2)))"

declare bit_count.simps [simp del]

definition f64_of_nat :: "nat \<Rightarrow> nat" where
  "f64_of_nat n =
     (if n \<le> 2 ^ 53 then n
      else let k = bit_count n - 53; q = n div 2 ^ k; r = n mod 2 ^ k; half = 2 ^ (k - 1) in
        if half < r \<or> r = half \<and> odd q then (q + 1) * 2 ^ k else q * 2 ^ k)"

definition f64_of_int :: "int \<Rightarrow> int" where
  "f64_of_int x = (if x < 0 then - int (f64_of_nat (nat (- x))) else int (f64_of_nat (nat x)))"

text \<open>
  The quotient \<open>a / b\<close> of two positive whole numbers, below 2^53, rounded to \<open>m / 2^k\<close> with a
  53-bit \<open>m\<close>, to nearest with ties to even.
\<close>

definition f64_quot :: "nat \<Rightarrow> nat \<Rightarrow> nat \<times> nat" where
  "f64_quot a b =
     (let k = 52 + bit_count b - bit_count a;
          k = (if 2 ^ 52 * b \<le> a * 2 ^ k then k else k + 1);
          q = a * 2 ^ k div b; r = a * 2 ^ k mod b
      in (if b < 2 * r \<or> b = 2 * r \<and> odd q then q + 1 else q, k))"

definition i64_of_f64 :: "int \<Rightarrow> int" where
  "i64_of_f64 x = (if in_i64 x then x else - (2 ^ 63))"

record backoff =
  b_base :: int
  b_max :: int
  b_attempt :: nat

definition new_backoff :: "int \<Rightarrow> int \<Rightarrow> backoff" where
  "new_backoff base maxDelay = \<lparr>b_base = base, b_max = maxDelay, b_attempt = 0\<rparr>"

definition backoff_cap :: "backoff \<Rightarrow> int" where
  "backoff_cap b =
     (let shift = min (b_attempt b) 32
      in i64_of_f64 (min (f64_of_int (b_base b) * 2 ^ shift) (f64_of_int (b_max b))))"

text \<open>\<open>random n\<close> stands for the draw \<open>rand.Int64N(n)\<close>.\<close>

definition backoff_next :: "(int \<Rightarrow> int) \<Rightarrow> backoff \<Rightarrow> int \<times> backoff" where
  "backoff_next random b =
     (let capped = backoff_cap b; b' = b\<lparr>b_attempt := Suc (b_attempt b)\<rparr>
      in if capped \<le> 0 then (0, b') else (random capped, b'))"

definition backoff_reset :: "backoff \<Rightarrow> backoff" where
  "backoff_reset b = b\<lparr>b_attempt := 0\<rparr>"

definition backoff_attempts :: "backoff \<Rightarrow> nat" where
  "backoff_attempts b = b_attempt b"

text \<open>
  \<open>wait\<close>: whether the delay ran out. \<open>ce\<close> is \<open>ctx.Err()\<close> at the call, \<open>ended\<close> whether the
  context is done before the timer fires.
\<close>

definition backoff_wait :: "goerr option \<Rightarrow> bool \<Rightarrow> int \<Rightarrow> bool" where
  "backoff_wait ce ended d = (if d \<le> 0 then ce = None else \<not> ended)"

section \<open>Bounds\<close>

lemma in_i64_small: "0 \<le> x \<Longrightarrow> x \<le> 2 ^ 53 \<Longrightarrow> in_i64 x"
  by (simp add: in_i64_def)

lemma f64_of_int_exact: "0 \<le> x \<Longrightarrow> x \<le> 2 ^ 53 \<Longrightarrow> f64_of_int x = x"
  by (simp add: f64_of_int_def f64_of_nat_def nat_le_iff)

text \<open>
  For bounds up to \<open>2 ^ 53\<close> nanoseconds (over a hundred days) nothing is rounded: the cap is
  the base doubled per failure, at most 32 times, and never more than the maximum.
\<close>

lemma backoff_cap_exact:
  assumes "0 \<le> b_base b" "b_base b \<le> 2 ^ 53" "0 \<le> b_max b" "b_max b \<le> 2 ^ 53"
  shows "backoff_cap b = min (b_base b * 2 ^ min (b_attempt b) 32) (b_max b)"
proof -
  let ?c = "min (b_base b * 2 ^ min (b_attempt b) 32) (b_max b)"
  have "0 \<le> b_base b * 2 ^ min (b_attempt b) 32" using assms by simp
  then have "0 \<le> ?c" using assms by simp
  moreover have "?c \<le> 2 ^ 53" using assms by simp
  ultimately have "in_i64 ?c" by (rule in_i64_small)
  then show ?thesis
    using assms by (simp add: backoff_cap_def f64_of_int_exact i64_of_f64_def Let_def)
qed

definition draws_below :: "(int \<Rightarrow> int) \<Rightarrow> bool" where
  "draws_below random \<longleftrightarrow> (\<forall>n > 0. 0 \<le> random n \<and> random n < n)"

lemma backoff_next_bounds:
  assumes "draws_below random" "0 < b_base b" "b_base b \<le> 2 ^ 53" "0 < b_max b" "b_max b \<le> 2 ^ 53"
    "backoff_next random b = (d, b')"
  shows "0 \<le> d \<and> d < b_max b \<and> d < b_base b * 2 ^ min (b_attempt b) 32 \<and>
         backoff_attempts b' = Suc (backoff_attempts b) \<and> b_base b' = b_base b \<and> b_max b' = b_max b"
proof -
  have c: "backoff_cap b = min (b_base b * 2 ^ min (b_attempt b) 32) (b_max b)"
    using assms by (intro backoff_cap_exact) auto
  have "0 < b_base b * 2 ^ min (b_attempt b) 32" using assms(2) by simp
  with assms(4) have "0 < backoff_cap b" unfolding c by simp
  with assms(1,6) have "0 \<le> d" "d < backoff_cap b" "b' = b\<lparr>b_attempt := Suc (b_attempt b)\<rparr>"
    by (auto simp: backoff_next_def draws_below_def Let_def)
  then show ?thesis unfolding c by (simp add: backoff_attempts_def)
qed

section \<open>How far rounding moves a number\<close>

lemma bit_count_bounds: "0 < n \<Longrightarrow> 2 ^ (bit_count n - 1) \<le> n \<and> n < 2 ^ bit_count n \<and> 0 < bit_count n"
proof (induction n rule: bit_count.induct)
  case (1 n)
  show ?case
  proof (cases "n div 2 = 0")
    case True
    with 1(2) have "n = 1" by linarith
    moreover have "bit_count 1 = 1" using bit_count.simps [of 1] bit_count.simps [of 0] by simp
    ultimately show ?thesis by simp
  next
    case False
    then have ih: "2 ^ (bit_count (n div 2) - 1) \<le> n div 2" "n div 2 < 2 ^ bit_count (n div 2)" "0 < bit_count (n div 2)"
      using 1 by simp_all
    from ih(1) have "2 * 2 ^ (bit_count (n div 2) - 1) \<le> n" by simp
    moreover have "2 * 2 ^ (bit_count (n div 2) - 1) = (2 :: nat) ^ bit_count (n div 2)"
      using ih(3) by (metis Suc_diff_1 power_Suc)
    moreover have "n < 2 * 2 ^ bit_count (n div 2)" using ih(2) by simp
    ultimately show ?thesis using 1(2) by (simp add: bit_count.simps [of n])
  qed
qed

text \<open>Keeping 53 bits moves a number by at most a 2^52th of it.\<close>

lemma f64_of_nat_error: "2 ^ 52 * \<bar>int (f64_of_nat n) - int n\<bar> \<le> int n"
proof (cases "n \<le> 2 ^ 53")
  case False
  define k where "k = bit_count n - 53"
  define q where "q = n div 2 ^ k"
  define r where "r = n mod 2 ^ k"
  have n: "n = q * 2 ^ k + r" "r < 2 ^ k" unfolding q_def r_def by (simp_all only: div_mult_mod_eq) simp
  from bit_count_bounds [of n] False have b: "2 ^ (bit_count n - 1) \<le> n" "n < 2 ^ bit_count n" by auto
  have "53 < bit_count n"
  proof (rule ccontr)
    assume "\<not> 53 < bit_count n"
    then have "(2 :: nat) ^ bit_count n \<le> 2 ^ 53" by (intro power_increasing) simp_all
    with b(2) False show False by linarith
  qed
  then have k: "0 < k" "bit_count n - 1 = 52 + k" by (simp_all add: k_def)
  define half where "half = (2 :: nat) ^ (k - 1)"
  have half: "2 ^ k = 2 * half" using k(1) by (metis half_def Suc_diff_1 power_Suc)
  have f: "f64_of_nat n = (if half < r \<or> r = half \<and> odd q then (q + 1) * 2 ^ k else q * 2 ^ k)"
    using False by (simp add: f64_of_nat_def k_def q_def r_def half_def Let_def)
  have up: "int ((q + 1) * 2 ^ k) - int n = 2 * int half - int r"
    and down: "int (q * 2 ^ k) - int n = - int r"
    unfolding half using n(1) half by (simp_all add: algebra_simps)
  have "\<bar>int (f64_of_nat n) - int n\<bar> \<le> int half"
  proof (cases "half < r \<or> r = half \<and> odd q")
    case True
    then have "f64_of_nat n = (q + 1) * 2 ^ k" by (simp only: f if_True)
    with up True n(2) half show ?thesis by linarith
  next
    case False
    then have "f64_of_nat n = q * 2 ^ k" by (simp only: f if_False)
    with down False show ?thesis by linarith
  qed
  moreover have "2 ^ 52 * half \<le> n"
  proof -
    have "2 ^ 52 * (2 * half) = (2 :: nat) ^ (52 + k)" by (simp add: half [symmetric] power_add)
    with b(1) k(2) show ?thesis by simp
  qed
  ultimately have "2 ^ 52 * \<bar>int (f64_of_nat n) - int n\<bar> \<le> 2 ^ 52 * int half" "2 ^ 52 * half \<le> n"
    by (simp_all only: mult_left_mono zero_le_power zero_le_numeral)
  from this(1) iffD2 [OF of_nat_le_iff this(2)] show ?thesis
    unfolding of_nat_mult of_nat_power of_nat_numeral by (rule order_trans)
qed (simp add: f64_of_nat_def)

section \<open>Properties\<close>

text \<open>
  The wait before a retry is never negative, stays below the maximum and below the base
  doubled once per failure so far (at most 32 times), and each call counts one failure; for
  bounds up to \<open>2 ^ 53\<close> nanoseconds and a fair draw.
\<close>

theorem backoff_bounds:
  assumes "draws_below random" "0 < b_base b" "b_base b \<le> 2 ^ 53" "0 < b_max b" "b_max b \<le> 2 ^ 53"
  shows "0 \<le> fst (backoff_next random b) \<and> fst (backoff_next random b) < b_max b \<and>
    fst (backoff_next random b) < b_base b * 2 ^ min (b_attempt b) 32 \<and>
    backoff_attempts (snd (backoff_next random b)) = Suc (backoff_attempts b) \<and>
    backoff_attempts (backoff_reset b) = 0"
  using backoff_next_bounds [OF assms, of "fst (backoff_next random b)" "snd (backoff_next random b)"]
  by (simp add: backoff_attempts_def backoff_reset_def)

theorem backoff_bounds_witness:
  "fst (backoff_next (\<lambda>n. n - 1) (new_backoff DefaultBackoffBase DefaultBackoffMax)) < 250000000"
proof -
  have "draws_below (\<lambda>n. n - 1)" by (simp add: draws_below_def)
  from backoff_bounds [OF this, of "new_backoff DefaultBackoffBase DefaultBackoffMax"]
  show ?thesis by (simp add: new_backoff_def DefaultBackoffBase_def DefaultBackoffMax_def)
qed

end
