(* ===== verification/Strconv.thy ===== *)
theory Strconv
  imports Go_Base
begin

text \<open>
  The conversions of \<open>strconv\<close> the program reads its settings, message attributes and stored
  numbers with: decimal integers of 64 bits and flags.
\<close>

definition is_digit :: "char \<Rightarrow> bool" where
  "is_digit c \<longleftrightarrow> 48 \<le> (of_char c :: nat) \<and> (of_char c :: nat) \<le> 57"

text \<open>\<open>strconv.Atoi\<close>: an optional sign, decimal digits, the \<open>int64\<close> range.\<close>

fun parse_digits :: "int \<Rightarrow> string \<Rightarrow> int option" where
  "parse_digits acc [] = Some acc"
| "parse_digits acc (c # cs) =
     (if 48 \<le> (of_char c :: nat) \<and> (of_char c :: nat) \<le> 57
      then parse_digits (acc * 10 + (of_char c - 48)) cs else None)"

definition num_error :: "string \<Rightarrow> goerr \<Rightarrow> goerr" where
  "num_error s e = EWrap (''strconv.Atoi: parsing '' @ quote s @ '': '') e []"

definition ErrSyntax :: goerr where "ErrSyntax = ENew ''strconv.ErrSyntax'' ''invalid syntax''"
definition ErrRange :: goerr where "ErrRange = ENew ''strconv.ErrRange'' ''value out of range''"

definition atoi :: "string \<Rightarrow> int res" where
  "atoi s =
     (let neg = has_prefix s ''-'';
          ds = (if neg \<or> has_prefix s ''+'' then drop 1 s else s) in
      if ds = [] then Inl (num_error s ErrSyntax)
      else (case parse_digits 0 ds of
              None \<Rightarrow> Inl (num_error s ErrSyntax)
            | Some n \<Rightarrow>
                let v = (if neg then - n else n)
                in if in_i64 v then Inr v else Inl (num_error s ErrRange)))"

text \<open>\<open>Atoi\<close> reads back what \<open>Itoa\<close> writes.\<close>

lemma parse_digits_append:
  "parse_digits a (xs @ ys) = (case parse_digits a xs of None \<Rightarrow> None | Some b \<Rightarrow> parse_digits b ys)"
  by (induction a xs rule: parse_digits.induct) auto

lemma of_char_digit: "d < 10 \<Longrightarrow> (of_char (digit_char d) :: nat) = 48 + d"
  by (simp add: digit_char_def)

lemma of_char_digit_int: "d < 10 \<Longrightarrow> (of_char (digit_char d) :: int) = 48 + int d"
  using of_nat_of_char [of "digit_char d", where ?'a = int] by (simp add: of_char_digit)

lemma parse_digits_one: "d < 10 \<Longrightarrow> parse_digits a [digit_char d] = Some (a * 10 + int d)"
  by (simp add: of_char_digit of_char_digit_int)

lemma parse_show_nat: "parse_digits 0 (show_nat n) = Some (int n)"
proof (induction n rule: show_nat.induct)
  case (1 n)
  show ?case
  proof (cases "n < 10")
    case True
    then show ?thesis by (simp add: show_nat.simps [of n] parse_digits_one del: parse_digits.simps)
  next
    case False
    have "n mod 10 < 10" by simp
    moreover have "int (n div 10) * 10 + int (n mod 10) = int n" by (simp add: zdiv_int zmod_int)
    ultimately show ?thesis using False 1 [OF False] parse_digits_one [of "n mod 10"]
      by (simp add: show_nat.simps [of n] parse_digits_append del: parse_digits.simps)
  qed
qed

lemma show_nat_head: "\<exists>d < 10. \<exists>ds. show_nat n = digit_char d # ds"
proof (induction n rule: show_nat.induct)
  case (1 n)
  then show ?case by (cases "n < 10") (auto simp: show_nat.simps [of n])
qed

lemma atoi_itoa: "in_i64 n \<Longrightarrow> atoi (itoa n) = Inr n"
proof -
  assume n: "in_i64 n"
  obtain d ds where d: "d < 10" "show_nat (nat \<bar>n\<bar>) = digit_char d # ds" using show_nat_head by blast
  have "digit_char d \<noteq> CHR ''-'' \<and> digit_char d \<noteq> CHR ''+''"
  proof
    show "digit_char d \<noteq> CHR ''-''"
    proof
      assume "digit_char d = CHR ''-''"
      then have "(of_char (digit_char d) :: nat) = 45" by simp
      with of_char_digit [OF d(1)] show False by simp
    qed
    show "digit_char d \<noteq> CHR ''+''"
    proof
      assume "digit_char d = CHR ''+''"
      then have "(of_char (digit_char d) :: nat) = 43" by simp
      with of_char_digit [OF d(1)] show False by simp
    qed
  qed
  with d n parse_show_nat [of "nat \<bar>n\<bar>"] show ?thesis
    by (cases "n < 0") (simp_all add: atoi_def itoa_def Let_def del: parse_digits.simps)
qed

text \<open>
  \<open>strconv.ParseInt(s, 10, 64)\<close>: the same language and range; only its success is looked at.
\<close>

definition parse_int :: "string \<Rightarrow> int option" where
  "parse_int s = (case atoi s of Inl e \<Rightarrow> None | Inr n \<Rightarrow> Some n)"

lemma parse_int_itoa: "in_i64 n \<Longrightarrow> parse_int (itoa n) = Some n"
  by (simp add: parse_int_def atoi_itoa)

lemma parse_int_range: "parse_int s = Some n \<Longrightarrow> in_i64 n"
  by (auto simp: parse_int_def atoi_def Let_def split: sum.splits option.splits if_splits)

text \<open>\<open>strconv.ParseBool\<close>.\<close>

definition parse_bool :: "string \<Rightarrow> bool option" where
  "parse_bool s =
     (if s \<in> set [''1'', ''t'', ''T'', ''TRUE'', ''true'', ''True''] then Some True
      else if s \<in> set [''0'', ''f'', ''F'', ''FALSE'', ''false'', ''False''] then Some False
      else None)"

end
