(* ===== verification/Sqsqueue.thy ===== *)
theory Sqsqueue
  imports Ports Backoff Strconv
begin

text \<open>
  \<open>internal/adapters/sqsqueue/sqsqueue.go\<close>: the queue over Amazon SQS. The client is a
  parameter, a record of the calls the adapter makes on a remote world \<open>'w\<close>; pointers in its
  messages are options. The queue's own mutable state is the map of receipts; every access is
  under its lock. The consumer goroutine is a step relation beside the workers that settle.
\<close>

section \<open>The client\<close>

record attr_value =
  DataType :: "string option"
  StringValue :: "string option"

type_synonym attrs = "string \<rightharpoonup> attr_value"

record message =
  Body :: "string option"
  ReceiptHandle :: "string option"
  MessageAttributes :: "attrs option"

record receive_input =
  ri_url :: string
  ri_max :: int
  ri_wait :: int
  ri_visibility :: int
  ri_names :: "string list"

record 'w sqs_api =
  GetQueueUrl :: "ctx \<Rightarrow> string \<Rightarrow> 'w \<Rightarrow> string option res \<times> 'w"
  GetQueueAttributes :: "ctx \<Rightarrow> string \<Rightarrow> string list \<Rightarrow> 'w \<Rightarrow> (string \<rightharpoonup> string) res \<times> 'w"
  SendMessage :: "ctx \<Rightarrow> string \<Rightarrow> string \<Rightarrow> attrs option \<Rightarrow> 'w \<Rightarrow> goerr option \<times> 'w"
  ReceiveMessage :: "ctx \<Rightarrow> receive_input \<Rightarrow> 'w \<Rightarrow> message list res \<times> 'w"
  DeleteMessage :: "ctx \<Rightarrow> string \<Rightarrow> string \<Rightarrow> 'w \<Rightarrow> goerr option \<times> 'w"
  ChangeMessageVisibility :: "ctx \<Rightarrow> string \<Rightarrow> string \<Rightarrow> int \<Rightarrow> 'w \<Rightarrow> goerr option \<times> 'w"

definition to_string :: "string option \<Rightarrow> string" where
  "to_string p = (case p of None \<Rightarrow> [] | Some s \<Rightarrow> s)"

section \<open>Construction\<close>

definition DefaultWaitTime :: int where "DefaultWaitTime = 20 * 10 ^ 9"
definition DefaultVisibilityTimeout :: int where "DefaultVisibilityTimeout = 120 * 10 ^ 9"
definition DefaultMaxMessages :: int where "DefaultMaxMessages = 10"

record sqs_queue =
  queueURL :: string
  waitTime :: int
  visibilityTimeout :: int
  maxMessages :: int
  backoffBase :: int
  backoffMax :: int
  onReceiveError :: bool
  receipts :: "string \<rightharpoonup> string"

datatype sqs_option =
    WithWaitTime int
  | WithVisibilityTimeout int
  | WithMaxMessages int
  | WithBackoff int int
  | WithReceiveErrorHandler bool

definition with_backoff :: "int \<Rightarrow> int \<Rightarrow> sqs_queue \<Rightarrow> sqs_queue" where
  "with_backoff base maxDelay q =
     (let q = (if base > 0 then q\<lparr>backoffBase := base\<rparr> else q)
      in if maxDelay > 0 then q\<lparr>backoffMax := maxDelay\<rparr> else q)"

definition with_receive_error_handler :: "bool \<Rightarrow> sqs_queue \<Rightarrow> sqs_queue" where
  "with_receive_error_handler given q = (if given then q\<lparr>onReceiveError := True\<rparr> else q)"

fun apply_sqs_option :: "sqs_option \<Rightarrow> sqs_queue \<Rightarrow> sqs_queue" where
  "apply_sqs_option (WithWaitTime d) q =
     (if d > 0 then q\<lparr>waitTime := min d (20 * 10 ^ 9)\<rparr> else q)"
| "apply_sqs_option (WithVisibilityTimeout d) q =
     (if d > 0 then q\<lparr>visibilityTimeout := d\<rparr> else q)"
| "apply_sqs_option (WithMaxMessages n) q =
     (if n > 0 then q\<lparr>maxMessages := min n 10\<rparr> else q)"
| "apply_sqs_option (WithBackoff base maxDelay) q = with_backoff base maxDelay q"
| "apply_sqs_option (WithReceiveErrorHandler given) q = with_receive_error_handler given q"

definition default_queue :: "string \<Rightarrow> sqs_queue" where
  "default_queue url =
     \<lparr>queueURL = url, waitTime = DefaultWaitTime, visibilityTimeout = DefaultVisibilityTimeout,
      maxMessages = DefaultMaxMessages, backoffBase = DefaultBackoffBase,
      backoffMax = DefaultBackoffMax, onReceiveError = False, receipts = Map.empty\<rparr>"

definition sqs_new ::
  "'w sqs_api option \<Rightarrow> ctx \<Rightarrow> string \<Rightarrow> sqs_option list \<Rightarrow> 'w \<Rightarrow> sqs_queue res \<times> 'w" where
  "sqs_new client c nameOrURL opts w =
    (case client of None \<Rightarrow> (Inl (EText ''sqsqueue: nil client''), w) | Some api \<Rightarrow>
     if trim_space nameOrURL = [] then (Inl (EText ''sqsqueue: queue name is empty''), w)
     else
    (let build = (\<lambda>url. foldl (\<lambda>q opt. apply_sqs_option opt q) (default_queue url) opts) in
     if \<not> contains_str nameOrURL ''://'' then
       (case GetQueueUrl api c nameOrURL w of
          (Inl e, w1) \<Rightarrow> (Inl (EWrap (''sqsqueue: resolve queue '' @ quote nameOrURL @ '': '') e []), w1)
        | (Inr url, w1) \<Rightarrow> (Inr (build (to_string url)), w1))
     else (Inr (build nameOrURL), w)))"

section \<open>Metadata\<close>

text \<open>A nil map is \<open>None\<close>; \<open>len(m) == 0\<close> holds of it and of the empty map.\<close>

definition no_entries :: "(string \<rightharpoonup> 'b) option \<Rightarrow> bool" where
  "no_entries m \<longleftrightarrow> (case m of None \<Rightarrow> True | Some f \<Rightarrow> f = Map.empty)"

definition encode_meta :: "(string \<rightharpoonup> string) option \<Rightarrow> attrs option" where
  "encode_meta carrier =
     (case carrier of
        None \<Rightarrow> None
      | Some m \<Rightarrow>
          if no_entries carrier then None
          else Some (\<lambda>k. map_option (\<lambda>v. \<lparr>DataType = Some ''String'', StringValue = Some v\<rparr>) (m k)))"

definition decode_meta :: "attrs option \<Rightarrow> (string \<rightharpoonup> string) option" where
  "decode_meta as =
     (case as of
        None \<Rightarrow> None
      | Some m \<Rightarrow>
          if no_entries as then None
          else
            let meta = (\<lambda>k. case m k of
                 None \<Rightarrow> None
               | Some a \<Rightarrow> let v = to_string (StringValue a) in if v \<noteq> [] then Some v else None)
            in if meta = Map.empty then None else Some meta)"

lemma decode_encode_meta:
  "decode_meta (encode_meta (Some m)) =
   (let m' = (\<lambda>k. case m k of Some v \<Rightarrow> if v \<noteq> [] then Some v else None | None \<Rightarrow> None)
    in if m' = Map.empty then None else Some m')"
proof (cases "m = Map.empty")
  case True
  then show ?thesis
    by (simp add: encode_meta_def decode_meta_def no_entries_def Let_def)
next
  case False
  then have "(\<lambda>k. map_option (\<lambda>v. \<lparr>DataType = Some ''String'', StringValue = Some v\<rparr>) (m k)) \<noteq> Map.empty"
    by (auto simp: fun_eq_iff)
  moreover have "(\<lambda>k. case map_option (\<lambda>v. \<lparr>DataType = Some ''String'', StringValue = Some v\<rparr>) (m k) of
        None \<Rightarrow> None | Some a \<Rightarrow> let v = to_string (StringValue a) in if v \<noteq> [] then Some v else None)
      = (\<lambda>k. case m k of Some v \<Rightarrow> if v \<noteq> [] then Some v else None | None \<Rightarrow> None)"
    by (rule ext) (simp add: to_string_def split: option.split)
  ultimately show ?thesis
    using False by (simp add: encode_meta_def decode_meta_def no_entries_def)
qed

section \<open>Operations\<close>

definition sqs_enqueue ::
  "'w sqs_api \<Rightarrow> sqs_queue \<Rightarrow> ctx \<Rightarrow> string \<Rightarrow> 'w \<Rightarrow> goerr option \<times> 'w" where
  "sqs_enqueue api q c jobID w =
     (if jobID = [] then (Some (EText ''sqsqueue: empty job id''), w)
      else (case SendMessage api c (queueURL q) jobID (encode_meta (CtxCarrier c)) w of
              (Some e, w1) \<Rightarrow> (Some (EWrap (''sqsqueue: enqueue '' @ jobID @ '': '') e []), w1)
            | (None, w1) \<Rightarrow> (None, w1)))"

text \<open>
  \<open>int32(d.Seconds())\<close>. \<open>Seconds\<close> adds the whole seconds and the nanoseconds left over a
  billion, as \<open>float64\<close>s: with the quotient \<open>m / 2^k\<close> the sum is that of two multiples of
  \<open>2^-k\<close>, rounded to 53 bits. The conversion drops the fraction, and gives the smallest \<open>int32\<close>
  out of range, as amd64 does. A duration of either sign is converted by its size.
\<close>

definition seconds_down :: "nat \<Rightarrow> nat" where
  "seconds_down n =
     (case f64_quot (n mod 10 ^ 9) (10 ^ 9) of
        (m, k) \<Rightarrow> if m = 0 then n div 10 ^ 9 else f64_of_nat (n div 10 ^ 9 * 2 ^ k + m) div 2 ^ k)"

definition i32_of_f64 :: "int \<Rightarrow> int" where
  "i32_of_f64 x = (if - (2 ^ 31) \<le> x \<and> x < 2 ^ 31 then x else - (2 ^ 31))"

definition whole_seconds :: "int \<Rightarrow> int" where
  "whole_seconds d =
     i32_of_f64 (if d < 0 then - int (seconds_down (nat (- d))) else int (seconds_down (nat d)))"

text \<open>Whole seconds come out as they are, up to the range of an \<open>int32\<close>; the settings are such.\<close>

lemma whole_seconds_exact:
  assumes "0 \<le> s" "s < 2 ^ 31"
  shows "whole_seconds (s * 10 ^ 9) = s"
proof -
  have n: "nat (s * 10 ^ 9) = nat s * 10 ^ 9" using assms(1) by (simp add: nat_mult_distrib)
  obtain k where "f64_quot 0 (10 ^ 9) = (0, k)" by (simp add: f64_quot_def Let_def)
  then have "seconds_down (nat s * 10 ^ 9) = nat s"
    unfolding seconds_down_def by (simp split: prod.split)
  with assms n show ?thesis by (simp add: whole_seconds_def i32_of_f64_def)
qed

fun record_messages :: "message list \<Rightarrow> (string \<rightharpoonup> string) \<Rightarrow> delivery list \<times> (string \<rightharpoonup> string)" where
  "record_messages [] rs = ([], rs)"
| "record_messages (m # ms) rs =
     (let jobID = to_string (Body m) in
      if jobID = [] then record_messages ms rs
      else (case record_messages ms (rs(jobID \<mapsto> to_string (ReceiptHandle m))) of
              (ds, rs') \<Rightarrow> (\<lparr>JobID = jobID, Meta = decode_meta (MessageAttributes m)\<rparr> # ds, rs')))"

definition sqs_receive ::
  "'w sqs_api \<Rightarrow> sqs_queue \<Rightarrow> ctx \<Rightarrow> 'w \<Rightarrow> delivery list res \<times> sqs_queue \<times> 'w" where
  "sqs_receive api q c w =
     (case ReceiveMessage api c
        \<lparr>ri_url = queueURL q, ri_max = maxMessages q, ri_wait = whole_seconds (waitTime q),
         ri_visibility = whole_seconds (visibilityTimeout q), ri_names = [''All'']\<rparr> w of
        (Inl e, w1) \<Rightarrow> (Inl (EWrap ''sqsqueue: receive: '' e []), q, w1)
      | (Inr ms, w1) \<Rightarrow>
          (case record_messages ms (receipts q) of
             (ds, rs) \<Rightarrow> (Inr ds, q\<lparr>receipts := rs\<rparr>, w1)))"

definition take_receipt :: "sqs_queue \<Rightarrow> string \<Rightarrow> string option \<times> sqs_queue" where
  "take_receipt q jobID =
     (case receipts q jobID of
        None \<Rightarrow> (None, q)
      | Some r \<Rightarrow> (Some r, q\<lparr>receipts := (receipts q)(jobID := None)\<rparr>))"

definition sqs_ack ::
  "'w sqs_api \<Rightarrow> sqs_queue \<Rightarrow> ctx \<Rightarrow> string \<Rightarrow> 'w \<Rightarrow> goerr option \<times> sqs_queue \<times> 'w" where
  "sqs_ack api q c jobID w =
     (case take_receipt q jobID of
        (None, q1) \<Rightarrow> (None, q1, w)
      | (Some r, q1) \<Rightarrow>
          (case DeleteMessage api c (queueURL q1) r w of
             (Some e, w1) \<Rightarrow> (Some (EWrap (''sqsqueue: ack '' @ jobID @ '': '') e []), q1, w1)
           | (None, w1) \<Rightarrow> (None, q1, w1)))"

definition sqs_nack ::
  "'w sqs_api \<Rightarrow> sqs_queue \<Rightarrow> ctx \<Rightarrow> string \<Rightarrow> 'w \<Rightarrow> goerr option \<times> sqs_queue \<times> 'w" where
  "sqs_nack api q c jobID w =
     (case take_receipt q jobID of
        (None, q1) \<Rightarrow> (None, q1, w)
      | (Some r, q1) \<Rightarrow>
          (case ChangeMessageVisibility api c (queueURL q1) r 0 w of
             (Some e, w1) \<Rightarrow> (Some (EWrap (''sqsqueue: nack '' @ jobID @ '': '') e []), q1, w1)
           | (None, w1) \<Rightarrow> (None, q1, w1)))"

definition sqs_in_flight :: "sqs_queue \<Rightarrow> nat" where
  "sqs_in_flight q = card (dom (receipts q))"

definition depth_attr :: string where
  "depth_attr = ''ApproximateNumberOfMessages''"

definition sqs_depth :: "'w sqs_api \<Rightarrow> sqs_queue \<Rightarrow> ctx \<Rightarrow> 'w \<Rightarrow> int res \<times> 'w" where
  "sqs_depth api q c w =
     (case GetQueueAttributes api c (queueURL q) [depth_attr] w of
        (Inl e, w1) \<Rightarrow> (Inl (EWrap ''sqsqueue: depth: '' e []), w1)
      | (Inr as, w1) \<Rightarrow>
          (case as depth_attr of
             None \<Rightarrow> (Inl (EText (''sqsqueue: depth: '' @ depth_attr @ '' missing from the response'')), w1)
           | Some raw \<Rightarrow>
               (case atoi raw of
                  Inl e \<Rightarrow> (Inl (EWrap (''sqsqueue: depth: '' @ quote raw @ '' is not a number: '') e []), w1)
                | Inr n \<Rightarrow> (Inr n, w1))))"

section \<open>What the operations do\<close>

text \<open>The settings SQS accepts: what the options guarantee, whatever they are given.\<close>

definition sqs_limits :: "sqs_queue \<Rightarrow> bool" where
  "sqs_limits q \<longleftrightarrow>
     0 < waitTime q \<and> waitTime q \<le> 20 * 10 ^ 9 \<and> 0 < maxMessages q \<and> maxMessages q \<le> 10 \<and>
     0 < visibilityTimeout q \<and> 0 < backoffBase q \<and> 0 < backoffMax q"

lemma option_limits:
  "sqs_limits q \<Longrightarrow> sqs_limits (apply_sqs_option opt q) \<and>
     receipts (apply_sqs_option opt q) = receipts q \<and> queueURL (apply_sqs_option opt q) = queueURL q"
  by (cases opt) (auto simp: sqs_limits_def with_backoff_def with_receive_error_handler_def Let_def)

lemma options_limits:
  "sqs_limits q \<Longrightarrow> sqs_limits (foldl (\<lambda>q opt. apply_sqs_option opt q) q opts) \<and>
     receipts (foldl (\<lambda>q opt. apply_sqs_option opt q) q opts) = receipts q \<and>
     queueURL (foldl (\<lambda>q opt. apply_sqs_option opt q) q opts) = queueURL q"
proof (induction opts arbitrary: q)
  case Nil
  then show ?case by simp
next
  case (Cons opt opts)
  with option_limits [OF Cons.prems, of opt] Cons.IH [of "apply_sqs_option opt q"]
  show ?case by simp
qed

lemma default_queue_limits: "sqs_limits (default_queue u)"
  by (simp add: sqs_limits_def default_queue_def DefaultWaitTime_def DefaultMaxMessages_def
      DefaultVisibilityTimeout_def DefaultBackoffBase_def DefaultBackoffMax_def)

text \<open>
  Recording messages: one delivery per message with a body, in order; a job's receipt is that
  of its last message, other receipts are kept.
\<close>

definition job_messages :: "message list \<Rightarrow> message list" where
  "job_messages ms = filter (\<lambda>m. to_string (Body m) \<noteq> []) ms"

lemma record_messages_Cons:
  "to_string (Body m) = [] \<Longrightarrow> record_messages (m # ms) rs = record_messages ms rs"
  "to_string (Body m) \<noteq> [] \<Longrightarrow> record_messages (m # ms) rs =
     (\<lparr>JobID = to_string (Body m), Meta = decode_meta (MessageAttributes m)\<rparr> #
        fst (record_messages ms (rs(to_string (Body m) \<mapsto> to_string (ReceiptHandle m)))),
      snd (record_messages ms (rs(to_string (Body m) \<mapsto> to_string (ReceiptHandle m)))))"
  by (simp_all add: Let_def split_beta)

declare record_messages.simps(2) [simp del]

lemma record_messages_deliveries:
  "fst (record_messages ms rs) =
   map (\<lambda>m. \<lparr>JobID = to_string (Body m), Meta = decode_meta (MessageAttributes m)\<rparr>) (job_messages ms)"
proof (induction ms arbitrary: rs)
  case Nil
  then show ?case by (simp add: job_messages_def)
next
  case (Cons m ms)
  then show ?case
    by (cases "to_string (Body m) = []") (simp_all add: record_messages_Cons job_messages_def)
qed

lemma record_messages_receipts:
  "snd (record_messages ms rs) =
   rs ++ map_of (rev (map (\<lambda>m. (to_string (Body m), to_string (ReceiptHandle m))) (job_messages ms)))"
proof (induction ms arbitrary: rs)
  case Nil
  then show ?case by (simp add: job_messages_def)
next
  case (Cons m ms)
  show ?case
  proof (cases "to_string (Body m) = []")
    case True
    with Cons show ?thesis by (simp add: job_messages_def record_messages_Cons)
  next
    case False
    let ?i = "to_string (Body m)" and ?r = "to_string (ReceiptHandle m)"
    let ?rest = "rev (map (\<lambda>m. (to_string (Body m), to_string (ReceiptHandle m))) (job_messages ms))"
    have "snd (record_messages (m # ms) rs) = snd (record_messages ms (rs(?i \<mapsto> ?r)))"
      using False by (simp add: record_messages_Cons)
    also have "\<dots> = rs(?i \<mapsto> ?r) ++ map_of ?rest" by (rule Cons)
    also have "\<dots> = rs ++ map_of (?rest @ [(?i, ?r)])"
      by (rule ext) (simp add: map_add_def split: option.split)
    finally show ?thesis using False by (simp add: job_messages_def)
  qed
qed

lemma record_messages_has_receipt:
  assumes "record_messages ms rs = (ds, rs')" "d \<in> set ds"
  shows "JobID d \<in> dom rs' \<and> JobID d \<noteq> []"
proof -
  have ds: "ds = map (\<lambda>m. \<lparr>JobID = to_string (Body m), Meta = decode_meta (MessageAttributes m)\<rparr>)
      (job_messages ms)"
    and rs': "rs' = rs ++ map_of (rev (map (\<lambda>m. (to_string (Body m), to_string (ReceiptHandle m)))
      (job_messages ms)))"
    using record_messages_deliveries [of ms rs] record_messages_receipts [of ms rs] assms(1)
    by simp_all
  from ds assms(2) obtain m where m: "m \<in> set (job_messages ms)" "JobID d = to_string (Body m)"
    by auto
  then show ?thesis
    unfolding rs' by (force simp: dom_map_add dom_map_of_conv_image_fst job_messages_def)
qed

lemma take_receipt_simps [simp]:
  "fst (take_receipt q i) = receipts q i"
  "receipts (snd (take_receipt q i)) = (receipts q)(i := None)"
  "queueURL (snd (take_receipt q i)) = queueURL q"
  by (auto simp: take_receipt_def fun_eq_iff split: option.split)

section \<open>The consumer\<close>

text \<open>
  The goroutine of \<open>ConsumeDeliveries\<close> polls, backs off, or hands over what it received;
  \<open>ss_done\<close> tells that the context it was given is done. Workers settle deliveries at any time.
  Ghost fields record what was received, what was handed over and what the callback for failed
  receives, if one was installed, was called with. A \<open>select\<close> with both a
  hand-over (or an expired timer) and \<open>ctx.Done()\<close> ready may take either.
\<close>

datatype phase = Polling | Backing int | Sending "delivery list" | Stopped

record 'w sqs_sys =
  ss_queue :: sqs_queue
  ss_world :: 'w
  ss_retry :: backoff
  ss_phase :: phase
  ss_done :: bool
  ss_received :: "delivery list"
  ss_handed :: "delivery list"
  ss_reports :: "(goerr \<times> nat \<times> int) list"

definition sqs_consume :: "sqs_queue \<Rightarrow> 'w \<Rightarrow> 'w sqs_sys" where
  "sqs_consume q w =
     \<lparr>ss_queue = q, ss_world = w, ss_retry = new_backoff (backoffBase q) (backoffMax q),
      ss_phase = Polling, ss_done = False, ss_received = [], ss_handed = [],
      ss_reports = []\<rparr>"

inductive sqs_step :: "'w sqs_api \<Rightarrow> ctx \<Rightarrow> (int \<Rightarrow> int) \<Rightarrow> 'w sqs_sys \<Rightarrow> 'w sqs_sys \<Rightarrow> bool"
  for api :: "'w sqs_api" and c :: ctx and random :: "int \<Rightarrow> int" where
  stop: "ss_phase s = Polling \<Longrightarrow> ss_done s \<Longrightarrow> sqs_step api c random s (s\<lparr>ss_phase := Stopped\<rparr>)"
| poll_ok: "ss_phase s = Polling \<Longrightarrow> \<not> ss_done s \<Longrightarrow>
    sqs_receive api (ss_queue s) c (ss_world s) = (Inr ds, q', w') \<Longrightarrow>
    sqs_step api c random s
      (s\<lparr>ss_queue := q', ss_world := w', ss_retry := backoff_reset (ss_retry s),
         ss_phase := Sending ds, ss_received := ss_received s @ ds\<rparr>)"
| poll_err: "ss_phase s = Polling \<Longrightarrow> \<not> ss_done s \<Longrightarrow>
    sqs_receive api (ss_queue s) c (ss_world s) = (Inl e, q', w') \<Longrightarrow>
    backoff_next random (ss_retry s) = (delay, b') \<Longrightarrow>
    sqs_step api c random s
      (s\<lparr>ss_queue := q', ss_world := w', ss_retry := b', ss_phase := Backing delay,
         ss_reports := ss_reports s @
           (if onReceiveError (ss_queue s) then [(e, backoff_attempts b', delay)] else [])\<rparr>)"
| poll_cut: "ss_phase s = Polling \<Longrightarrow> \<not> ss_done s \<Longrightarrow>
    sqs_receive api (ss_queue s) c (ss_world s) = (Inl e, q', w') \<Longrightarrow>
    sqs_step api c random s
      (s\<lparr>ss_queue := q', ss_world := w', ss_done := True, ss_phase := Stopped\<rparr>)"
| waited: "ss_phase s = Backing d \<Longrightarrow> 0 < d \<or> \<not> ss_done s \<Longrightarrow>
    sqs_step api c random s (s\<lparr>ss_phase := Polling\<rparr>)"
| wait_cut: "ss_phase s = Backing d \<Longrightarrow> ss_done s \<Longrightarrow>
    sqs_step api c random s (s\<lparr>ss_phase := Stopped\<rparr>)"
| send: "ss_phase s = Sending (d # ds) \<Longrightarrow>
    sqs_step api c random s (s\<lparr>ss_phase := Sending ds, ss_handed := ss_handed s @ [d]\<rparr>)"
| send_cut: "ss_phase s = Sending (d # ds) \<Longrightarrow> ss_done s \<Longrightarrow>
    sqs_step api c random s (s\<lparr>ss_phase := Stopped\<rparr>)"
| sent: "ss_phase s = Sending [] \<Longrightarrow> sqs_step api c random s (s\<lparr>ss_phase := Polling\<rparr>)"
| cancel: "sqs_step api c random s (s\<lparr>ss_done := True\<rparr>)"
| ack: "sqs_ack api (ss_queue s) c' i (ss_world s) = (x, q', w') \<Longrightarrow>
    sqs_step api c random s (s\<lparr>ss_queue := q', ss_world := w'\<rparr>)"
| nack: "sqs_nack api (ss_queue s) c' i (ss_world s) = (x, q', w') \<Longrightarrow>
    sqs_step api c random s (s\<lparr>ss_queue := q', ss_world := w'\<rparr>)"

inductive_cases sqs_stepE: "sqs_step api c random s t"

text \<open>
  The settings never change, what is handed over is what was received, in order, without
  loss while the context is live, and the consumer stops only once the context is done.
\<close>

fun unsent :: "phase \<Rightarrow> delivery list" where
  "unsent (Sending ds) = ds"
| "unsent _ = []"

definition same_settings :: "sqs_queue \<Rightarrow> sqs_queue \<Rightarrow> bool" where
  "same_settings q q' \<longleftrightarrow> q'\<lparr>receipts := receipts q\<rparr> = q"

text \<open>The callback, if there is one, was just told the number of failures and the delay.\<close>

definition reported :: "sqs_queue \<Rightarrow> 'w sqs_sys \<Rightarrow> int \<Rightarrow> bool" where
  "reported q s d \<longleftrightarrow>
     (if onReceiveError q then ss_reports s \<noteq> [] \<and> snd (last (ss_reports s)) = (backoff_attempts (ss_retry s), d)
      else True)"

definition sqs_inv :: "sqs_queue \<Rightarrow> 'w sqs_sys \<Rightarrow> bool" where
  "sqs_inv q s \<longleftrightarrow>
     same_settings q (ss_queue s) \<and>
     b_base (ss_retry s) = backoffBase q \<and> b_max (ss_retry s) = backoffMax q \<and>
     (ss_phase s = Stopped \<longrightarrow> ss_done s) \<and>
     (\<exists>lost. ss_received s = ss_handed s @ unsent (ss_phase s) @ lost \<and>
             (ss_phase s \<noteq> Stopped \<longrightarrow> lost = [])) \<and>
     (\<forall>d. ss_phase s = Backing d \<longrightarrow> 0 \<le> d \<and> d < backoffMax q \<and> reported q s d) \<and>
     (\<forall>d \<in> set (ss_received s). JobID d \<noteq> []) \<and>
     list_all (\<lambda>(e, n, d). 0 < n \<and> 0 \<le> d \<and> d < backoffMax q) (ss_reports s)"

lemma same_settings_refl [simp]: "same_settings q q"
  by (simp add: same_settings_def)

lemma same_settings_handler: "same_settings q q' \<Longrightarrow> onReceiveError q' = onReceiveError q"
  by (cases q; cases q') (simp add: same_settings_def)

lemma same_settings_receive:
  "sqs_receive api q c w = (x, q', w') \<Longrightarrow> same_settings p q \<Longrightarrow> same_settings p q'"
  by (auto simp: sqs_receive_def same_settings_def split: sum.splits prod.splits)

lemma same_settings_take: "same_settings p q \<Longrightarrow> same_settings p (snd (take_receipt q i))"
  by (auto simp: take_receipt_def same_settings_def split: option.splits)

lemma settle_queue:
  "sqs_ack api q c i w = (x, q', w') \<Longrightarrow> q' = snd (take_receipt q i)"
  "sqs_nack api q c i w = (x, q', w') \<Longrightarrow> q' = snd (take_receipt q i)"
  by (auto simp: sqs_ack_def sqs_nack_def split: prod.splits option.splits)

lemma sqs_receive_ids:
  assumes "sqs_receive api q c w = (Inr ds, q', w')"
  shows "\<forall>d \<in> set ds. JobID d \<noteq> [] \<and> JobID d \<in> dom (receipts q')"
proof -
  from assms obtain ms where "record_messages ms (receipts q) = (ds, receipts q')"
    by (auto simp: sqs_receive_def split: sum.splits prod.splits)
  then show ?thesis using record_messages_has_receipt by blast
qed

lemma sqs_consume_inv: "sqs_inv q (sqs_consume q w)"
  by (simp add: sqs_inv_def sqs_consume_def new_backoff_def)

lemma sqs_step_inv:
  assumes "sqs_step api c random s t" "sqs_inv q s" "draws_below random" "sqs_limits q"
    "backoffBase q \<le> 2 ^ 53" "backoffMax q \<le> 2 ^ 53"
  shows "sqs_inv q t"
  using assms
proof (induction rule: sqs_step.induct)
  case (poll_ok s ds q' w')
  then show ?case
    using same_settings_receive [OF poll_ok(3)] sqs_receive_ids [OF poll_ok(3)]
    by (auto simp: sqs_inv_def backoff_reset_def)
next
  case (poll_err s e q' w' delay b')
  then have b: "b_base (ss_retry s) = backoffBase q" "b_max (ss_retry s) = backoffMax q"
    by (simp_all add: sqs_inv_def)
  have n: "0 \<le> delay \<and> delay < backoffMax q \<and> b_base b' = backoffBase q \<and> b_max b' = backoffMax q \<and>
      0 < backoff_attempts b'"
    using backoff_next_bounds [of random "ss_retry s" delay b'] poll_err b
    by (simp add: sqs_limits_def)
  have "onReceiveError (ss_queue s) = onReceiveError q"
    using poll_err(5) same_settings_handler by (simp add: sqs_inv_def)
  with n poll_err same_settings_receive [OF poll_err(3)] show ?case
    by (auto simp: sqs_inv_def reported_def)
next
  case (poll_cut s e q' w')
  then show ?case
    using same_settings_receive [OF poll_cut(3)] by (auto simp: sqs_inv_def)
next
  case (ack s c' i x q' w')
  then show ?case
    using settle_queue(1) [OF ack(1)] same_settings_take by (auto simp: sqs_inv_def reported_def)
next
  case (nack s c' i x q' w')
  then show ?case
    using settle_queue(2) [OF nack(1)] same_settings_take by (auto simp: sqs_inv_def reported_def)
qed (auto simp: sqs_inv_def reported_def)

lemma sqs_steps_inv:
  assumes "(sqs_step api c random)\<^sup>*\<^sup>* s t" "sqs_inv q s" "draws_below random" "sqs_limits q"
    "backoffBase q \<le> 2 ^ 53" "backoffMax q \<le> 2 ^ 53"
  shows "sqs_inv q t"
  using assms(1,2) by (induction rule: rtranclp_induct) (auto intro: sqs_step_inv assms(3-6))

section \<open>Properties\<close>

text \<open>
  Trace metadata survives the queue: what \<open>decodeMeta\<close> reads from what \<open>encodeMeta\<close> wrote is
  the carrier without its empty values, and no map at all when nothing is left.
\<close>

theorem meta_roundtrip:
  "decode_meta (encode_meta carrier) =
     (case carrier of
        None \<Rightarrow> None
      | Some m \<Rightarrow> let kept = (\<lambda>k. case m k of Some v \<Rightarrow> if v \<noteq> [] then Some v else None | None \<Rightarrow> None)
                 in if kept = Map.empty then None else Some kept)"
proof (cases carrier)
  case None
  then show ?thesis by (simp add: encode_meta_def decode_meta_def)
next
  case (Some m)
  then show ?thesis by (simp only: option.case decode_encode_meta)
qed

definition sample_api :: "nat sqs_api" where
  "sample_api =
     \<lparr>GetQueueUrl = \<lambda>c n w. (Inr (Some ''https://q''), Suc w),
      GetQueueAttributes = \<lambda>c u ks w. (Inr [depth_attr \<mapsto> ''12''], Suc w),
      SendMessage = \<lambda>c u b as w. (None, Suc w),
      ReceiveMessage = \<lambda>c i w.
        (if even w then Inr [\<lparr>Body = Some ''j'', ReceiptHandle = Some ''r'', MessageAttributes = None\<rparr>]
         else Inl (EText ''throttled''), Suc w),
      DeleteMessage = \<lambda>c u r w. (None, Suc w),
      ChangeMessageVisibility = \<lambda>c u r v w. (None, Suc w)\<rparr>"

text \<open>
  Settling is at most once, and exact: acknowledging a job calls the broker with the receipt
  of its latest delivery, forgets that receipt and no other, and a second \<open>Ack\<close> or \<open>Nack\<close> of it
  is a no-op; a job with no recorded receipt is not an error and calls nothing.
\<close>

theorem settle_once:
  "case receipts q i of
     None \<Rightarrow> sqs_ack api q c i w = (None, q, w) \<and> sqs_nack api q c i w = (None, q, w)
   | Some r \<Rightarrow>
       (let (x, q', w') = sqs_ack api q c i w in
          w' = snd (DeleteMessage api c (queueURL q) r w) \<and>
          q' = q\<lparr>receipts := (receipts q)(i := None)\<rparr> \<and>
          sqs_ack api q' c i w' = (None, q', w') \<and> sqs_nack api q' c i w' = (None, q', w')) \<and>
       (let (x, q', w') = sqs_nack api q c i w in
          w' = snd (ChangeMessageVisibility api c (queueURL q) r 0 w) \<and>
          q' = q\<lparr>receipts := (receipts q)(i := None)\<rparr>)"
  by (auto simp: sqs_ack_def sqs_nack_def take_receipt_def split: option.split prod.splits)

text \<open>
  A receive hands over one delivery per message with a body, in order, each with a receipt
  recorded under its job: afterwards every receipt is that of the job's last message of the
  batch, or, for a job that is not in the batch, the one it had.
\<close>

theorem receive_records:
  assumes "ReceiveMessage api c
      \<lparr>ri_url = queueURL q, ri_max = maxMessages q, ri_wait = whole_seconds (waitTime q),
       ri_visibility = whole_seconds (visibilityTimeout q), ri_names = [''All'']\<rparr> w = (Inr ms, w')"
  shows "\<exists>q'. sqs_receive api q c w =
      (Inr (map (\<lambda>m. \<lparr>JobID = to_string (Body m), Meta = decode_meta (MessageAttributes m)\<rparr>) (job_messages ms)),
       q', w') \<and>
    receipts q' = receipts q ++
      map_of (rev (map (\<lambda>m. (to_string (Body m), to_string (ReceiptHandle m))) (job_messages ms)))"
  using assms record_messages_deliveries [of ms "receipts q"] record_messages_receipts [of ms "receipts q"]
  by (auto simp: sqs_receive_def split: prod.split)

theorem receive_records_witness:
  "\<exists>q'. sqs_receive sample_api (default_queue ''u'') Background 0
      = (Inr [\<lparr>JobID = ''j'', Meta = None\<rparr>], q', 1) \<and> receipts q' ''j'' = Some ''r''"
proof -
  have "ReceiveMessage sample_api Background
      \<lparr>ri_url = queueURL (default_queue ''u''), ri_max = maxMessages (default_queue ''u''),
       ri_wait = whole_seconds (waitTime (default_queue ''u'')),
       ri_visibility = whole_seconds (visibilityTimeout (default_queue ''u'')), ri_names = [''All'']\<rparr> 0
    = (Inr [\<lparr>Body = Some ''j'', ReceiptHandle = Some ''r'', MessageAttributes = None\<rparr>], 1)"
    by (simp add: sample_api_def)
  from receive_records [OF this] show ?thesis
    by (auto simp: job_messages_def to_string_def decode_meta_def)
qed

text \<open>
  C23: the consumer goroutine, in any interleaving with settling workers and cancellation: it
  stops only when its context is done (no failed receive ends it), hands over what it
  received, in order and without loss while it runs, never an empty identifier, never
  changes the queue's settings, and every delay before a retry is within the bound and reported
  with the number of failures in a row to the callback, if one was installed.
\<close>

theorem consumer_invariant:
  assumes "(sqs_step api c random)\<^sup>*\<^sup>* (sqs_consume q w) s" "draws_below random"
    "sqs_limits q" "backoffBase q \<le> 2 ^ 53" "backoffMax q \<le> 2 ^ 53"
  shows "(ss_phase s \<noteq> Stopped \<or> ss_done s) \<and>
    (\<exists>lost. ss_received s = ss_handed s @ unsent (ss_phase s) @ lost \<and>
            (ss_phase s = Stopped \<or> lost = [])) \<and>
    list_all (\<lambda>d. JobID d \<noteq> []) (ss_received s) \<and>
    same_settings q (ss_queue s) \<and>
    (case ss_phase s of Backing d \<Rightarrow> 0 \<le> d \<and> d < backoffMax q \<and> reported q s d | _ \<Rightarrow> True) \<and>
    list_all (\<lambda>(e, n, d). 0 < n \<and> 0 \<le> d \<and> d < backoffMax q) (ss_reports s)"
proof -
  have i: "sqs_inv q s" by (rule sqs_steps_inv [OF assms(1) sqs_consume_inv assms(2-5)])
  then show ?thesis
    by (cases "ss_phase s") (auto simp: sqs_inv_def list_all_iff)
qed

theorem consumer_invariant_witness:
  "\<exists>s. (sqs_step sample_api Background (\<lambda>n. 0))\<^sup>*\<^sup>* (sqs_consume (default_queue ''u'') 0) s \<and>
       ss_received s = [\<lparr>JobID = ''j'', Meta = None\<rparr>] \<and> list_all (\<lambda>d. JobID d \<noteq> []) (ss_received s)"
proof -
  let ?init = "sqs_consume (default_queue ''u'') (0 :: nat)"
  obtain q' where r: "sqs_receive sample_api (default_queue ''u'') Background 0
      = (Inr [\<lparr>JobID = ''j'', Meta = None\<rparr>], q', 1)"
    by (simp add: sqs_receive_def sample_api_def record_messages_Cons to_string_def decode_meta_def)
  let ?s = "?init\<lparr>ss_queue := q', ss_world := 1, ss_retry := backoff_reset (ss_retry ?init),
      ss_phase := Sending [\<lparr>JobID = ''j'', Meta = None\<rparr>],
      ss_received := ss_received ?init @ [\<lparr>JobID = ''j'', Meta = None\<rparr>]\<rparr>"
  have "sqs_step sample_api Background (\<lambda>n. 0) ?init ?s"
    by (rule sqs_step.poll_ok) (simp_all add: sqs_consume_def r)
  then have st: "(sqs_step sample_api Background (\<lambda>n. 0))\<^sup>*\<^sup>* ?init ?s" by (rule r_into_rtranclp)
  have "draws_below (\<lambda>n. 0)" by (simp add: draws_below_def)
  moreover have "backoffBase (default_queue ''u'') \<le> 2 ^ 53" "backoffMax (default_queue ''u'') \<le> 2 ^ 53"
    by (simp_all add: default_queue_def DefaultBackoffBase_def DefaultBackoffMax_def)
  ultimately have "list_all (\<lambda>d. JobID d \<noteq> []) (ss_received ?s)"
    using consumer_invariant [OF st _ default_queue_limits] by blast
  moreover have "ss_received ?s = [\<lparr>JobID = ''j'', Meta = None\<rparr>]" by (simp add: sqs_consume_def)
  ultimately show ?thesis using st by blast
qed

text \<open>
  Whatever options it is built with, a queue long-polls for at most twenty seconds, asks for
  between one and ten messages, has positive backoff bounds, starts with no delivery in flight,
  and keeps the URL it was given when it was given one.
\<close>

theorem new_queue_limits:
  "case sqs_new client c name opts w of
     (Inl e, w') \<Rightarrow> True
   | (Inr q, w') \<Rightarrow> sqs_limits q \<and> receipts q = Map.empty \<and> sqs_in_flight q = 0 \<and>
       (if contains_str name ''://'' then queueURL q = name else True)"
proof -
  have "sqs_limits (foldl (\<lambda>q opt. apply_sqs_option opt q) (default_queue u) opts) \<and>
    receipts (foldl (\<lambda>q opt. apply_sqs_option opt q) (default_queue u) opts) = Map.empty \<and>
    queueURL (foldl (\<lambda>q opt. apply_sqs_option opt q) (default_queue u) opts) = u" for u
    using options_limits [OF default_queue_limits, of u opts] by (simp add: default_queue_def)
  then show ?thesis
    by (auto simp: sqs_new_def sqs_in_flight_def Let_def split: option.split sum.split prod.split)
qed

end
