(* ===== verification/Worker.thy ===== *)
theory Worker
  imports Usecase Sqsqueue
begin

text \<open>
  \<open>internal/worker/pool.go\<close>: what one worker does with a delivery (\<open>handle\<close>, \<open>settle\<close>), and
  the life of the pool (\<open>work\<close>, \<open>Run\<close>) as a step relation. Logging, spans and the durations
  reported to the observer are left out; the statuses reported are kept. The counters are
  64-bit and wrap.
\<close>

section \<open>Settings\<close>

definition DefaultSize :: int where "DefaultSize = 4"
definition DefaultShutdownTimeout :: int where "DefaultShutdownTimeout = 30 * 10 ^ 9"
definition DefaultJobTimeout :: int where "DefaultJobTimeout = 120 * 10 ^ 9"

definition ErrShutdownTimeout :: goerr where
  "ErrShutdownTimeout =
     ENew ''worker.ErrShutdownTimeout'' ''worker: timed out waiting for in-flight jobs''"

record 'w pool =
  p_process :: "'w process_job"
  p_acker :: "'w acker_port option"
  p_size :: int
  p_shutdownTimeout :: int
  p_jobTimeout :: int

datatype pool_option = WithSize int | WithShutdownTimeout int | WithJobTimeout int

fun apply_pool_option :: "pool_option \<Rightarrow> 'w pool \<Rightarrow> 'w pool" where
  "apply_pool_option (WithSize n) p = (if n > 0 then p\<lparr>p_size := n\<rparr> else p)"
| "apply_pool_option (WithShutdownTimeout d) p = (if d > 0 then p\<lparr>p_shutdownTimeout := d\<rparr> else p)"
| "apply_pool_option (WithJobTimeout d) p = p\<lparr>p_jobTimeout := d\<rparr>"

definition new_pool :: "'w process_job \<Rightarrow> 'w acker_port option \<Rightarrow> pool_option list \<Rightarrow> 'w pool" where
  "new_pool process acker opts =
     foldl (\<lambda>p opt. apply_pool_option opt p)
       \<lparr>p_process = process, p_acker = acker, p_size = DefaultSize,
        p_shutdownTimeout = DefaultShutdownTimeout, p_jobTimeout = DefaultJobTimeout\<rparr> opts"

lemma new_pool_size: "0 < p_size (new_pool process acker opts)"
  for process :: "'w process_job"
proof -
  have "0 < p_size p \<Longrightarrow> 0 < p_size (foldl (\<lambda>p opt. apply_pool_option opt p) p opts)" for p :: "'w pool"
  proof (induction opts arbitrary: p)
    case (Cons opt opts)
    then show ?case by (cases opt) simp_all
  qed simp
  then show ?thesis by (simp add: new_pool_def DefaultSize_def)
qed

section \<open>One delivery\<close>

definition StatusProcessed :: string where "StatusProcessed = ''processed''"
definition OutcomeFailed :: string where "OutcomeFailed = ''failed''"
definition StatusSkipped :: string where "StatusSkipped = ''skipped''"

definition outcome_of :: "goerr option \<Rightarrow> string" where
  "outcome_of err =
     (case err of
        Some e \<Rightarrow> if errors_is e ErrJobNotPending then StatusSkipped else OutcomeFailed
      | None \<Rightarrow> StatusProcessed)"

record stats =
  Processed :: nat
  Failed :: nat
  Skipped :: nat

definition uint64_size :: nat where
  "uint64_size = 2 ^ 64"

definition add_one :: "nat \<Rightarrow> nat" where
  "add_one n = (n + 1) mod uint64_size"

text \<open>The switch of \<open>handle\<close>: the counter, the status observed, and whether to acknowledge.\<close>

definition record_outcome :: "goerr option \<Rightarrow> stats \<Rightarrow> stats \<times> string \<times> bool" where
  "record_outcome err st =
     (case err of
        Some e \<Rightarrow>
          if errors_is e ErrJobNotPending
          then (st\<lparr>Skipped := add_one (Skipped st)\<rparr>, StatusSkipped, True)
          else (st\<lparr>Failed := add_one (Failed st)\<rparr>, OutcomeFailed, False)
      | None \<Rightarrow> (st\<lparr>Processed := add_one (Processed st)\<rparr>, StatusProcessed, True))"

text \<open>
  \<open>settle\<close>: the context is detached from the job's and bounded by its own timeout, which
  passes at logical time \<open>limit\<close>. An error is only logged.
\<close>

definition settle :: "'w acker_port option \<Rightarrow> nat \<Rightarrow> ctx \<Rightarrow> string \<Rightarrow> bool \<Rightarrow> 'w \<Rightarrow> 'w" where
  "settle acker limit c jobID done w =
     (case acker of
        None \<Rightarrow> w
      | Some a \<Rightarrow>
          let sc = with_deadline limit (without_cancel c)
          in snd (if done then Ack a sc jobID w else Nack a sc jobID w))"

text \<open>
  \<open>telemetry.Extract\<close>; \<open>propagate\<close> is the global propagator. The job's own timeout passes at
  logical time \<open>deadline\<close>.
\<close>

definition extract_ctx ::
  "((string \<rightharpoonup> string) \<Rightarrow> ctx \<Rightarrow> ctx) \<Rightarrow> (string \<rightharpoonup> string) option \<Rightarrow> ctx \<Rightarrow> ctx" where
  "extract_ctx propagate carrier c =
     (case carrier of
        None \<Rightarrow> c
      | Some m \<Rightarrow> if no_entries carrier then c else propagate m c)"

definition job_ctx ::
  "'w pool \<Rightarrow> ((string \<rightharpoonup> string) \<Rightarrow> ctx \<Rightarrow> ctx) \<Rightarrow> nat \<Rightarrow> ctx \<Rightarrow> delivery \<Rightarrow> ctx" where
  "job_ctx p propagate deadline c d =
     (let c = extract_ctx propagate (Meta d) c
      in if p_jobTimeout p > 0 then with_deadline deadline c else c)"

definition handle ::
  "'w pool \<Rightarrow> ((string \<rightharpoonup> string) \<Rightarrow> ctx \<Rightarrow> ctx) \<Rightarrow> nat \<Rightarrow> nat \<Rightarrow> ctx \<Rightarrow> delivery \<Rightarrow> stats \<Rightarrow> 'w
   \<Rightarrow> string \<times> stats \<times> 'w" where
  "handle p propagate deadline limit c d st w =
     (let c = job_ctx p propagate deadline c d in
      case process_job_execute (p_process p) c (JobID d) w of
        ((job, err), w1) \<Rightarrow>
          (case record_outcome err st of
             (st', observed, acked) \<Rightarrow>
               (observed, st', settle (p_acker p) limit c (JobID d) acked w1)))"

lemma record_outcome_observed: "fst (snd (record_outcome err st)) = outcome_of err"
  by (simp add: record_outcome_def outcome_of_def split: option.split)

text \<open>Only a run without an error hands a job to the log line that reads its result key.\<close>

lemma process_job_no_nil:
  "process_job_execute uc c i w = ((job, None), w') \<Longrightarrow> job \<noteq> None"
  by (auto simp: process_job_execute_def fail_job_def Let_def
      split: prod.splits sum.splits option.splits if_splits)

section \<open>The pool\<close>

text \<open>
  A worker is idle in its \<open>select\<close>, busy with a delivery, or gone. \<open>Run\<close> is serving, waiting
  for the workers after its context ended, waiting for the jobs it abandoned, or has
  returned. The context, the channel, the timer and the outcomes of jobs are the
  environment's; either \<open>select\<close> of \<open>Run\<close> may take the other branch when both are ready, as Go's may, so
  the timer can win over workers that are just gone. Ghost lists record the deliveries taken and, per
  job that ended, the delivery, the status observed and how it was settled. A job ends when it
  is counted; theory \<open>Pool_Metrics\<close> has the statements of \<open>handle\<close> one by one and proves that these steps are
  what the counters see of them.
\<close>

datatype wstate = Idle | Busy delivery | Gone

datatype run_state = Serving | Draining | Abandoning | Returned "goerr option"

record pool_sys =
  ps_workers :: "wstate list"
  ps_done :: bool
  ps_closed :: bool
  ps_abandoned :: bool
  ps_run :: run_state
  ps_stats :: stats
  ps_taken :: "delivery list"
  ps_ended :: "(delivery \<times> string \<times> bool) list"

definition pool_start :: "'w pool \<Rightarrow> pool_sys" where
  "pool_start p =
     \<lparr>ps_workers = replicate (nat (p_size p)) Idle, ps_done = False, ps_closed = False,
      ps_abandoned = False, ps_run = Serving,
      ps_stats = \<lparr>Processed = 0, Failed = 0, Skipped = 0\<rparr>, ps_taken = [], ps_ended = []\<rparr>"

definition all_gone :: "pool_sys \<Rightarrow> bool" where
  "all_gone s \<longleftrightarrow> list_all (\<lambda>x. x = Gone) (ps_workers s)"

inductive pool_step :: "pool_sys \<Rightarrow> pool_sys \<Rightarrow> bool" where
  take: "k < length (ps_workers s) \<Longrightarrow> ps_workers s ! k = Idle \<Longrightarrow> \<not> ps_closed s \<Longrightarrow>
    pool_step s (s\<lparr>ps_workers := (ps_workers s)[k := Busy d], ps_taken := ps_taken s @ [d]\<rparr>)"
| finish: "k < length (ps_workers s) \<Longrightarrow> ps_workers s ! k = Busy d \<Longrightarrow>
    record_outcome err (ps_stats s) = (st, observed, acked) \<Longrightarrow>
    pool_step s (s\<lparr>ps_workers := (ps_workers s)[k := Idle], ps_stats := st,
                   ps_ended := ps_ended s @ [(d, observed, acked)]\<rparr>)"
| leave: "k < length (ps_workers s) \<Longrightarrow> ps_workers s ! k = Idle \<Longrightarrow> ps_done s \<or> ps_closed s \<Longrightarrow>
    pool_step s (s\<lparr>ps_workers := (ps_workers s)[k := Gone]\<rparr>)"
| cancel: "pool_step s (s\<lparr>ps_done := True\<rparr>)"
| close: "pool_step s (s\<lparr>ps_closed := True\<rparr>)"
| stopped: "ps_run s = Serving \<Longrightarrow> all_gone s \<Longrightarrow> pool_step s (s\<lparr>ps_run := Returned None\<rparr>)"
| drain: "ps_run s = Serving \<Longrightarrow> ps_done s \<Longrightarrow> pool_step s (s\<lparr>ps_run := Draining\<rparr>)"
| drained: "ps_run s = Draining \<Longrightarrow> all_gone s \<Longrightarrow> pool_step s (s\<lparr>ps_run := Returned None\<rparr>)"
| timeout: "ps_run s = Draining \<Longrightarrow>
    pool_step s (s\<lparr>ps_run := Abandoning, ps_abandoned := True\<rparr>)"
| unwound: "ps_run s = Abandoning \<Longrightarrow> all_gone s \<Longrightarrow>
    pool_step s (s\<lparr>ps_run := Returned (Some ErrShutdownTimeout)\<rparr>)"

inductive_cases pool_stepE: "pool_step s t"

inductive pool_reachable :: "'w pool \<Rightarrow> pool_sys \<Rightarrow> bool" for p :: "'w pool" where
  start: "pool_reachable p (pool_start p)"
| step: "pool_reachable p s \<Longrightarrow> pool_step s t \<Longrightarrow> pool_reachable p t"

fun working :: "wstate \<Rightarrow> delivery list" where
  "working (Busy d) = [d]"
| "working _ = []"

definition in_flight :: "wstate list \<Rightarrow> delivery multiset" where
  "in_flight ws = mset (concat (map working ws))"

lemma in_flight_update:
  "k < length ws \<Longrightarrow> in_flight (ws[k := x]) + mset (working (ws ! k)) = in_flight ws + mset (working x)"
proof (induction ws arbitrary: k)
  case Nil
  then show ?case by simp
next
  case (Cons y ys)
  then show ?case by (cases k) (auto simp: in_flight_def)
qed

lemma in_flight_gone: "list_all (\<lambda>x. x = Gone) ws \<Longrightarrow> in_flight ws = {#}"
  by (induction ws) (auto simp: in_flight_def)

text \<open>How often a status was observed.\<close>

definition observed_count :: "string \<Rightarrow> (delivery \<times> string \<times> bool) list \<Rightarrow> nat" where
  "observed_count s es = length (filter (\<lambda>e. fst (snd e) = s) es)"

definition stats_of :: "(delivery \<times> string \<times> bool) list \<Rightarrow> stats" where
  "stats_of es =
     \<lparr>Processed = observed_count StatusProcessed es mod uint64_size,
      Failed = observed_count OutcomeFailed es mod uint64_size,
      Skipped = observed_count StatusSkipped es mod uint64_size\<rparr>"

lemma outcomes_distinct [simp]:
  "StatusProcessed \<noteq> OutcomeFailed" "OutcomeFailed \<noteq> StatusProcessed"
  "StatusProcessed \<noteq> StatusSkipped" "StatusSkipped \<noteq> StatusProcessed"
  "OutcomeFailed \<noteq> StatusSkipped" "StatusSkipped \<noteq> OutcomeFailed"
  by (simp_all add: StatusProcessed_def OutcomeFailed_def StatusSkipped_def)

lemma observed_count_append [simp]:
  "observed_count s (es @ [(d, t, b)]) = observed_count s es + (if t = s then 1 else 0)"
  by (simp add: observed_count_def)

lemma add_one_mod: "add_one (n mod uint64_size) = (n + 1) mod uint64_size"
  unfolding add_one_def by (rule mod_add_left_eq)

lemma stats_of_append:
  "record_outcome err (stats_of es) = (st, observed, acked) \<Longrightarrow>
   st = stats_of (es @ [(d, observed, acked)]) \<and> (acked \<longleftrightarrow> observed \<noteq> OutcomeFailed) \<and>
   observed \<in> {StatusProcessed, OutcomeFailed, StatusSkipped}"
  by (auto simp: record_outcome_def stats_of_def add_one_mod split: option.splits if_splits)

text \<open>
  Every delivery taken has ended or is in flight; the counters count the ended ones; an ended
  one was acknowledged unless it failed. Jobs are abandoned only when \<open>Run\<close> timed out, and
  \<open>Run\<close> has returned only when every worker is gone.
\<close>

definition pool_inv :: "'w pool \<Rightarrow> pool_sys \<Rightarrow> bool" where
  "pool_inv p s \<longleftrightarrow>
     length (ps_workers s) = nat (p_size p) \<and>
     mset (ps_taken s) = mset (map fst (ps_ended s)) + in_flight (ps_workers s) \<and>
     ps_stats s = stats_of (ps_ended s) \<and>
     (\<forall>e \<in> set (ps_ended s). (snd (snd e) \<longleftrightarrow> fst (snd e) \<noteq> OutcomeFailed) \<and>
        fst (snd e) \<in> {StatusProcessed, OutcomeFailed, StatusSkipped}) \<and>
     (ps_abandoned s \<longleftrightarrow> ps_run s = Abandoning \<or> ps_run s = Returned (Some ErrShutdownTimeout)) \<and>
     (ps_run s = Draining \<or> ps_abandoned s \<longrightarrow> ps_done s) \<and>
     (\<forall>r. ps_run s = Returned r \<longrightarrow> all_gone s \<and> (r = None \<or> r = Some ErrShutdownTimeout)) \<and>
     (Gone \<in> set (ps_workers s) \<longrightarrow> ps_done s \<or> ps_closed s)"

lemma pool_start_inv: "pool_inv p (pool_start p)"
  by (auto simp: pool_inv_def pool_start_def in_flight_def stats_of_def observed_count_def)

lemma all_gone_update:
  "k < length ws \<Longrightarrow> ws ! k \<noteq> Gone \<Longrightarrow> \<not> list_all (\<lambda>x. x = Gone) ws"
  by (auto simp: list_all_length)

lemma set_update_Gone:
  "Gone \<in> set (ws[k := x]) \<Longrightarrow> x \<noteq> Gone \<Longrightarrow> Gone \<in> set ws"
  by (metis insertE set_update_subset_insert subsetD)

lemma pool_step_inv: "pool_step s t \<Longrightarrow> pool_inv p s \<Longrightarrow> pool_inv p t"
proof (induction rule: pool_step.induct)
  case (take k s d)
  have "\<not> all_gone s" using take all_gone_update by (simp add: all_gone_def)
  then have run: "\<And>r. ps_run s \<noteq> Returned r" using take.prems by (auto simp: pool_inv_def)
  with take in_flight_update [OF take(1), of "Busy d"] show ?case
    by (auto simp: pool_inv_def dest: set_update_Gone)
next
  case (finish k s d err st observed acked)
  have "\<not> all_gone s" using finish all_gone_update by (simp add: all_gone_def)
  then have run: "\<And>r. ps_run s \<noteq> Returned r" using finish.prems by (auto simp: pool_inv_def)
  have "record_outcome err (stats_of (ps_ended s)) = (st, observed, acked)"
    using finish by (simp add: pool_inv_def)
  note st = stats_of_append [OF this, of d]
  have "mset (ps_taken s) = add_mset d (mset (map fst (ps_ended s))) + in_flight ((ps_workers s)[k := Idle])"
    using finish in_flight_update [OF finish(1), of Idle] by (simp add: pool_inv_def)
  with finish run st show ?case by (auto simp: pool_inv_def dest: set_update_Gone)
next
  case (leave k s)
  have "\<not> all_gone s" using leave all_gone_update by (simp add: all_gone_def)
  then have run: "\<And>r. ps_run s \<noteq> Returned r" using leave.prems by (auto simp: pool_inv_def)
  with leave in_flight_update [OF leave(1), of Gone] show ?case by (auto simp: pool_inv_def)
next
  case (unwound s)
  then show ?case by (auto simp: pool_inv_def all_gone_def)
next
  case (stopped s)
  then show ?case by (auto simp: pool_inv_def all_gone_def)
next
  case (drained s)
  then show ?case by (auto simp: pool_inv_def all_gone_def)
qed (auto simp: pool_inv_def all_gone_def)

lemma pool_reachable_inv: "pool_reachable p s \<Longrightarrow> pool_inv p s"
  by (induction rule: pool_reachable.induct) (auto intro: pool_start_inv pool_step_inv)

section \<open>Shutting down ends\<close>

text \<open>
  A step that changes something; among them the pool's own, which neither the end of the
  context nor the shutdown timer makes; and the work left once the deliveries have ended: a busy
  worker has to finish and leave, an idle one to leave, and \<open>Run\<close> has its waits to go through.
\<close>

definition pool_moves :: "pool_sys \<Rightarrow> pool_sys \<Rightarrow> bool" where
  "pool_moves s t \<longleftrightarrow> pool_step s t \<and> s \<noteq> t"

definition pool_own :: "pool_sys \<Rightarrow> pool_sys \<Rightarrow> bool" where
  "pool_own s t \<longleftrightarrow> pool_moves s t \<and> ps_done t = ps_done s \<and> ps_abandoned t = ps_abandoned s"

fun worker_left :: "wstate \<Rightarrow> nat" where
  "worker_left (Busy d) = 2"
| "worker_left Idle = 1"
| "worker_left Gone = 0"

fun run_left :: "run_state \<Rightarrow> nat" where
  "run_left Serving = 3"
| "run_left Draining = 2"
| "run_left Abandoning = 1"
| "run_left (Returned e) = 0"

definition work_left :: "pool_sys \<Rightarrow> nat" where
  "work_left s = sum_list (map worker_left (ps_workers s)) + run_left (ps_run s) + (if ps_done s then 0 else 1)"

lemma worker_left_update:
  "k < length ws \<Longrightarrow> worker_left x < worker_left (ws ! k) \<Longrightarrow>
   sum_list (map worker_left (ws[k := x])) < sum_list (map worker_left ws)"
proof (induction ws arbitrary: k)
  case (Cons y ys)
  then show ?case by (cases k) auto
qed simp

lemma pool_moves_down:
  "pool_step s t \<Longrightarrow> s \<noteq> t \<Longrightarrow> ps_closed s \<Longrightarrow> work_left t < work_left s \<and> ps_closed t"
  by (induction rule: pool_step.induct) (auto simp: work_left_def worker_left_update)

lemma pool_moves_bounded:
  "(pool_moves ^^ n) s t \<Longrightarrow> ps_closed s \<Longrightarrow> n + work_left t \<le> work_left s \<and> ps_closed t"
proof (induction n arbitrary: t)
  case (Suc n)
  then obtain u where "(pool_moves ^^ n) s u" "pool_moves u t" by auto
  with Suc pool_moves_down [of u t] show ?case by (fastforce simp: pool_moves_def)
qed simp

text \<open>Nothing blocks for good: while \<open>Run\<close> has not returned the pool can move by itself.\<close>

lemma pool_not_stuck:
  assumes "ps_closed s" "\<And>r. ps_run s \<noteq> Returned r"
  shows "\<exists>t. pool_own s t"
proof (cases "all_gone s")
  case True
  consider "ps_run s = Serving" | "ps_run s = Draining" | "ps_run s = Abandoning"
    using assms(2) by (cases "ps_run s") auto
  then obtain r where "pool_step s (s\<lparr>ps_run := Returned r\<rparr>)"
    using True by cases (auto dest: pool_step.stopped pool_step.drained pool_step.unwound)
  moreover have "s \<noteq> s\<lparr>ps_run := Returned r\<rparr>" using assms(2) [of r] by (metis pool_sys.select_convs(5) pool_sys.surjective pool_sys.update_convs(5))
  ultimately have "pool_own s (s\<lparr>ps_run := Returned r\<rparr>)" by (simp add: pool_own_def pool_moves_def)
  then show ?thesis ..
next
  case False
  then obtain k where k: "k < length (ps_workers s)" "ps_workers s ! k \<noteq> Gone"
    by (auto simp: all_gone_def list_all_length)
  show ?thesis
  proof (cases "ps_workers s ! k")
    case Idle
    let ?t = "s\<lparr>ps_workers := (ps_workers s)[k := Gone]\<rparr>"
    have "pool_step s ?t" using k Idle assms(1) by (intro pool_step.leave) simp_all
    moreover have "ps_workers ?t \<noteq> ps_workers s" using k Idle by (auto simp: list_eq_iff_nth_eq)
    moreover have "s \<noteq> ?t" by (metis calculation(2))
    ultimately have "pool_own s ?t" by (simp add: pool_own_def pool_moves_def)
    then show ?thesis ..
  next
    case (Busy d)
    obtain st ob k' where "record_outcome None (ps_stats s) = (st, ob, k')" by (metis prod.exhaust)
    from pool_step.finish [OF k(1) Busy this] obtain t where
      "pool_step s t" "ps_workers t = (ps_workers s)[k := Idle]" "ps_done t = ps_done s"
      "ps_abandoned t = ps_abandoned s" by fastforce
    moreover have "(ps_workers s)[k := Idle] \<noteq> ps_workers s" using k Busy by (auto simp: list_eq_iff_nth_eq)
    ultimately have "pool_own s t" by (metis pool_own_def pool_moves_def)
    then show ?thesis ..
  qed (use k in simp)
qed

section \<open>Properties\<close>

text \<open>
  C24: the pool's accounting, in every reachable state: each delivery taken is either in the hands
  of a worker or ended, once; the three counters are the numbers of deliveries ended with each
  outcome (modulo their 64 bits); and an ended delivery was acknowledged unless it failed.
\<close>

theorem pool_accounts:
  assumes "pool_reachable p s"
  shows "mset (ps_taken s) = mset (map fst (ps_ended s)) + in_flight (ps_workers s) \<and>
    ps_stats s = stats_of (ps_ended s) \<and>
    list_all (\<lambda>(d, observed, acked). acked = (observed \<noteq> OutcomeFailed)) (ps_ended s) \<and>
    length (ps_ended s) = observed_count StatusProcessed (ps_ended s) +
      observed_count OutcomeFailed (ps_ended s) + observed_count StatusSkipped (ps_ended s)"
proof -
  have i: "pool_inv p s" by (rule pool_reachable_inv [OF assms])
  have "length es = observed_count StatusProcessed es + observed_count OutcomeFailed es +
      observed_count StatusSkipped es"
    if "\<forall>e \<in> set es. fst (snd e) \<in> {StatusProcessed, OutcomeFailed, StatusSkipped}" for es
    using that by (induction es) (auto simp: observed_count_def)
  with i show ?thesis by (auto simp: pool_inv_def list_all_iff)
qed

definition sample_pool :: "unit pool" where
  "sample_pool =
     new_pool
       (new_process_job
          \<lparr>Put = \<lambda>c k d w. (None, w), GetObject = \<lambda>c k w. (Inl (EText ''gone''), w), CloseObject = \<lambda>r w. w\<rparr>
          \<lparr>Save = \<lambda>c j w. (None, w), GetJob = \<lambda>c i w. (Inl (EText ''gone''), w),
           UpdateStatus = \<lambda>c i s k e w. (None, w)\<rparr>
          \<lparr>Process = \<lambda>c r s w. (Inl (EText ''gone''), w)\<rparr>) None [WithSize 2]"

theorem pool_accounts_witness:
  "\<exists>s. pool_reachable sample_pool s \<and> ps_taken s = [\<lparr>JobID = ''j'', Meta = None\<rparr>] \<and>
       mset (ps_taken s) = in_flight (ps_workers s)"
proof -
  let ?d = "\<lparr>JobID = ''j'', Meta = None\<rparr>" and ?init = "pool_start sample_pool"
  let ?s = "?init\<lparr>ps_workers := (ps_workers ?init)[0 := Busy ?d], ps_taken := ps_taken ?init @ [?d]\<rparr>"
  have "0 < nat (p_size sample_pool)"
    using new_pool_size by (simp add: sample_pool_def)
  then have "pool_step ?init ?s"
    by (intro pool_step.take) (simp_all add: pool_start_def)
  then have r: "pool_reachable sample_pool ?s" using pool_reachable.start pool_reachable.step by blast
  from pool_accounts [OF r] have "mset (ps_taken ?s) = mset (map fst (ps_ended ?s)) + in_flight (ps_workers ?s)"
    by blast
  moreover have "ps_ended ?s = []" "ps_taken ?s = [?d]" by (simp_all add: pool_start_def)
  ultimately show ?thesis using r by (intro exI [of _ ?s]) simp
qed

text \<open>
  C25: \<open>Run\<close> returns only when every worker is gone, so no job is in flight then; it returns nil
  only when it abandoned nothing, and \<open>ErrShutdownTimeout\<close> only when its context ended, the
  jobs outlasted the shutdown timeout and were abandoned; and workers leave only once the
  context ended or the queue closed.
\<close>

theorem run_returns_settled:
  assumes "pool_reachable (new_pool process acker opts) s" "ps_run s = Returned r"
  shows "all_gone s \<and> in_flight (ps_workers s) = {#} \<and>
    mset (ps_taken s) = mset (map fst (ps_ended s)) \<and>
    (r = None \<and> \<not> ps_abandoned s \<or> r = Some ErrShutdownTimeout \<and> ps_abandoned s \<and> ps_done s) \<and>
    (ps_done s \<or> ps_closed s)"
proof -
  have i: "pool_inv (new_pool process acker opts) s" by (rule pool_reachable_inv [OF assms(1)])
  with assms(2) have g: "all_gone s" by (simp add: pool_inv_def)
  then have f: "in_flight (ps_workers s) = {#}" using in_flight_gone by (simp add: all_gone_def)
  have "ps_workers s \<noteq> []"
    using i new_pool_size [of process acker opts] by (auto simp: pool_inv_def)
  with g have "Gone \<in> set (ps_workers s)" by (cases "ps_workers s") (auto simp: all_gone_def)
  with i have "ps_done s \<or> ps_closed s" by (simp add: pool_inv_def)
  moreover have "r = None \<and> \<not> ps_abandoned s \<or> r = Some ErrShutdownTimeout \<and> ps_abandoned s \<and> ps_done s"
    using i assms(2) by (auto simp: pool_inv_def)
  ultimately show ?thesis using i g f by (simp add: pool_inv_def)
qed

theorem run_returns_settled_witness:
  "\<exists>s. pool_reachable (new_pool (p_process sample_pool) None [WithSize 1]) s \<and>
       ps_run s = Returned None \<and> in_flight (ps_workers s) = {#}"
proof -
  let ?p = "new_pool (p_process sample_pool) None [WithSize 1]"
  let ?a = "pool_start ?p"
  let ?b = "?a\<lparr>ps_closed := True\<rparr>"
  let ?c = "?b\<lparr>ps_workers := (ps_workers ?b)[0 := Gone]\<rparr>"
  let ?d = "?c\<lparr>ps_run := Returned None\<rparr>"
  have w: "ps_workers ?a = [Idle]" by (simp add: pool_start_def new_pool_def)
  have "pool_step ?a ?b" by (rule pool_step.close)
  moreover have "pool_step ?b ?c" using w by (intro pool_step.leave) simp_all
  moreover have "pool_step ?c ?d"
    using w by (intro pool_step.stopped) (simp_all add: all_gone_def pool_start_def)
  ultimately have r: "pool_reachable ?p ?d"
    using pool_reachable.start [of ?p] by (meson pool_reachable.step)
  have "ps_run ?d = Returned None" by simp
  from run_returns_settled [OF r this] r this show ?thesis by blast
qed

text \<open>
  C26: shutdown terminates: once the deliveries have ended, as they do when the queue closes and,
  with either adapter, when the context of \<open>Run\<close> ends, at most two moves per worker and four more
  are made, whatever their order, a cancellation and the shutdown timer among them; and as long as
  \<open>Run\<close> has not returned a worker or \<open>Run\<close> can move by itself, needing neither a cancellation nor
  the timer. So \<open>Run\<close> returns. Jobs in flight are taken to end, as they do under a job timeout.
\<close>

theorem run_terminates:
  assumes "pool_reachable p s" "ps_closed s" "(pool_moves ^^ n) s t"
  shows "n \<le> 2 * nat (p_size p) + 4 \<and> ((\<exists>r. ps_run t = Returned r) \<or> (\<exists>u. pool_own t u))"
proof -
  from pool_moves_bounded [OF assms(3,2)] have n: "n \<le> work_left s" "ps_closed t" by auto
  have "sum_list (map worker_left ws) \<le> 2 * length ws" for ws
  proof (induction ws)
    case (Cons x xs)
    then show ?case by (cases x) auto
  qed simp
  from this [of "ps_workers s"] have "sum_list (map worker_left (ps_workers s)) \<le> 2 * length (ps_workers s)" .
  moreover have "length (ps_workers s) = nat (p_size p)"
    using pool_reachable_inv [OF assms(1)] by (simp add: pool_inv_def)
  moreover have "run_left (ps_run s) \<le> 3" by (cases "ps_run s") auto
  ultimately have "work_left s \<le> 2 * nat (p_size p) + 4"
    by (simp add: work_left_def)
  with n pool_not_stuck [OF n(2)] show ?thesis by force
qed

theorem run_terminates_witness:
  "\<exists>s. pool_reachable sample_pool s \<and> ps_closed s \<and> (\<exists>u. pool_own s u)"
proof -
  let ?s = "(pool_start sample_pool)\<lparr>ps_closed := True\<rparr>"
  have r: "pool_reachable sample_pool ?s"
    by (rule pool_reachable.step [OF pool_reachable.start pool_step.close])
  from run_terminates [OF r, of 0 ?s] r show ?thesis
    by (intro exI [of _ ?s]) (simp add: pool_start_def)
qed

end
