(* ===== verification/Scenarios.thy ===== *)
theory Scenarios
  imports Memory_Backend Worker
begin

text \<open>
  Facts about whole runs on the in-process wiring, with the state of the context made
  explicit, and a small concrete environment that the examples evaluate in.
\<close>

section \<open>Repository calls, by the state of the context\<close>

text \<open>A context that is not over at any time of a run, which goes from one time to another.\<close>

definition live_during :: "ctx \<Rightarrow> nat \<Rightarrow> nat \<Rightarrow> bool" where
  "live_during c a b \<longleftrightarrow> (\<forall>t. a \<le> t \<and> t < b \<longrightarrow> CtxErr c t = None)"

text \<open>A call takes time or none, and never goes back in it.\<close>

lemma mem_ticks:
  "Put (mem_storage env) c k d w = (x, w') \<Longrightarrow> w_tick w \<le> w_tick w'"
  "GetObject (mem_storage env) c k w = (y, w') \<Longrightarrow> w_tick w \<le> w_tick w'"
  "w_tick (CloseObject (mem_storage env) r w) = w_tick w"
  "Save (mem_jobs env) c jo w = (x, w') \<Longrightarrow> w_tick w \<le> w_tick w'"
  "GetJob (mem_jobs env) c i w = (z, w') \<Longrightarrow> w_tick w \<le> w_tick w'"
  "UpdateStatus (mem_jobs env) c i s rk pe w = (x, w') \<Longrightarrow> w_tick w \<le> w_tick w'"
  "Enqueue (mem_enqueue env) c i w = (x, w') \<Longrightarrow> w_tick w \<le> w_tick w'"
  "Process (mem_processor env) c inp sp w = (u, w') \<Longrightarrow> w_tick w \<le> w_tick w'"
  by (auto simp: mem_storage_def mem_jobs_def mem_enqueue_def mem_processor_def after_call_def
      split: prod.splits sum.splits option.splits)

lemma mem_load_live:
  "CtxErr c (w_tick w) = None \<Longrightarrow> w_jobs w i = Some j \<Longrightarrow>
   GetJob (mem_jobs env) c i w = (Inr j, after_call w)"
  by (simp add: mem_jobs_def memrepo_get_def)

lemma mem_update_live:
  "CtxErr c (w_tick w) = None \<Longrightarrow> status_valid s \<Longrightarrow> w_jobs w i = Some j \<Longrightarrow>
   UpdateStatus (mem_jobs env) c i s rk pe w =
     (None, after_call (w\<lparr>w_jobs := (w_jobs w)(i \<mapsto>
        updated_job s rk pe (env_clock env (w_tick w)) j)\<rparr>))"
  by (simp add: mem_jobs_def memrepo_update_def updated_job_def err_string_def Let_def split: option.split)

lemma mem_update_dead:
  "CtxErr c (w_tick w) = Some e \<Longrightarrow>
   UpdateStatus (mem_jobs env) c i s rk pe w = (Some e, after_call w)"
  by (simp add: mem_jobs_def memrepo_update_def)

lemma mem_get_dead:
  "CtxErr c (w_tick w) = Some e \<Longrightarrow> GetObject (mem_storage env) c k w = (Inl e, after_call w)"
  by (simp add: mem_storage_def local_get_def)

lemma after_call_tick [simp]: "w_tick (after_call w) = Suc (w_tick w)"
  by (simp add: after_call_def)

lemma mem_process_sel [simp]:
  "pj_jobs (mem_process env) = mem_jobs env" "pj_storage (mem_process env) = mem_storage env"
  "pj_processor (mem_process env) = mem_processor env"
  by (simp_all add: mem_process_def new_process_job_def)

lemma statuses_valid [simp]:
  "status_valid StatusPending" "status_valid StatusProcessing" "status_valid StatusDone"
  "status_valid StatusFailed"
  by (simp_all add: status_valid_def)

section \<open>What a run does with a pending job\<close>

lemma mem_transform_tick:
  assumes "transform (mem_process env) c j w = (r, w')"
  shows "w_tick w \<le> w_tick w'"
  using assms unfolding mem_process_def
  by (cases rule: mem.transform_cases) (fastforce simp: mem_ticks(3) dest: mem_ticks(1,2,8))+

lemma mem_update_cases:
  assumes "UpdateStatus (mem_jobs env) c i s rk pe w = (x, w')" "status_valid s" "w_jobs w i = Some j"
  obtains (recorded) "x = None" "CtxErr c (w_tick w) = None" "w_tick w' = Suc (w_tick w)"
      "w_jobs w' = (w_jobs w)(i \<mapsto> updated_job s rk pe (env_clock env (w_tick w)) j)"
  | (over) e where "x = Some e" "CtxErr c (w_tick w) = Some e" "w_tick w' = Suc (w_tick w)" "w_jobs w' = w_jobs w"
proof (cases "CtxErr c (w_tick w)")
  case None
  from mem_update_live [where env = env and c = c, OF None assms(2,3)] assms(1)
  have "x = None" "w' = after_call (w\<lparr>w_jobs := (w_jobs w)(i \<mapsto> updated_job s rk pe (env_clock env (w_tick w)) j)\<rparr>)"
    by auto
  with None show ?thesis by (intro recorded) simp_all
next
  case (Some e)
  from mem_update_dead [where env = env and c = c, OF this] assms(1) have "x = Some e" "w' = after_call w" by auto
  with Some show ?thesis by (intro over) simp_all
qed

text \<open>
  A pending job ends done, with the job returned; or failed, with the error whose text it
  records; or the context was over when the repository was last asked, and the job is as it was
  or left in processing.
\<close>

lemma process_outcomes:
  assumes j: "w_jobs w i = Some j" "ID j = i" "Status j = StatusPending"
    and run: "process_job_execute (mem_process env) c i w = (r, w')"
  obtains (finished) rk t where "fst r \<noteq> None" "snd r = None" "CtxErr c (w_tick w' - 1) = None"
      "w_jobs w' i = Some (updated_job StatusDone rk None t
         (updated_job StatusProcessing [] None (env_clock env (Suc (w_tick w))) j))"
  | (failed) e t where "snd r = Some e" "CtxErr c (w_tick w' - 1) = None"
      "w_jobs w' i = Some (updated_job StatusFailed [] (Some e) t
         (updated_job StatusProcessing [] None (env_clock env (Suc (w_tick w))) j))"
  | (cut) e x where "r = (None, Some e)" "w_tick w < w_tick w'" "CtxErr c (w_tick w' - 1) = Some x"
      "w_jobs w' i = (if CtxErr c (w_tick w) = None \<and> CtxErr c (Suc (w_tick w)) = None
         then Some (updated_job StatusProcessing [] None (env_clock env (Suc (w_tick w))) j) else Some j)"
proof -
  let ?p = "updated_job StatusProcessing [] None (env_clock env (Suc (w_tick w))) j"
  show ?thesis
  proof (cases "CtxErr c (w_tick w)")
    case (Some e)
    then have "GetJob (mem_jobs env) c i w = (Inl e, after_call w)"
      by (simp add: mem_jobs_def memrepo_get_def)
    with run have "r = (None, Some (EWrap (''process job '' @ i @ '': load: '') e []))" "w' = after_call w"
      by (auto simp: process_job_execute_def)
    with Some j show ?thesis by (intro cut [of _ e]) simp_all
  next
    case None
    have g: "GetJob (mem_jobs env) c i w = (Inr j, after_call w)" using None j by (simp add: mem_load_live)
    obtain x w2 where u: "UpdateStatus (mem_jobs env) c i StatusProcessing [] None (after_call w) = (x, w2)" by fastforce
    have j1: "w_jobs (after_call w) i = Some j" using j by simp
    from u statuses_valid(2) j1 show ?thesis
    proof (cases rule: mem_update_cases)
      case (over e)
      with run g u j have "r = (None, Some (EWrap (''process job '' @ i @ '': claim: '') e []))" "w' = w2"
        by (auto simp: process_job_execute_def)
      with over None j show ?thesis by (intro cut [of _ e]) simp_all
    next
      case claimed: recorded
      obtain tr w3 where t: "transform (mem_process env) c (j\<lparr>Status := StatusProcessing\<rparr>) w2 = (tr, w3)" by fastforce
      have w3: "w_jobs w3 i = Some ?p"
        using mem.transform_jobs(1) [OF t [unfolded mem_process_def]] claimed by simp
      have late: "w_tick w < w_tick w3" using mem_transform_tick [OF t] claimed(3) by simp
      show ?thesis
      proof (cases tr)
        case (Inl e)
        let ?x = "EWrap (''process job '' @ i @ '': '') e []"
        obtain y w4 where f: "UpdateStatus (mem_jobs env) c i StatusFailed [] (Some ?x) w3 = (y, w4)" by fastforce
        from f statuses_valid(4) w3 show ?thesis
        proof (cases rule: mem_update_cases)
          case recorded
          with run g u claimed(1) t f j Inl have "snd r = Some ?x" "w' = w4"
            by (auto simp: process_job_execute_def fail_job_def Let_def)
          with recorded show ?thesis by (intro failed) simp_all
        next
          case (over z)
          with run g u claimed(1) t f j Inl have "r = (None, Some (EJoin [?x, EWrap ''mark failed: '' z []]))" "w' = w4"
            by (auto simp: process_job_execute_def fail_job_def Let_def)
          with over None claimed(2) late w3 show ?thesis by (intro cut) simp_all
        qed
      next
        case (Inr rk)
        obtain y w4 where f: "UpdateStatus (mem_jobs env) c i StatusDone rk None w3 = (y, w4)" by fastforce
        from f statuses_valid(3) w3 show ?thesis
        proof (cases rule: mem_update_cases)
          case recorded
          with run g u claimed(1) t f j Inr have "fst r \<noteq> None" "snd r = None" "w' = w4"
            by (auto simp: process_job_execute_def)
          with recorded show ?thesis by (intro finished) simp_all
        next
          case (over z)
          with run g u claimed(1) t f j Inr
          have "r = (None, Some (EWrap (''process job '' @ i @ '': mark done: '') z []))" "w' = w4"
            by (auto simp: process_job_execute_def)
          with over None claimed(2) late w3 show ?thesis by (intro cut) simp_all
        qed
      qed
    qed
  qed
qed

text \<open>A run for a job that is not there or not pending changes no job.\<close>

lemma process_idle:
  assumes run: "process_job_execute (mem_process env) c i w = (r, w')"
    and "\<And>j. w_jobs w i = Some j \<Longrightarrow> Status j \<noteq> StatusPending"
  obtains e where "snd r = Some e" "w_jobs w' = w_jobs w" "w' = after_call w"
    "CtxErr c (w_tick w) = None \<Longrightarrow> w_jobs w i \<noteq> None \<Longrightarrow> errors_is e ErrJobNotPending"
proof (cases "w_jobs w i = None \<or> CtxErr c (w_tick w) \<noteq> None")
  case True
  then obtain e where "GetJob (mem_jobs env) c i w = (Inl e, after_call w)"
    by (cases "CtxErr c (w_tick w)") (auto simp: mem_jobs_def memrepo_get_def split: if_splits)
  with run have "snd r = Some (EWrap (''process job '' @ i @ '': load: '') e [])" "w' = after_call w"
    by (auto simp: process_job_execute_def)
  with True show ?thesis by (intro that) auto
next
  case False
  then obtain j where j: "w_jobs w i = Some j" "CtxErr c (w_tick w) = None" by auto
  from mem_load_live [where env = env and c = c, OF j(2,1)] run assms(2) [OF j(1)] obtain e where
    "snd r = Some e" "w' = after_call w" "errors_is e ErrJobNotPending"
    by (auto simp: process_job_execute_def go_errors ErrJobNotPending_def)
  then show ?thesis by (intro that) simp_all
qed

text \<open>A worker with nothing else to do: deliveries of any jobs, one after the other.\<close>

fun redeliver ::
  "'p mem_env \<Rightarrow> (ctx \<times> string) list \<Rightarrow> mem_world \<Rightarrow> (job option \<times> goerr option) list \<times> mem_world" where
  "redeliver env [] w = ([], w)"
| "redeliver env ((c, i) # ds) w =
     (case process_job_execute (mem_process env) c i w of
        (r, w1) \<Rightarrow> (case redeliver env ds w1 of (rs, w2) \<Rightarrow> (r # rs, w2)))"

lemma process_keeps_others:
  assumes run: "process_job_execute (mem_process env) c k w = (r, w')" and "memrepo_inv (w_jobs w)"
  shows "memrepo_inv (w_jobs w')" "i \<noteq> k \<Longrightarrow> w_jobs w' i = w_jobs w i"
proof -
  have "\<And>j. w_jobs w k = Some j \<Longrightarrow> ID j = k" using memrepo_inv_ID [OF assms(2)] .
  from mem.process_jobs_progress [OF run [unfolded mem_process_def] this]
  have p: "jobs_progress k (w_jobs w) (w_jobs w')" .
  show "i \<noteq> k \<Longrightarrow> w_jobs w' i = w_jobs w i" using p by (auto simp: jobs_progress_def)
  show "memrepo_inv (w_jobs w')"
    using p assms(2) by (fastforce simp: jobs_progress_def memrepo_inv_def job_progress_def split: if_splits)
qed

lemma redeliver_settled:
  assumes "redeliver env ds w = (rs, w')" "memrepo_inv (w_jobs w)" "w_jobs w i = Some j"
    "Status j \<noteq> StatusPending"
  shows "w_jobs w' i = Some j \<and>
    list_all2 (\<lambda>(c, k) r. k = i \<longrightarrow> snd r \<noteq> None) ds rs"
  using assms
proof (induction ds arbitrary: w rs)
  case (Cons d ds)
  obtain c k where d: "d = (c, k)" by fastforce
  obtain r w1 where run: "process_job_execute (mem_process env) c k w = (r, w1)" by fastforce
  obtain rs' w2 where rest: "redeliver env ds w1 = (rs', w2)" by fastforce
  with Cons.prems(1) d run have rs: "rs = r # rs'" "w2 = w'" by simp_all
  have one: "w_jobs w1 i = Some j \<and> (k = i \<longrightarrow> snd r \<noteq> None)"
  proof (cases "k = i")
    case True
    have "\<And>j'. w_jobs w k = Some j' \<Longrightarrow> Status j' \<noteq> StatusPending" using Cons.prems True by simp
    with run show ?thesis by (rule process_idle) (use Cons.prems in auto)
  next
    case False
    with process_keeps_others(2) [OF run Cons.prems(2), of i] Cons.prems show ?thesis by simp
  qed
  from Cons.IH [OF rest [unfolded rs(2)] process_keeps_others(1) [OF run Cons.prems(2)]] one Cons.prems(4)
  show ?case by (simp add: rs d)
qed simp

section \<open>A concrete environment\<close>

text \<open>
  A root \<open>/data\<close>, an operating system that fails at nothing, and an image library whose
  images are sizes: every source decodes to 8 by 4 pixels.
\<close>

definition ex_faults :: os_faults where
  "ex_faults =
     \<lparr>os_mkdir = \<lambda>p. None, os_tmp_names = [7, 8], os_create = \<lambda>p. None, os_chunks = [2],
      os_write = None, os_close = None, os_rename = None, os_remove_fails = False,
      os_open = \<lambda>p. None, os_read = None, os_is_dir = \<lambda>p. False\<rparr>"

definition ex_lib :: "(int \<times> int) pixel_lib" where
  "ex_lib =
     \<lparr>px_decode = \<lambda>r. (case reader_err r of None \<Rightarrow> Inr (8, 4) | Some e \<Rightarrow> Inl e),
      px_dx = fst, px_dy = snd, px_new_rgba = Pair,
      px_catmull_rom = (\<lambda>d s. d), px_copy = (\<lambda>d s. d),
      px_text_width = \<lambda>t. 7 * int (length t), px_face_height = 13, px_face_descent = 2,
      px_text = \<lambda>d t x y. d, px_jpeg = \<lambda>q p. Inr ''jpeg'', px_png = \<lambda>p. Inr ''png''\<rparr>"

definition ex_env :: "(int \<times> int) mem_env" where
  "ex_env =
     \<lparr>env_root = [''data''], env_clock = \<lambda>t. int t, env_rand = \<lambda>t. [CHR 0xA1, CHR 0x0F],
      env_faults = \<lambda>t. ex_faults, env_pick = \<lambda>t. True, env_lib = ex_lib,
      env_cfg = new_config []\<rparr>"

definition ex_spec :: transformation_spec where
  "ex_spec =
     \<lparr>Width = 4, Height = 0, Format = FormatPNG, Quality = 0, Watermark = False,
      StripMetadata = True\<rparr>"

definition ex_job :: job where
  "ex_job = created_job ''a10f'' ex_spec 3"

definition ex_world :: mem_world where
  "ex_world =
     \<lparr>w_files = Map.empty, w_open = 0, w_images = 0, w_jobs = memrepo_new,
      w_queue = mq_new 0, w_tick = 0\<rparr>"

text \<open>The world once a job was created in \<open>ex_world\<close>.\<close>

definition ex_queued :: mem_world where
  "ex_queued =
     ex_world\<lparr>w_files := [''/data/originals/a10f'' \<mapsto> ''pixels''],
       w_jobs := [''a10f'' \<mapsto> ex_job], w_tick := 5\<rparr>"

definition res_ok :: "'a res \<Rightarrow> bool" where
  "res_ok r = (case r of Inl e \<Rightarrow> False | Inr x \<Rightarrow> True)"

lemma res_okE: "res_ok r \<Longrightarrow> (\<And>x. r = Inr x \<Longrightarrow> P) \<Longrightarrow> P"
  by (cases r) (auto simp: res_ok_def)

lemma ex_create_runs:
  "res_ok (fst (create_job_execute (mem_create ex_env) Background (Some (Reader ''pixels'' None)) ex_spec ex_world))"
  by code_simp

lemma ex_process_runs:
  "case fst (process_job_execute (mem_process ex_env) Background ''a10f'' ex_queued) of
     (Some j, None) \<Rightarrow> Status j = StatusDone \<and> ResultKey j = ''results/a10f.png'' | _ \<Rightarrow> False"
  by code_simp

lemma ex_process_fails:
  "case fst (process_job_execute (mem_process ex_env) Background ''a10f'' (ex_queued\<lparr>w_files := Map.empty\<rparr>)) of
     (_, Some e) \<Rightarrow> \<not> errors_is e ErrJobNotPending | _ \<Rightarrow> False"
  by code_simp

lemma ex_root_ok: "root_ok (env_root ex_env)"
  by code_simp

lemma ex_id_ok: "id_ok ''a10f''"
  by (simp add: id_ok_def)

lemma ex_lib_ok: "pixel_lib_ok ex_lib"
  by (simp add: pixel_lib_ok_def ex_lib_def)

lemma ex_live [simp]: "CtxErr Background t = None"
  by (simp add: Background_def)

lemma ex_queued_job: "w_jobs ex_queued ''a10f'' = Some ex_job" "Status ex_job = StatusPending"
  "ID ex_job = ''a10f''"
  by (simp_all add: ex_queued_def ex_job_def)

lemma ex_queued_inv: "memrepo_inv (w_jobs ex_queued)"
  by (simp add: memrepo_inv_def ex_queued_def ex_job_def)

end
