(* ===== verification/S3storage.thy ===== *)
theory S3storage
  imports Ports
begin

text \<open>
  \<open>internal/adapters/s3storage\<close>: objects in an S3 bucket. The client, with its uploader and its
  error types, is a parameter; \<open>s3_ok\<close> states what is relied on: strongly consistent reads and
  atomic replacement of an object.
\<close>

definition s3ErrInvalidKey :: goerr where
  "s3ErrInvalidKey = ENew ''s3storage.ErrInvalidKey'' ''invalid storage key''"

definition s3ErrNotExist :: goerr where
  "s3ErrNotExist = ENew ''fs.ErrNotExist'' ''file does not exist''"

definition DefaultPartSize :: int where "DefaultPartSize = 8 * 2 ^ 20"

text \<open>
  \<open>is_no_such_key\<close> and \<open>is_no_such_bucket\<close> are the two \<open>errors.As\<close> tests, \<open>api_error_code\<close> the code
  of the API error in the tree, when there is one.
\<close>

record 'w s3_api =
  Upload :: "ctx \<Rightarrow> string \<Rightarrow> string \<Rightarrow> reader \<Rightarrow> int \<Rightarrow> 'w \<Rightarrow> goerr option \<times> 'w"
  S3GetObject :: "ctx \<Rightarrow> string \<Rightarrow> string \<Rightarrow> 'w \<Rightarrow> reader res \<times> 'w"
  S3CloseBody :: "reader \<Rightarrow> 'w \<Rightarrow> 'w"
  is_no_such_key :: "goerr \<Rightarrow> bool"
  is_no_such_bucket :: "goerr \<Rightarrow> bool"
  api_error_code :: "goerr \<Rightarrow> string option"

record s3_storage =
  s3_bucket :: string
  s3_part_size :: int

datatype s3_option = WithPartSize int

fun apply_s3_option :: "s3_option \<Rightarrow> s3_storage \<Rightarrow> s3_storage" where
  "apply_s3_option (WithPartSize bytes) s = (if bytes > 0 then s\<lparr>s3_part_size := bytes\<rparr> else s)"

definition s3_new :: "'w s3_api option \<Rightarrow> string \<Rightarrow> s3_option list \<Rightarrow> s3_storage res" where
  "s3_new client bucket opts =
     (case client of
        None \<Rightarrow> Inl (EText ''s3storage: nil client'')
      | Some _ \<Rightarrow>
          if trim_space bucket = [] then
            Inl (EWrap ''s3storage: '' s3ErrInvalidKey '': bucket is empty'')
          else Inr (foldl (\<lambda>s opt. apply_s3_option opt s)
                 \<lparr>s3_bucket = bucket, s3_part_size = DefaultPartSize\<rparr> opts))"

definition validate_key :: "string \<Rightarrow> goerr option" where
  "validate_key key =
     (if trim_space key = [] then
        Some (EWrap ''s3storage: '' s3ErrInvalidKey '': key is empty'')
      else if contains_str key [CHR 0x00] then
        Some (EWrap ''s3storage: '' s3ErrInvalidKey '': key contains a null byte'')
      else None)"

definition is_not_found :: "'w s3_api \<Rightarrow> goerr \<Rightarrow> bool" where
  "is_not_found api e =
     (if is_no_such_key api e then True
      else if is_no_such_bucket api e then True
      else (case api_error_code api e of
              Some code \<Rightarrow> code = ''NoSuchKey'' \<or> code = ''NotFound'' \<or> code = ''NoSuchBucket''
            | None \<Rightarrow> False))"

definition s3_put ::
  "'w s3_api \<Rightarrow> s3_storage \<Rightarrow> ctx \<Rightarrow> string \<Rightarrow> reader option \<Rightarrow> 'w \<Rightarrow> goerr option \<times> 'w" where
  "s3_put api s c key data w =
    (case validate_key key of Some e \<Rightarrow> (Some e, w) | None \<Rightarrow>
    (case data of
       None \<Rightarrow> (Some (EText (''s3storage: put '' @ quote key @ '': no data'')), w)
     | Some r \<Rightarrow>
    (case Upload api c (s3_bucket s) key r (s3_part_size s) w of
       (Some e, w1) \<Rightarrow> (Some (EWrap (''s3storage: put '' @ quote key @ '': '') e []), w1)
     | (None, w1) \<Rightarrow> (None, w1))))"

definition s3_get :: "'w s3_api \<Rightarrow> s3_storage \<Rightarrow> ctx \<Rightarrow> string \<Rightarrow> 'w \<Rightarrow> reader res \<times> 'w" where
  "s3_get api s c key w =
    (case validate_key key of Some e \<Rightarrow> (Inl e, w) | None \<Rightarrow>
    (case S3GetObject api c (s3_bucket s) key w of
       (Inl e, w1) \<Rightarrow>
         if is_not_found api e
         then (Inl (EWrap (''s3storage: get '' @ quote key @ '': '') s3ErrNotExist []), w1)
         else (Inl (EWrap (''s3storage: get '' @ quote key @ '': '') e []), w1)
     | (Inr body, w1) \<Rightarrow> (Inr body, w1)))"

definition s3_port :: "'w s3_api \<Rightarrow> s3_storage \<Rightarrow> 'w storage_port" where
  "s3_port api s = \<lparr>Put = s3_put api s, GetObject = s3_get api s, CloseObject = S3CloseBody api\<rparr>"

section \<open>What is relied on, and the contract\<close>

text \<open>
  An upload that succeeds read its body to the end and replaced the object; one that reports
  an error left the object or replaced it, the latter only with a whole body. A read of an
  object yields it.
\<close>

definition s3_ok :: "'w s3_api \<Rightarrow> string \<Rightarrow> ('w \<Rightarrow> string \<rightharpoonup> string) \<Rightarrow> bool" where
  "s3_ok api bucket objs \<longleftrightarrow>
     (\<forall>c k r n w x w'. Upload api c bucket k r n w = (x, w') \<longrightarrow>
        (if x = None then reader_err r = None \<and> objs w' = (objs w)(k \<mapsto> reader_bytes r)
         else objs w' = objs w \<or> reader_err r = None \<and> objs w' = (objs w)(k \<mapsto> reader_bytes r))) \<and>
     (\<forall>c k w r w'. S3GetObject api c bucket k w = (r, w') \<longrightarrow>
        objs w' = objs w \<and> (case r of Inl e \<Rightarrow> True | Inr b \<Rightarrow> reads_from b (objs w k))) \<and>
     (\<forall>r w. objs (S3CloseBody api r w) = objs w)"

definition s3_loc :: "string \<Rightarrow> string option" where
  "s3_loc k = (if validate_key k = None then Some k else None)"

lemma s3_put_effect:
  assumes "s3_ok api (s3_bucket s) objs" "s3_put api s c k d w = (x, w')"
  shows "(x \<noteq> None \<and> objs w' = objs w) \<or>
    (\<exists>b. d = Some (Reader b None) \<and> objs w' = store_at (s3_loc k) b (objs w))"
proof (cases "validate_key k \<noteq> None \<or> d = None")
  case True
  with assms(2) show ?thesis by (auto simp: s3_put_def split: option.splits)
next
  case False
  then obtain r where r: "d = Some r" "validate_key k = None" by auto
  with assms(2) obtain y where u: "Upload api c (s3_bucket s) k r (s3_part_size s) w = (y, w')"
    "(x = None) = (y = None)"
    by (auto simp: s3_put_def split: prod.splits option.splits)
  have "if y = None then reader_err r = None \<and> objs w' = (objs w)(k \<mapsto> reader_bytes r)
      else objs w' = objs w \<or> reader_err r = None \<and> objs w' = (objs w)(k \<mapsto> reader_bytes r)"
    using assms(1) u(1) unfolding s3_ok_def by blast
  then show ?thesis using u(2) r by (cases r; cases y) (auto simp: s3_loc_def)
qed

lemma s3_get_effect:
  assumes "s3_ok api (s3_bucket s) objs" "s3_get api s c k w = (r, w')"
  shows "objs w' = objs w \<and> (case r of Inl e \<Rightarrow> True | Inr b \<Rightarrow> reads_from b (objs w k))"
proof (cases "validate_key k")
  case (Some e)
  with assms(2) show ?thesis by (auto simp: s3_get_def)
next
  case None
  with assms(2) obtain y where g: "S3GetObject api c (s3_bucket s) k w = (y, w')"
    by (auto simp: s3_get_def split: prod.splits sum.splits if_splits)
  have "objs w' = objs w \<and> (case y of Inl e \<Rightarrow> True | Inr b \<Rightarrow> reads_from b (objs w k))"
    using assms(1) g unfolding s3_ok_def by blast
  with assms(2) None g show ?thesis by (auto simp: s3_get_def split: sum.splits if_splits)
qed

lemma s3_blob_store:
  assumes "s3_ok api (s3_bucket s) objs"
  shows "blob_store (s3_port api s) s3_loc objs"
proof
  fix c k d w w' e r
  show "Put (s3_port api s) c k d w = (None, w') \<Longrightarrow>
    \<exists>b. d = Some (Reader b None) \<and> objs w' = store_at (s3_loc k) b (objs w)"
    using s3_put_effect [OF assms] by (fastforce simp: s3_port_def)
  show "Put (s3_port api s) c k d w = (Some e, w') \<Longrightarrow> objs w' = objs w \<or>
    (\<exists>b. d = Some (Reader b None) \<and> objs w' = store_at (s3_loc k) b (objs w))"
    using s3_put_effect [OF assms] by (fastforce simp: s3_port_def)
  show "GetObject (s3_port api s) c k w = (Inr r, w') \<Longrightarrow>
    objs w' = objs w \<and> (\<forall>p. s3_loc k = Some p \<longrightarrow> reads_from r (objs w p))"
    using s3_get_effect [OF assms, of c k w "Inr r" w']
    by (auto simp: s3_port_def s3_loc_def split: if_splits)
  show "GetObject (s3_port api s) c k w = (Inl e, w') \<Longrightarrow> objs w' = objs w"
    using s3_get_effect [OF assms, of c k w "Inl e" w'] by (simp add: s3_port_def)
  show "objs (CloseObject (s3_port api s) r w) = objs w"
    using assms by (simp add: s3_ok_def s3_port_def)
qed

end
