(* ===== verification/Dynamorepo.thy ===== *)
theory Dynamorepo
  imports Ports
begin

text \<open>
  \<open>internal/adapters/dynamorepo\<close>: the job repository on DynamoDB. The client and the SDK's
  \<open>attributevalue\<close> package are parameters, fields of \<open>dynamo_api\<close>; what the repository relies
  on them for is \<open>dynamo_ok\<close>, which states the documented behaviour of the calls it makes.
\<close>

section \<open>The client\<close>

datatype attr_val = AvS string | AvN string | AvBOOL bool

type_synonym dyn_attrs = "string \<rightharpoonup> attr_val"

text \<open>The stored shape of a job, with the names of its \<open>dynamodbav\<close> tags.\<close>

record item =
  it_id :: string
  it_original_key :: string
  it_result_key :: string
  it_status :: string
  it_width :: int
  it_height :: int
  it_format :: string
  it_quality :: int
  it_watermark :: bool
  it_strip_metadata :: bool
  it_created_at :: int
  it_updated_at :: int
  it_error :: string

record update_input =
  ui_table :: string
  ui_key :: dyn_attrs
  ui_update :: string
  ui_condition :: string
  ui_names :: "string \<rightharpoonup> string"
  ui_values :: "string \<rightharpoonup> attr_val"

text \<open>
  \<open>is_condition_failed\<close> tells whether \<open>errors.As\<close> finds a \<open>ConditionalCheckFailedException\<close>.
  An item that does not exist is \<open>None\<close>.
\<close>

record 'w dynamo_api =
  PutItem :: "ctx \<Rightarrow> string \<Rightarrow> dyn_attrs \<Rightarrow> 'w \<Rightarrow> goerr option \<times> 'w"
  GetItem :: "ctx \<Rightarrow> string \<Rightarrow> dyn_attrs \<Rightarrow> bool \<Rightarrow> 'w \<Rightarrow> dyn_attrs option res \<times> 'w"
  UpdateItem :: "ctx \<Rightarrow> update_input \<Rightarrow> 'w \<Rightarrow> goerr option \<times> 'w"
  marshal_map :: "item \<Rightarrow> dyn_attrs res"
  unmarshal_map :: "dyn_attrs \<Rightarrow> item res"
  is_condition_failed :: "goerr \<Rightarrow> bool"

section \<open>The repository\<close>

definition KeyAttribute :: string where "KeyAttribute = ''id''"

definition dyn_new :: "'w dynamo_api option \<Rightarrow> string \<Rightarrow> string res" where
  "dyn_new client table =
     (case client of
        None \<Rightarrow> Inl (EText ''dynamorepo: nil client'')
      | Some _ \<Rightarrow>
          if trim_space table = [] then Inl (EText ''dynamorepo: table name is empty'')
          else Inr table)"

text \<open>\<open>UnixNano\<close> wraps around outside the range of an \<open>int64\<close>.\<close>

definition new_item :: "job \<Rightarrow> item" where
  "new_item j =
     \<lparr>it_id = ID j, it_original_key = OriginalKey j, it_result_key = ResultKey j,
      it_status = Status j, it_width = Width (Transformation j),
      it_height = Height (Transformation j), it_format = Format (Transformation j),
      it_quality = Quality (Transformation j), it_watermark = Watermark (Transformation j),
      it_strip_metadata = StripMetadata (Transformation j), it_created_at = i64 (CreatedAt j),
      it_updated_at = i64 (UpdatedAt j), it_error = Error j\<rparr>"

definition item_to_domain :: "item \<Rightarrow> job" where
  "item_to_domain i =
     \<lparr>ID = it_id i, OriginalKey = it_original_key i, ResultKey = it_result_key i,
      Status = it_status i,
      Transformation =
        \<lparr>Width = it_width i, Height = it_height i, Format = it_format i, Quality = it_quality i,
         Watermark = it_watermark i, StripMetadata = it_strip_metadata i\<rparr>,
      CreatedAt = it_created_at i, UpdatedAt = it_updated_at i, Error = it_error i\<rparr>"

definition dyn_key :: "string \<Rightarrow> dyn_attrs" where
  "dyn_key i = [KeyAttribute \<mapsto> AvS i]"

definition with_key_name :: "(string \<rightharpoonup> string) \<Rightarrow> (string \<rightharpoonup> string)" where
  "with_key_name names = names(''#key'' \<mapsto> KeyAttribute)"

definition dyn_error_text :: "goerr option \<Rightarrow> string" where
  "dyn_error_text err = (case err of None \<Rightarrow> [] | Some e \<Rightarrow> error_text e)"

definition dyn_save ::
  "'w dynamo_api \<Rightarrow> string \<Rightarrow> ctx \<Rightarrow> job option \<Rightarrow> 'w \<Rightarrow> goerr option \<times> 'w" where
  "dyn_save api table c job w =
    (case job of
       None \<Rightarrow> (Some (EText ''dynamorepo: save: nil job''), w)
     | Some j \<Rightarrow>
        if ID j = [] then (Some (EText ''dynamorepo: save: empty job id''), w)
        else
       (case marshal_map api (new_item j) of
          Inl e \<Rightarrow> (Some (EWrap (''dynamorepo: save '' @ ID j @ '': marshal: '') e []), w)
        | Inr attrs \<Rightarrow>
       (case PutItem api c table attrs w of
          (Some e, w1) \<Rightarrow> (Some (EWrap (''dynamorepo: save '' @ ID j @ '': '') e []), w1)
        | (None, w1) \<Rightarrow> (None, w1))))"

definition dyn_get :: "'w dynamo_api \<Rightarrow> string \<Rightarrow> ctx \<Rightarrow> string \<Rightarrow> 'w \<Rightarrow> job res \<times> 'w" where
  "dyn_get api table c i w =
    (if i = [] then (Inl (EWrap ''dynamorepo: get: '' ErrJobNotFound []), w)
     else
    (case GetItem api c table (dyn_key i) True w of
       (Inl e, w1) \<Rightarrow> (Inl (EWrap (''dynamorepo: get '' @ i @ '': '') e []), w1)
     | (Inr None, w1) \<Rightarrow> (Inl (EWrap (''dynamorepo: get '' @ i @ '': '') ErrJobNotFound []), w1)
     | (Inr (Some attrs), w1) \<Rightarrow>
        (case unmarshal_map api attrs of
           Inl e \<Rightarrow> (Inl (EWrap (''dynamorepo: get '' @ i @ '': unmarshal: '') e []), w1)
         | Inr stored \<Rightarrow> (Inr (item_to_domain stored), w1))))"

text \<open>
  The update request. The assignments are kept as a list of placeholder pairs beside the
  expression text built from them.
\<close>

definition status_sets :: "string \<Rightarrow> (string \<times> string) list" where
  "status_sets rk =
     [(''#status'', '':status''), (''#updated_at'', '':updated_at''), (''#error'', '':error'')] @
     (if rk \<noteq> [] then [(''#result_key'', '':result_key'')] else [])"

definition set_text :: "(string \<times> string) list \<Rightarrow> string" where
  "set_text ps = ''SET '' @ join_with '', '' (map (\<lambda>(n, v). n @ '' = '' @ v) ps)"

definition status_update :: "string \<Rightarrow> int \<Rightarrow> string \<Rightarrow> job_status \<Rightarrow> string \<Rightarrow> goerr option \<Rightarrow> update_input" where
  "status_update table now i status resultKey procErr =
     (let names = [''#status'' \<mapsto> ''status'', ''#updated_at'' \<mapsto> ''updated_at'', ''#error'' \<mapsto> ''error''];
          values = ['':status'' \<mapsto> AvS status, '':updated_at'' \<mapsto> AvN (itoa (i64 now)),
                    '':error'' \<mapsto> AvS (dyn_error_text procErr)];
          names = (if resultKey \<noteq> [] then names(''#result_key'' \<mapsto> ''result_key'') else names);
          values = (if resultKey \<noteq> [] then values('':result_key'' \<mapsto> AvS resultKey) else values)
      in \<lparr>ui_table = table, ui_key = dyn_key i, ui_update = set_text (status_sets resultKey),
          ui_condition = ''attribute_exists(#key)'', ui_names = with_key_name names,
          ui_values = values\<rparr>)"

definition dyn_update ::
  "'w dynamo_api \<Rightarrow> string \<Rightarrow> ('w \<Rightarrow> int) \<Rightarrow> ctx \<Rightarrow> string \<Rightarrow> job_status \<Rightarrow> string \<Rightarrow> goerr option \<Rightarrow> 'w
   \<Rightarrow> goerr option \<times> 'w" where
  "dyn_update api table now c i status resultKey procErr w =
    (if i = [] then (Some (EWrap ''dynamorepo: update: '' ErrJobNotFound []), w)
     else if \<not> status_valid status then
       (Some (EText (''dynamorepo: update '' @ i @ '': invalid status '' @ quote status)), w)
     else
    (case UpdateItem api c (status_update table (now w) i status resultKey procErr) w of
       (Some e, w1) \<Rightarrow>
         if is_condition_failed api e
         then (Some (EWrap (''dynamorepo: update '' @ i @ '': '') ErrJobNotFound []), w1)
         else (Some (EWrap (''dynamorepo: update '' @ i @ '': '') e []), w1)
     | (None, w1) \<Rightarrow> (None, w1)))"

definition dyn_port :: "'w dynamo_api \<Rightarrow> string \<Rightarrow> ('w \<Rightarrow> int) \<Rightarrow> 'w repo_port" where
  "dyn_port api table now =
     \<lparr>Save = dyn_save api table, GetJob = dyn_get api table, UpdateStatus = dyn_update api table now\<rparr>"

section \<open>What is relied on\<close>

text \<open>
  \<open>attributevalue\<close>: a struct is encoded under its tags, numbers in decimal; decoding gives it
  back, and an attribute set to a value of the right kind decodes into its field.
\<close>

definition item_attrs :: "item \<Rightarrow> dyn_attrs" where
  "item_attrs i =
     [''id'' \<mapsto> AvS (it_id i), ''original_key'' \<mapsto> AvS (it_original_key i),
      ''result_key'' \<mapsto> AvS (it_result_key i), ''status'' \<mapsto> AvS (it_status i),
      ''width'' \<mapsto> AvN (itoa (it_width i)), ''height'' \<mapsto> AvN (itoa (it_height i)),
      ''format'' \<mapsto> AvS (it_format i), ''quality'' \<mapsto> AvN (itoa (it_quality i)),
      ''watermark'' \<mapsto> AvBOOL (it_watermark i), ''strip_metadata'' \<mapsto> AvBOOL (it_strip_metadata i),
      ''created_at'' \<mapsto> AvN (itoa (it_created_at i)), ''updated_at'' \<mapsto> AvN (itoa (it_updated_at i)),
      ''error'' \<mapsto> AvS (it_error i)]"

definition item_ok :: "item \<Rightarrow> bool" where
  "item_ok i \<longleftrightarrow> in_i64 (it_width i) \<and> in_i64 (it_height i) \<and> in_i64 (it_quality i) \<and>
     in_i64 (it_created_at i) \<and> in_i64 (it_updated_at i)"

definition codec_ok :: "'w dynamo_api \<Rightarrow> bool" where
  "codec_ok api \<longleftrightarrow>
     (\<forall>i. marshal_map api i = Inr (item_attrs i)) \<and>
     (\<forall>i. item_ok i \<longrightarrow> unmarshal_map api (item_attrs i) = Inr i) \<and>
     (\<forall>m i s. unmarshal_map api m = Inr i \<longrightarrow>
        unmarshal_map api (m(''status'' \<mapsto> AvS s)) = Inr (i\<lparr>it_status := s\<rparr>) \<and>
        unmarshal_map api (m(''error'' \<mapsto> AvS s)) = Inr (i\<lparr>it_error := s\<rparr>) \<and>
        unmarshal_map api (m(''result_key'' \<mapsto> AvS s)) = Inr (i\<lparr>it_result_key := s\<rparr>)) \<and>
     (\<forall>m i n. unmarshal_map api m = Inr i \<longrightarrow> in_i64 n \<longrightarrow>
        unmarshal_map api (m(''updated_at'' \<mapsto> AvN (itoa n))) = Inr (i\<lparr>it_updated_at := n\<rparr>))"

text \<open>
  What an update expression \<open>SET #a = :a, #b = :b\<close> with its names and values assigns.
\<close>

fun apply_sets ::
  "(string \<rightharpoonup> string) \<Rightarrow> (string \<rightharpoonup> attr_val) \<Rightarrow> (string \<times> string) list \<Rightarrow> dyn_attrs \<Rightarrow> dyn_attrs option" where
  "apply_sets names vals [] m = Some m"
| "apply_sets names vals ((n, v) # ps) m =
     (case (names n, vals v) of
        (Some a, Some x) \<Rightarrow> apply_sets names vals ps (m(a \<mapsto> x))
      | _ \<Rightarrow> None)"

text \<open>Placeholders of an expression: words without the characters the syntax uses.\<close>

definition placeholder :: "string \<Rightarrow> bool" where
  "placeholder n \<longleftrightarrow> n \<noteq> [] \<and> CHR '' '' \<notin> set n \<and> CHR '','' \<notin> set n"

definition placeholders :: "(string \<times> string) list \<Rightarrow> bool" where
  "placeholders ps \<longleftrightarrow> ps \<noteq> [] \<and> list_all (\<lambda>(n, v). placeholder n \<and> placeholder v) ps"

text \<open>
  The service, over an abstraction of its table: a put replaces the item of its key, a
  consistent read returns it, a conditional update of an existing item makes the assignments;
  a call that reports an error has taken effect or not.
\<close>

definition dynamo_ok :: "'w dynamo_api \<Rightarrow> string \<Rightarrow> ('w \<Rightarrow> string \<rightharpoonup> dyn_attrs) \<Rightarrow> bool" where
  "dynamo_ok api table items \<longleftrightarrow>
     codec_ok api \<and>
     (\<forall>c m i w x w'. PutItem api c table m w = (x, w') \<longrightarrow> m KeyAttribute = Some (AvS i) \<longrightarrow>
        (if x = None then items w' = (items w)(i \<mapsto> m)
         else items w' = items w \<or> items w' = (items w)(i \<mapsto> m))) \<and>
     (\<forall>c i w r w'. GetItem api c table (dyn_key i) True w = (r, w') \<longrightarrow>
        items w' = items w \<and> (case r of Inl e \<Rightarrow> True | Inr v \<Rightarrow> v = items w i)) \<and>
     (\<forall>c u i ps m m' w x w'. UpdateItem api c u w = (x, w') \<longrightarrow>
        ui_table u = table \<longrightarrow> ui_key u = dyn_key i \<longrightarrow> ui_update u = set_text ps \<longrightarrow> placeholders ps \<longrightarrow>
        ui_condition u = ''attribute_exists(#key)'' \<longrightarrow> ui_names u ''#key'' = Some KeyAttribute \<longrightarrow>
        items w i = Some m \<longrightarrow> apply_sets (ui_names u) (ui_values u) ps m = Some m' \<longrightarrow>
        (if x = None then items w' = (items w)(i \<mapsto> m')
         else items w' = items w \<or> items w' = (items w)(i \<mapsto> m')))"

lemma dynamo_update_law:
  assumes "dynamo_ok api table items" "UpdateItem api c u w = (x, w')"
    "ui_table u = table" "ui_key u = dyn_key i" "ui_update u = set_text ps" "placeholders ps"
    "ui_condition u = ''attribute_exists(#key)''" "ui_names u ''#key'' = Some KeyAttribute"
    "items w i = Some m" "apply_sets (ui_names u) (ui_values u) ps m = Some m'"
  shows "if x = None then items w' = (items w)(i \<mapsto> m')
    else items w' = items w \<or> items w' = (items w)(i \<mapsto> m')"
proof -
  from assms(1) have "\<forall>c u i ps m m' w x w'. UpdateItem api c u w = (x, w') \<longrightarrow>
        ui_table u = table \<longrightarrow> ui_key u = dyn_key i \<longrightarrow> ui_update u = set_text ps \<longrightarrow> placeholders ps \<longrightarrow>
        ui_condition u = ''attribute_exists(#key)'' \<longrightarrow> ui_names u ''#key'' = Some KeyAttribute \<longrightarrow>
        items w i = Some m \<longrightarrow> apply_sets (ui_names u) (ui_values u) ps m = Some m' \<longrightarrow>
        (if x = None then items w' = (items w)(i \<mapsto> m')
         else items w' = items w \<or> items w' = (items w)(i \<mapsto> m'))"
    unfolding dynamo_ok_def by (elim conjE)
  from this [rule_format, OF assms(2-10)] show ?thesis .
qed

section \<open>The repository keeps its contract\<close>

definition dyn_jobs :: "'w dynamo_api \<Rightarrow> ('w \<Rightarrow> string \<rightharpoonup> dyn_attrs) \<Rightarrow> 'w \<Rightarrow> string \<rightharpoonup> job" where
  "dyn_jobs api items w i =
     (case items w i of
        None \<Rightarrow> None
      | Some m \<Rightarrow> (case unmarshal_map api m of Inl e \<Rightarrow> None | Inr it \<Rightarrow> Some (item_to_domain it)))"

definition dyn_storable :: "job \<Rightarrow> bool" where
  "dyn_storable j \<longleftrightarrow> in_i64 (Width (Transformation j)) \<and> in_i64 (Height (Transformation j)) \<and>
     in_i64 (Quality (Transformation j)) \<and> in_i64 (CreatedAt j) \<and> in_i64 (UpdatedAt j)"

lemma item_roundtrip: "dyn_storable j \<Longrightarrow> item_to_domain (new_item j) = j"
  by (simp add: dyn_storable_def new_item_def item_to_domain_def)

lemma new_item_ok:
  "in_i64 (Width (Transformation j)) \<Longrightarrow> in_i64 (Height (Transformation j)) \<Longrightarrow>
   in_i64 (Quality (Transformation j)) \<Longrightarrow> item_ok (new_item j)"
  by (simp add: item_ok_def new_item_def)

lemma item_attrs_key: "item_attrs i KeyAttribute = Some (AvS (it_id i))"
  by (simp add: item_attrs_def KeyAttribute_def)

text \<open>The assignments of a status update, made on an item, are those of \<open>updated_job\<close>.\<close>

definition status_attrs :: "int \<Rightarrow> job_status \<Rightarrow> string \<Rightarrow> goerr option \<Rightarrow> dyn_attrs \<Rightarrow> dyn_attrs" where
  "status_attrs now s rk pe m =
     (let m = m(''status'' \<mapsto> AvS s, ''updated_at'' \<mapsto> AvN (itoa (i64 now)), ''error'' \<mapsto> AvS (dyn_error_text pe))
      in if rk = [] then m else m(''result_key'' \<mapsto> AvS rk))"

lemma placeholders_status_sets: "placeholders (status_sets rk)"
  by (simp add: placeholders_def placeholder_def status_sets_def)

lemma status_update_sets:
  "apply_sets (ui_names (status_update table now i s rk pe)) (ui_values (status_update table now i s rk pe))
     (status_sets rk) m = Some (status_attrs now s rk pe m)"
  by (simp add: status_update_def status_sets_def status_attrs_def with_key_name_def Let_def)

lemma status_attrs_decode:
  assumes "codec_ok api" "unmarshal_map api m = Inr it"
  shows "\<exists>it'. unmarshal_map api (status_attrs now s rk pe m) = Inr it' \<and>
    item_to_domain it' = updated_job s rk pe (i64 now) (item_to_domain it)"
proof -
  let ?m1 = "m(''status'' \<mapsto> AvS s)" and ?m2 = "m(''status'' \<mapsto> AvS s, ''updated_at'' \<mapsto> AvN (itoa (i64 now)))"
  let ?m3 = "?m2(''error'' \<mapsto> AvS (dyn_error_text pe))"
  have c: "\<And>m i s. unmarshal_map api m = Inr i \<Longrightarrow>
        unmarshal_map api (m(''status'' \<mapsto> AvS s)) = Inr (i\<lparr>it_status := s\<rparr>) \<and>
        unmarshal_map api (m(''error'' \<mapsto> AvS s)) = Inr (i\<lparr>it_error := s\<rparr>) \<and>
        unmarshal_map api (m(''result_key'' \<mapsto> AvS s)) = Inr (i\<lparr>it_result_key := s\<rparr>)"
    "\<And>m i n. unmarshal_map api m = Inr i \<Longrightarrow> in_i64 n \<Longrightarrow>
        unmarshal_map api (m(''updated_at'' \<mapsto> AvN (itoa n))) = Inr (i\<lparr>it_updated_at := n\<rparr>)"
    using assms(1) unfolding codec_ok_def by blast+
  have 1: "unmarshal_map api ?m1 = Inr (it\<lparr>it_status := s\<rparr>)" using c(1) [OF assms(2)] by blast
  have 2: "unmarshal_map api ?m2 = Inr (it\<lparr>it_status := s, it_updated_at := i64 now\<rparr>)"
    using c(2) [OF 1 in_i64_i64] by simp
  have 3: "unmarshal_map api ?m3
      = Inr (it\<lparr>it_status := s, it_updated_at := i64 now, it_error := dyn_error_text pe\<rparr>)"
    using c(1) [OF 2] by simp
  have 4: "unmarshal_map api (?m3(''result_key'' \<mapsto> AvS rk))
      = Inr (it\<lparr>it_status := s, it_updated_at := i64 now, it_error := dyn_error_text pe, it_result_key := rk\<rparr>)"
    using c(1) [OF 3] by simp
  show ?thesis
  proof (cases "rk = []")
    case True
    have "status_attrs now s rk pe m = ?m3" using True by (simp add: status_attrs_def)
    with 3 True show ?thesis
      by (simp add: item_to_domain_def updated_job_def err_string_def dyn_error_text_def)
  next
    case False
    have "status_attrs now s rk pe m = ?m3(''result_key'' \<mapsto> AvS rk)" using False by (simp add: status_attrs_def Let_def)
    with 4 False show ?thesis
      by (simp add: item_to_domain_def updated_job_def err_string_def dyn_error_text_def)
  qed
qed

lemma dyn_jobs_Some:
  "dyn_jobs api items w i = Some j \<longleftrightarrow>
   (\<exists>m it. items w i = Some m \<and> unmarshal_map api m = Inr it \<and> j = item_to_domain it)"
  by (auto simp: dyn_jobs_def split: option.splits sum.splits)

lemma dyn_save_effect:
  assumes "dynamo_ok api table items" "dyn_save api table c (Some j) w = (x, w')" "dyn_storable j"
  shows "(x \<noteq> None \<and> dyn_jobs api items w' = dyn_jobs api items w) \<or>
    dyn_jobs api items w' = (dyn_jobs api items w)(ID j \<mapsto> j)"
proof (cases "ID j = []")
  case True
  with assms(2) show ?thesis by (auto simp: dyn_save_def)
next
  case False
  have cod: "marshal_map api (new_item j) = Inr (item_attrs (new_item j))"
    "unmarshal_map api (item_attrs (new_item j)) = Inr (new_item j)"
    using assms(1,3) new_item_ok [of j] by (auto simp: dynamo_ok_def codec_ok_def dyn_storable_def)
  obtain y where p: "PutItem api c table (item_attrs (new_item j)) w = (y, w')" "(x = None) = (y = None)"
    using assms(2) False cod by (auto simp: dyn_save_def split: prod.splits option.splits)
  have k: "item_attrs (new_item j) KeyAttribute = Some (AvS (ID j))"
    by (simp add: item_attrs_key) (simp add: new_item_def)
  have "if y = None then items w' = (items w)(ID j \<mapsto> item_attrs (new_item j))
    else items w' = items w \<or> items w' = (items w)(ID j \<mapsto> item_attrs (new_item j))"
    using assms(1) p(1) k unfolding dynamo_ok_def by blast
  moreover have "items w' = (items w)(ID j \<mapsto> item_attrs (new_item j)) \<Longrightarrow>
      dyn_jobs api items w' = (dyn_jobs api items w)(ID j \<mapsto> j)"
    using cod item_roundtrip [OF assms(3)] by (simp add: dyn_jobs_def fun_eq_iff)
  moreover have "items w' = items w \<Longrightarrow> dyn_jobs api items w' = dyn_jobs api items w"
    by (simp add: dyn_jobs_def fun_eq_iff)
  ultimately show ?thesis using p(2) by (cases y) auto
qed

lemma dyn_get_effect:
  assumes "dynamo_ok api table items" "dyn_get api table c i w = (r, w')"
  shows "dyn_jobs api items w' = dyn_jobs api items w \<and>
    (case r of Inl e \<Rightarrow> True | Inr j \<Rightarrow> dyn_jobs api items w i = Some j)"
proof (cases "i = []")
  case True
  with assms(2) show ?thesis by (auto simp: dyn_get_def)
next
  case False
  obtain g where g: "GetItem api c table (dyn_key i) True w = (g, w')"
    using assms(2) False by (auto simp: dyn_get_def split: prod.splits sum.splits option.splits)
  have "items w' = items w \<and> (case g of Inl e \<Rightarrow> True | Inr v \<Rightarrow> v = items w i)"
    using assms(1) g unfolding dynamo_ok_def by blast
  moreover from this have "dyn_jobs api items w' = dyn_jobs api items w"
    by (intro ext) (simp add: dyn_jobs_def)
  ultimately show ?thesis
    using assms(2) False g
    by (auto simp: dyn_get_def dyn_jobs_Some split: sum.splits option.splits)
qed

lemma dyn_update_effect:
  assumes "dynamo_ok api table items" "dyn_update api table now c i s rk pe w = (x, w')"
    "dyn_jobs api items w i = Some j"
  shows "(x \<noteq> None \<and> dyn_jobs api items w' = dyn_jobs api items w) \<or>
    status_valid s \<and> dyn_jobs api items w' = (dyn_jobs api items w)(i \<mapsto> updated_job s rk pe (i64 (now w)) j)"
proof (cases "i = [] \<or> \<not> status_valid s")
  case True
  with assms(2) show ?thesis by (auto simp: dyn_update_def split: if_splits)
next
  case False
  let ?u = "status_update table (now w) i s rk pe"
  obtain y where u: "UpdateItem api c ?u w = (y, w')" "(x = None) = (y = None)"
    using assms(2) False by (auto simp: dyn_update_def split: prod.splits option.splits if_splits)
  from assms(3) obtain m it where m: "items w i = Some m" "unmarshal_map api m = Inr it" "j = item_to_domain it"
    by (auto simp: dyn_jobs_Some)
  let ?m = "status_attrs (now w) s rk pe m"
  have sel: "ui_table ?u = table" "ui_key ?u = dyn_key i" "ui_update ?u = set_text (status_sets rk)"
    "placeholders (status_sets rk)" "ui_condition ?u = ''attribute_exists(#key)''" "ui_names ?u ''#key'' = Some KeyAttribute"
    by (simp_all add: status_update_def with_key_name_def Let_def placeholders_status_sets)
  have "if y = None then items w' = (items w)(i \<mapsto> ?m) else items w' = items w \<or> items w' = (items w)(i \<mapsto> ?m)"
    by (rule dynamo_update_law [OF assms(1) u(1) sel m(1) status_update_sets])
  moreover have "items w' = (items w)(i \<mapsto> ?m) \<Longrightarrow>
      dyn_jobs api items w' = (dyn_jobs api items w)(i \<mapsto> updated_job s rk pe (i64 (now w)) j)"
    using status_attrs_decode [of api m it "now w" s rk pe] assms(1) m
    by (auto simp: dyn_jobs_def fun_eq_iff dynamo_ok_def)
  moreover have "items w' = items w \<Longrightarrow> dyn_jobs api items w' = dyn_jobs api items w"
    by (simp add: dyn_jobs_def fun_eq_iff)
  ultimately show ?thesis using u(2) False by (cases y) auto
qed

lemma dyn_job_store:
  assumes "dynamo_ok api table items"
  shows "job_store (dyn_port api table now) dyn_storable (dyn_jobs api items)"
proof
  fix c j w w' i s rk pe x e
  show "Save (dyn_port api table now) c (Some j) w = (None, w') \<Longrightarrow> dyn_storable j \<Longrightarrow>
    dyn_jobs api items w' = (dyn_jobs api items w)(ID j \<mapsto> j)"
    using dyn_save_effect [OF assms] by (fastforce simp: dyn_port_def)
  show "Save (dyn_port api table now) c (Some j) w = (Some e, w') \<Longrightarrow> dyn_storable j \<Longrightarrow>
    dyn_jobs api items w' = dyn_jobs api items w \<or>
    dyn_jobs api items w' = (dyn_jobs api items w)(ID j \<mapsto> j)"
    using dyn_save_effect [OF assms] by (fastforce simp: dyn_port_def)
  show "GetJob (dyn_port api table now) c i w = (Inr j, w') \<Longrightarrow>
    dyn_jobs api items w' = dyn_jobs api items w \<and> dyn_jobs api items w i = Some j"
    using dyn_get_effect [OF assms] by (fastforce simp: dyn_port_def)
  show "GetJob (dyn_port api table now) c i w = (Inl e, w') \<Longrightarrow>
    dyn_jobs api items w' = dyn_jobs api items w"
    using dyn_get_effect [OF assms] by (fastforce simp: dyn_port_def)
  show "UpdateStatus (dyn_port api table now) c i s rk pe w = (None, w') \<Longrightarrow>
    dyn_jobs api items w i = Some j \<Longrightarrow>
    \<exists>t. status_valid s \<and> dyn_jobs api items w' = (dyn_jobs api items w)(i \<mapsto> updated_job s rk pe t j)"
    using dyn_update_effect [OF assms] by (fastforce simp: dyn_port_def)
  show "UpdateStatus (dyn_port api table now) c i s rk pe w = (Some e, w') \<Longrightarrow>
    dyn_jobs api items w i = Some j \<Longrightarrow>
    dyn_jobs api items w' = dyn_jobs api items w \<or>
    (\<exists>t. status_valid s \<and> dyn_jobs api items w' = (dyn_jobs api items w)(i \<mapsto> updated_job s rk pe t j))"
    using dyn_update_effect [OF assms] by (fastforce simp: dyn_port_def)
qed

section \<open>Properties\<close>

text \<open>
  C28: the stored form of a job is exact and a status update on it means what the port says. A
  job whose numbers are 64-bit comes back from its item as it was; and the update request names a
  value for every placeholder of its expression, whose assignments, made on the attributes of
  any decodable item, decode to \<open>updated_job\<close> of the job that item held.
\<close>

theorem status_update_meaning:
  assumes "codec_ok api" "dyn_storable j" "unmarshal_map api m = Inr it"
  shows "item_to_domain (new_item j) = j \<and>
    (\<exists>ps m' it'. ui_update (status_update table now i s rk pe) = set_text ps \<and> placeholders ps \<and>
      apply_sets (ui_names (status_update table now i s rk pe))
        (ui_values (status_update table now i s rk pe)) ps m = Some m' \<and>
      unmarshal_map api m' = Inr it' \<and>
      item_to_domain it' = updated_job s rk pe (i64 now) (item_to_domain it))"
proof -
  have "ui_update (status_update table now i s rk pe) = set_text (status_sets rk)"
    by (simp add: status_update_def Let_def)
  with status_update_sets [of table now i s rk pe m] status_attrs_decode [OF assms(1,3), of now s rk pe]
    placeholders_status_sets [of rk] item_roundtrip [OF assms(2)]
  show ?thesis by blast
qed

end
