(* ===== verification/Aws_Backend.thy ===== *)
theory Aws_Backend
  imports Usecase_Contracts S3storage Dynamorepo Sqsqueue
begin

text \<open>
  The wiring on AWS (\<open>BACKEND=aws\<close>): S3, DynamoDB and SQS behind the ports. The services are
  parameters; \<open>aws_ok\<close> gathers what is relied on of them and that a call to one does not touch
  the others. Under it the adapters form a \<open>backend\<close>, so the lemmas about the use cases
  apply.
\<close>

definition sqs_port :: "'w sqs_api \<Rightarrow> sqs_queue \<Rightarrow> 'w queue_port" where
  "sqs_port api q = \<lparr>Enqueue = sqs_enqueue api q\<rparr>"

text \<open>Sending: a success queued the message; a reported error queued it or not.\<close>

definition send_ok :: "'w sqs_api \<Rightarrow> string \<Rightarrow> ('w \<Rightarrow> string multiset) \<Rightarrow> bool" where
  "send_ok api url waiting \<longleftrightarrow>
     (\<forall>c body m w x w'. SendMessage api c url body m w = (x, w') \<longrightarrow>
        (if x = None then waiting w' = add_mset body (waiting w)
         else waiting w' = waiting w \<or> waiting w' = add_mset body (waiting w)))"

record 'w aws =
  aws_s3 :: "'w s3_api"
  aws_storage :: s3_storage
  aws_dynamo :: "'w dynamo_api"
  aws_table :: string
  aws_now :: "'w \<Rightarrow> int"
  aws_sqs :: "'w sqs_api"
  aws_queue :: sqs_queue

record 'w aws_view =
  v_objs :: "'w \<Rightarrow> string \<rightharpoonup> string"
  v_items :: "'w \<Rightarrow> string \<rightharpoonup> dyn_attrs"
  v_waiting :: "'w \<Rightarrow> string multiset"

definition aws_frames :: "'w aws \<Rightarrow> 'w aws_view \<Rightarrow> bool" where
  "aws_frames a v \<longleftrightarrow>
     (\<forall>c b k r n w. v_items v (snd (Upload (aws_s3 a) c b k r n w)) = v_items v w \<and>
        v_waiting v (snd (Upload (aws_s3 a) c b k r n w)) = v_waiting v w) \<and>
     (\<forall>c b k w. v_items v (snd (S3GetObject (aws_s3 a) c b k w)) = v_items v w \<and>
        v_waiting v (snd (S3GetObject (aws_s3 a) c b k w)) = v_waiting v w) \<and>
     (\<forall>r w. v_items v (S3CloseBody (aws_s3 a) r w) = v_items v w \<and>
        v_waiting v (S3CloseBody (aws_s3 a) r w) = v_waiting v w) \<and>
     (\<forall>c t m w. v_objs v (snd (PutItem (aws_dynamo a) c t m w)) = v_objs v w \<and>
        v_waiting v (snd (PutItem (aws_dynamo a) c t m w)) = v_waiting v w) \<and>
     (\<forall>c t k b w. v_objs v (snd (GetItem (aws_dynamo a) c t k b w)) = v_objs v w \<and>
        v_waiting v (snd (GetItem (aws_dynamo a) c t k b w)) = v_waiting v w) \<and>
     (\<forall>c u w. v_objs v (snd (UpdateItem (aws_dynamo a) c u w)) = v_objs v w \<and>
        v_waiting v (snd (UpdateItem (aws_dynamo a) c u w)) = v_waiting v w) \<and>
     (\<forall>c u b m w. v_objs v (snd (SendMessage (aws_sqs a) c u b m w)) = v_objs v w \<and>
        v_items v (snd (SendMessage (aws_sqs a) c u b m w)) = v_items v w)"

definition aws_ok :: "'w aws \<Rightarrow> 'w aws_view \<Rightarrow> bool" where
  "aws_ok a v \<longleftrightarrow>
     s3_ok (aws_s3 a) (s3_bucket (aws_storage a)) (v_objs v) \<and>
     dynamo_ok (aws_dynamo a) (aws_table a) (v_items v) \<and>
     send_ok (aws_sqs a) (queueURL (aws_queue a)) (v_waiting v) \<and> aws_frames a v"

text \<open>A processor, an identifier source or a clock that runs in the process touches no service.\<close>

definition untouched :: "'w aws_view \<Rightarrow> 'w \<Rightarrow> 'w \<Rightarrow> bool" where
  "untouched v w w' \<longleftrightarrow> v_objs v w' = v_objs v w \<and> v_items v w' = v_items v w \<and> v_waiting v w' = v_waiting v w"

definition local_processor :: "'w aws_view \<Rightarrow> 'w processor_port \<Rightarrow> bool" where
  "local_processor v pp \<longleftrightarrow> (\<forall>c r s w. untouched v w (snd (Process pp c r s w)))"

definition local_source :: "'w aws_view \<Rightarrow> ('w \<Rightarrow> 'x \<times> 'w) \<Rightarrow> bool" where
  "local_source v f \<longleftrightarrow> (\<forall>w. untouched v w (snd (f w)))"

definition aws_storage_port :: "'w aws \<Rightarrow> 'w storage_port" where
  "aws_storage_port a = s3_port (aws_s3 a) (aws_storage a)"

definition aws_repo :: "'w aws \<Rightarrow> 'w repo_port" where
  "aws_repo a = dyn_port (aws_dynamo a) (aws_table a) (aws_now a)"

definition aws_queue_port :: "'w aws \<Rightarrow> 'w queue_port" where
  "aws_queue_port a = sqs_port (aws_sqs a) (aws_queue a)"

definition aws_jobs :: "'w aws \<Rightarrow> 'w aws_view \<Rightarrow> 'w \<Rightarrow> string \<rightharpoonup> job" where
  "aws_jobs a v = dyn_jobs (aws_dynamo a) (v_items v)"

lemma sqs_work_queue:
  assumes "send_ok api (queueURL q) waiting"
  shows "work_queue (sqs_port api q) waiting"
proof
  fix c i w w' e
  have s: "SendMessage api c (queueURL q) i m w = (x, w') \<Longrightarrow>
      if x = None then waiting w' = add_mset i (waiting w)
      else waiting w' = waiting w \<or> waiting w' = add_mset i (waiting w)" for m x
    using assms unfolding send_ok_def by blast
  show "Enqueue (sqs_port api q) c i w = (None, w') \<Longrightarrow> i \<noteq> [] \<and> waiting w' = add_mset i (waiting w)"
    using s by (fastforce simp: sqs_port_def sqs_enqueue_def split: prod.splits option.splits if_splits)
  show "Enqueue (sqs_port api q) c i w = (Some e, w') \<Longrightarrow>
      waiting w' = waiting w \<or> waiting w' = add_mset i (waiting w)"
    using s by (fastforce simp: sqs_port_def sqs_enqueue_def split: prod.splits option.splits if_splits)
qed

lemma aws_jobs_same: "v_items v w' = v_items v w \<Longrightarrow> aws_jobs a v w' = aws_jobs a v w"
  by (intro ext) (simp add: aws_jobs_def dyn_jobs_def)

text \<open>What each port call leaves alone.\<close>

lemma aws_put_frame:
  assumes "aws_frames a v" "s3_put (aws_s3 a) s c k d w = (x, w')"
  shows "v_items v w' = v_items v w \<and> v_waiting v w' = v_waiting v w"
proof (cases "w' = w")
  case False
  then obtain r y where "Upload (aws_s3 a) c (s3_bucket s) k r (s3_part_size s) w = (y, w')"
    using assms(2) by (auto simp: s3_put_def split: prod.splits option.splits)
  with assms(1) show ?thesis unfolding aws_frames_def by (metis snd_conv)
qed simp

lemma aws_get_frame:
  assumes "aws_frames a v" "s3_get (aws_s3 a) s c k w = (x, w')"
  shows "v_items v w' = v_items v w \<and> v_waiting v w' = v_waiting v w"
proof (cases "w' = w")
  case False
  then obtain y where "S3GetObject (aws_s3 a) c (s3_bucket s) k w = (y, w')"
    using assms(2) by (auto simp: s3_get_def split: prod.splits option.splits sum.splits if_splits)
  with assms(1) show ?thesis unfolding aws_frames_def by (metis snd_conv)
qed simp

lemma aws_save_frame:
  assumes "aws_frames a v" "dyn_save (aws_dynamo a) t c j w = (x, w')"
  shows "v_objs v w' = v_objs v w \<and> v_waiting v w' = v_waiting v w"
proof (cases "w' = w")
  case False
  then obtain m y where "PutItem (aws_dynamo a) c t m w = (y, w')"
    using assms(2) by (auto simp: dyn_save_def split: prod.splits option.splits sum.splits if_splits)
  with assms(1) show ?thesis unfolding aws_frames_def by (metis snd_conv)
qed simp

lemma aws_load_frame:
  assumes "aws_frames a v" "dyn_get (aws_dynamo a) t c i w = (x, w')"
  shows "v_objs v w' = v_objs v w \<and> v_waiting v w' = v_waiting v w"
proof (cases "w' = w")
  case False
  then obtain y where "GetItem (aws_dynamo a) c t (dyn_key i) True w = (y, w')"
    using assms(2) by (auto simp: dyn_get_def split: prod.splits option.splits sum.splits if_splits)
  with assms(1) show ?thesis unfolding aws_frames_def by (metis snd_conv)
qed simp

lemma aws_update_frame:
  assumes "aws_frames a v" "dyn_update (aws_dynamo a) t now c i s rk pe w = (x, w')"
  shows "v_objs v w' = v_objs v w \<and> v_waiting v w' = v_waiting v w"
proof (cases "w' = w")
  case False
  then obtain u y where "UpdateItem (aws_dynamo a) c u w = (y, w')"
    using assms(2) by (auto simp: dyn_update_def split: prod.splits option.splits if_splits)
  with assms(1) show ?thesis unfolding aws_frames_def by (metis snd_conv)
qed simp

lemma aws_send_frame:
  assumes "aws_frames a v" "sqs_enqueue (aws_sqs a) q c i w = (x, w')"
  shows "v_objs v w' = v_objs v w \<and> v_items v w' = v_items v w"
proof (cases "w' = w")
  case False
  then obtain m y where "SendMessage (aws_sqs a) c (queueURL q) i m w = (y, w')"
    using assms(2) by (auto simp: sqs_enqueue_def split: prod.splits option.splits if_splits)
  with assms(1) show ?thesis unfolding aws_frames_def by (metis snd_conv)
qed simp

lemma aws_backend:
  assumes "aws_ok a v" "local_processor v pp"
  shows "backend (aws_storage_port a) s3_loc (v_objs v) (aws_repo a) dyn_storable (aws_jobs a v)
    (aws_queue_port a) (v_waiting v) pp"
proof -
  from assms(1) have f: "aws_frames a v" and s: "s3_ok (aws_s3 a) (s3_bucket (aws_storage a)) (v_objs v)"
    and d: "dynamo_ok (aws_dynamo a) (aws_table a) (v_items v)"
    and q: "send_ok (aws_sqs a) (queueURL (aws_queue a)) (v_waiting v)"
    by (simp_all add: aws_ok_def)
  have close: "v_items v (S3CloseBody (aws_s3 a) r w) = v_items v w \<and>
        v_waiting v (S3CloseBody (aws_s3 a) r w) = v_waiting v w" for r w
    using f unfolding aws_frames_def by blast
  show ?thesis
    unfolding backend_def aws_storage_port_def aws_repo_def aws_queue_port_def
  proof (intro conjI)
    show "blob_store (s3_port (aws_s3 a) (aws_storage a)) s3_loc (v_objs v)" by (rule s3_blob_store [OF s])
    show "job_store (dyn_port (aws_dynamo a) (aws_table a) (aws_now a)) dyn_storable (aws_jobs a v)"
      unfolding aws_jobs_def by (rule dyn_job_store [OF d])
    show "work_queue (sqs_port (aws_sqs a) (aws_queue a)) (v_waiting v)" by (rule sqs_work_queue [OF q])
    show "backend_axioms (s3_port (aws_s3 a) (aws_storage a)) (v_objs v)
        (dyn_port (aws_dynamo a) (aws_table a) (aws_now a)) (aws_jobs a v)
        (sqs_port (aws_sqs a) (aws_queue a)) (v_waiting v) pp"
    proof
      fix c k i w w' x y z u inp sp r j st rk pe d'
      show "Put (s3_port (aws_s3 a) (aws_storage a)) c k d' w = (x, w') \<Longrightarrow>
          aws_jobs a v w' = aws_jobs a v w \<and> v_waiting v w' = v_waiting v w"
        using aws_put_frame [OF f, of "aws_storage a" c k d' w x w'] aws_jobs_same [of v w' w a]
        by (simp add: s3_port_def)
      show "GetObject (s3_port (aws_s3 a) (aws_storage a)) c k w = (y, w') \<Longrightarrow>
          aws_jobs a v w' = aws_jobs a v w \<and> v_waiting v w' = v_waiting v w"
        using aws_get_frame [OF f, of "aws_storage a" c k w y w'] aws_jobs_same [of v w' w a]
        by (simp add: s3_port_def)
      show "aws_jobs a v (CloseObject (s3_port (aws_s3 a) (aws_storage a)) r w) = aws_jobs a v w"
        using close [of r w] aws_jobs_same [of v "S3CloseBody (aws_s3 a) r w" w a]
        by (simp add: s3_port_def)
      show "v_waiting v (CloseObject (s3_port (aws_s3 a) (aws_storage a)) r w) = v_waiting v w"
        using close by (simp add: s3_port_def)
      show "Save (dyn_port (aws_dynamo a) (aws_table a) (aws_now a)) c j w = (x, w') \<Longrightarrow>
          v_objs v w' = v_objs v w \<and> v_waiting v w' = v_waiting v w"
        using aws_save_frame [OF f, of "aws_table a" c j w x w'] by (simp add: dyn_port_def)
      show "GetJob (dyn_port (aws_dynamo a) (aws_table a) (aws_now a)) c i w = (z, w') \<Longrightarrow>
          v_objs v w' = v_objs v w \<and> v_waiting v w' = v_waiting v w"
        using aws_load_frame [OF f, of "aws_table a" c i w z w'] by (simp add: dyn_port_def)
      show "UpdateStatus (dyn_port (aws_dynamo a) (aws_table a) (aws_now a)) c i st rk pe w = (x, w') \<Longrightarrow>
          v_objs v w' = v_objs v w \<and> v_waiting v w' = v_waiting v w"
        using aws_update_frame [OF f, of "aws_table a" "aws_now a" c i st rk pe w x w'] by (simp add: dyn_port_def)
      show "Enqueue (sqs_port (aws_sqs a) (aws_queue a)) c i w = (x, w') \<Longrightarrow>
          v_objs v w' = v_objs v w \<and> aws_jobs a v w' = aws_jobs a v w"
        using aws_send_frame [OF f, of "aws_queue a" c i w x w'] aws_jobs_same [of v w' w a]
        by (simp add: sqs_port_def)
      show "Process pp c inp sp w = (u, w') \<Longrightarrow>
          v_objs v w' = v_objs v w \<and> aws_jobs a v w' = aws_jobs a v w \<and> v_waiting v w' = v_waiting v w"
        using assms(2) aws_jobs_same unfolding local_processor_def untouched_def by (metis snd_conv)
    qed
  qed
qed

lemma aws_create_env:
  assumes "aws_ok a v" "local_processor v pp" "local_source v nid" "local_source v nw"
  shows "create_env (aws_storage_port a) s3_loc (v_objs v) (aws_repo a) dyn_storable (aws_jobs a v)
    (aws_queue_port a) (v_waiting v) pp nid nw"
  unfolding create_env_def create_env_axioms_def
proof (intro conjI allI impI aws_backend [OF assms(1,2)])
  fix w i w'
  assume "nid w = (i, w')"
  then have "untouched v w w'" using assms(3) unfolding local_source_def by (metis snd_conv)
  then show "v_objs v w' = v_objs v w" "aws_jobs a v w' = aws_jobs a v w" "v_waiting v w' = v_waiting v w"
    using aws_jobs_same by (auto simp: untouched_def)
next
  fix w t w'
  assume "nw w = (t, w')"
  then have "untouched v w w'" using assms(4) unfolding local_source_def by (metis snd_conv)
  then show "v_objs v w' = v_objs v w" "aws_jobs a v w' = aws_jobs a v w" "v_waiting v w' = v_waiting v w"
    using aws_jobs_same by (auto simp: untouched_def)
qed

section \<open>A concrete set of services\<close>

text \<open>
  In-memory services that satisfy \<open>aws_ok\<close>, on which the theorems of the wiring can be
  applied: their calls fail only as documented, decoding gives absent attributes their zero values.
\<close>

record cloud =
  cl_objs :: "string \<rightharpoonup> string"
  cl_items :: "string \<rightharpoonup> dyn_attrs"
  cl_sent :: "string list"

definition str_attr :: "dyn_attrs \<Rightarrow> string \<Rightarrow> string" where
  "str_attr m k = (case m k of Some (AvS s) \<Rightarrow> s | _ \<Rightarrow> [])"

definition num_attr :: "dyn_attrs \<Rightarrow> string \<Rightarrow> int" where
  "num_attr m k = (case m k of Some (AvN t) \<Rightarrow> (case atoi t of Inr n \<Rightarrow> n | Inl e \<Rightarrow> 0) | _ \<Rightarrow> 0)"

definition bool_attr :: "dyn_attrs \<Rightarrow> string \<Rightarrow> bool" where
  "bool_attr m k = (case m k of Some (AvBOOL b) \<Rightarrow> b | _ \<Rightarrow> False)"

definition sample_unmarshal :: "dyn_attrs \<Rightarrow> item" where
  "sample_unmarshal m =
     \<lparr>it_id = str_attr m ''id'', it_original_key = str_attr m ''original_key'',
      it_result_key = str_attr m ''result_key'', it_status = str_attr m ''status'',
      it_width = num_attr m ''width'', it_height = num_attr m ''height'',
      it_format = str_attr m ''format'', it_quality = num_attr m ''quality'',
      it_watermark = bool_attr m ''watermark'', it_strip_metadata = bool_attr m ''strip_metadata'',
      it_created_at = num_attr m ''created_at'', it_updated_at = num_attr m ''updated_at'',
      it_error = str_attr m ''error''\<rparr>"

text \<open>The two update expressions the repository sends, read back.\<close>

definition sets_of_text :: "string \<Rightarrow> (string \<times> string) list option" where
  "sets_of_text t =
     (if t = set_text (status_sets []) then Some (status_sets [])
      else if t = set_text (status_sets ''k'') then Some (status_sets ''k'')
      else None)"

definition key_of :: "dyn_attrs \<Rightarrow> string" where
  "key_of m = str_attr m KeyAttribute"

definition sample_dynamo :: "cloud dynamo_api" where
  "sample_dynamo =
     \<lparr>PutItem = \<lambda>c t m w. (None, w\<lparr>cl_items := (cl_items w)(key_of m \<mapsto> m)\<rparr>),
      GetItem = \<lambda>c t k b w. (Inr (cl_items w (key_of k)), w),
      UpdateItem = \<lambda>c u w.
        (case (cl_items w (key_of (ui_key u)), sets_of_text (ui_update u)) of
           (Some m, Some ps) \<Rightarrow>
             (case apply_sets (ui_names u) (ui_values u) ps m of
                Some m' \<Rightarrow> (None, w\<lparr>cl_items := (cl_items w)(key_of (ui_key u) \<mapsto> m')\<rparr>)
              | None \<Rightarrow> (Some (EText ''ValidationException''), w))
         | _ \<Rightarrow> (Some (EText ''ConditionalCheckFailedException''), w)),
      marshal_map = \<lambda>i. Inr (item_attrs i),
      unmarshal_map = \<lambda>m. Inr (sample_unmarshal m),
      is_condition_failed = \<lambda>e. e = EText ''ConditionalCheckFailedException''\<rparr>"

definition sample_s3 :: "cloud s3_api" where
  "sample_s3 =
     \<lparr>Upload = \<lambda>c b k r n w.
        (case reader_err r of
           None \<Rightarrow> (None, w\<lparr>cl_objs := (cl_objs w)(k \<mapsto> reader_bytes r)\<rparr>)
         | Some e \<Rightarrow> (Some e, w)),
      S3GetObject = \<lambda>c b k w.
        (case cl_objs w k of Some x \<Rightarrow> (Inr (Reader x None), w) | None \<Rightarrow> (Inl (EText ''NoSuchKey''), w)),
      S3CloseBody = \<lambda>r w. w,
      is_no_such_key = \<lambda>e. e = EText ''NoSuchKey'', is_no_such_bucket = \<lambda>e. False,
      api_error_code = \<lambda>e. None\<rparr>"

definition sample_sqs :: "cloud sqs_api" where
  "sample_sqs =
     \<lparr>GetQueueUrl = \<lambda>c n w. (Inr None, w), GetQueueAttributes = \<lambda>c u ks w. (Inr Map.empty, w),
      SendMessage = \<lambda>c u b as w. (None, w\<lparr>cl_sent := cl_sent w @ [b]\<rparr>),
      ReceiveMessage = \<lambda>c i w. (Inr [], w),
      DeleteMessage = \<lambda>c u r w. (None, w), ChangeMessageVisibility = \<lambda>c u r v w. (None, w)\<rparr>"

definition sample_aws :: "cloud aws" where
  "sample_aws =
     \<lparr>aws_s3 = sample_s3, aws_storage = \<lparr>s3_bucket = ''b'', s3_part_size = DefaultPartSize\<rparr>,
      aws_dynamo = sample_dynamo, aws_table = ''jobs'', aws_now = \<lambda>w. 5, aws_sqs = sample_sqs,
      aws_queue = default_queue ''https://q''\<rparr>"

definition sample_view :: "cloud aws_view" where
  "sample_view = \<lparr>v_objs = cl_objs, v_items = cl_items, v_waiting = \<lambda>w. mset (cl_sent w)\<rparr>"

lemma sample_codec: "codec_ok sample_dynamo"
  unfolding codec_ok_def
proof (intro conjI allI impI)
  fix i
  show "marshal_map sample_dynamo i = Inr (item_attrs i)" by (simp add: sample_dynamo_def)
  assume "item_ok i"
  then show "unmarshal_map sample_dynamo (item_attrs i) = Inr i"
    by (simp add: sample_dynamo_def sample_unmarshal_def item_attrs_def str_attr_def num_attr_def
        bool_attr_def item_ok_def atoi_itoa)
next
  fix m i s
  assume "unmarshal_map sample_dynamo m = Inr i"
  then show "unmarshal_map sample_dynamo (m(''status'' \<mapsto> AvS s)) = Inr (i\<lparr>it_status := s\<rparr>)"
    "unmarshal_map sample_dynamo (m(''error'' \<mapsto> AvS s)) = Inr (i\<lparr>it_error := s\<rparr>)"
    "unmarshal_map sample_dynamo (m(''result_key'' \<mapsto> AvS s)) = Inr (i\<lparr>it_result_key := s\<rparr>)"
    by (auto simp: sample_dynamo_def sample_unmarshal_def str_attr_def num_attr_def bool_attr_def)
next
  fix m i n
  assume "unmarshal_map sample_dynamo m = Inr i" "in_i64 n"
  then show "unmarshal_map sample_dynamo (m(''updated_at'' \<mapsto> AvN (itoa n))) = Inr (i\<lparr>it_updated_at := n\<rparr>)"
    by (auto simp: sample_dynamo_def sample_unmarshal_def str_attr_def num_attr_def bool_attr_def atoi_itoa)
qed

lemma split_on_no_comma: "c \<notin> set f \<Longrightarrow> split_on c f = [f]"
  by (induction f) auto

lemma split_on_append_comma: "c \<notin> set a \<Longrightarrow> split_on c (a @ c # b) = a # split_on c b"
  by (induction a) auto

text \<open>An expression over placeholders determines its assignments.\<close>

lemma split_joined:
  assumes "fs \<noteq> []" "\<forall>f \<in> set fs. CHR '','' \<notin> set f"
  shows "split_on CHR '','' (join_with '', '' fs) = hd fs # map (\<lambda>f. CHR '' '' # f) (tl fs)"
  using assms
proof (induction fs)
  case Nil
  then show ?case by simp
next
  case (Cons f fs)
  show ?case
  proof (cases fs)
    case Nil
    with Cons.prems show ?thesis by (simp add: split_on_no_comma)
  next
    case (Cons g gs)
    with Cons.IH Cons.prems show ?thesis
      by (simp add: split_on_no_comma split_on_append_comma)
  qed
qed

lemma set_text_inj:
  assumes "placeholders ps" "placeholders qs" "set_text ps = set_text qs"
  shows "ps = qs"
proof -
  let ?f = "\<lambda>(n, v). n @ '' = '' @ v :: string"
  have comma: "\<forall>f \<in> set (map ?f rs). CHR '','' \<notin> set f" if "placeholders rs" for rs
    using that by (auto simp: placeholders_def placeholder_def list_all_iff)
  have "join_with '', '' (map ?f ps) = join_with '', '' (map ?f qs)" using assms(3) by (simp add: set_text_def)
  moreover have ne: "map ?f ps \<noteq> []" "map ?f qs \<noteq> []" using assms(1,2) by (auto simp: placeholders_def)
  ultimately have "hd (map ?f ps) # map (\<lambda>f. CHR '' '' # f) (tl (map ?f ps))
      = hd (map ?f qs) # map (\<lambda>f. CHR '' '' # f) (tl (map ?f qs))"
    using split_joined [OF ne(1) comma [OF assms(1)]] split_joined [OF ne(2) comma [OF assms(2)]] by simp
  then have "hd (map ?f ps) = hd (map ?f qs)" "tl (map ?f ps) = tl (map ?f qs)"
    by (auto dest: map_injective simp: inj_def)
  with ne have m: "map ?f ps = map ?f qs" by (metis list.collapse)
  have "p = q" if "p \<in> set ps" "q \<in> set qs" "?f p = ?f q" for p q
  proof -
    obtain n v n' v' where pq: "p = (n, v)" "q = (n', v')" by (metis surj_pair)
    have "CHR '' '' \<notin> set n" "CHR '' '' \<notin> set n'"
      using that(1,2) assms(1,2) pq by (auto simp: placeholders_def placeholder_def list_all_iff)
    note n = this
    have e: "n @ CHR '' '' # (''= '' @ v) = n' @ CHR '' '' # (''= '' @ v')" using that(3) pq by simp
    from arg_cong [OF this, of "split_on CHR '' ''"] have "n = n'"
      unfolding split_on_append_comma [OF n(1)] split_on_append_comma [OF n(2)] by simp
    with e have "n = n' \<and> v = v'" by simp
    then show ?thesis using pq by simp
  qed
  with m show ?thesis by (metis (no_types, lifting) list.inj_map_strong)
qed

lemma key_of_simps:
  "m KeyAttribute = Some (AvS i) \<Longrightarrow> key_of m = i" "key_of (dyn_key i) = i"
  by (simp_all add: key_of_def str_attr_def dyn_key_def)

lemma sample_aws_ok: "aws_ok sample_aws sample_view"
  unfolding aws_ok_def
proof (intro conjI)
  show "s3_ok (aws_s3 sample_aws) (s3_bucket (aws_storage sample_aws)) (v_objs sample_view)"
    by (auto simp: s3_ok_def sample_aws_def sample_s3_def sample_view_def reads_from_def split: option.splits)
  have c: "codec_ok (aws_dynamo sample_aws)" using sample_codec by (simp add: sample_aws_def)
  have sets: "sets_of_text (set_text ps) = Some qs \<Longrightarrow> placeholders ps \<Longrightarrow> qs = ps" for ps qs
    using set_text_inj [of ps "status_sets []"] set_text_inj [of ps "status_sets ''k''"]
      placeholders_status_sets
    by (auto simp: sets_of_text_def split: if_splits)
  show "dynamo_ok (aws_dynamo sample_aws) (aws_table sample_aws) (v_items sample_view)"
    unfolding dynamo_ok_def
    by (intro conjI c; auto simp: sample_aws_def sample_dynamo_def sample_view_def key_of_simps
        dest!: sets split: option.splits)
  show "send_ok (aws_sqs sample_aws) (queueURL (aws_queue sample_aws)) (v_waiting sample_view)"
    by (auto simp: send_ok_def sample_aws_def sample_sqs_def sample_view_def)
  show "aws_frames sample_aws sample_view"
    by (auto simp: aws_frames_def sample_aws_def sample_s3_def sample_dynamo_def sample_sqs_def
        sample_view_def split: option.splits prod.splits)
qed

theorem status_update_meaning_witness:
  "\<exists>m' it'. unmarshal_map sample_dynamo m' = Inr it' \<and> it_status it' = StatusDone \<and> it_result_key it' = ''r''"
proof -
  let ?j = "\<lparr>ID = ''j'', OriginalKey = [], ResultKey = [], Status = StatusPending,
    Transformation = \<lparr>Width = 1, Height = 0, Format = FormatPNG, Quality = 0, Watermark = False,
      StripMetadata = False\<rparr>, CreatedAt = 1, UpdatedAt = 1, Error = []\<rparr>"
  have "dyn_storable ?j" by (simp add: dyn_storable_def in_i64_def)
  moreover have "unmarshal_map sample_dynamo Map.empty = Inr (sample_unmarshal Map.empty)"
    by (simp add: sample_dynamo_def)
  ultimately obtain m' it' where "unmarshal_map sample_dynamo m' = Inr it'"
    "item_to_domain it' = updated_job StatusDone ''r'' None (i64 5) (item_to_domain (sample_unmarshal Map.empty))"
    using status_update_meaning [OF sample_codec, of ?j Map.empty _ _ 5 _ StatusDone "''r''" None] by metis
  moreover from this(2) have "Status (item_to_domain it') = StatusDone" "ResultKey (item_to_domain it') = ''r''"
    by simp_all
  moreover have "Status (item_to_domain it') = it_status it'" "ResultKey (item_to_domain it') = it_result_key it'"
    by (simp_all add: item_to_domain_def)
  ultimately show ?thesis by metis
qed

end
