(* ===== verification/Redelivery.thy ===== *)
theory Redelivery
  imports Aws_Backend Worker Memrepo
begin

text \<open>
  The worker's pool on AWS: \<open>ProcessJob\<close> over S3 and DynamoDB, and the SQS adapter, which
  \<open>worker.New\<close> finds to be an \<open>Acknowledger\<close>. The state is that of the services and, beside
  it, the queue's own, whose receipts a delivery adds to and settling takes from. What becomes of a
  message whose job failed is followed through later deliveries.
\<close>

section \<open>The services and the receipts\<close>

definition on_services :: "('w \<Rightarrow> 'a \<times> 'w) \<Rightarrow> 'w \<times> sqs_queue \<Rightarrow> 'a \<times> ('w \<times> sqs_queue)" where
  "on_services f s = (case s of (w, q) \<Rightarrow> (case f w of (x, w') \<Rightarrow> (x, (w', q))))"

definition beside_storage :: "'w storage_port \<Rightarrow> ('w \<times> sqs_queue) storage_port" where
  "beside_storage st =
     \<lparr>Put = \<lambda>c k d. on_services (Put st c k d), GetObject = \<lambda>c k. on_services (GetObject st c k),
      CloseObject = \<lambda>r s. (CloseObject st r (fst s), snd s)\<rparr>"

definition beside_repo :: "'w repo_port \<Rightarrow> ('w \<times> sqs_queue) repo_port" where
  "beside_repo rp =
     \<lparr>Save = \<lambda>c j. on_services (Save rp c j), GetJob = \<lambda>c i. on_services (GetJob rp c i),
      UpdateStatus = \<lambda>c i s rk pe. on_services (UpdateStatus rp c i s rk pe)\<rparr>"

definition beside_processor :: "'w processor_port \<Rightarrow> ('w \<times> sqs_queue) processor_port" where
  "beside_processor pp = \<lparr>Process = \<lambda>c r sp. on_services (Process pp c r sp)\<rparr>"

definition sqs_acker :: "'w sqs_api \<Rightarrow> ('w \<times> sqs_queue) acker_port" where
  "sqs_acker api =
     \<lparr>Ack = \<lambda>c i s. (case sqs_ack api (snd s) c i (fst s) of (e, q, w) \<Rightarrow> (e, (w, q))),
      Nack = \<lambda>c i s. (case sqs_nack api (snd s) c i (fst s) of (e, q, w) \<Rightarrow> (e, (w, q)))\<rparr>"

definition aws_process :: "'w aws \<Rightarrow> 'w processor_port \<Rightarrow> ('w \<times> sqs_queue) process_job" where
  "aws_process a pp =
     new_process_job (beside_storage (aws_storage_port a)) (beside_repo (aws_repo a)) (beside_processor pp)"

definition aws_pool :: "'w aws \<Rightarrow> 'w processor_port \<Rightarrow> pool_option list \<Rightarrow> ('w \<times> sqs_queue) pool" where
  "aws_pool a pp opts = new_pool (aws_process a pp) (Some (sqs_acker (aws_sqs a))) opts"

lemma new_pool_wiring [simp]:
  "p_process (new_pool process acker opts) = process" "p_acker (new_pool process acker opts) = acker"
  for process :: "'w process_job"
proof -
  have "p_process (foldl (\<lambda>p opt. apply_pool_option opt p) p opts) = p_process p \<and>
      p_acker (foldl (\<lambda>p opt. apply_pool_option opt p) p opts) = p_acker p" for p :: "'w pool"
  proof (induction opts arbitrary: p)
    case (Cons opt opts)
    then show ?case by (cases opt) simp_all
  qed simp
  then show "p_process (new_pool process acker opts) = process" "p_acker (new_pool process acker opts) = acker"
    by (simp_all add: new_pool_def)
qed

lemma aws_pool_wiring:
  "p_process (aws_pool a pp opts) = aws_process a pp"
  "p_acker (aws_pool a pp opts) = Some (sqs_acker (aws_sqs a))"
  by (simp_all add: aws_pool_def)

text \<open>The use case runs on the services as it would alone.\<close>

lemma aws_process_run:
  "process_job_execute (aws_process a pp) c i (w, q) =
     (case process_job_execute (new_process_job (aws_storage_port a) (aws_repo a) pp) c i w of
        (r, w') \<Rightarrow> (r, (w', q)))"
  by (simp add: process_job_execute_def transform_def fail_job_def aws_process_def new_process_job_def
      beside_storage_def beside_repo_def beside_processor_def on_services_def Let_def
      split: prod.split sum.split option.split)

section \<open>A job that is not pending\<close>

context backend begin

lemma settled_run:
  assumes "jobs w i = Some j" "Status j \<noteq> StatusPending"
    and run: "process_job_execute (new_process_job st rp pp) c k w = (r, w')"
    and id: "\<And>k j. jobs w k = Some j \<Longrightarrow> ID j = k"
  shows "jobs w' i = Some j \<and> (k = i \<longrightarrow> snd r \<noteq> None) \<and> (\<forall>k j. jobs w' k = Some j \<longrightarrow> ID j = k)"
proof (cases "k = i")
  case True
  obtain ld w1 where g: "GetJob rp c i w = (ld, w1)" by fastforce
  have "jobs w' = jobs w \<and> snd r \<noteq> None"
  proof (cases ld)
    case (Inl e)
    with g run True load_jobs [OF g] show ?thesis
      by (auto simp: process_job_execute_def new_process_job_def)
  next
    case (Inr j')
    with load_ok [of c i w j' w1] g assms(1) have "j' = j" by simp
    with process_skip [of c i w j w1] g Inr assms(2) run True show ?thesis by fastforce
  qed
  with assms(1) id show ?thesis by simp
next
  case False
  have "\<And>j. jobs w k = Some j \<Longrightarrow> ID j = k" using id .
  from process_jobs_progress [OF run this] False assms(1) id show ?thesis
    by (auto simp: jobs_progress_def job_progress_def split: if_splits)
qed

end

text \<open>Settling a message touches no item: it is deleted, or made visible again.\<close>

definition acks_ok :: "'w aws \<Rightarrow> 'w aws_view \<Rightarrow> bool" where
  "acks_ok a v \<longleftrightarrow>
     (\<forall>c u r w. v_items v (snd (DeleteMessage (aws_sqs a) c u r w)) = v_items v w) \<and>
     (\<forall>c u r n w. v_items v (snd (ChangeMessageVisibility (aws_sqs a) c u r n w)) = v_items v w)"

lemma settle_keeps_jobs:
  assumes "acks_ok a v"
  shows "aws_jobs a v (fst (settle (Some (sqs_acker (aws_sqs a))) limit c i kept (w, q))) = aws_jobs a v w"
proof -
  have "v_items v (fst (settle (Some (sqs_acker (aws_sqs a))) limit c i kept (w, q))) = v_items v w"
  proof (cases "take_receipt q i")
    case (Pair t q1)
    let ?sc = "with_deadline limit (without_cancel c)"
    show ?thesis
    proof (cases t)
      case None
      with Pair show ?thesis by (cases kept) (simp_all add: settle_def sqs_acker_def sqs_ack_def sqs_nack_def Let_def)
    next
      case (Some rc)
      obtain x w1 where d: "DeleteMessage (aws_sqs a) ?sc (queueURL q1) rc w = (x, w1)" by fastforce
      obtain y w2 where n: "ChangeMessageVisibility (aws_sqs a) ?sc (queueURL q1) rc 0 w = (y, w2)" by fastforce
      have "v_items v w1 = v_items v w" "v_items v w2 = v_items v w"
        using assms d n unfolding acks_ok_def by (metis snd_conv)+
      with Pair Some d n show ?thesis
        by (cases kept; cases x; cases y) (simp_all add: settle_def sqs_acker_def sqs_ack_def sqs_nack_def Let_def)
    qed
  qed
  then show ?thesis by (rule aws_jobs_same)
qed

section \<open>Deliveries, one after the other\<close>

text \<open>
  A message received once more: the delivery and the receipt it came with, and the context and
  time limits it is handled under.
\<close>

record redelivery =
  rd_delivery :: delivery
  rd_receipt :: string
  rd_ctx :: ctx
  rd_deadline :: nat
  rd_limit :: nat

definition handle_again ::
  "'w aws \<Rightarrow> 'w processor_port \<Rightarrow> pool_option list \<Rightarrow> ((string \<rightharpoonup> string) \<Rightarrow> ctx \<Rightarrow> ctx) \<Rightarrow> redelivery
   \<Rightarrow> stats \<Rightarrow> 'w \<times> sqs_queue \<Rightarrow> string \<times> stats \<times> ('w \<times> sqs_queue)" where
  "handle_again a pp opts propagate e st s =
     handle (aws_pool a pp opts) propagate (rd_deadline e) (rd_limit e) (rd_ctx e) (rd_delivery e) st
       (fst s, (snd s)\<lparr>receipts := (receipts (snd s))(JobID (rd_delivery e) \<mapsto> rd_receipt e)\<rparr>)"

fun work_off ::
  "'w aws \<Rightarrow> 'w processor_port \<Rightarrow> pool_option list \<Rightarrow> ((string \<rightharpoonup> string) \<Rightarrow> ctx \<Rightarrow> ctx) \<Rightarrow> redelivery list
   \<Rightarrow> stats \<Rightarrow> 'w \<times> sqs_queue \<Rightarrow> string list \<times> stats \<times> ('w \<times> sqs_queue)" where
  "work_off a pp opts propagate [] st s = ([], st, s)"
| "work_off a pp opts propagate (e # es) st s =
     (case handle_again a pp opts propagate e st s of
        (ob, st1, s1) \<Rightarrow>
          (case work_off a pp opts propagate es st1 s1 of (obs, st2, s2) \<Rightarrow> (ob # obs, st2, s2)))"

text \<open>The context a delivery is settled under: the job's, detached, with its own limit.\<close>

definition settle_ctx :: "'w aws \<Rightarrow> 'w processor_port \<Rightarrow> pool_option list \<Rightarrow>
    ((string \<rightharpoonup> string) \<Rightarrow> ctx \<Rightarrow> ctx) \<Rightarrow> nat \<Rightarrow> nat \<Rightarrow> ctx \<Rightarrow> delivery \<Rightarrow> ctx" where
  "settle_ctx a pp opts propagate deadline limit c d =
     with_deadline limit (without_cancel (job_ctx (aws_pool a pp opts) propagate deadline c d))"

text \<open>A delivery taken apart: the run, and what settling makes of it.\<close>

lemma aws_handle_split:
  assumes "handle (aws_pool a pp opts) propagate deadline limit c d st (w, q) = (ob, st', (w', q'))"
  obtains r w1 where
    "process_job_execute (new_process_job (aws_storage_port a) (aws_repo a) pp)
       (job_ctx (aws_pool a pp opts) propagate deadline c d) (JobID d) w = (r, w1)"
    "st' = fst (record_outcome (snd r) st)" "ob = outcome_of (snd r)"
    "(w', q') = settle (Some (sqs_acker (aws_sqs a))) limit
       (job_ctx (aws_pool a pp opts) propagate deadline c d) (JobID d) (ob \<noteq> OutcomeFailed) (w1, q)"
proof -
  let ?c = "job_ctx (aws_pool a pp opts) propagate deadline c d"
  obtain jo err w1 where run: "process_job_execute (new_process_job (aws_storage_port a) (aws_repo a) pp)
      ?c (JobID d) w = ((jo, err), w1)" by (metis prod.exhaust)
  obtain st1 ob1 k where o: "record_outcome err st = (st1, ob1, k)" by (metis prod.exhaust)
  have k: "k = (ob1 \<noteq> OutcomeFailed)" "ob1 = outcome_of err"
    using o by (auto simp: record_outcome_def outcome_of_def split: option.splits if_splits)
  from assms run o have "ob = ob1" "st' = st1"
    "(w', q') = settle (Some (sqs_acker (aws_sqs a))) limit ?c (JobID d) k (w1, q)"
    by (simp_all add: handle_def aws_pool_def aws_process_run Let_def)
  with run o k show ?thesis by (intro that [of "(jo, err)" w1]) simp_all
qed

lemma aws_handle_settled:
  assumes "aws_ok a v" "local_processor v pp" "acks_ok a v"
    and "handle (aws_pool a pp opts) propagate deadline limit c d st (w, q) = (ob, st', (w', q'))"
    and "aws_jobs a v w i = Some j" "Status j \<noteq> StatusPending" "\<And>k j. aws_jobs a v w k = Some j \<Longrightarrow> ID j = k"
  shows "aws_jobs a v w' i = Some j \<and> (JobID d = i \<longrightarrow> ob \<noteq> StatusProcessed) \<and>
    (\<forall>k j. aws_jobs a v w' k = Some j \<longrightarrow> ID j = k)"
proof -
  let ?c = "job_ctx (aws_pool a pp opts) propagate deadline c d"
  obtain r w1 where run: "process_job_execute (new_process_job (aws_storage_port a) (aws_repo a) pp) ?c (JobID d) w = (r, w1)"
    and ob: "ob = outcome_of (snd r)"
    and s: "(w', q') = settle (Some (sqs_acker (aws_sqs a))) limit ?c (JobID d) (ob \<noteq> OutcomeFailed) (w1, q)"
    using assms(4) by (rule aws_handle_split)
  from arg_cong [OF s, of fst] settle_keeps_jobs [OF assms(3), of limit ?c "JobID d" "ob \<noteq> OutcomeFailed" w1 q]
  have "aws_jobs a v w' = aws_jobs a v w1" by simp
  with backend.settled_run [OF aws_backend [OF assms(1,2)] assms(5,6) run assms(7)] ob show ?thesis
    by (auto simp: outcome_of_def split: if_splits)
qed

lemma work_off_settled:
  assumes "aws_ok a v" "local_processor v pp" "acks_ok a v"
    and "work_off a pp opts propagate es st (w, q) = (obs, st', (w', q'))"
    and "aws_jobs a v w i = Some j" "Status j \<noteq> StatusPending" "\<And>k j. aws_jobs a v w k = Some j \<Longrightarrow> ID j = k"
  shows "aws_jobs a v w' i = Some j \<and>
    list_all2 (\<lambda>e ob. JobID (rd_delivery e) = i \<longrightarrow> ob \<noteq> StatusProcessed) es obs"
  using assms(4,5,7)
proof (induction es arbitrary: st w q obs)
  case (Cons e es)
  obtain ob st1 w1 q1 where h: "handle_again a pp opts propagate e st (w, q) = (ob, st1, (w1, q1))"
    by (metis prod.exhaust)
  obtain obs1 st2 w2 q2 where r: "work_off a pp opts propagate es st1 (w1, q1) = (obs1, st2, (w2, q2))"
    by (metis prod.exhaust)
  from Cons.prems(1) h r have eq: "obs = ob # obs1" "st2 = st'" "w2 = w'" "q2 = q'" by simp_all
  from aws_handle_settled [OF assms(1-3) _ Cons.prems(2) assms(6) Cons.prems(3)] h
  have one: "aws_jobs a v w1 i = Some j" "JobID (rd_delivery e) = i \<longrightarrow> ob \<noteq> StatusProcessed"
    "\<And>k j. aws_jobs a v w1 k = Some j \<Longrightarrow> ID j = k"
    unfolding handle_again_def fst_conv snd_conv by blast+
  from Cons.IH [OF r [unfolded eq(2-4)] one(1,3)] one(2) show ?case by (simp add: eq(1))
qed simp

text \<open>How a held receipt is spent.\<close>

lemma settle_spends:
  assumes "receipts q i = Some rc"
  shows "settle (Some (sqs_acker api)) limit c i kept (w, q) =
    (snd (if kept then DeleteMessage api (with_deadline limit (without_cancel c)) (queueURL q) rc w
          else ChangeMessageVisibility api (with_deadline limit (without_cancel c)) (queueURL q) rc 0 w),
     q\<lparr>receipts := (receipts q)(i := None)\<rparr>)"
  using assms
  by (cases kept)
    (simp_all add: settle_def sqs_acker_def sqs_ack_def sqs_nack_def take_receipt_def Let_def split: prod.split option.split)

section \<open>Properties\<close>


definition failing_pp :: "cloud processor_port" where
  "failing_pp = \<lparr>Process = \<lambda>c r s w. (Inl ErrNoSource, w)\<rparr>"

text \<open>A job in the table whose original is not in the bucket.\<close>

definition lost_job :: job where
  "lost_job = created_job ''a1'' \<lparr>Width = 4, Height = 0, Format = FormatPNG, Quality = 0, Watermark = False,
     StripMetadata = True\<rparr> 5"

definition lost_cloud :: cloud where
  "lost_cloud = \<lparr>cl_objs = Map.empty, cl_items = [''a1'' \<mapsto> item_attrs (new_item lost_job)], cl_sent = []\<rparr>"

definition lost_queue :: sqs_queue where
  "lost_queue = (default_queue ''https://q'')\<lparr>receipts := [''a1'' \<mapsto> ''r1'']\<rparr>"

lemma lost_run:
  "case process_job_execute (new_process_job (aws_storage_port sample_aws) (aws_repo sample_aws) failing_pp)
      (with_deadline 40 Background) ''a1'' lost_cloud of
     ((jo, err), w') \<Rightarrow> outcome_of err = OutcomeFailed \<and>
       map_option Status (aws_jobs sample_aws sample_view w' ''a1'') = Some StatusFailed \<and>
       (case fst (GetJob (aws_repo sample_aws) Background ''a1'' w') of Inr k \<Rightarrow> True | Inl e \<Rightarrow> False)"
  by code_simp

lemma sample_load_any: "GetJob (aws_repo sample_aws) c i w = GetJob (aws_repo sample_aws) Background i w"
  by (simp add: aws_repo_def dyn_port_def dyn_get_def sample_aws_def sample_dynamo_def)


end
