(* ===== verification/Http_Base.thy ===== *)
theory Http_Base
  imports Go_Base
begin

text \<open>
  Requests and responses of \<open>internal/adapters/httpapi\<close>, as far as its handlers look at them,
  and the RFC 7807 problems of \<open>problem.go\<close>. A response is a status, the headers set, and a
  body, kept as the value that is encoded rather than its JSON text.
\<close>

record request =
  rq_method :: string
  rq_path :: string
  rq_authorization :: string
  rq_id :: string
  rq_trace :: string

record problem =
  p_type :: string
  p_title :: string
  p_status :: int
  p_detail :: string
  p_instance :: string
  p_request_id :: string
  p_trace_id :: string
  p_retry_after :: int

datatype 'b body = ProblemBody problem | JsonBody 'b

record 'b response =
  rs_status :: int
  rs_headers :: "(string \<times> string) list"
  rs_body :: "'b body"

definition ProblemContentType :: string where "ProblemContentType = ''application/problem+json''"

definition ProblemBaseURI :: string where "ProblemBaseURI = ''https://imageforge.dev/problems/''"

definition TypeUnauthorized :: string where "TypeUnauthorized = ProblemBaseURI @ ''unauthorized''"
definition TypeRateLimited :: string where "TypeRateLimited = ProblemBaseURI @ ''rate-limited''"
definition TypeInvalidMultipart :: string where
  "TypeInvalidMultipart = ProblemBaseURI @ ''invalid-multipart''"
definition TypeInvalidSpec :: string where "TypeInvalidSpec = ProblemBaseURI @ ''invalid-spec''"
definition TypeUnsupportedMedia :: string where
  "TypeUnsupportedMedia = ProblemBaseURI @ ''unsupported-media-type''"
definition TypePayloadTooLarge :: string where
  "TypePayloadTooLarge = ProblemBaseURI @ ''payload-too-large''"
definition TypeNotFound :: string where "TypeNotFound = ProblemBaseURI @ ''not-found''"
definition TypeMethodNotAllowed :: string where
  "TypeMethodNotAllowed = ProblemBaseURI @ ''method-not-allowed''"
definition TypeInvalidCredential :: string where
  "TypeInvalidCredential = ProblemBaseURI @ ''invalid-credentials''"
definition TypeMissingFile :: string where "TypeMissingFile = ProblemBaseURI @ ''missing-file''"
definition TypeInvalidTransform :: string where
  "TypeInvalidTransform = ProblemBaseURI @ ''invalid-transformation''"
definition TypeJobNotFound :: string where "TypeJobNotFound = ProblemBaseURI @ ''job-not-found''"
definition TypeNotReady :: string where "TypeNotReady = ProblemBaseURI @ ''not-ready''"
definition TypeInternal :: string where "TypeInternal = ProblemBaseURI @ ''internal-error''"

text \<open>
  \<open>writeProblemWith\<close>: the path and the identifiers of the request are filled in; headers set
  before by the handler are kept. A problem always encodes, so the fallback is dead code.
\<close>

definition write_problem_with ::
  "request \<Rightarrow> (string \<times> string) list \<Rightarrow> problem \<Rightarrow> 'b response" where
  "write_problem_with r hs p =
     (let p = p\<lparr>p_instance := rq_path r\<rparr>;
          p = (if p_request_id p = [] then p\<lparr>p_request_id := rq_id r\<rparr> else p);
          p = (if p_trace_id p = [] then p\<lparr>p_trace_id := rq_trace r\<rparr> else p)
      in \<lparr>rs_status = p_status p, rs_headers = hs @ [(''Content-Type'', ProblemContentType)],
          rs_body = ProblemBody p\<rparr>)"

definition write_problem ::
  "request \<Rightarrow> (string \<times> string) list \<Rightarrow> int \<Rightarrow> string \<Rightarrow> string \<Rightarrow> string \<Rightarrow> 'b response" where
  "write_problem r hs status problemType title detail =
     write_problem_with r hs
       \<lparr>p_type = problemType, p_title = title, p_status = status, p_detail = detail,
        p_instance = [], p_request_id = [], p_trace_id = [], p_retry_after = 0\<rparr>"

definition write_json :: "request \<Rightarrow> (string \<times> string) list \<Rightarrow> int \<Rightarrow> 'b \<Rightarrow> 'b response" where
  "write_json r hs status v =
     \<lparr>rs_status = status, rs_headers = hs @ [(''Content-Type'', ''application/json; charset=utf-8'')],
      rs_body = JsonBody v\<rparr>"

lemma write_problem_simps [simp]:
  "rs_status (write_problem r hs st t ti d) = st"
  "rs_headers (write_problem r hs st t ti d) = hs @ [(''Content-Type'', ProblemContentType)]"
  "rs_status (write_problem_with r hs p) = p_status p"
  "rs_headers (write_problem_with r hs p) = hs @ [(''Content-Type'', ProblemContentType)]"
  "rs_status (write_json r hs st v) = st"
  "rs_body (write_json r hs st v) = JsonBody v"
  "rs_headers (write_json r hs st v) = hs @ [(''Content-Type'', ''application/json; charset=utf-8'')]"
  by (simp_all add: write_problem_def write_problem_with_def write_json_def Let_def)

end
