(* ===== verification/Auth.thy ===== *)
theory Auth
  imports Http_Base Usecase
begin

text \<open>
  \<open>internal/adapters/httpapi/auth.go\<close>: minting and verifying bearer tokens, and the middleware
  that requires one. The JWT library is a parameter; \<open>jwt_ok\<close> is what is relied on of it.
  Times are nanoseconds; a numeric date is whole seconds.
\<close>

section \<open>Tokens\<close>

definition Issuer :: string where "Issuer = ''imageforge''"
definition signingMethod :: string where "signingMethod = ''HS256''"
definition DefaultTokenTTL :: int where "DefaultTokenTTL = 3600 * 10 ^ 9"
definition clockSkew :: int where "clockSkew = 30 * 10 ^ 9"

definition ErrNoCredentials :: goerr where
  "ErrNoCredentials = ENew ''httpapi.ErrNoCredentials'' ''no bearer token''"
definition ErrInvalidToken :: goerr where
  "ErrInvalidToken = ENew ''httpapi.ErrInvalidToken'' ''invalid token''"
definition ErrNoSigningKey :: goerr where
  "ErrNoSigningKey = ENew ''httpapi.ErrNoSigningKey'' ''no signing key configured''"

lemmas auth_errs [go_errors] = ErrNoCredentials_def ErrInvalidToken_def ErrNoSigningKey_def

record claims =
  c_issuer :: string
  c_subject :: string
  c_issued_at :: "int option"
  c_not_before :: "int option"
  c_expires_at :: "int option"

record parse_options =
  po_methods :: "string list"
  po_issuer :: string
  po_exp_required :: bool
  po_leeway :: int
  po_now :: int

record jwt_lib =
  jwt_sign :: "string \<Rightarrow> claims \<Rightarrow> string \<Rightarrow> string res"
  jwt_parse :: "parse_options \<Rightarrow> string \<Rightarrow> string \<Rightarrow> claims res"

record token_issuer =
  ti_key :: string
  ti_ttl :: int
  ti_secret :: string

datatype issuer_option = WithTokenTTL int | WithClientSecret string

fun apply_issuer_option :: "issuer_option \<Rightarrow> token_issuer \<Rightarrow> token_issuer" where
  "apply_issuer_option (WithTokenTTL d) i = (if d > 0 then i\<lparr>ti_ttl := d\<rparr> else i)"
| "apply_issuer_option (WithClientSecret secret) i = i\<lparr>ti_secret := secret\<rparr>"

definition new_issuer :: "string \<Rightarrow> issuer_option list \<Rightarrow> token_issuer res" where
  "new_issuer key opts =
     (if length key < 32 then
        Inl (EWrap [] ErrNoSigningKey
              ('': the signing key must be at least 32 bytes, got '' @ itoa (int (length key))))
      else Inr (foldl (\<lambda>i opt. apply_issuer_option opt i)
             \<lparr>ti_key = key, ti_ttl = DefaultTokenTTL, ti_secret = []\<rparr> opts))"

text \<open>\<open>hex.DecodeString\<close>: a bad digit is reported before an odd length.\<close>

definition hex_value :: "char \<Rightarrow> nat option" where
  "hex_value c =
     (let n = of_char c in
      if 48 \<le> n \<and> n \<le> 57 then Some (n - 48)
      else if 97 \<le> n \<and> n \<le> 102 then Some (n - 87)
      else if 65 \<le> n \<and> n \<le> 70 then Some (n - 55)
      else None)"

text \<open>
  \<open>InvalidByteError\<close>, whose text is \<open>%#U\<close> of the byte: the code point, and the character itself
  when it is printable. A byte from 128 on is the code point of that number, two bytes in UTF-8.
\<close>

definition upper_hex :: "nat \<Rightarrow> char" where
  "upper_hex d = char_of (if d < 10 then 48 + d else 55 + d)"

definition invalid_byte :: "char \<Rightarrow> goerr" where
  "invalid_byte c =
     (let n = of_char c; shown = printed_byte n
      in EText (''encoding/hex: invalid byte: U+00'' @ [upper_hex (n div 16), upper_hex (n mod 16)] @
           (if shown = [] then [] else '' '' @ [CHR 0x27] @ shown @ [CHR 0x27])))"

fun hex_decode :: "string \<Rightarrow> string res" where
  "hex_decode [] = Inr []"
| "hex_decode [c] =
     (case hex_value c of
        None \<Rightarrow> Inl (invalid_byte c)
      | Some _ \<Rightarrow> Inl (EText ''encoding/hex: odd length hex string''))"
| "hex_decode (a # b # cs) =
     (case hex_value a of
        None \<Rightarrow> Inl (invalid_byte a)
      | Some x \<Rightarrow>
     (case hex_value b of
        None \<Rightarrow> Inl (invalid_byte b)
      | Some y \<Rightarrow>
     (case hex_decode cs of
        Inl e \<Rightarrow> Inl e
      | Inr bs \<Rightarrow> Inr (char_of (16 * x + y) # bs))))"

definition parse_key :: "string \<Rightarrow> string res" where
  "parse_key encoded =
     (case hex_decode (trim_space encoded) of
        Inl e \<Rightarrow> Inl (EWrap2 [] ErrNoSigningKey '': the key must be hex-encoded: '' e [])
      | Inr key \<Rightarrow> Inr key)"

definition numeric_date :: "int \<Rightarrow> int" where
  "numeric_date t = t div 10 ^ 9 * 10 ^ 9"

definition issue_token :: "jwt_lib \<Rightarrow> token_issuer \<Rightarrow> int \<Rightarrow> string \<Rightarrow> string res" where
  "issue_token lib i now clientID =
     (if trim_space clientID = [] then
        Inl (EText ''httpapi: cannot issue a token for an empty client id'')
      else
       (case jwt_sign lib signingMethod
          \<lparr>c_issuer = Issuer, c_subject = clientID, c_issued_at = Some (numeric_date now),
           c_not_before = Some (numeric_date now),
           c_expires_at = Some (numeric_date (now + ti_ttl i))\<rparr> (ti_key i) of
          Inl e \<Rightarrow> Inl (EWrap ''httpapi: sign token: '' e [])
        | Inr signed \<Rightarrow> Inr signed))"

definition authorize :: "token_issuer \<Rightarrow> string \<Rightarrow> string \<Rightarrow> bool" where
  "authorize i clientID secret =
     (if trim_space clientID = [] then False
      else if ti_secret i = [] then True
      else secret = ti_secret i)"

definition verify_token :: "jwt_lib \<Rightarrow> token_issuer \<Rightarrow> int \<Rightarrow> string \<Rightarrow> string res" where
  "verify_token lib i now signed =
     (case jwt_parse lib
        \<lparr>po_methods = [signingMethod], po_issuer = Issuer, po_exp_required = True,
         po_leeway = clockSkew, po_now = now\<rparr> (ti_key i) signed of
        Inl e \<Rightarrow> Inl (EWrap2 [] ErrInvalidToken '': '' e [])
      | Inr cl \<Rightarrow>
          if trim_space (c_subject cl) = [] then
            Inl (EWrap [] ErrInvalidToken '': the token names no subject'')
          else Inr (c_subject cl))"

section \<open>Requests\<close>

text \<open>
  \<open>strings.EqualFold\<close> with \<open>Bearer\<close>: no letter of it folds to a rune outside ASCII.
\<close>

definition bearer_token :: "request \<Rightarrow> string res" where
  "bearer_token r =
     (if rq_authorization r = [] then Inl ErrNoCredentials
      else (case cut_at CHR '' '' (rq_authorization r) of (scheme, token, found) \<Rightarrow>
        if \<not> found \<or> to_lower scheme \<noteq> ''bearer'' then
          Inl (EWrap [] ErrInvalidToken '': the Authorization header must use the Bearer scheme'')
        else (let token = trim_space token in
          if token = [] then Inl ErrNoCredentials else Inr token)))"

text \<open>
  The middleware: the rest of the chain goes on with the client, or a 401 is written. What
  \<open>next_handler\<close> and \<open>respond\<close> come to, and the state they pass on, is the caller's choice.
\<close>

definition unauthorized :: "request \<Rightarrow> goerr \<Rightarrow> 'b response" where
  "unauthorized r e =
     write_problem r [(''WWW-Authenticate'', ''Bearer realm='' @ quote ''imageforge'')] 401
       TypeUnauthorized ''Unauthorized''
       (if \<not> errors_is e ErrNoCredentials
        then ''The bearer token is missing, malformed or no longer valid.''
        else ''This endpoint requires a bearer token. Get one from POST /auth/token.'')"

definition require_auth ::
  "jwt_lib \<Rightarrow> token_issuer \<Rightarrow> int \<Rightarrow> request \<Rightarrow> (string \<Rightarrow> 'x) \<Rightarrow> ('b response \<Rightarrow> 'x) \<Rightarrow> 'x" where
  "require_auth lib i now r next_handler respond =
     (case (case bearer_token r of Inl e \<Rightarrow> Inl e | Inr signed \<Rightarrow> verify_token lib i now signed) of
        Inr clientID \<Rightarrow> next_handler clientID
      | Inl e \<Rightarrow> respond (unauthorized r e))"

section \<open>What is relied on\<close>

text \<open>
  Claims pass when the issuer is the one required, an expiry is there and not past, and the
  start is not in the future, both up to the leeway. \<open>sg alg key cl s\<close> says that \<open>s\<close> is a token
  carrying the claims \<open>cl\<close>, signed with \<open>key\<close> under \<open>alg\<close>; a token carries one set of claims and
  one algorithm. Signing makes such tokens, of printable characters without a space, of
  claims that JSON keeps as they are, and parsing accepts precisely the tokens signed with its key, by a method allowed, whose claims pass.
\<close>

type_synonym signed_rel = "string \<Rightarrow> string \<Rightarrow> claims \<Rightarrow> string \<Rightarrow> bool"

definition claims_pass :: "parse_options \<Rightarrow> claims \<Rightarrow> bool" where
  "claims_pass po cl \<longleftrightarrow>
     c_issuer cl = po_issuer po \<and>
     (case c_expires_at cl of None \<Rightarrow> \<not> po_exp_required po | Some e \<Rightarrow> po_now po < e + po_leeway po) \<and>
     (case c_not_before cl of None \<Rightarrow> True | Some n \<Rightarrow> n - po_leeway po \<le> po_now po)"

definition claims_plain :: "claims \<Rightarrow> bool" where
  "claims_plain cl \<longleftrightarrow>
     ascii (c_issuer cl) \<and> ascii (c_subject cl) \<and>
     (\<forall>t. c_issued_at cl = Some t \<or> c_not_before cl = Some t \<or> c_expires_at cl = Some t \<longrightarrow>
        numeric_date t = t)"

text \<open>
  With no issuer or no methods given, the library checks none; the code gives both, and only then
  is anything relied on.
\<close>

definition jwt_ok :: "jwt_lib \<Rightarrow> signed_rel \<Rightarrow> bool" where
  "jwt_ok lib sg \<longleftrightarrow>
     (\<forall>alg cl key s. claims_plain cl \<longrightarrow> jwt_sign lib alg cl key = Inr s \<longrightarrow>
        sg alg key cl s \<and> s \<noteq> [] \<and> list_all plain_char s) \<and>
     (\<forall>alg alg' key cl cl' s. sg alg key cl s \<longrightarrow> sg alg' key cl' s \<longrightarrow> alg = alg' \<and> cl = cl') \<and>
     (\<forall>po key s cl. po_issuer po \<noteq> [] \<longrightarrow> po_methods po \<noteq> [] \<longrightarrow>
        (jwt_parse lib po key s = Inr cl \<longleftrightarrow>
         claims_pass po cl \<and> (\<exists>alg \<in> set (po_methods po). sg alg key cl s)))"

lemma jwt_parse_iff:
  "jwt_ok lib sg \<Longrightarrow> po_issuer po \<noteq> [] \<Longrightarrow> po_methods po \<noteq> [] \<Longrightarrow> jwt_parse lib po key s = Inr cl \<longleftrightarrow>
     claims_pass po cl \<and> (\<exists>alg \<in> set (po_methods po). sg alg key cl s)"
  unfolding jwt_ok_def by blast

lemma jwt_signs:
  "jwt_ok lib sg \<Longrightarrow> claims_plain cl \<Longrightarrow> jwt_sign lib alg cl key = Inr s \<Longrightarrow>
     sg alg key cl s \<and> s \<noteq> [] \<and> list_all plain_char s"
  unfolding jwt_ok_def by blast

lemma jwt_unique:
  "jwt_ok lib sg \<Longrightarrow> sg alg key cl s \<Longrightarrow> sg alg' key cl' s \<Longrightarrow> cl' = cl"
  unfolding jwt_ok_def by blast

lemma numeric_date_bounds: "t - 10 ^ 9 < numeric_date t" "numeric_date t \<le> t"
proof -
  have "t - 1000000000 < t div 1000000000 * 1000000000" "t div 1000000000 * 1000000000 \<le> t"
    by presburger+
  then show "t - 10 ^ 9 < numeric_date t" "numeric_date t \<le> t" by (simp_all add: numeric_date_def)
qed

lemma numeric_date_idem: "numeric_date (numeric_date t) = numeric_date t"
  by (simp add: numeric_date_def)

section \<open>Hexadecimal keys\<close>

lemma hex_value_digit: "d < 16 \<Longrightarrow> hex_value (hex_digit d) = Some d"
  by (simp add: hex_value_def hex_digit_def)

lemma hex_decode_encode: "hex_decode (hex_encode bs) = Inr bs"
proof (induction bs)
  case Nil
  then show ?case by (simp add: hex_encode_def)
next
  case (Cons c cs)
  have n: "(of_char c :: nat) div 16 < 16" "(of_char c :: nat) mod 16 < 16"
    using nat_of_char_less_256 [of c] by (simp_all add: less_mult_imp_div_less)
  have "hex_encode (c # cs) = hex_digit (of_char c div 16) # hex_digit (of_char c mod 16) # hex_encode cs"
    by (simp add: hex_encode_def)
  moreover have "char_of (16 * ((of_char c :: nat) div 16) + of_char c mod 16) = c" by simp
  ultimately show ?case using Cons by (simp add: hex_value_digit [OF n(1)] hex_value_digit [OF n(2)])
qed

lemma hex_encode_trim: "trim_space (hex_encode bs) = hex_encode bs"
proof (cases "hex_encode bs = []")
  case False
  have plain: "plain_char c" if "c \<in> set (hex_encode bs)" for c
  proof -
    have "\<forall>c \<in> set ''0123456789abcdef''. plain_char c" by (simp add: plain_char_def)
    with that hex_encode_chars [of bs] show ?thesis by blast
  qed
  from False show ?thesis
    by (intro trim_space_plain [OF plain plain hd_Cons_tl [symmetric] append_butlast_last_id [symmetric]]) simp_all
qed simp

section \<open>Properties\<close>

definition issued_claims :: "token_issuer \<Rightarrow> int \<Rightarrow> string \<Rightarrow> claims" where
  "issued_claims i now client =
     \<lparr>c_issuer = Issuer, c_subject = client, c_issued_at = Some (numeric_date now),
      c_not_before = Some (numeric_date now), c_expires_at = Some (numeric_date (now + ti_ttl i))\<rparr>"

definition verify_options :: "int \<Rightarrow> parse_options" where
  "verify_options now =
     \<lparr>po_methods = [signingMethod], po_issuer = Issuer, po_exp_required = True,
      po_leeway = clockSkew, po_now = now\<rparr>"

lemma issue_signs:
  assumes ok: "jwt_ok lib sg" and issue: "issue_token lib i now client = Inr s" and a: "ascii client"
  shows "sg signingMethod (ti_key i) (issued_claims i now client) s" "trim_space client \<noteq> []"
    "s \<noteq> []" "list_all plain_char s"
proof -
  from issue show nonempty: "trim_space client \<noteq> []" by (auto simp: issue_token_def)
  with issue have "jwt_sign lib signingMethod (issued_claims i now client) (ti_key i) = Inr s"
    by (simp add: issue_token_def issued_claims_def split: sum.splits)
  moreover have "claims_plain (issued_claims i now client)"
    using a by (auto simp: claims_plain_def issued_claims_def numeric_date_idem ascii_def Issuer_def)
  ultimately show "sg signingMethod (ti_key i) (issued_claims i now client) s" "s \<noteq> []"
    "list_all plain_char s"
    using jwt_signs [OF ok] by blast+
qed

lemma verify_options_given: "po_issuer (verify_options now) \<noteq> []" "po_methods (verify_options now) \<noteq> []"
  by (simp_all add: verify_options_def Issuer_def)

lemma verify_token_iff:
  assumes ok: "jwt_ok lib sg"
  shows "verify_token lib i now s = Inr client \<longleftrightarrow>
     (\<exists>cl. sg signingMethod (ti_key i) cl s \<and> claims_pass (verify_options now) cl \<and>
        c_subject cl = client \<and> trim_space client \<noteq> [])"
proof (cases "jwt_parse lib (verify_options now) (ti_key i) s")
  case (Inl e)
  with jwt_parse_iff [OF ok verify_options_given, of now "ti_key i" s] show ?thesis
    by (fastforce simp: verify_token_def verify_options_def)
next
  case (Inr cl)
  with jwt_parse_iff [OF ok verify_options_given, of now "ti_key i" s cl]
  have cl: "claims_pass (verify_options now) cl" "sg signingMethod (ti_key i) cl s"
    by (simp_all add: verify_options_def)
  from Inr have "verify_token lib i now s = Inr client \<longleftrightarrow>
      c_subject cl = client \<and> trim_space client \<noteq> []"
    by (auto simp: verify_token_def verify_options_def)
  with cl jwt_unique [OF ok cl(2)] show ?thesis by blast
qed

lemma verify_token_error:
  "verify_token lib i now s = Inl e \<Longrightarrow> errors_is e ErrInvalidToken"
  by (auto simp: verify_token_def go_errors split: sum.splits if_splits)

lemma issued_token_verifies:
  assumes "jwt_ok lib sg" and "ascii client"
    and "issue_token lib i issued client = Inr s"
    and "ti_key j = ti_key i"
  shows "verify_token lib j now s = Inr c \<longleftrightarrow>
    c = client \<and> numeric_date issued - clockSkew \<le> now \<and>
    now < numeric_date (issued + ti_ttl i) + clockSkew"
proof -
  note signed = issue_signs [OF assms(1,3,2)]
  have pass: "claims_pass (verify_options now) (issued_claims i issued client) \<longleftrightarrow>
      numeric_date issued - clockSkew \<le> now \<and> now < numeric_date (issued + ti_ttl i) + clockSkew"
    by (auto simp: claims_pass_def verify_options_def issued_claims_def)
  have sub: "c_subject (issued_claims i issued client) = client" by (simp add: issued_claims_def)
  have "cl = issued_claims i issued client" if "sg signingMethod (ti_key i) cl s" for cl
    using jwt_unique [OF assms(1) signed(1) that] .
  with signed sub pass show ?thesis unfolding verify_token_iff [OF assms(1)] assms(4) by blast
qed

text \<open>The header a client sends its token in.\<close>

lemma trim_space_token: "s \<noteq> [] \<Longrightarrow> list_all plain_char s \<Longrightarrow> trim_space s = s"
  by (rule trim_space_plain [of "hd s" "last s" s "tl s" "butlast s"])
     (auto simp: list_all_iff)

lemma bearer_token_of:
  assumes "rq_authorization r = ''Bearer '' @ s" "s \<noteq> []" "list_all plain_char s"
  shows "bearer_token r = Inr s"
proof -
  have "cut_at CHR '' '' (rq_authorization r) = (''Bearer'', s, True)"
    using assms(1) by simp
  moreover have "to_lower ''Bearer'' = ''bearer''" by code_simp
  ultimately show ?thesis
    using assms trim_space_token [OF assms(2,3)] by (simp add: bearer_token_def)
qed

lemma require_auth_issued:
  assumes "jwt_ok lib sg" "ascii client" "issue_token lib i issued client = Inr s" "ti_key j = ti_key i"
    and "rq_authorization r = ''Bearer '' @ s"
    and "numeric_date issued - clockSkew \<le> now" "now < numeric_date (issued + ti_ttl i) + clockSkew"
  shows "require_auth lib j now r next_handler respond = next_handler client"
proof -
  note signed = issue_signs [OF assms(1,3,2)]
  have "verify_token lib j now s = Inr client"
    using issued_token_verifies [OF assms(1-4), of now client] assms(6,7) by simp
  with bearer_token_of [OF assms(5) signed(3,4)] show ?thesis by (simp add: require_auth_def)
qed

text \<open>
  C29: a token that was issued is honoured for exactly its lifetime. Verified by an issuer with
  the same key at any later (or earlier) time, it gives back the client it was issued to from
  the second it was issued in until the second it expires in, with thirty seconds of leeway at
  either end; at every other time the verification fails, with an error that is
  \<open>ErrInvalidToken\<close>.
\<close>

theorem token_lifetime:
  assumes "jwt_ok lib sg" and "ascii client"
    and "issue_token lib i issued client = Inr s"
    and "ti_key j = ti_key i"
  shows "if numeric_date issued - clockSkew \<le> now \<and>
            now < numeric_date (issued + ti_ttl i) + clockSkew
         then verify_token lib j now s = Inr client
         else (case verify_token lib j now s of
                 Inl e \<Rightarrow> errors_is e ErrInvalidToken | Inr _ \<Rightarrow> False)"
proof (cases "verify_token lib j now s")
  case (Inl e)
  with issued_token_verifies [OF assms, of now client] verify_token_error [OF Inl] show ?thesis by simp
next
  case (Inr c)
  with issued_token_verifies [OF assms, of now c] show ?thesis by simp
qed

lemma unauthorized_spec:
  "rs_status (unauthorized r e) = 401"
  "(''WWW-Authenticate'', ''Bearer realm='' @ quote ''imageforge'') \<in> set (rs_headers (unauthorized r e))"
  "\<exists>p. rs_body (unauthorized r e) = ProblemBody p \<and> p_type p = TypeUnauthorized"
  by (simp_all add: unauthorized_def write_problem_def write_problem_with_def Let_def)

text \<open>
  C30: nothing behind the middleware is reached without a good token. A request is passed on
  only with an \<open>Authorization\<close> header of the Bearer scheme whose token was signed by this key
  with the pinned algorithm, whose issuer is this service, which has not expired and has begun
  (up to the leeway); and it is passed on as the token's own subject, which is not blank. Every
  other request is answered 401, with \<open>WWW-Authenticate\<close> and a problem of the unauthorized type.
\<close>

theorem require_auth_gate:
  assumes "jwt_ok lib sg"
  shows "(\<exists>signed cl. bearer_token r = Inr signed \<and> sg signingMethod (ti_key i) cl signed \<and>
            c_issuer cl = Issuer \<and> trim_space (c_subject cl) \<noteq> [] \<and>
            (case c_expires_at cl of None \<Rightarrow> False | Some e \<Rightarrow> now < e + clockSkew) \<and>
            (case c_not_before cl of None \<Rightarrow> True | Some n \<Rightarrow> n - clockSkew \<le> now) \<and>
            require_auth lib i now r next_handler respond = next_handler (c_subject cl)) \<or>
         (\<exists>resp p. require_auth lib i now r next_handler respond = respond resp \<and>
            rs_status resp = 401 \<and>
            (''WWW-Authenticate'', ''Bearer realm='' @ quote ''imageforge'') \<in> set (rs_headers resp) \<and>
            rs_body resp = ProblemBody p \<and> p_type p = TypeUnauthorized)"
proof -
  define outcome where "outcome =
    (case bearer_token r of Inl e \<Rightarrow> Inl e | Inr signed \<Rightarrow> verify_token lib i now signed)"
  show ?thesis
  proof (cases outcome)
    case (Inl e)
    then have "require_auth lib i now r next_handler respond = respond (unauthorized r e)"
      by (simp add: require_auth_def outcome_def [symmetric])
    with unauthorized_spec show ?thesis by blast
  next
    case (Inr client)
    then obtain signed where b: "bearer_token r = Inr signed"
      and "verify_token lib i now signed = Inr client"
      by (auto simp: outcome_def split: sum.splits)
    from this(2) obtain cl where cl: "sg signingMethod (ti_key i) cl signed"
      "claims_pass (verify_options now) cl" "c_subject cl = client" "trim_space client \<noteq> []"
      unfolding verify_token_iff [OF assms] by blast
    from Inr have "require_auth lib i now r next_handler respond = next_handler client"
      by (simp add: require_auth_def outcome_def [symmetric])
    with b cl show ?thesis
      by (intro disjI1 exI [of _ signed] exI [of _ cl])
         (simp add: claims_pass_def verify_options_def split: option.splits)
  qed
qed

section \<open>A library of tokens\<close>

text \<open>A library that can name one token, to apply the properties to.\<close>

definition sample_issuer :: token_issuer where
  "sample_issuer = \<lparr>ti_key = replicate 32 CHR ''k'', ti_ttl = DefaultTokenTTL, ti_secret = []\<rparr>"

definition sample_claims :: claims where
  "sample_claims = issued_claims sample_issuer 0 ''ann''"

definition sample_sg :: signed_rel where
  "sample_sg alg key cl s \<longleftrightarrow>
     alg = signingMethod \<and> key = ti_key sample_issuer \<and> cl = sample_claims \<and> s = ''t''"

definition sample_jwt :: jwt_lib where
  "sample_jwt =
     \<lparr>jwt_sign = (\<lambda>alg cl key.
        if alg = signingMethod \<and> key = ti_key sample_issuer \<and> cl = sample_claims then Inr ''t''
        else Inl (EText ''unsupported'')),
      jwt_parse = (\<lambda>po key s.
        if s = ''t'' \<and> key = ti_key sample_issuer \<and> signingMethod \<in> set (po_methods po) \<and>
           claims_pass po sample_claims then Inr sample_claims
        else Inl (EText ''token is unverifiable''))\<rparr>"

lemma sample_jwt_ok: "jwt_ok sample_jwt sample_sg"
  by (auto simp: jwt_ok_def sample_jwt_def sample_sg_def plain_char_def split: if_splits)

lemma sample_subject: "trim_space ''ann'' = ''ann''"
  by (rule trim_space_plain [of "CHR ''a''" "CHR ''n''" _ "''nn''" "''an''"])
     (simp_all add: plain_char_def)

lemma sample_issue: "issue_token sample_jwt sample_issuer 0 ''ann'' = Inr ''t''"
  by (simp add: issue_token_def sample_jwt_def sample_claims_def issued_claims_def sample_subject)

theorem token_lifetime_witness: "verify_token sample_jwt sample_issuer (5 * 10 ^ 9) ''t'' = Inr ''ann''"
  using token_lifetime [OF sample_jwt_ok _ sample_issue refl, of "5 * 10 ^ 9"]
  by (simp add: ascii_def numeric_date_def clockSkew_def sample_issuer_def DefaultTokenTTL_def)

definition sample_request :: request where
  "sample_request = \<lparr>rq_method = ''GET'', rq_path = ''/jobs'', rq_authorization = [], rq_id = ''r'', rq_trace = []\<rparr>"

theorem require_auth_gate_witness:
  "\<exists>resp. require_auth sample_jwt sample_issuer 0 sample_request Inl Inr = Inr resp \<and>
     rs_status (resp :: string response) = 401"
  using require_auth_gate [OF sample_jwt_ok, of sample_request sample_issuer 0
      "Inl :: string \<Rightarrow> string + string response" Inr]
  by (auto simp: bearer_token_def sample_request_def)

end
