(* ===== verification/Environ.thy ===== *)
theory Environ
  imports Strconv Backoff
begin

text \<open>
  What a process reads its settings from: the environment as \<open>os.LookupEnv\<close> answers, and the
  two textual forms beside numbers and flags, \<open>time.ParseDuration\<close> and \<open>slog.Level\<close>.
\<close>

type_synonym environ = "string \<rightharpoonup> string"

section \<open>time.ParseDuration\<close>

text \<open>\<open>leadingInt\<close>: the digits in front, \<open>None\<close> past 2^63.\<close>

fun leading_int :: "nat \<Rightarrow> string \<Rightarrow> nat option" where
  "leading_int x [] = Some x"
| "leading_int x (c # cs) =
     (if \<not> is_digit c then Some x
      else if x > 2 ^ 63 div 10 then None
      else let y = x * 10 + (of_char c - 48) in if y > 2 ^ 63 then None else leading_int y cs)"

text \<open>\<open>leadingFraction\<close>: digits that no longer fit are skipped. The scale is an exact power of ten.\<close>

fun leading_fraction :: "bool \<Rightarrow> nat \<Rightarrow> nat \<Rightarrow> string \<Rightarrow> nat \<times> nat" where
  "leading_fraction overflow x scale [] = (x, scale)"
| "leading_fraction overflow x scale (c # cs) =
     (if \<not> is_digit c then (x, scale)
      else if overflow then leading_fraction overflow x scale cs
      else if x > (2 ^ 63 - 1) div 10 then leading_fraction True x scale cs
      else let y = x * 10 + (of_char c - 48) in
        if y > 2 ^ 63 then leading_fraction True x scale cs else leading_fraction False y (scale * 10) cs)"

definition unit_map :: "(string \<times> nat) list" where
  "unit_map =
     [(''ns'', 1), (''us'', 10 ^ 3), ([CHR 0xC2, CHR 0xB5, CHR ''s''], 10 ^ 3),
      ([CHR 0xCE, CHR 0xBC, CHR ''s''], 10 ^ 3), (''ms'', 10 ^ 6), (''s'', 10 ^ 9),
      (''m'', 60 * 10 ^ 9), (''h'', 3600 * 10 ^ 9)]"

text \<open>
  The part after the point, in nanoseconds: the one place floating point is used. The product
  with the quotient of the unit and the scale has its 53 bits kept and is then truncated.
\<close>

definition fraction_of_unit :: "nat \<Rightarrow> nat \<Rightarrow> nat \<Rightarrow> nat" where
  "fraction_of_unit f scale unit =
     (case f64_quot unit scale of (m, k) \<Rightarrow> f64_of_nat (f64_of_nat f * m) div 2 ^ k)"

definition unit_name :: "string \<Rightarrow> string" where
  "unit_name s = takeWhile (\<lambda>c. c \<noteq> CHR ''.'' \<and> \<not> is_digit c) s"

text \<open>One number and its unit: the nanoseconds, and the rest.\<close>

definition duration_step :: "string \<Rightarrow> (nat \<times> string) option" where
  "duration_step s =
     (if s = [] \<or> \<not> (hd s = CHR ''.'' \<or> is_digit (hd s)) then None
      else case leading_int 0 s of None \<Rightarrow> None | Some v \<Rightarrow>
     (let pre = is_digit (hd s);
          s = dropWhile is_digit s;
          point = has_prefix s ''.'';
          after = (if point then drop 1 s else s);
          (f, scale) = (if point then leading_fraction False 0 1 after else (0, 1));
          post = point \<and> after \<noteq> [] \<and> is_digit (hd after);
          s = (if point then dropWhile is_digit after else s);
          u = unit_name s in
      if \<not> pre \<and> \<not> post \<or> u = [] then None
      else (case map_of unit_map u of
              None \<Rightarrow> None
            | Some unit \<Rightarrow>
                if v > 2 ^ 63 div unit then None
                else let v = v * unit + (if f > 0 then fraction_of_unit f scale unit else 0) in
                  if v > 2 ^ 63 then None else Some (v, drop (length u) s))))"

lemma duration_step_shorter: "duration_step s = Some (v, r) \<Longrightarrow> length r < length s"
proof -
  assume a: "duration_step s = Some (v, r)"
  define t where "t = dropWhile is_digit s"
  define p where "p = (if has_prefix t ''.'' then dropWhile is_digit (drop 1 t) else t)"
  from a have "unit_name p \<noteq> []" "r = drop (length (unit_name p)) p"
    unfolding p_def t_def
    by (auto simp: duration_step_def Let_def split: if_splits option.splits prod.splits)
  moreover have "length (unit_name p) \<le> length p" by (simp add: unit_name_def length_takeWhile_le)
  moreover have "length t \<le> length s" unfolding t_def by (rule length_dropWhile_le)
  moreover have "length p \<le> length t"
    unfolding p_def using length_dropWhile_le [of is_digit "drop 1 t"] by (auto intro: order_trans)
  ultimately show ?thesis by (cases "unit_name p") auto
qed

text \<open>The sum is a \<open>uint64\<close>: two parts of 2^63 wrap around to nothing.\<close>

function duration_loop :: "nat \<Rightarrow> string \<Rightarrow> nat option" where
  "duration_loop d s =
     (if s = [] then Some d
      else (case duration_step s of
              None \<Rightarrow> None
            | Some (v, r) \<Rightarrow>
                 let d = (d + v) mod 2 ^ 64 in if d > 2 ^ 63 then None else duration_loop d r))"
  by pat_completeness auto
termination by (relation "measure (\<lambda>(d, s). length s)") (auto dest: duration_step_shorter)

declare duration_loop.simps [simp del]

definition parse_duration :: "string \<Rightarrow> int option" where
  "parse_duration s =
     (let signed = has_prefix s ''-'' \<or> has_prefix s ''+'';
          neg = has_prefix s ''-'';
          s = (if signed then drop 1 s else s) in
      if s = ''0'' then Some 0
      else if s = [] then None
      else (case duration_loop 0 s of
              None \<Rightarrow> None
            | Some d \<Rightarrow>
                if neg then Some (i64 (- int d))
                else if d > 2 ^ 63 - 1 then None else Some (int d)))"

lemma duration_loop_bound: "duration_loop d s = Some r \<Longrightarrow> d \<le> 2 ^ 63 \<Longrightarrow> r \<le> 2 ^ 63"
proof (induction d s rule: duration_loop.induct)
  case (1 d s)
  show ?case
  proof (cases "s = []")
    case True
    with 1(2,3) show ?thesis by (simp add: duration_loop.simps)
  next
    case False
    with 1(2) obtain v t where st: "duration_step s = Some (v, t)" "\<not> (d + v) mod 2 ^ 64 > 2 ^ 63"
      "duration_loop ((d + v) mod 2 ^ 64) t = Some r"
      by (subst (asm) duration_loop.simps) (auto simp: Let_def split: option.splits if_splits)
    with 1(1) [OF False st(1) refl refl st(2)] show ?thesis by simp
  qed
qed

lemma parse_duration_range: "parse_duration s = Some d \<Longrightarrow> in_i64 d"
  using duration_loop_bound [of 0]
  by (auto simp: parse_duration_def Let_def in_i64_def split: option.splits if_splits)

section \<open>slog.Level\<close>

definition LevelDebug :: int where "LevelDebug = - 4"
definition LevelInfo :: int where "LevelInfo = 0"
definition LevelWarn :: int where "LevelWarn = 4"
definition LevelError :: int where "LevelError = 8"

definition upper_char :: "char \<Rightarrow> char" where
  "upper_char c = (if 97 \<le> (of_char c :: nat) \<and> (of_char c :: nat) \<le> 122
                   then char_of ((of_char c :: nat) - 32) else c)"

text \<open>The one other character with an upper case among the letters of the names: a dotless i.\<close>

fun to_upper :: "string \<Rightarrow> string" where
  "to_upper [] = []"
| "to_upper (c # cs) =
     (if c = CHR 0xC4 \<and> has_prefix cs [CHR 0xB1] then CHR ''I'' # to_upper (drop 1 cs)
      else upper_char c # to_upper cs)"

definition parse_level :: "string \<Rightarrow> int option" where
  "parse_level s =
     (let name = takeWhile (\<lambda>c. c \<noteq> CHR ''+'' \<and> c \<noteq> CHR ''-'') s;
          rest = drop (length name) s in
      case (if rest = [] then Some 0 else parse_int rest) of
        None \<Rightarrow> None
      | Some offset \<Rightarrow>
          map_option (\<lambda>base. i64 (base + offset))
            (map_of [(''DEBUG'', LevelDebug), (''INFO'', LevelInfo), (''WARN'', LevelWarn), (''ERROR'', LevelError)]
              (to_upper name)))"

lemma parse_level_examples:
  "parse_level ''info'' = Some 0" "parse_level ''Error-3'' = Some 5" "parse_level ''verbose'' = None"
  by code_simp+

end
