(* ===== verification/Floats.thy ===== *)
theory Floats
  imports Environ Complex_Main
begin

text \<open>
  \<open>float64\<close> and \<open>strconv.ParseFloat\<close>. A finite value is the rational number it is; the two zeros,
  which no comparison tells apart, are one.
\<close>

section \<open>Values\<close>

datatype float64 = FNum rat | FInf bool | FNaN

text \<open>\<open>FInf True\<close> is the negative infinity. Every comparison with NaN is false.\<close>

fun f64_le :: "float64 \<Rightarrow> float64 \<Rightarrow> bool" where
  "f64_le FNaN y = False"
| "f64_le x FNaN = False"
| "f64_le (FNum x) (FNum y) = (x \<le> y)"
| "f64_le (FNum x) (FInf negative) = (\<not> negative)"
| "f64_le (FInf negative) (FNum y) = negative"
| "f64_le (FInf n) (FInf m) = (n \<or> \<not> m)"

definition f64_less :: "float64 \<Rightarrow> float64 \<Rightarrow> bool" where
  "f64_less x y \<longleftrightarrow> f64_le x y \<and> \<not> f64_le y x"

section \<open>Rounding\<close>

definition round_half_even :: "rat \<Rightarrow> int" where
  "round_half_even x =
     (let f = \<lfloor>x\<rfloor>; d = x - of_int f in
      if d < 1 / 2 then f else if d > 1 / 2 then f + 1 else if even f then f else f + 1)"

definition pow2 :: "int \<Rightarrow> rat" where
  "pow2 k = power_int 2 k"

text \<open>The exponent of a positive number: \<open>pow2 (log2_floor x) \<le> x < pow2 (log2_floor x + 1)\<close>.\<close>

definition log2_floor :: "rat \<Rightarrow> int" where
  "log2_floor x =
     (case quotient_of x of (a, b) \<Rightarrow>
        let k = int (bit_count (nat a)) - int (bit_count (nat b)) in if pow2 k \<le> x then k else k - 1)"

text \<open>
  The nearest \<open>float64\<close>, ties to even: 53 significant bits, fewer below 2^-1022; \<open>None\<close> past the
  largest one.
\<close>

definition last_place :: "rat \<Rightarrow> int" where
  "last_place x = max (log2_floor \<bar>x\<bar> - 52) (- 1074)"

definition f64_round :: "rat \<Rightarrow> rat option" where
  "f64_round x =
     (if x = 0 then Some 0
      else let u = pow2 (last_place x); r = of_int (round_half_even (x / u)) * u
        in if \<bar>r\<bar> < 2 ^ 1024 then Some r else None)"

section \<open>strconv.ParseFloat\<close>

text \<open>
  The mantissa: digits with at most one point, underscores skipped. Its value as a whole number,
  the digits after the point, whether there was a digit, and the rest.
\<close>

definition digit_value :: "bool \<Rightarrow> char \<Rightarrow> nat option" where
  "digit_value hex c =
     (let n = of_char c :: nat in
      if is_digit c then Some (n - 48)
      else if hex \<and> 97 \<le> n \<and> n \<le> 102 then Some (n - 87)
      else if hex \<and> 65 \<le> n \<and> n \<le> 70 then Some (n - 55)
      else None)"

fun read_mantissa :: "bool \<Rightarrow> bool \<Rightarrow> nat \<Rightarrow> nat \<Rightarrow> bool \<Rightarrow> string \<Rightarrow> nat \<times> nat \<times> bool \<times> string" where
  "read_mantissa hex sawdot m places sawdigits [] = (m, places, sawdigits, [])"
| "read_mantissa hex sawdot m places sawdigits (c # cs) =
     (if c = CHR ''_'' then read_mantissa hex sawdot m places sawdigits cs
      else if c = CHR ''.'' then
        if sawdot then (m, places, sawdigits, c # cs) else read_mantissa hex True m places sawdigits cs
      else
       (case digit_value hex c of
          Some d \<Rightarrow>
            read_mantissa hex sawdot (m * (if hex then 16 else 10) + d) (if sawdot then places + 1 else places) True cs
        | None \<Rightarrow> (m, places, sawdigits, c # cs)))"

text \<open>The digits of an exponent stop counting once it has reached 10000.\<close>

fun read_exponent :: "nat \<Rightarrow> string \<Rightarrow> nat \<times> string" where
  "read_exponent e [] = (e, [])"
| "read_exponent e (c # cs) =
     (if c = CHR ''_'' then read_exponent e cs
      else if is_digit c then read_exponent (if e < 10000 then e * 10 + (of_char c - 48) else e) cs
      else (e, c # cs))"

definition signed_exponent :: "string \<Rightarrow> (int \<times> string) option" where
  "signed_exponent cs =
     (let neg = has_prefix cs ''-''; ds = (if neg \<or> has_prefix cs ''+'' then drop 1 cs else cs) in
      case ds of
        [] \<Rightarrow> None
      | d # _ \<Rightarrow>
          if \<not> is_digit d then None
          else (case read_exponent 0 ds of (e, rest) \<Rightarrow> Some (if neg then - int e else int e, rest)))"

text \<open>\<open>underscoreOK\<close>: \<open>i\<close> is the kind of the previous character, as in the library.\<close>

fun underscores_separate :: "bool \<Rightarrow> char \<Rightarrow> string \<Rightarrow> bool" where
  "underscores_separate hex i [] = (i \<noteq> CHR ''_'')"
| "underscores_separate hex i (c # cs) =
     (if digit_value hex c \<noteq> None then underscores_separate hex CHR ''0'' cs
      else if c = CHR ''_'' then i = CHR ''0'' \<and> underscores_separate hex CHR ''_'' cs
      else i \<noteq> CHR ''_'' \<and> underscores_separate hex CHR ''!'' cs)"

definition drop_sign :: "string \<Rightarrow> string" where
  "drop_sign s = (if has_prefix s ''-'' \<or> has_prefix s ''+'' then drop 1 s else s)"

definition underscore_ok :: "string \<Rightarrow> bool" where
  "underscore_ok s =
     (let s = drop_sign s in
      case s of
        a # b # rest \<Rightarrow>
          if a = CHR ''0'' \<and> b \<in> set ''bBoOxX'' then underscores_separate (b \<in> set ''xX'') CHR ''0'' rest
          else underscores_separate False CHR ''^'' s
      | _ \<Rightarrow> underscores_separate False CHR ''^'' s)"

text \<open>\<open>readFloat\<close> of a text it must read to its end: the number denoted, without its sign.\<close>

definition read_float :: "string \<Rightarrow> rat option" where
  "read_float s =
     (let t = drop_sign s;
          hex = (2 < length t \<and> t ! 0 = CHR ''0'' \<and> t ! 1 \<in> set ''xX'') in
      case read_mantissa hex False 0 0 False (if hex then drop 2 t else t) of (m, places, sawdigits, rest) \<Rightarrow>
      if \<not> sawdigits then None
      else
       (case (case rest of
                [] \<Rightarrow> if hex then None else Some (0, [])
              | c # cs \<Rightarrow>
                  if c \<in> set (if hex then ''pP'' else ''eE'') then signed_exponent cs
                  else if hex then None else Some (0, rest)) of
          None \<Rightarrow> None
        | Some (e, rest) \<Rightarrow>
            if rest \<noteq> [] \<or> CHR ''_'' \<in> set s \<and> \<not> underscore_ok s then None
            else if m = 0 then Some 0
            else if hex then Some (of_nat m * pow2 (e - 4 * int places))
            else Some (let e = e - int places in
              if 0 \<le> e then of_nat (m * 10 ^ nat e) else of_nat m / 10 ^ nat (- e))))"

text \<open>\<open>None\<close> is an error, a syntax that is none or a number out of range.\<close>

definition parse_float :: "string \<Rightarrow> float64 option" where
  "parse_float s =
     (let neg = has_prefix s ''-''; t = to_lower (drop_sign s) in
      if t = ''inf'' \<or> t = ''infinity'' then Some (FInf neg)
      else if to_lower s = ''nan'' then Some FNaN
      else
       (case read_float s of
          None \<Rightarrow> None
        | Some x \<Rightarrow> map_option FNum (f64_round (if neg then - x else x))))"

section \<open>What rounding does\<close>

lemma pow2_pos [simp]: "0 < pow2 k" "pow2 k \<noteq> 0" "0 \<le> pow2 k"
  by (simp_all add: pow2_def)

lemma pow2_add: "pow2 (j + k) = pow2 j * pow2 k"
  by (simp add: pow2_def power_int_add)

lemma pow2_zero: "pow2 0 = 1"
  by (simp add: pow2_def)

lemma pow2_nat: "pow2 (int n) = 2 ^ n"
  by (simp add: pow2_def)

lemma pow2_mono: "j \<le> k \<Longrightarrow> pow2 j \<le> pow2 k"
  by (simp add: pow2_def power_int_increasing)

lemma pow2_less: "pow2 j < pow2 k \<longleftrightarrow> j < k"
proof
  assume "j < k"
  then show "pow2 j < pow2 k" unfolding pow2_def by (rule power_int_strict_increasing) simp
next
  assume "pow2 j < pow2 k"
  with pow2_mono [of k j] show "j < k" by (meson leD le_less_linear)
qed

lemma log2_floor_bounds:
  assumes "0 < x"
  shows "pow2 (log2_floor x) \<le> x \<and> x < pow2 (log2_floor x + 1)"
proof -
  obtain a b where q: "quotient_of x = (a, b)" by fastforce
  define na nb where "na = bit_count (nat a)" and "nb = bit_count (nat b)"
  define k where "k = int na - int nb"
  have b: "0 < b" using quotient_of_denom_pos [OF q] .
  have x: "x = of_int a / of_int b" using quotient_of_div [OF q] .
  with assms b have a: "0 < a" by (simp add: zero_less_divide_iff)
  have count: "pow2 (int (bit_count (nat n)) - 1) \<le> of_int n \<and> of_int n < pow2 (int (bit_count (nat n)))" if "0 < n" for n
  proof -
    from bit_count_bounds [of "nat n"] that
    have c: "2 ^ (bit_count (nat n) - 1) \<le> nat n" "nat n < 2 ^ bit_count (nat n)" "0 < bit_count (nat n)" by auto
    then have "(of_nat (2 ^ (bit_count (nat n) - 1)) :: rat) \<le> of_nat (nat n)" "(of_nat (nat n) :: rat) < of_nat (2 ^ bit_count (nat n))"
      by (simp_all only: of_nat_le_iff of_nat_less_iff)
    moreover have "int (bit_count (nat n)) - 1 = int (bit_count (nat n) - 1)" using c(3) by simp
    moreover have "(of_nat (nat n) :: rat) = of_int n" using that by simp
    ultimately show ?thesis by (simp only: pow2_nat of_nat_power of_nat_numeral)
  qed
  note ca = count [OF a, folded na_def] and cb = count [OF b, folded nb_def]
  have up: "x < pow2 (k + 1)"
  proof -
    have "of_int a < pow2 (k + 1) * pow2 (int nb - 1)" using ca by (simp add: k_def pow2_add [symmetric])
    also have "\<dots> \<le> pow2 (k + 1) * of_int b" using cb by simp
    finally show ?thesis using b by (simp add: x divide_less_eq)
  qed
  have low: "pow2 (k - 1) \<le> x"
  proof -
    have "pow2 (k - 1) * of_int b \<le> pow2 (k - 1) * pow2 (int nb)" using cb by simp
    also have "\<dots> = pow2 (int na - 1)" by (simp add: k_def pow2_add [symmetric])
    also have "\<dots> \<le> of_int a" using ca by simp
    finally show ?thesis using b by (simp add: x le_divide_eq)
  qed
  have "log2_floor x = (if pow2 k \<le> x then k else k - 1)"
    by (simp add: log2_floor_def q k_def na_def nb_def Let_def)
  with up low show ?thesis by simp
qed

lemma log2_floor_unique:
  assumes "pow2 k \<le> x" "x < pow2 (k + 1)"
  shows "log2_floor x = k"
proof -
  have "0 < x" using assms(1) pow2_pos(1) [of k] by linarith
  from log2_floor_bounds [OF this] assms
  have "pow2 k < pow2 (log2_floor x + 1)" "pow2 (log2_floor x) < pow2 (k + 1)" by linarith+
  then show ?thesis by (simp add: pow2_less)
qed

lemma round_half_even_near: "\<bar>of_int (round_half_even x) - x\<bar> \<le> 1 / 2"
proof -
  have "of_int \<lfloor>x\<rfloor> \<le> x" "x < of_int \<lfloor>x\<rfloor> + 1" by linarith+
  then show ?thesis by (auto simp: round_half_even_def Let_def)
qed

lemma round_half_even_bounds:
  "x \<le> of_int n \<Longrightarrow> round_half_even x \<le> n" "of_int n \<le> x \<Longrightarrow> n \<le> round_half_even x"
  using round_half_even_near [of x] by linarith+

text \<open>
  The result is a whole number of last places, at most 2^53 of them, and within half of one of
  what was rounded.
\<close>

lemma f64_round_spec:
  assumes "f64_round x = Some r" "x \<noteq> 0"
  shows "\<exists>m. r = of_int m * pow2 (last_place x) \<and> \<bar>m\<bar> \<le> 2 ^ 53 \<and> \<bar>r - x\<bar> \<le> pow2 (last_place x) / 2"
proof -
  define u where "u = pow2 (last_place x)"
  define m where "m = round_half_even (x / u)"
  have u: "0 < u" by (simp add: u_def)
  have r: "r = of_int m * u" using assms by (auto simp: f64_round_def u_def m_def Let_def split: if_splits)
  have near: "\<bar>of_int m - x / u\<bar> \<le> 1 / 2" unfolding m_def by (rule round_half_even_near)
  have "r - x = (of_int m - x / u) * u" using u by (simp add: r field_simps)
  then have "\<bar>r - x\<bar> = \<bar>of_int m - x / u\<bar> * u" using u by (simp add: abs_mult)
  also have "\<dots> \<le> 1 / 2 * u" using near u by (intro mult_right_mono) simp_all
  finally have err: "\<bar>r - x\<bar> \<le> u / 2" by simp
  have "\<bar>x\<bar> < pow2 (log2_floor \<bar>x\<bar> + 1)" using log2_floor_bounds [of "\<bar>x\<bar>"] assms(2) by simp
  also have "\<dots> \<le> pow2 (53 + last_place x)" by (intro pow2_mono) (simp add: last_place_def)
  also have "\<dots> = 2 ^ 53 * u" using pow2_nat [of 53] by (simp add: pow2_add u_def)
  finally have "\<bar>x\<bar> / u < 2 ^ 53" using u by (simp add: divide_less_eq)
  moreover have "\<bar>x\<bar> / u = \<bar>x / u\<bar>" using u by (simp add: abs_divide)
  ultimately have "\<bar>x / u\<bar> < 2 ^ 53" by (simp only:)
  then have "x / u \<le> of_int (2 ^ 53)" "of_int (- (2 ^ 53)) \<le> x / u"
    unfolding of_int_minus of_int_power of_int_numeral by linarith+
  from round_half_even_bounds(1) [OF this(1)] round_half_even_bounds(2) [OF this(2)]
  have "\<bar>m\<bar> \<le> 2 ^ 53" by (simp add: m_def abs_le_iff)
  with r err show ?thesis unfolding u_def by blast
qed

text \<open>A fraction stays one: rounding a number between 0 and 1 never overflows and stays there.\<close>

lemma f64_round_fraction:
  assumes "0 \<le> x" "x \<le> 1"
  shows "\<exists>r. f64_round x = Some r \<and> 0 \<le> r \<and> r \<le> 1"
proof (cases "x = 0")
  case False
  define u where "u = pow2 (last_place x)"
  define m where "m = round_half_even (x / u)"
  have u: "0 < u" by (simp add: u_def)
  have x: "0 < x" using False assms by simp
  have "pow2 (log2_floor x) < pow2 1" using log2_floor_bounds [OF x] assms(2) pow2_nat [of 1] by simp
  then have "last_place x \<le> 0" using x by (simp add: last_place_def pow2_less)
  then obtain n where n: "last_place x = - int n" by (metis nonpos_int_cases)
  have "pow2 (int n) * u = 1" by (simp add: u_def n pow2_add [symmetric] pow2_zero)
  then have one: "1 / u = of_int (2 ^ n)" using u by (simp add: pow2_nat field_simps)
  have "x / u \<le> 1 / u" using assms(2) u by (intro divide_right_mono) simp_all
  then have "m \<le> 2 ^ n" unfolding m_def one by (rule round_half_even_bounds(1))
  then have "(of_int m :: rat) \<le> of_int (2 ^ n)" by (rule of_int_le_iff [THEN iffD2])
  then have "of_int m * u \<le> 1 / u * u" using u unfolding one by (intro mult_right_mono) simp_all
  then have le: "of_int m * u \<le> 1" using u by simp
  have "of_int 0 \<le> x / u" using x u by simp
  then have "0 \<le> m" unfolding m_def by (rule round_half_even_bounds(2))
  then have ge: "0 \<le> of_int m * u" using u by simp
  have "(1 :: rat) < 2 ^ 1024" by (rule one_less_power) simp_all
  with le ge have "\<bar>of_int m * u\<bar> < 2 ^ 1024" by simp
  with False have "f64_round x = Some (of_int m * u)"
    by (simp add: f64_round_def u_def [symmetric] m_def [symmetric] Let_def)
  with le ge show ?thesis by blast
qed (simp add: f64_round_def)

lemma f64_round_one: "f64_round 1 = Some 1"
proof -
  have "log2_floor 1 = 0" by (rule log2_floor_unique) (simp_all add: pow2_def)
  then have p: "last_place 1 = - int 52" by (simp add: last_place_def)
  define u where "u = pow2 (last_place 1)"
  have "pow2 (int 52) * u = 1" unfolding u_def p pow2_add [symmetric] by (simp add: pow2_zero)
  then have "2 ^ 52 * u = 1" unfolding pow2_nat .
  moreover have "u \<noteq> 0" by (simp add: u_def)
  ultimately have "1 / u = of_int (2 ^ 52)" by (simp add: field_simps)
  have "round_half_even (of_int n) = n" for n by (simp add: round_half_even_def)
  then have "of_int (round_half_even (1 / u)) * u = of_int (2 ^ 52) * u" unfolding \<open>1 / u = of_int (2 ^ 52)\<close> by (simp only:)
  also have "\<dots> = 1" using \<open>1 / u = of_int (2 ^ 52)\<close> \<open>u \<noteq> 0\<close> by (simp add: field_simps)
  finally have r: "of_int (round_half_even (1 / u)) * u = 1" .
  have "(1 :: rat) < 2 ^ 1024" by (rule one_less_power) simp_all
  with r show ?thesis by (simp only: f64_round_def Let_def u_def [symmetric]) simp
qed

section \<open>Texts that are not finite numbers\<close>

lemma parse_float_nan: "parse_float s = Some FNaN \<longleftrightarrow> to_lower s = ''nan''"
proof
  assume "to_lower s = ''nan''"
  moreover from this have "drop_sign s = s"
    by (cases s) (auto simp: drop_sign_def has_prefix_def to_lower_def lower_char_def split: if_splits)
  ultimately show "parse_float s = Some FNaN" by (simp add: parse_float_def Let_def)
qed (auto simp: parse_float_def Let_def split: if_splits option.splits)

end
