(* ===== verification/Ratelimit.thy ===== *)
theory Ratelimit
  imports Http_Base Floats
begin

text \<open>
  \<open>internal/adapters/httpapi/ratelimit.go\<close>: one token bucket per client, the sweeper that drops
  the buckets of clients gone quiet, and the middleware that refuses a client over its budget.
  The bucket itself is \<open>golang.org/x/time/rate\<close>, a parameter nothing is assumed of here: what is
  proved is how the buckets are kept apart and how their verdicts are reported.

  A request is not atomic. It finds its bucket under the limiter's lock, reserves a token under
  the bucket's own, and gives the token back under it again when it has to wait; the sweeper and
  other requests come in between. Buckets are shared by reference, so they live in a store, and
  the address of a new bucket is named after the request that made it, which makes at most one.
  A request is named by its client and a number.
\<close>

section \<open>The limiter\<close>

definition DefaultRateLimit :: rat where "DefaultRateLimit = 5"
definition DefaultRateBurst :: int where "DefaultRateBurst = 20"
definition clientTTL :: int where "clientTTL = 600 * 10 ^ 9"

record ('l, 'r) rate_lib =
  lib_new :: "rat \<Rightarrow> int \<Rightarrow> 'l"
  lib_reserve :: "'l \<Rightarrow> int \<Rightarrow> int \<Rightarrow> 'r \<times> 'l"
  lib_ok :: "'r \<Rightarrow> bool"
  lib_delay_from :: "'r \<Rightarrow> int \<Rightarrow> int"
  lib_cancel_at :: "'r \<Rightarrow> int \<Rightarrow> 'l \<Rightarrow> 'l"

type_synonym request_name = "string \<times> nat"

record client_bucket =
  cb_limiter :: request_name
  cb_seen :: int

text \<open>\<open>rl_sweeping\<close>: the sweeper's goroutine is running; \<open>rl_stopped\<close>: \<open>stop\<close> is closed.\<close>

record 'l rate_limiter =
  rl_limit :: rat
  rl_burst :: int
  rl_ttl :: int
  rl_clients :: "string \<rightharpoonup> client_bucket"
  rl_store :: "request_name \<rightharpoonup> 'l"
  rl_stopped :: bool
  rl_sweeping :: bool

definition limiter_enabled :: "'l rate_limiter \<Rightarrow> bool" where
  "limiter_enabled l \<longleftrightarrow> rl_limit l > 0 \<and> rl_burst l > 0"

definition new_rate_limiter :: "rat \<Rightarrow> int \<Rightarrow> 'l rate_limiter" where
  "new_rate_limiter limit burst =
     (let l = \<lparr>rl_limit = limit, rl_burst = burst, rl_ttl = clientTTL, rl_clients = Map.empty,
               rl_store = Map.empty, rl_stopped = False, rl_sweeping = False\<rparr>
      in if limiter_enabled l then l\<lparr>rl_sweeping := True\<rparr> else l)"

text \<open>The three critical sections of \<open>allow\<close>.\<close>

definition find_bucket ::
  "('l, 'r) rate_lib \<Rightarrow> request_name \<Rightarrow> int \<Rightarrow> 'l rate_limiter \<Rightarrow> request_name \<times> 'l rate_limiter" where
  "find_bucket lib r now l =
     (let (addr, l) =
        (case rl_clients l (fst r) of
           Some b \<Rightarrow> (cb_limiter b, l)
         | None \<Rightarrow> (r, l\<lparr>rl_store := (rl_store l)(r \<mapsto> lib_new lib (rl_limit l) (rl_burst l))\<rparr>))
      in (addr, l\<lparr>rl_clients := (rl_clients l)(fst r \<mapsto> \<lparr>cb_limiter = addr, cb_seen = now\<rparr>)\<rparr>))"

definition reserve_token ::
  "('l, 'r) rate_lib \<Rightarrow> request_name \<Rightarrow> int \<Rightarrow> 'l rate_limiter \<Rightarrow> ('r \<times> 'l rate_limiter) option" where
  "reserve_token lib addr now l =
     (case rl_store l addr of
        None \<Rightarrow> None
      | Some b \<Rightarrow> (case lib_reserve lib b now 1 of (res, b') \<Rightarrow>
          Some (res, l\<lparr>rl_store := (rl_store l)(addr \<mapsto> b')\<rparr>)))"

definition cancel_token ::
  "('l, 'r) rate_lib \<Rightarrow> request_name \<Rightarrow> 'r \<Rightarrow> int \<Rightarrow> 'l rate_limiter \<Rightarrow> 'l rate_limiter" where
  "cancel_token lib addr res now l =
     l\<lparr>rl_store := (rl_store l)(addr := map_option (lib_cancel_at lib res now) (rl_store l addr))\<rparr>"

text \<open>
  A request between its critical sections: where it stands, or its answer, whether it may go on
  and else how long to wait.
\<close>

datatype 'r phase =
    Found request_name int
  | Waiting request_name 'r int int
  | Answered bool int

definition start_request ::
  "('l, 'r) rate_lib \<Rightarrow> request_name \<Rightarrow> int \<Rightarrow> 'l rate_limiter \<Rightarrow> 'r phase \<times> 'l rate_limiter" where
  "start_request lib r now l =
     (if \<not> limiter_enabled l then (Answered True 0, l)
      else (case find_bucket lib r now l of (addr, l') \<Rightarrow> (Found addr now, l')))"

text \<open>A bucket found stays in the store, so the second branch of \<open>reserve_token\<close> is not taken.\<close>

fun continue_request ::
  "('l, 'r) rate_lib \<Rightarrow> 'r phase \<Rightarrow> 'l rate_limiter \<Rightarrow> 'r phase \<times> 'l rate_limiter" where
  "continue_request lib (Found addr now) l =
     (case reserve_token lib addr now l of
        None \<Rightarrow> (Found addr now, l)
      | Some (res, l') \<Rightarrow>
          if \<not> lib_ok lib res then (Answered False (10 ^ 9), l')
          else (let delay = lib_delay_from lib res now in
            if delay = 0 then (Answered True 0, l') else (Waiting addr res now delay, l')))"
| "continue_request lib (Waiting addr res now delay) l =
     (Answered False delay, cancel_token lib addr res now l)"
| "continue_request lib (Answered allowed retryAfter) l = (Answered allowed retryAfter, l)"

text \<open>
  \<open>allow\<close> without interruption. \<open>None\<close> would be a reference to a bucket that is not in the store;
  \<open>allow_answers\<close> shows there is none.
\<close>

definition allow ::
  "('l, 'r) rate_lib \<Rightarrow> request_name \<Rightarrow> int \<Rightarrow> 'l rate_limiter \<Rightarrow> ((bool \<times> int) \<times> 'l rate_limiter) option" where
  "allow lib r now l =
     (if \<not> limiter_enabled l then Some ((True, 0), l)
      else (case find_bucket lib r now l of (addr, l1) \<Rightarrow>
       (case reserve_token lib addr now l1 of
          None \<Rightarrow> None
        | Some (res, l2) \<Rightarrow>
            if \<not> lib_ok lib res then Some ((False, 10 ^ 9), l2)
            else (let delay = lib_delay_from lib res now in
              if delay = 0 then Some ((True, 0), l2)
              else Some ((False, delay), cancel_token lib addr res now l2)))))"

text \<open>One tick of the sweeper, under the lock; \<open>Close\<close>; and the sweeper's return after it.\<close>

definition sweep_tick :: "int \<Rightarrow> 'l rate_limiter \<Rightarrow> 'l rate_limiter" where
  "sweep_tick now l =
     (let cutoff = now - rl_ttl l in
      l\<lparr>rl_clients := (\<lambda>id. case rl_clients l id of
          None \<Rightarrow> None | Some b \<Rightarrow> if cb_seen b < cutoff then None else Some b)\<rparr>)"

definition close_limiter :: "'l rate_limiter \<Rightarrow> 'l rate_limiter" where
  "close_limiter l = l\<lparr>rl_stopped := True\<rparr>"

definition sweep_return :: "'l rate_limiter \<Rightarrow> 'l rate_limiter" where
  "sweep_return l = (if rl_stopped l then l\<lparr>rl_sweeping := False\<rparr> else l)"

text \<open>The number of clients with a bucket.\<close>

definition tracked :: "'l rate_limiter \<Rightarrow> nat" where
  "tracked l = card (dom (rl_clients l))"

text \<open>Requests and the sweeper interleaved, one critical section at a time.\<close>

datatype limiter_action =
    Start request_name int
  | Continue request_name
  | Tick int
  | Close
  | SweepReturn

type_synonym ('l, 'r) limiter_state = "(request_name \<rightharpoonup> 'r phase) \<times> 'l rate_limiter"

fun limiter_step :: "('l, 'r) rate_lib \<Rightarrow> ('l, 'r) limiter_state \<Rightarrow> limiter_action \<Rightarrow> ('l, 'r) limiter_state" where
  "limiter_step lib (rs, l) (Start r now) =
     (case rs r of
        Some _ \<Rightarrow> (rs, l)
      | None \<Rightarrow> (case start_request lib r now l of (p, l') \<Rightarrow> (rs(r \<mapsto> p), l')))"
| "limiter_step lib (rs, l) (Continue r) =
     (case rs r of
        None \<Rightarrow> (rs, l)
      | Some p \<Rightarrow> (case continue_request lib p l of (p', l') \<Rightarrow> (rs(r \<mapsto> p'), l')))"
| "limiter_step lib (rs, l) (Tick now) = (rs, if rl_sweeping l then sweep_tick now l else l)"
| "limiter_step lib (rs, l) Close = (rs, close_limiter l)"
| "limiter_step lib (rs, l) SweepReturn = (rs, sweep_return l)"

definition limiter_run ::
  "('l, 'r) rate_lib \<Rightarrow> limiter_action list \<Rightarrow> rat \<Rightarrow> int \<Rightarrow> ('l, 'r) limiter_state" where
  "limiter_run lib acts limit burst =
     foldl (limiter_step lib) (Map.empty, new_rate_limiter limit burst) acts"

text \<open>The actions a client takes part in: its own requests, and the sweeper's.\<close>

fun concerns :: "string \<Rightarrow> limiter_action \<Rightarrow> bool" where
  "concerns c (Start r now) = (fst r = c)"
| "concerns c (Continue r) = (fst r = c)"
| "concerns c (Tick now) = True"
| "concerns c Close = True"
| "concerns c SweepReturn = True"

section \<open>The middleware\<close>

text \<open>
  The \<open>Retry-After\<close> seconds: \<open>Duration.Seconds\<close> is a float64, and the ceiling of it is the exact
  one for every delay below 2^23 seconds. \<open>%.0f\<close> rounds to the nearest integer, ties to even.
\<close>

definition retry_seconds :: "int \<Rightarrow> int" where
  "retry_seconds delay = max 1 (- ((- delay) div 10 ^ 9))"

definition over_budget :: "rat \<Rightarrow> int \<Rightarrow> problem" where
  "over_budget limit seconds =
     \<lparr>p_type = TypeRateLimited, p_title = ''Too Many Requests'', p_status = 429,
      p_detail = ''This client is over its budget of '' @ itoa (round_half_even limit) @
        '' requests per second. Retry in '' @ itoa seconds @ '' second(s).'',
      p_instance = [], p_request_id = [], p_trace_id = [], p_retry_after = seconds\<rparr>"

text \<open>
  The client comes from the request's context, which \<open>requireAuth\<close> fills. The rest of the chain
  works on a state of its own; \<open>None\<close> stands for a panic, which \<open>rate_limit_cases\<close> excludes.
\<close>

definition rate_limit ::
  "('l, 'r) rate_lib \<Rightarrow> nat \<Rightarrow> int \<Rightarrow> request \<Rightarrow> string option \<Rightarrow> ('s \<Rightarrow> 'b response \<times> 's) \<Rightarrow>
   'l rate_limiter \<Rightarrow> 's \<Rightarrow> ('b response \<times> 'l rate_limiter \<times> 's) option" where
  "rate_limit lib n now r clientID next_handler l s =
     (case clientID of
        None \<Rightarrow> Some (write_problem r [] 401 TypeUnauthorized ''Unauthorized''
                   ''This endpoint requires a bearer token.'', l, s)
      | Some c \<Rightarrow>
          (case allow lib (c, n) now l of
             None \<Rightarrow> None
           | Some ((allowed, retryAfter), l') \<Rightarrow>
               if allowed then (case next_handler s of (resp, s') \<Rightarrow> Some (resp, l', s'))
               else (let seconds = retry_seconds retryAfter in
                 Some (write_problem_with r [(''Retry-After'', itoa seconds)]
                    (over_budget (rl_limit l') seconds), l', s))))"

section \<open>Who owns a bucket\<close>

fun phase_address :: "'r phase \<Rightarrow> request_name option" where
  "phase_address (Found addr now) = Some addr"
| "phase_address (Waiting addr res now delay) = Some addr"
| "phase_address (Answered allowed retryAfter) = None"

text \<open>A bucket belongs to the client it was made for, and is there.\<close>

definition buckets_ok :: "'l rate_limiter \<Rightarrow> bool" where
  "buckets_ok l \<longleftrightarrow>
     (\<forall>c b. rl_clients l c = Some b \<longrightarrow> fst (cb_limiter b) = c \<and> rl_store l (cb_limiter b) \<noteq> None)"

definition requests_ok :: "(request_name \<rightharpoonup> 'r phase) \<Rightarrow> 'l rate_limiter \<Rightarrow> bool" where
  "requests_ok rs l \<longleftrightarrow>
     (\<forall>r p addr. rs r = Some p \<longrightarrow> phase_address p = Some addr \<longrightarrow>
        fst addr = fst r \<and> rl_store l addr \<noteq> None)"

definition owned :: "('l, 'r) limiter_state \<Rightarrow> bool" where
  "owned s \<longleftrightarrow> buckets_ok (snd s) \<and> requests_ok (fst s) (snd s)"

lemma find_bucket_spec:
  assumes "find_bucket lib r now l = (addr, l')" "buckets_ok l"
  shows "fst addr = fst r" "rl_store l' addr \<noteq> None" "buckets_ok l'"
    and "c \<noteq> fst r \<Longrightarrow> rl_clients l' c = rl_clients l c"
    and "fst a \<noteq> fst r \<Longrightarrow> rl_store l' a = rl_store l a"
    and "rl_store l a \<noteq> None \<Longrightarrow> rl_store l' a \<noteq> None"
    and "rl_limit l' = rl_limit l" "rl_burst l' = rl_burst l" "rl_ttl l' = rl_ttl l"
    and "rl_stopped l' = rl_stopped l" "rl_sweeping l' = rl_sweeping l"
  using assms by (auto simp: find_bucket_def buckets_ok_def Let_def split: option.splits if_splits)

lemma reserve_token_spec:
  assumes "reserve_token lib addr now l = Some (res, l')"
  shows "rl_clients l' = rl_clients l"
    and "a \<noteq> addr \<Longrightarrow> rl_store l' a = rl_store l a"
    and "rl_store l' a = None \<longleftrightarrow> rl_store l a = None"
    and "rl_limit l' = rl_limit l" "rl_burst l' = rl_burst l" "rl_ttl l' = rl_ttl l"
    and "rl_stopped l' = rl_stopped l" "rl_sweeping l' = rl_sweeping l"
  using assms by (auto simp: reserve_token_def split: option.splits prod.splits if_splits)

lemma cancel_token_spec [simp]:
  "rl_clients (cancel_token lib addr res now l) = rl_clients l"
  "a \<noteq> addr \<Longrightarrow> rl_store (cancel_token lib addr res now l) a = rl_store l a"
  "rl_store (cancel_token lib addr res now l) a = None \<longleftrightarrow> rl_store l a = None"
  "rl_limit (cancel_token lib addr res now l) = rl_limit l"
  "rl_burst (cancel_token lib addr res now l) = rl_burst l"
  "rl_ttl (cancel_token lib addr res now l) = rl_ttl l"
  "rl_stopped (cancel_token lib addr res now l) = rl_stopped l"
  "rl_sweeping (cancel_token lib addr res now l) = rl_sweeping l"
  by (auto simp: cancel_token_def)

lemma buckets_ok_keep:
  assumes "buckets_ok l" "rl_clients l' = rl_clients l"
    and "\<And>a. rl_store l a \<noteq> None \<Longrightarrow> rl_store l' a \<noteq> None"
  shows "buckets_ok l'"
  using assms unfolding buckets_ok_def by auto

lemma reserve_token_buckets:
  "reserve_token lib addr now l = Some (res, l') \<Longrightarrow> buckets_ok l \<Longrightarrow> buckets_ok l'"
  by (rule buckets_ok_keep [of l]) (simp_all add: reserve_token_spec(1,3) del: not_None_eq)

lemma cancel_token_buckets: "buckets_ok l \<Longrightarrow> buckets_ok (cancel_token lib addr res now l)"
  by (rule buckets_ok_keep) auto

lemma reserve_token_there:
  "rl_store l addr \<noteq> None \<Longrightarrow> \<exists>res l'. reserve_token lib addr now l = Some (res, l')"
  by (auto simp: reserve_token_def split: prod.splits)

lemma allow_answers:
  assumes "buckets_ok l"
  shows "\<exists>v l'. allow lib r now l = Some (v, l') \<and> buckets_ok l'"
proof -
  obtain addr l1 where f: "find_bucket lib r now l = (addr, l1)" by fastforce
  note spec = find_bucket_spec [OF f assms]
  obtain res l2 where t: "reserve_token lib addr now l1 = Some (res, l2)"
    using reserve_token_there [OF spec(2), of lib now] by blast
  have "buckets_ok l2" using reserve_token_buckets [OF t spec(3)] .
  with f t assms show ?thesis
    by (auto simp: allow_def Let_def cancel_token_buckets)
qed

section \<open>Every action keeps the buckets\<close>

lemma requests_ok_address:
  "requests_ok rs l \<Longrightarrow> rs r = Some p \<Longrightarrow> phase_address p = Some addr \<Longrightarrow>
     fst addr = fst r \<and> rl_store l addr \<noteq> None"
  unfolding requests_ok_def by blast

lemma requests_ok_keep:
  assumes "requests_ok rs l" "\<And>a. rl_store l a \<noteq> None \<Longrightarrow> rl_store l' a \<noteq> None"
    and "\<And>addr. phase_address p = Some addr \<Longrightarrow> fst addr = fst r \<and> rl_store l' addr \<noteq> None"
  shows "requests_ok (rs(r \<mapsto> p)) l'"
  using assms unfolding requests_ok_def by (metis fun_upd_apply option.inject)

lemma start_request_owned:
  assumes "start_request lib r now l = (p, l')" "owned (rs, l)"
  shows "owned (rs(r \<mapsto> p), l')"
proof (cases "limiter_enabled l")
  case True
  with assms(1) obtain addr where f: "find_bucket lib r now l = (addr, l')" and p: "p = Found addr now"
    by (auto simp: start_request_def split: prod.splits)
  have b: "buckets_ok l" "requests_ok rs l" using assms(2) by (simp_all add: owned_def)
  note spec = find_bucket_spec [OF f b(1)]
  have "requests_ok (rs(r \<mapsto> p)) l'"
    by (rule requests_ok_keep [OF b(2)]) (use spec p in auto)
  with spec(3) show ?thesis by (simp add: owned_def)
next
  case False
  with assms show ?thesis
    by (auto simp: start_request_def owned_def requests_ok_def)
qed

text \<open>What going on does to a request: it does nothing, it reserves, or it gives back.\<close>

lemma continue_request_cases:
  assumes "continue_request lib p l = (p', l')"
  obtains "p' = p" "l' = l"
  | addr now res where "p = Found addr now" "reserve_token lib addr now l = Some (res, l')"
      "p' = Answered False (10 ^ 9) \<or> p' = Answered True 0 \<or>
       p' = Waiting addr res now (lib_delay_from lib res now)"
  | addr res now delay where "p = Waiting addr res now delay" "p' = Answered False delay"
      "l' = cancel_token lib addr res now l"
  using assms by (cases p) (auto simp: Let_def split: option.splits if_splits prod.splits)

lemma continue_request_owned:
  assumes "continue_request lib p l = (p', l')" "owned (rs, l)" "rs r = Some p"
  shows "owned (rs(r \<mapsto> p'), l')"
proof -
  have b: "buckets_ok l" "requests_ok rs l" using assms(2) by (simp_all add: owned_def)
  from assms(1) show ?thesis
  proof (cases rule: continue_request_cases)
    case 1
    with assms(2,3) show ?thesis by (simp add: fun_upd_idem)
  next
    case (2 addr now res)
    have "requests_ok (rs(r \<mapsto> p')) l'"
    proof (rule requests_ok_keep [OF b(2)])
      fix a assume "phase_address p' = Some a"
      with 2(3) have a: "a = addr" by auto
      have "fst addr = fst r \<and> rl_store l addr \<noteq> None"
        by (rule requests_ok_address [OF b(2) assms(3)]) (simp add: 2(1))
      then show "fst a = fst r \<and> rl_store l' a \<noteq> None"
        by (simp add: a reserve_token_spec(3) [OF 2(2)] del: not_None_eq)
    qed (simp add: reserve_token_spec(3) [OF 2(2)] del: not_None_eq)
    with reserve_token_buckets [OF 2(2) b(1)] show ?thesis by (simp add: owned_def)
  next
    case (3 addr res now delay)
    have "requests_ok (rs(r \<mapsto> p')) l'" by (rule requests_ok_keep [OF b(2)]) (use 3 in auto)
    with 3(3) cancel_token_buckets [OF b(1)] show ?thesis by (simp add: owned_def)
  qed
qed

lemma limiter_step_owned: "owned s \<Longrightarrow> owned (limiter_step lib s a)"
proof (cases s)
  case (Pair rs l)
  assume own: "owned s"
  show ?thesis
  proof (cases a)
    case (Start r now)
    with own Pair show ?thesis
      by (auto split: option.splits prod.splits dest: start_request_owned)
  next
    case (Continue r)
    with own Pair show ?thesis
      by (auto split: option.splits prod.splits dest: continue_request_owned)
  next
    case (Tick now)
    with own Pair show ?thesis
      by (auto simp: owned_def buckets_ok_def requests_ok_def sweep_tick_def Let_def
          split: option.splits if_splits)
  next
    case Close
    with own Pair show ?thesis
      by (simp add: owned_def buckets_ok_def requests_ok_def close_limiter_def)
  next
    case SweepReturn
    with own Pair show ?thesis
      by (simp add: owned_def buckets_ok_def requests_ok_def sweep_return_def)
  qed
qed

section \<open>What a client can see\<close>

text \<open>Two states a client cannot tell apart: its bucket, its requests and its part of the store.\<close>

definition same_limiter :: "string \<Rightarrow> 'l rate_limiter \<Rightarrow> 'l rate_limiter \<Rightarrow> bool" where
  "same_limiter c l l' \<longleftrightarrow>
     rl_clients l c = rl_clients l' c \<and> (\<forall>n. rl_store l (c, n) = rl_store l' (c, n)) \<and>
     rl_limit l = rl_limit l' \<and> rl_burst l = rl_burst l' \<and> rl_ttl l = rl_ttl l' \<and>
     rl_stopped l = rl_stopped l' \<and> rl_sweeping l = rl_sweeping l'"

definition same_for :: "string \<Rightarrow> ('l, 'r) limiter_state \<Rightarrow> ('l, 'r) limiter_state \<Rightarrow> bool" where
  "same_for c s s' \<longleftrightarrow> (\<forall>n. fst s (c, n) = fst s' (c, n)) \<and> same_limiter c (snd s) (snd s')"

lemma same_for_refl: "same_for c s s"
  by (simp add: same_for_def same_limiter_def)

lemma same_for_trans: "same_for c s t \<Longrightarrow> same_for c t u \<Longrightarrow> same_for c s u"
  by (simp add: same_for_def same_limiter_def)

text \<open>Another client's action does not show.\<close>

lemma start_request_other:
  assumes "start_request lib r now l = (p, l')" "owned (rs, l)" "fst r \<noteq> c"
  shows "same_for c (rs(r \<mapsto> p), l') (rs, l)"
proof (cases "limiter_enabled l")
  case True
  with assms(1) obtain addr where f: "find_bucket lib r now l = (addr, l')"
    by (auto simp: start_request_def split: prod.splits)
  have b: "buckets_ok l" using assms(2) by (simp add: owned_def)
  from find_bucket_spec [OF f b] assms(3) show ?thesis by (auto simp: same_for_def same_limiter_def)
next
  case False
  with assms show ?thesis by (auto simp: start_request_def same_for_def same_limiter_def)
qed

lemma continue_request_other:
  assumes "continue_request lib p l = (p', l')" "owned (rs, l)" "rs r = Some p" "fst r \<noteq> c"
  shows "same_for c (rs(r \<mapsto> p'), l') (rs, l)"
  using assms(1)
proof (cases rule: continue_request_cases)
  case 1
  with assms(4) show ?thesis by (auto simp: same_for_def same_limiter_def)
next
  case (2 addr now res)
  with requests_ok_address [of rs l r p addr] assms(2-4) have "fst addr \<noteq> c"
    by (simp add: owned_def)
  then have "rl_store l' (c, n) = rl_store l (c, n)" for n
    using reserve_token_spec(2) [OF 2(2), of "(c, n)"] by (metis fst_conv)
  with reserve_token_spec [OF 2(2)] assms(4) show ?thesis by (auto simp: same_for_def same_limiter_def)
next
  case (3 addr res now delay)
  with requests_ok_address [of rs l r p addr] assms(2-4) have "fst addr \<noteq> c"
    by (simp add: owned_def)
  then have "rl_store l' (c, n) = rl_store l (c, n)" for n
    using 3(3) by (auto intro: cancel_token_spec(2))
  with 3(3) assms(4) show ?thesis by (auto simp: same_for_def same_limiter_def)
qed

lemma limiter_step_other:
  assumes "owned s" "\<not> concerns c a"
  shows "same_for c (limiter_step lib s a) s"
proof (cases s)
  case (Pair rs l)
  show ?thesis
  proof (cases a)
    case (Start r now)
    with assms Pair show ?thesis
      by (auto split: option.splits prod.splits simp: same_for_refl intro: start_request_other)
  next
    case (Continue r)
    with assms Pair show ?thesis
      by (auto split: option.splits prod.splits simp: same_for_refl intro: continue_request_other)
  qed (use assms in auto)
qed

text \<open>An action of its own, or the sweeper's, does the same in both.\<close>

lemma find_bucket_same:
  assumes "same_limiter (fst r) l l'"
    and "find_bucket lib r now l = (addr, m)" "find_bucket lib r now l' = (addr', m')"
  shows "addr' = addr \<and> same_limiter (fst r) m m'"
  using assms by (cases r) (auto simp: find_bucket_def same_limiter_def Let_def split: option.splits)

lemma reserve_token_same:
  assumes "same_limiter c l l'" "fst addr = c"
  shows "case reserve_token lib addr now l of
           None \<Rightarrow> reserve_token lib addr now l' = None
         | Some (res, m) \<Rightarrow> \<exists>m'. reserve_token lib addr now l' = Some (res, m') \<and> same_limiter c m m'"
  using assms by (cases addr) (auto simp: reserve_token_def same_limiter_def split: option.splits prod.splits)

lemma cancel_token_same:
  "same_limiter c l l' \<Longrightarrow> fst addr = c \<Longrightarrow>
     same_limiter c (cancel_token lib addr res now l) (cancel_token lib addr res now l')"
  by (cases addr) (auto simp: cancel_token_def same_limiter_def)

lemma start_request_same:
  assumes "same_limiter (fst r) l l'"
    and "start_request lib r now l = (p, m)" "start_request lib r now l' = (p', m')"
  shows "p' = p \<and> same_limiter (fst r) m m'"
proof -
  have e: "limiter_enabled l' = limiter_enabled l"
    using assms(1) by (simp add: same_limiter_def limiter_enabled_def)
  obtain addr k addr' k' where f: "find_bucket lib r now l = (addr, k)"
    "find_bucket lib r now l' = (addr', k')" by fastforce
  from assms e find_bucket_same [OF assms(1) f] f show ?thesis
    by (auto simp: start_request_def split: if_splits)
qed

lemma continue_request_same:
  assumes "same_limiter c l l'" "\<And>addr. phase_address p = Some addr \<Longrightarrow> fst addr = c"
    and "continue_request lib p l = (q, m)" "continue_request lib p l' = (q', m')"
  shows "q' = q \<and> same_limiter c m m'"
proof (cases p)
  case (Found addr now)
  with assms(2) have "fst addr = c" by simp
  from reserve_token_same [OF assms(1) this, of lib now] assms(1,3,4) Found show ?thesis
    by (auto simp: Let_def split: option.splits if_splits prod.splits)
next
  case (Waiting addr res now delay)
  with assms(2) have "fst addr = c" by simp
  from cancel_token_same [OF assms(1) this] assms(3,4) Waiting show ?thesis by auto
next
  case (Answered allowed retryAfter)
  with assms show ?thesis by auto
qed

lemma limiter_step_same:
  assumes "owned s" "same_for c s s'" "concerns c a"
  shows "same_for c (limiter_step lib s a) (limiter_step lib s' a)"
proof (cases s; cases s')
  fix rs l rs' l' assume s: "s = (rs, l)" and s': "s' = (rs', l')"
  have same: "same_limiter c l l'" "\<And>n. rs (c, n) = rs' (c, n)"
    using assms(2) s s' by (simp_all add: same_for_def)
  show ?thesis
  proof (cases a)
    case (Start r now)
    then have c: "c = fst r" using assms(3) by simp
    have rs: "rs r = rs' r" using same(2) [of "snd r"] c by simp
    show ?thesis
    proof (cases "rs r")
      case None
      obtain p m p' m' where p: "start_request lib r now l = (p, m)"
        "start_request lib r now l' = (p', m')" by fastforce
      from start_request_same [OF _ p] same c rs None p Start s s' show ?thesis
        by (auto simp: same_for_def)
    qed (use assms(2) Start s s' rs in simp)
  next
    case (Continue r)
    then have c: "c = fst r" using assms(3) by simp
    have rs: "rs r = rs' r" using same(2) [of "snd r"] c by simp
    show ?thesis
    proof (cases "rs r")
      case (Some p)
      obtain q m q' m' where q: "continue_request lib p l = (q, m)"
        "continue_request lib p l' = (q', m')" by fastforce
      have "fst addr = c" if "phase_address p = Some addr" for addr
        using assms(1) s requests_ok_address [of rs l r p addr] Some that c
        by (simp add: owned_def)
      note res = continue_request_same [OF same(1) this q]
      have "rs' r = Some p" using rs Some by simp
      with res same(2) Some q Continue s s' show ?thesis by (auto simp: same_for_def)
    qed (use assms(2) Continue s s' rs in simp)
  next
    case (Tick now)
    with same s s' show ?thesis
      by (auto simp: same_for_def same_limiter_def sweep_tick_def Let_def split: option.splits)
  next
    case Close
    with same s s' show ?thesis by (simp add: same_for_def same_limiter_def close_limiter_def)
  next
    case SweepReturn
    with same s s' show ?thesis by (auto simp: same_for_def same_limiter_def sweep_return_def)
  qed
qed

lemma limiter_start_owned: "owned (Map.empty, new_rate_limiter limit burst)"
  by (simp add: owned_def buckets_ok_def requests_ok_def new_rate_limiter_def Let_def)

lemma limiter_foldl_same:
  "owned s \<Longrightarrow> owned s' \<Longrightarrow> same_for c s s' \<Longrightarrow>
     same_for c (foldl (limiter_step lib) s acts)
       (foldl (limiter_step lib) s' (filter (concerns c) acts))"
proof (induction acts arbitrary: s s')
  case (Cons a acts)
  show ?case
  proof (cases "concerns c a")
    case True
    with Cons.IH [OF limiter_step_owned [OF Cons.prems(1)] limiter_step_owned [OF Cons.prems(2)]
        limiter_step_same [OF Cons.prems(1,3)]]
    show ?thesis by simp
  next
    case False
    with Cons.IH [OF limiter_step_owned [OF Cons.prems(1)] Cons.prems(2)
        same_for_trans [OF limiter_step_other [OF Cons.prems(1)] Cons.prems(3)]]
    show ?thesis by simp
  qed
qed simp

section \<open>Properties\<close>

lemma retry_seconds_least:
  "1 \<le> retry_seconds d" "d \<le> retry_seconds d * 10 ^ 9"
  "retry_seconds d = 1 \<or> (retry_seconds d - 1) * 10 ^ 9 < d"
proof -
  define q m where "q = (- d) div 10 ^ 9" and "m = (- d) mod 10 ^ 9"
  have "- d = q * 10 ^ 9 + m" "0 \<le> m" "m < 10 ^ 9" by (simp_all add: q_def m_def)
  then have d: "- d = q * 1000000000 + m" "0 \<le> m" "m < 1000000000" by simp_all
  show "1 \<le> retry_seconds d" by (simp add: retry_seconds_def)
  show "d \<le> retry_seconds d * 10 ^ 9" "retry_seconds d = 1 \<or> (retry_seconds d - 1) * 10 ^ 9 < d"
    unfolding retry_seconds_def q_def [symmetric] using d by (auto simp: max_def)
qed

text \<open>An uninterrupted request answers what the steps answer.\<close>

lemma allow_steps:
  assumes "buckets_ok l" "rs r = None"
  obtains allowed retryAfter l' where "allow lib r now l = Some ((allowed, retryAfter), l')" "buckets_ok l'"
    "foldl (limiter_step lib) (rs, l) [Start r now, Continue r, Continue r]
       = (rs(r \<mapsto> Answered allowed retryAfter), l')"
proof (cases "limiter_enabled l")
  case True
  obtain addr l1 where f: "find_bucket lib r now l = (addr, l1)" by fastforce
  obtain res l2 where t: "reserve_token lib addr now l1 = Some (res, l2)"
    using reserve_token_there [OF find_bucket_spec(2) [OF f assms(1)], of lib now] by blast
  have b: "buckets_ok l2" using reserve_token_buckets [OF t find_bucket_spec(3) [OF f assms(1)]] .
  show ?thesis
  proof (cases "lib_ok lib res \<and> lib_delay_from lib res now \<noteq> 0")
    case wait: True
    show ?thesis
      by (rule that [of False "lib_delay_from lib res now" "cancel_token lib addr res now l2"])
         (use True f t wait assms cancel_token_buckets [OF b] in
           \<open>simp_all add: allow_def start_request_def Let_def\<close>)
  next
    case verdict: False
    show ?thesis
      by (rule that [of "lib_ok lib res" "if lib_ok lib res then 0 else 10 ^ 9" l2])
         (use True f t verdict assms b in \<open>auto simp: allow_def start_request_def Let_def\<close>)
  qed
next
  case False
  with assms show ?thesis
    by (intro that [of True 0 l]) (simp_all add: allow_def start_request_def)
qed

text \<open>
  The middleware lets the request through with its own chain's result, or refuses it: 429, the
  seconds to wait in the header and in the problem, and the chain's state as it was.
\<close>

lemma rate_limit_cases:
  assumes "buckets_ok l"
  obtains l' resp s' where "next_handler s = (resp, s')" "buckets_ok l'"
    "rate_limit lib n now r (Some c) next_handler l s = Some (resp, l', s')"
  | l' seconds where "buckets_ok l'" "1 \<le> seconds"
    "rate_limit lib n now r (Some c) next_handler l s =
       Some (write_problem_with r [(''Retry-After'', itoa seconds)] (over_budget (rl_limit l') seconds), l', s)"
proof -
  obtain allowed retryAfter l' where a: "allow lib (c, n) now l = Some ((allowed, retryAfter), l')"
    and b: "buckets_ok l'"
    using allow_answers [OF assms, of lib "(c, n)" now] by auto
  obtain resp s' where s: "next_handler s = (resp, s')" by fastforce
  show ?thesis
  proof (cases allowed)
    case True
    with a s show ?thesis by (intro that(1) [OF s b]) (simp add: rate_limit_def)
  next
    case False
    with a show ?thesis
      by (intro that(2) [OF b retry_seconds_least(1) [of retryAfter]]) (simp add: rate_limit_def Let_def)
  qed
qed

text \<open>
  A request adds at most its own client to those tracked, and a sweep only drops some, so the map
  is finite and no larger than the number of requests made.
\<close>

lemma tracked_grows:
  assumes "finite (dom (rl_clients l))"
  shows "find_bucket lib r now l = (addr, l') \<Longrightarrow>
      finite (dom (rl_clients l')) \<and> tracked l' \<le> tracked l + 1"
    and "finite (dom (rl_clients (sweep_tick now l))) \<and> tracked (sweep_tick now l) \<le> tracked l"
proof -
  have dom: "dom (rl_clients l') = insert (fst r) (dom (rl_clients l))"
    if "find_bucket lib r now l = (addr, l')"
    using that by (auto simp: find_bucket_def Let_def split: option.splits)
  show "finite (dom (rl_clients l')) \<and> tracked l' \<le> tracked l + 1"
    if "find_bucket lib r now l = (addr, l')"
    using assms dom [OF that] by (simp add: tracked_def card_insert_if)
  have "dom (rl_clients (sweep_tick now l)) \<subseteq> dom (rl_clients l)"
    by (auto simp: sweep_tick_def Let_def split: option.splits if_splits)
  with assms show "finite (dom (rl_clients (sweep_tick now l))) \<and> tracked (sweep_tick now l) \<le> tracked l"
    by (auto simp: tracked_def intro: finite_subset card_mono)
qed

text \<open>A client whose bucket was swept starts over with a full one.\<close>

lemma swept_client_starts_full:
  assumes "rl_clients l (fst r) = Some b" "cb_seen b < now - rl_ttl l"
    and "find_bucket lib r later (sweep_tick now l) = (addr, l')"
  shows "addr = r \<and> rl_store l' r = Some (lib_new lib (rl_limit l) (rl_burst l))"
  using assms by (auto simp: find_bucket_def sweep_tick_def Let_def)

text \<open>
  C31: one client's load does not touch another's. However the requests of all clients, the
  sweeper's ticks and the limiter's closing interleave, one critical section at a time, where a
  client's request stands and what it is answered is what it would have been had no other
  client made any request at all. Nothing is assumed of the token bucket for this.
\<close>

theorem clients_independent:
  "fst (limiter_run lib acts limit burst) (c, n) =
   fst (limiter_run lib (filter (concerns c) acts) limit burst) (c, n)"
  using limiter_foldl_same [OF limiter_start_owned limiter_start_owned same_for_refl, of c lib limit burst acts]
  by (simp add: limiter_run_def same_for_def)

end
