(* ===== verification/Json.thy ===== *)
theory Json
  imports Strconv
begin

text \<open>
  What the API uses of \<open>encoding/json\<close>: a \<open>Decoder\<close> with \<open>DisallowUnknownFields\<close> reading one value
  into a struct of numbers, strings and flags, and \<open>Marshal\<close> of such a struct. The scanner comes
  first, with the message of each syntax error, then the decoding of the scanned value, which
  keeps going after a type error and reports the first one. The nesting limit of 10000 cannot be
  reached: both callers bound the input to 8192 bytes.
\<close>

section \<open>Scanning\<close>

datatype json =
    JNull
  | JBool bool
  | JNum string
  | JStr string
  | JArr "json list"
  | JObj "(string \<times> json) list"

text \<open>The input ended inside a value; a character is out of place; the fuel ran out.\<close>

datatype json_error = JEnd | JBad string | JFuel

type_synonym 'a scan = "json_error + ('a \<times> string)"

definition quote_byte :: "char \<Rightarrow> string" where
  "quote_byte c =
     (let n = of_char c :: nat in
      [CHR 0x27] @
      (if c = CHR 0x27 then [CHR 0x5C, CHR 0x27]
       else if c = CHR 0x22 then [CHR 0x22]
       else if n < 128 then quote_char c
       else if printed_byte n \<noteq> [] then printed_byte n
       else [CHR 0x5C, CHR ''u'', CHR ''0'', CHR ''0'', hex_digit (n div 16), hex_digit (n mod 16)]) @
      [CHR 0x27])"

definition bad_char :: "char \<Rightarrow> string \<Rightarrow> 'a scan" where
  "bad_char c place = Inl (JBad (''invalid character '' @ quote_byte c @ '' '' @ place))"

definition json_space :: "char \<Rightarrow> bool" where
  "json_space c \<longleftrightarrow> c = CHR '' '' \<or> c = CHR 0x09 \<or> c = CHR 0x0D \<or> c = CHR 0x0A"

definition skip_space :: "string \<Rightarrow> string" where
  "skip_space s = dropWhile json_space s"

fun pushing :: "char \<Rightarrow> string scan \<Rightarrow> string scan" where
  "pushing c (Inl e) = Inl e"
| "pushing c (Inr (s, rest)) = Inr (c # s, rest)"

definition is_hex :: "char \<Rightarrow> bool" where
  "is_hex c \<longleftrightarrow> is_digit c \<or> (65 \<le> (of_char c :: nat) \<and> (of_char c :: nat) \<le> 70) \<or>
     (97 \<le> (of_char c :: nat) \<and> (of_char c :: nat) \<le> 102)"

datatype string_state = InString | InEscape | InHex nat

fun lex_string :: "string_state \<Rightarrow> string \<Rightarrow> string scan" where
  "lex_string st [] = Inl JEnd"
| "lex_string InString (c # cs) =
     (if c = CHR 0x22 then Inr ([], cs)
      else if c = CHR 0x5C then pushing c (lex_string InEscape cs)
      else if (of_char c :: nat) < 32 then bad_char c ''in string literal''
      else pushing c (lex_string InString cs))"
| "lex_string InEscape (c # cs) =
     (if c \<in> set [CHR ''b'', CHR ''f'', CHR ''n'', CHR ''r'', CHR ''t'', CHR 0x5C, CHR ''/'', CHR 0x22]
      then pushing c (lex_string InString cs)
      else if c = CHR ''u'' then pushing c (lex_string (InHex 3) cs)
      else bad_char c ''in string escape code'')"
| "lex_string (InHex n) (c # cs) =
     (if is_hex c then pushing c (lex_string (if n = 0 then InString else InHex (n - 1)) cs)
      else bad_char c (''in '' @ [CHR 0x5C] @ ''u hexadecimal character escape''))"

datatype number_state = AfterMinus | AfterZero | InDigits | AfterDot | InFraction | AfterE | AfterSign | InExponent

text \<open>The states at which a number may end are those after a complete part of it.\<close>

definition number_done :: "number_state \<Rightarrow> bool" where
  "number_done st \<longleftrightarrow> st \<in> {AfterZero, InDigits, InFraction, InExponent}"

fun lex_number :: "number_state \<Rightarrow> string \<Rightarrow> string scan" where
  "lex_number st [] = (if number_done st then Inr ([], []) else Inl JEnd)"
| "lex_number AfterMinus (c # cs) =
     (if c = CHR ''0'' then pushing c (lex_number AfterZero cs)
      else if is_digit c then pushing c (lex_number InDigits cs)
      else bad_char c ''in numeric literal'')"
| "lex_number InDigits (c # cs) =
     (if is_digit c then pushing c (lex_number InDigits cs)
      else if c = CHR ''.'' then pushing c (lex_number AfterDot cs)
      else if c = CHR ''e'' \<or> c = CHR ''E'' then pushing c (lex_number AfterE cs)
      else Inr ([], c # cs))"
| "lex_number AfterZero (c # cs) =
     (if c = CHR ''.'' then pushing c (lex_number AfterDot cs)
      else if c = CHR ''e'' \<or> c = CHR ''E'' then pushing c (lex_number AfterE cs)
      else Inr ([], c # cs))"
| "lex_number AfterDot (c # cs) =
     (if is_digit c then pushing c (lex_number InFraction cs)
      else bad_char c ''after decimal point in numeric literal'')"
| "lex_number InFraction (c # cs) =
     (if is_digit c then pushing c (lex_number InFraction cs)
      else if c = CHR ''e'' \<or> c = CHR ''E'' then pushing c (lex_number AfterE cs)
      else Inr ([], c # cs))"
| "lex_number AfterE (c # cs) =
     (if c = CHR ''+'' \<or> c = CHR ''-'' then pushing c (lex_number AfterSign cs)
      else if is_digit c then pushing c (lex_number InExponent cs)
      else bad_char c ''in exponent of numeric literal'')"
| "lex_number AfterSign (c # cs) =
     (if is_digit c then pushing c (lex_number InExponent cs)
      else bad_char c ''in exponent of numeric literal'')"
| "lex_number InExponent (c # cs) =
     (if is_digit c then pushing c (lex_number InExponent cs) else Inr ([], c # cs))"

text \<open>The letters of \<open>true\<close>, \<open>false\<close> and \<open>null\<close> that are still expected.\<close>

fun lex_word :: "string \<Rightarrow> string \<Rightarrow> 'a \<Rightarrow> string \<Rightarrow> 'a scan" where
  "lex_word name [] v s = Inr (v, s)"
| "lex_word name (x # xs) v [] = Inl JEnd"
| "lex_word name (x # xs) v (c # cs) =
     (if c = x then lex_word name xs v cs
      else bad_char c (''in literal '' @ name @ '' (expecting '' @ quote_byte x @ '')''))"

fun scan_map :: "('a \<Rightarrow> 'b) \<Rightarrow> 'a scan \<Rightarrow> 'b scan" where
  "scan_map f (Inl e) = Inl e"
| "scan_map f (Inr (v, rest)) = Inr (f v, rest)"

fun scan_bind :: "'a scan \<Rightarrow> ('a \<Rightarrow> string \<Rightarrow> 'b scan) \<Rightarrow> 'b scan" where
  "scan_bind (Inl e) f = Inl e"
| "scan_bind (Inr (v, rest)) f = f v rest"

text \<open>
  The value, the members of an object from a key on, the elements of an array from a value on.
  Every second call is on a shorter input, so fuel above twice the length of the input is enough.
\<close>

fun json_value :: "nat \<Rightarrow> string \<Rightarrow> json scan"
  and json_members :: "nat \<Rightarrow> string \<Rightarrow> (string \<times> json) list scan"
  and json_elements :: "nat \<Rightarrow> string \<Rightarrow> json list scan" where
  "json_value 0 s = Inl JFuel"
| "json_value (Suc n) s =
     (case skip_space s of
        [] \<Rightarrow> Inl JEnd
      | c # cs \<Rightarrow>
          if c = CHR ''{'' then
            (case skip_space cs of
               [] \<Rightarrow> Inl JEnd
             | d # ds \<Rightarrow> if d = CHR ''}'' then Inr (JObj [], ds) else scan_map JObj (json_members n cs))
          else if c = CHR ''['' then
            (case skip_space cs of
               [] \<Rightarrow> Inl JEnd
             | d # ds \<Rightarrow> if d = CHR '']'' then Inr (JArr [], ds) else scan_map JArr (json_elements n cs))
          else if c = CHR 0x22 then scan_map JStr (lex_string InString cs)
          else if c = CHR ''-'' then scan_map JNum (pushing c (lex_number AfterMinus cs))
          else if c = CHR ''0'' then scan_map JNum (pushing c (lex_number AfterZero cs))
          else if is_digit c then scan_map JNum (pushing c (lex_number InDigits cs))
          else if c = CHR ''t'' then lex_word ''true'' ''rue'' (JBool True) cs
          else if c = CHR ''f'' then lex_word ''false'' ''alse'' (JBool False) cs
          else if c = CHR ''n'' then lex_word ''null'' ''ull'' JNull cs
          else bad_char c ''looking for beginning of value'')"
| "json_members 0 s = Inl JFuel"
| "json_members (Suc n) s =
     (case skip_space s of
        [] \<Rightarrow> Inl JEnd
      | c # cs \<Rightarrow>
          if c \<noteq> CHR 0x22 then bad_char c ''looking for beginning of object key string''
          else scan_bind (lex_string InString cs) (\<lambda>key r1.
           (case skip_space r1 of
              [] \<Rightarrow> Inl JEnd
            | d # r2 \<Rightarrow>
                if d \<noteq> CHR '':'' then bad_char d ''after object key''
                else scan_bind (json_value n r2) (\<lambda>v r3.
                 (case skip_space r3 of
                    [] \<Rightarrow> Inl JEnd
                  | e # r4 \<Rightarrow>
                      if e = CHR '','' then scan_map (\<lambda>ms. (key, v) # ms) (json_members n r4)
                      else if e = CHR ''}'' then Inr ([(key, v)], r4)
                      else bad_char e ''after object key:value pair'')))))"
| "json_elements 0 s = Inl JFuel"
| "json_elements (Suc n) s =
     scan_bind (json_value n s) (\<lambda>v r1.
      (case skip_space r1 of
         [] \<Rightarrow> Inl JEnd
       | c # r2 \<Rightarrow>
           if c = CHR '','' then scan_map (\<lambda>vs. v # vs) (json_elements n r2)
           else if c = CHR '']'' then Inr ([v], r2)
           else bad_char c ''after array element''))"

section \<open>Strings\<close>

text \<open>
  UTF-8: the width of the rune at the front, 0 when its bytes are not valid; and the bytes of a
  rune.
\<close>

definition between :: "nat \<Rightarrow> nat \<Rightarrow> char \<Rightarrow> bool" where
  "between lo hi c \<longleftrightarrow> lo \<le> of_char c \<and> of_char c \<le> hi"

abbreviation continuation :: "char \<Rightarrow> bool" where
  "continuation \<equiv> between 0x80 0xBF"

definition utf8_width :: "string \<Rightarrow> nat" where
  "utf8_width s =
     (case s of
        c0 # c1 # _ \<Rightarrow>
          if between 0xC2 0xDF c0 then (if continuation c1 then 2 else 0)
          else if between 0xE0 0xEF c0 then
            (if length s \<ge> 3 \<and> continuation (s ! 2) \<and>
                (if c0 = CHR 0xE0 then between 0xA0 0xBF c1
                 else if c0 = CHR 0xED then between 0x80 0x9F c1 else continuation c1) then 3 else 0)
          else if between 0xF0 0xF4 c0 then
            (if length s \<ge> 4 \<and> continuation (s ! 2) \<and> continuation (s ! 3) \<and>
                (if c0 = CHR 0xF0 then between 0x90 0xBF c1
                 else if c0 = CHR 0xF4 then between 0x80 0x8F c1 else continuation c1) then 4 else 0)
          else 0
      | _ \<Rightarrow> 0)"

definition utf8_encode :: "nat \<Rightarrow> string" where
  "utf8_encode r =
     (if r < 0x80 then [char_of r]
      else if r < 0x800 then [char_of (0xC0 + r div 0x40), char_of (0x80 + r mod 0x40)]
      else if r < 0x10000 then
        [char_of (0xE0 + r div 0x1000), char_of (0x80 + r div 0x40 mod 0x40), char_of (0x80 + r mod 0x40)]
      else [char_of (0xF0 + r div 0x40000), char_of (0x80 + r div 0x1000 mod 0x40),
            char_of (0x80 + r div 0x40 mod 0x40), char_of (0x80 + r mod 0x40)])"

definition replacement :: string where "replacement = [CHR 0xEF, CHR 0xBF, CHR 0xBD]"

definition hex_number :: "char \<Rightarrow> nat" where
  "hex_number c =
     (let n = of_char c :: nat in
      if n \<le> 57 then n - 48 else if n \<le> 70 then n - 55 else n - 87)"

definition hex4 :: "string \<Rightarrow> nat" where
  "hex4 s = foldl (\<lambda>acc c. acc * 16 + hex_number c) 0 (take 4 s)"

definition unescape :: "char \<Rightarrow> char" where
  "unescape c =
     (if c = CHR ''b'' then CHR 0x08 else if c = CHR ''f'' then CHR 0x0C
      else if c = CHR ''n'' then CHR 0x0A else if c = CHR ''r'' then CHR 0x0D
      else if c = CHR ''t'' then CHR 0x09 else c)"

text \<open>
  The text of a scanned string. A lone surrogate and a byte that is not UTF-8 become U+FFFD.
\<close>

function unquote :: "string \<Rightarrow> string" where
  "unquote [] = []"
| "unquote (c # cs) =
     (if c = CHR 0x5C then
       (case cs of
          [] \<Rightarrow> []
        | e # es \<Rightarrow>
            if e \<noteq> CHR ''u'' then unescape e # unquote es
            else (let r = hex4 es; rest = drop 4 es; r2 = hex4 (drop 2 rest) in
              if r < 0xD800 \<or> 0xE000 \<le> r then utf8_encode r @ unquote rest
              else if r < 0xDC00 \<and> take 2 rest = [CHR 0x5C, CHR ''u''] \<and> 0xDC00 \<le> r2 \<and> r2 < 0xE000
              then utf8_encode (0x10000 + (r - 0xD800) * 0x400 + (r2 - 0xDC00)) @ unquote (drop 6 rest)
              else replacement @ unquote rest))
      else if (of_char c :: nat) < 128 then c # unquote cs
      else if utf8_width (c # cs) = 0 then replacement @ unquote cs
      else take (utf8_width (c # cs)) (c # cs) @ unquote (drop (utf8_width (c # cs) - 1) cs))"
  by pat_completeness auto
termination by (relation "measure length") auto

declare unquote.simps [simp del]

text \<open>
  Keys are matched without regard to case. Of the runes outside ASCII only U+017F and U+212A
  fold to letters, to S and K.
\<close>

definition upper_char :: "char \<Rightarrow> char" where
  "upper_char c = (if between 97 122 c then char_of ((of_char c :: nat) - 32) else c)"

fun fold_key :: "string \<Rightarrow> string" where
  "fold_key [] = []"
| "fold_key (c # cs) =
     (case cs of
        d # ds \<Rightarrow>
          if c = CHR 0xC5 \<and> d = CHR 0xBF then CHR ''S'' # fold_key ds
          else if c = CHR 0xE2 \<and> take 2 cs = [CHR 0x84, CHR 0xAA] then CHR ''K'' # fold_key (drop 2 cs)
          else upper_char c # fold_key cs
      | [] \<Rightarrow> [upper_char c])"

section \<open>Decoding into a struct\<close>

datatype field_kind = KInt | KString | KBool
datatype field_value = FInt int | FString string | FBool bool

definition kind_name :: "field_kind \<Rightarrow> string" where
  "kind_name k = (case k of KInt \<Rightarrow> ''int'' | KString \<Rightarrow> ''string'' | KBool \<Rightarrow> ''bool'')"

definition json_kind :: "json \<Rightarrow> string" where
  "json_kind v =
     (case v of JNull \<Rightarrow> ''null'' | JBool _ \<Rightarrow> ''bool'' | JNum _ \<Rightarrow> ''number'' | JStr _ \<Rightarrow> ''string''
      | JArr _ \<Rightarrow> ''array'' | JObj _ \<Rightarrow> ''object'')"

text \<open>A value for a field: what the field is set to, if at all, or what it was that did not fit.\<close>

fun store_field :: "field_kind \<Rightarrow> json \<Rightarrow> string + field_value option" where
  "store_field k JNull = Inr None"
| "store_field KInt (JNum t) =
     (case parse_int t of Some n \<Rightarrow> Inr (Some (FInt n)) | None \<Rightarrow> Inl (''number '' @ t))"
| "store_field KString (JStr raw) = Inr (Some (FString (unquote raw)))"
| "store_field KBool (JBool b) = Inr (Some (FBool b))"
| "store_field k v = Inl (json_kind v)"

definition type_error :: "string \<Rightarrow> string \<Rightarrow> string \<Rightarrow> string \<Rightarrow> goerr" where
  "type_error got struct field kind =
     EText (''json: cannot unmarshal '' @ got @ '' into Go struct field '' @ struct @ ''.'' @ field @
            '' of type '' @ kind)"

text \<open>
  The members in order: \<open>vals\<close> holds the fields set so far, \<open>err\<close> the first error. Members go on
  after an error, and a later one for the same field wins.
\<close>

type_synonym field_values = "string \<rightharpoonup> field_value"

fun store_members ::
  "string \<Rightarrow> (string \<times> field_kind) list \<Rightarrow> (string \<times> json) list \<Rightarrow> field_values \<Rightarrow> goerr option \<Rightarrow>
   field_values \<times> goerr option" where
  "store_members struct fds [] vals err = (vals, err)"
| "store_members struct fds ((raw, v) # ms) vals err =
     (let key = unquote raw;
          saved = (\<lambda>e. case err of None \<Rightarrow> Some e | Some _ \<Rightarrow> err) in
      case find (\<lambda>(f, k). f = key \<or> fold_key f = fold_key key) fds of
        None \<Rightarrow> store_members struct fds ms vals (saved (EText (''json: unknown field '' @ quote key)))
      | Some (f, k) \<Rightarrow>
         (case store_field k v of
            Inl got \<Rightarrow> store_members struct fds ms vals (saved (type_error got struct f (kind_name k)))
          | Inr None \<Rightarrow> store_members struct fds ms vals err
          | Inr (Some x) \<Rightarrow> store_members struct fds ms (vals(f \<mapsto> x)) err))"

definition ErrEOF :: goerr where "ErrEOF = ENew ''io.EOF'' ''EOF''"
definition ErrUnexpectedEOF :: goerr where
  "ErrUnexpectedEOF = ENew ''io.ErrUnexpectedEOF'' ''unexpected EOF''"
definition ErrBodyTooLarge :: goerr where
  "ErrBodyTooLarge = EText ''http: request body too large''"

text \<open>
  \<open>Decode\<close>, reading from a body of which at most \<open>limit\<close> bytes may be read when a limit is given:
  reading on after them is an error. The end of an object or array is known at its last byte,
  that of any other value only one byte later. What follows the value is not looked at.
\<close>

definition closed_value :: "json \<Rightarrow> bool" where
  "closed_value v = (case v of JObj _ \<Rightarrow> True | JArr _ \<Rightarrow> True | _ \<Rightarrow> False)"

definition read_json :: "nat option \<Rightarrow> string \<Rightarrow> json res" where
  "read_json limit body =
     (let seen = (case limit of None \<Rightarrow> body | Some n \<Rightarrow> take n body);
          cut = (length seen < length body) in
      case json_value (Suc (2 * length seen)) seen of
        Inl JEnd \<Rightarrow> Inl (if cut then ErrBodyTooLarge
                          else if list_all json_space seen then ErrEOF else ErrUnexpectedEOF)
      | Inl (JBad m) \<Rightarrow> Inl (EText m)
      | Inl JFuel \<Rightarrow> Inl (EText ''exceeded max depth'')
      | Inr (v, rest) \<Rightarrow> if cut \<and> rest = [] \<and> \<not> closed_value v then Inl ErrBodyTooLarge else Inr v)"

definition decode_struct ::
  "string \<Rightarrow> (string \<times> field_kind) list \<Rightarrow> nat option \<Rightarrow> string \<Rightarrow> field_values res" where
  "decode_struct struct fds limit body =
     (case read_json limit body of
        Inl e \<Rightarrow> Inl e
      | Inr (JObj ms) \<Rightarrow>
         (case store_members struct fds ms Map.empty None of
            (vals, None) \<Rightarrow> Inr vals
          | (_, Some e) \<Rightarrow> Inl e)
      | Inr JNull \<Rightarrow> Inr Map.empty
      | Inr v \<Rightarrow> Inl (EText (''json: cannot unmarshal '' @ json_kind v @ '' into Go value of type httpapi.'' @ struct)))"

definition int_field :: "field_values \<Rightarrow> string \<Rightarrow> int" where
  "int_field vals f = (case vals f of Some (FInt n) \<Rightarrow> n | _ \<Rightarrow> 0)"
definition string_field :: "field_values \<Rightarrow> string \<Rightarrow> string" where
  "string_field vals f = (case vals f of Some (FString t) \<Rightarrow> t | _ \<Rightarrow> [])"
definition bool_field :: "field_values \<Rightarrow> string \<Rightarrow> bool" where
  "bool_field vals f = (case vals f of Some (FBool b) \<Rightarrow> b | _ \<Rightarrow> False)"

section \<open>Encoding a struct\<close>

text \<open>\<open>Marshal\<close> of a string, with the escapes that keep it safe inside HTML.\<close>

definition escape_ascii :: "char \<Rightarrow> string" where
  "escape_ascii c =
     (if c = CHR 0x22 \<or> c = CHR 0x5C then [CHR 0x5C, c]
      else if c = CHR 0x08 then [CHR 0x5C, CHR ''b''] else if c = CHR 0x0C then [CHR 0x5C, CHR ''f'']
      else if c = CHR 0x0A then [CHR 0x5C, CHR ''n''] else if c = CHR 0x0D then [CHR 0x5C, CHR ''r'']
      else if c = CHR 0x09 then [CHR 0x5C, CHR ''t'']
      else if (of_char c :: nat) < 32 \<or> c = CHR ''<'' \<or> c = CHR ''>'' \<or> c = CHR ''&''
      then [CHR 0x5C, CHR ''u'', CHR ''0'', CHR ''0'', hex_digit (of_char c div 16), hex_digit (of_char c mod 16)]
      else [c])"

function escape_json :: "string \<Rightarrow> string" where
  "escape_json [] = []"
| "escape_json (c # cs) =
     (if (of_char c :: nat) < 128 then escape_ascii c @ escape_json cs
      else if utf8_width (c # cs) = 0 then [CHR 0x5C] @ ''ufffd'' @ escape_json cs
      else if take 2 (c # cs) = [CHR 0xE2, CHR 0x80] \<and> ((c # cs) ! 2 = CHR 0xA8 \<or> (c # cs) ! 2 = CHR 0xA9)
      then [CHR 0x5C] @ ''u202'' @ [hex_digit (of_char ((c # cs) ! 2) mod 16)] @ escape_json (drop 2 cs)
      else take (utf8_width (c # cs)) (c # cs) @ escape_json (drop (utf8_width (c # cs) - 1) cs))"
  by pat_completeness auto
termination by (relation "measure length") auto

declare escape_json.simps [simp del]

definition json_string :: "string \<Rightarrow> string" where
  "json_string s = [CHR 0x22] @ escape_json s @ [CHR 0x22]"

fun json_field :: "field_value \<Rightarrow> string" where
  "json_field (FInt n) = itoa n"
| "json_field (FString t) = json_string t"
| "json_field (FBool b) = (if b then ''true'' else ''false'')"

fun json_member :: "string \<times> field_value \<Rightarrow> string" where
  "json_member (k, v) = json_string k @ '':'' @ json_field v"

definition json_struct :: "(string \<times> field_value) list \<Rightarrow> string" where
  "json_struct ms = ''{'' @ join_with '','' (map json_member ms) @ ''}''"

end
