(* ===== verification/Media.thy ===== *)
theory Media
  imports Json Ports
begin

text \<open>
  \<open>internal/adapters/httpapi/media.go\<close>: what an upload is, told from its first bytes. It rests on
  \<open>http.DetectContentType\<close>, whose table of signatures is written out here.
\<close>

section \<open>http.DetectContentType\<close>

text \<open>
  A mask is a list of flags, \<open>False\<close> for a byte that is not looked at. A tag is compared without
  regard to case and must be followed by a space or a closing bracket.
\<close>

datatype signature =
    Exact string string
  | Masked "bool list" string bool string
  | Tag string
  | Mp4
  | PlainText

definition is_ws :: "char \<Rightarrow> bool" where
  "is_ws c \<longleftrightarrow> c \<in> set [CHR 0x09, CHR 0x0A, CHR 0x0C, CHR 0x0D, CHR '' '']"

fun same_tag :: "string \<Rightarrow> string \<Rightarrow> bool" where
  "same_tag [] data = (case data of [] \<Rightarrow> False | d # ds \<Rightarrow> d = CHR '' '' \<or> d = CHR ''>'')"
| "same_tag (h # hs) [] = False"
| "same_tag (h # hs) (d # ds) =
     ((if between 65 90 h then d = h \<or> d = char_of ((of_char h :: nat) + 32) else d = h) \<and> same_tag hs ds)"

fun same_masked :: "bool list \<Rightarrow> string \<Rightarrow> string \<Rightarrow> bool" where
  "same_masked (m # ms) (p # ps) (d # ds) = ((m \<longrightarrow> d = p) \<and> same_masked ms ps ds)"
| "same_masked (m # ms) (p # ps) [] = False"
| "same_masked [] [] data = True"
| "same_masked ms ps data = False"

definition big_endian32 :: "string \<Rightarrow> nat" where
  "big_endian32 s = foldl (\<lambda>acc c. acc * 256 + of_char c) 0 (take 4 s)"

text \<open>The brands of an ISO media file, four bytes each from the eighth on, less the version.\<close>

definition is_mp4 :: "string \<Rightarrow> bool" where
  "is_mp4 data =
     (let boxed = big_endian32 data in
      12 \<le> length data \<and> boxed \<le> length data \<and> boxed mod 4 = 0 \<and>
      take 4 (drop 4 data) = ''ftyp'' \<and>
      list_ex (\<lambda>i. let st = 8 + 4 * i in st < boxed \<and> st \<noteq> 12 \<and> take 3 (drop st data) = ''mp4'')
        [0..<length data])"

definition binary_byte :: "char \<Rightarrow> bool" where
  "binary_byte c \<longleftrightarrow> between 0x00 0x08 c \<or> c = CHR 0x0B \<or> between 0x0E 0x1A c \<or> between 0x1C 0x1F c"

fun sig_match :: "signature \<Rightarrow> string \<Rightarrow> string option" where
  "sig_match (Exact p ct) data = (if has_prefix data p then Some ct else None)"
| "sig_match (Masked mk p skip ct) data =
     (if same_masked mk p (if skip then dropWhile is_ws data else data) then Some ct else None)"
| "sig_match (Tag h) data =
     (if same_tag h (dropWhile is_ws data) then Some ''text/html; charset=utf-8'' else None)"
| "sig_match Mp4 data = (if is_mp4 data then Some ''video/mp4'' else None)"
| "sig_match PlainText data =
     (if list_ex binary_byte (dropWhile is_ws data) then None else Some ''text/plain; charset=utf-8'')"

definition exact_mask :: "string \<Rightarrow> bool list" where
  "exact_mask s = replicate (length s) True"

text \<open>A container: four bytes, four of a size, then the kind.\<close>

definition container :: "string \<Rightarrow> string \<Rightarrow> string \<Rightarrow> signature" where
  "container outer inner ct =
     Masked (exact_mask outer @ replicate 4 False @ exact_mask inner)
       (outer @ replicate 4 (CHR 0x00) @ inner) False ct"

definition sniff_signatures :: "signature list" where
  "sniff_signatures =
     map Tag [''<!DOCTYPE HTML'', ''<HTML'', ''<HEAD'', ''<SCRIPT'', ''<IFRAME'', ''<H1'', ''<DIV'', ''<FONT'',
       ''<TABLE'', ''<A'', ''<STYLE'', ''<TITLE'', ''<B'', ''<BODY'', ''<BR'', ''<P'', ''<!--''] @
     [Masked (exact_mask ''<?xml'') ''<?xml'' True ''text/xml; charset=utf-8'',
      Exact ''%PDF-'' ''application/pdf'',
      Exact ''%!PS-Adobe-'' ''application/postscript'',
      Masked [True, True, False, False] [CHR 0xFE, CHR 0xFF, CHR 0x00, CHR 0x00] False
        ''text/plain; charset=utf-16be'',
      Masked [True, True, False, False] [CHR 0xFF, CHR 0xFE, CHR 0x00, CHR 0x00] False
        ''text/plain; charset=utf-16le'',
      Masked [True, True, True, False] [CHR 0xEF, CHR 0xBB, CHR 0xBF, CHR 0x00] False
        ''text/plain; charset=utf-8'',
      Exact [CHR 0x00, CHR 0x00, CHR 0x01, CHR 0x00] ''image/x-icon'',
      Exact [CHR 0x00, CHR 0x00, CHR 0x02, CHR 0x00] ''image/x-icon'',
      Exact ''BM'' ''image/bmp'',
      Exact ''GIF87a'' ''image/gif'',
      Exact ''GIF89a'' ''image/gif'',
      container ''RIFF'' ''WEBPVP'' ''image/webp'',
      Exact ([CHR 0x89] @ ''PNG'' @ [CHR 0x0D, CHR 0x0A, CHR 0x1A, CHR 0x0A]) ''image/png'',
      Exact [CHR 0xFF, CHR 0xD8, CHR 0xFF] ''image/jpeg'',
      container ''FORM'' ''AIFF'' ''audio/aiff'',
      Masked (exact_mask ''ID3'') ''ID3'' False ''audio/mpeg'',
      Masked (exact_mask ''OggSx'') (''OggS'' @ [CHR 0x00]) False ''application/ogg'',
      Masked (exact_mask ''MThdxxxx'') (''MThd'' @ [CHR 0x00, CHR 0x00, CHR 0x00, CHR 0x06]) False ''audio/midi'',
      container ''RIFF'' ''AVI '' ''video/avi'',
      container ''RIFF'' ''WAVE'' ''audio/wave'',
      Mp4,
      Exact [CHR 0x1A, CHR 0x45, CHR 0xDF, CHR 0xA3] ''video/webm'',
      Masked (replicate 34 False @ [True, True]) (replicate 34 (CHR 0x00) @ ''LP'') False
        ''application/vnd.ms-fontobject'',
      Exact [CHR 0x00, CHR 0x01, CHR 0x00, CHR 0x00] ''font/ttf'',
      Exact ''OTTO'' ''font/otf'',
      Exact ''ttcf'' ''font/collection'',
      Exact ''wOFF'' ''font/woff'',
      Exact ''wOF2'' ''font/woff2'',
      Exact [CHR 0x1F, CHR 0x8B, CHR 0x08] ''application/x-gzip'',
      Exact ([CHR ''P'', CHR ''K'', CHR 0x03, CHR 0x04]) ''application/zip'',
      Exact (''Rar!'' @ [CHR 0x1A, CHR 0x07, CHR 0x00]) ''application/x-rar-compressed'',
      Exact (''Rar!'' @ [CHR 0x1A, CHR 0x07, CHR 0x01, CHR 0x00]) ''application/x-rar-compressed'',
      Exact [CHR 0x00, CHR 0x61, CHR 0x73, CHR 0x6D] ''application/wasm'',
      PlainText]"

fun first_match :: "signature list \<Rightarrow> string \<Rightarrow> string" where
  "first_match [] data = ''application/octet-stream''"
| "first_match (s # ss) data = (case sig_match s data of Some ct \<Rightarrow> ct | None \<Rightarrow> first_match ss data)"

definition detect_content_type :: "string \<Rightarrow> string" where
  "detect_content_type data = first_match sniff_signatures (take 512 data)"

section \<open>The media type of an upload\<close>

definition ErrUnsupportedMediaType :: goerr where
  "ErrUnsupportedMediaType = ENew ''httpapi.ErrUnsupportedMediaType'' ''unsupported media type''"

declare ErrUnsupportedMediaType_def [go_errors] ErrEOF_def [go_errors]

definition AllowedMediaTypes :: "string list" where
  "AllowedMediaTypes =
     [''image/jpeg'', ''image/png'', ''image/webp'', ''image/gif'', ''image/avif'', ''image/bmp'']"

definition sniffLen :: nat where "sniffLen = 512"

definition normalize_media_type :: "string \<Rightarrow> string" where
  "normalize_media_type value = (case cut_at CHR '';'' value of (base, _, _) \<Rightarrow> to_lower (trim_space base))"

definition allowed_media_type :: "string \<Rightarrow> bool" where
  "allowed_media_type mediaType \<longleftrightarrow> mediaType \<in> set AllowedMediaTypes"

definition sniffed_type :: "string \<Rightarrow> string" where
  "sniffed_type head =
     (if 12 \<le> length head \<and> take 4 head = ''RIFF'' \<and> take 4 (drop 8 head) = ''WEBP'' then ''image/webp''
      else if 12 \<le> length head \<and> take 4 (drop 4 head) = ''ftyp'' \<and>
              (take 4 (drop 8 head) = ''avif'' \<or> take 4 (drop 8 head) = ''avis'') then ''image/avif''
      else normalize_media_type (detect_content_type head))"

text \<open>
  The first bytes are peeked at: the buffer fills until it has them or reading fails, and the
  reader handed on starts with what was buffered, so it yields what the upload yields.
\<close>

definition sniff_media_type :: "reader \<Rightarrow> (string \<times> reader) res" where
  "sniff_media_type body =
     (let head = take sniffLen (reader_bytes body);
          err = (if length head < sniffLen then reader_err body else None) in
      case (case err of Some e \<Rightarrow> if errors_is e ErrEOF then None else Some e | None \<Rightarrow> None) of
        Some e \<Rightarrow> Inl (EWrap ''read the start of the upload: '' e [])
      | None \<Rightarrow>
          if head = [] then Inl (EWrap [] ErrUnsupportedMediaType '': the upload is empty'')
          else Inr (sniffed_type head, body))"

section \<open>What the table says of images\<close>

fun sig_type :: "signature \<Rightarrow> string" where
  "sig_type (Exact p ct) = ct"
| "sig_type (Masked mk p skip ct) = ct"
| "sig_type (Tag h) = ''text/html; charset=utf-8''"
| "sig_type Mp4 = ''video/mp4''"
| "sig_type PlainText = ''text/plain; charset=utf-8''"

lemma sig_match_type: "sig_match s data = Some ct \<Longrightarrow> ct = sig_type s"
  by (cases s) (auto split: if_splits)

lemma first_match_some:
  "(\<exists>s \<in> set ss. sig_match s data = Some (first_match ss data)) \<or>
   first_match ss data = ''application/octet-stream''"
  by (induction ss) (auto split: option.splits)

definition image_signatures :: "signature list" where
  "image_signatures =
     [Exact ''BM'' ''image/bmp'', Exact ''GIF87a'' ''image/gif'', Exact ''GIF89a'' ''image/gif'',
      container ''RIFF'' ''WEBPVP'' ''image/webp'',
      Exact ([CHR 0x89] @ ''PNG'' @ [CHR 0x0D, CHR 0x0A, CHR 0x1A, CHR 0x0A]) ''image/png'',
      Exact [CHR 0xFF, CHR 0xD8, CHR 0xFF] ''image/jpeg'']"

lemma allowed_signatures:
  "filter (\<lambda>s. allowed_media_type (normalize_media_type (sig_type s))) sniff_signatures = image_signatures"
  by code_simp

lemma octets_not_allowed: "\<not> allowed_media_type (normalize_media_type ''application/octet-stream'')"
  by code_simp

text \<open>The signatures of the accepted types, as their formats document them.\<close>

definition image_kind :: "string \<Rightarrow> string option" where
  "image_kind s =
     (if 12 \<le> length s \<and> take 4 s = ''RIFF'' \<and> take 4 (drop 8 s) = ''WEBP'' then Some ''image/webp''
      else if 12 \<le> length s \<and> take 4 (drop 4 s) = ''ftyp'' \<and>
              (take 4 (drop 8 s) = ''avif'' \<or> take 4 (drop 8 s) = ''avis'') then Some ''image/avif''
      else if has_prefix s [CHR 0xFF, CHR 0xD8, CHR 0xFF] then Some ''image/jpeg''
      else if has_prefix s ([CHR 0x89] @ ''PNG'' @ [CHR 0x0D, CHR 0x0A, CHR 0x1A, CHR 0x0A]) then Some ''image/png''
      else if has_prefix s ''GIF87a'' \<or> has_prefix s ''GIF89a'' then Some ''image/gif''
      else if has_prefix s ''BM'' then Some ''image/bmp''
      else None)"

lemma detected_image:
  assumes "allowed_media_type (normalize_media_type (first_match sniff_signatures data))"
  shows "\<exists>s \<in> set image_signatures. sig_match s data \<noteq> None \<and> first_match sniff_signatures data = sig_type s"
proof -
  from first_match_some [of sniff_signatures data] assms octets_not_allowed
  obtain s where s: "s \<in> set sniff_signatures" "sig_match s data = Some (first_match sniff_signatures data)"
    by metis
  note type = sig_match_type [OF s(2)]
  from s(1) assms type have "s \<in> set (filter (\<lambda>s. allowed_media_type (normalize_media_type (sig_type s))) sniff_signatures)"
    by simp
  then have "s \<in> set image_signatures" unfolding allowed_signatures .
  with s type show ?thesis by auto
qed

text \<open>Only the signatures that can start with the first byte need to be looked at.\<close>

fun may_start :: "signature \<Rightarrow> char \<Rightarrow> bool" where
  "may_start (Exact p ct) c = (p = [] \<or> hd p = c)"
| "may_start (Masked mk p skip ct) c = (mk = [] \<or> (hd mk \<longrightarrow> p \<noteq> [] \<and> hd p = c))"
| "may_start (Tag h) c = (h = [] \<or> between 65 90 (hd h) \<or> hd h = c)"
| "may_start Mp4 c = True"
| "may_start PlainText c = True"

lemma may_start_match: "\<not> is_ws c \<Longrightarrow> \<not> may_start s c \<Longrightarrow> sig_match s (c # cs) = None"
proof (cases s)
  case (Exact p ct)
  assume "\<not> may_start s c"
  with Exact show ?thesis by (cases p) (auto simp: has_prefix_iff)
next
  case (Masked mk p skip ct)
  assume "\<not> is_ws c" "\<not> may_start s c"
  with Masked show ?thesis by (cases mk; cases p) auto
next
  case (Tag h)
  assume "\<not> is_ws c" "\<not> may_start s c"
  with Tag show ?thesis by (cases h) auto
qed auto

lemma first_match_start:
  "\<not> is_ws c \<Longrightarrow> first_match ss (c # cs) = first_match (filter (\<lambda>s. may_start s c) ss) (c # cs)"
  by (induction ss) (auto simp: may_start_match split: option.splits)

definition starts :: "char \<Rightarrow> signature list" where
  "starts c = filter (\<lambda>s. may_start s c) sniff_signatures"

lemma starts_image:
  "take 2 (starts CHR 0xFF) =
     [Masked [True, True, False, False] [CHR 0xFF, CHR 0xFE, CHR 0x00, CHR 0x00] False
        ''text/plain; charset=utf-16le'', Exact [CHR 0xFF, CHR 0xD8, CHR 0xFF] ''image/jpeg'']"
  "take 1 (starts CHR 0x89) =
     [Exact ([CHR 0x89] @ ''PNG'' @ [CHR 0x0D, CHR 0x0A, CHR 0x1A, CHR 0x0A]) ''image/png'']"
  "take 2 (starts CHR ''G'') = [Exact ''GIF87a'' ''image/gif'', Exact ''GIF89a'' ''image/gif'']"
  "take 1 (starts CHR ''B'') = [Exact ''BM'' ''image/bmp'']"
  by code_simp+

lemma first_match_take:
  assumes "\<not> is_ws c" "take n (starts c) = ts" "\<exists>s \<in> set ts. sig_match s (c # cs) \<noteq> None"
  shows "first_match sniff_signatures (c # cs) = first_match ts (c # cs)"
proof -
  have found: "first_match (as @ bs) d = first_match as d" if "\<exists>s \<in> set as. sig_match s d \<noteq> None" for as bs d
    using that by (induction as) (auto split: option.splits)
  have "first_match sniff_signatures (c # cs) = first_match (ts @ drop n (starts c)) (c # cs)"
    unfolding first_match_start [OF assms(1), of sniff_signatures] starts_def [symmetric]
      assms(2) [symmetric] by simp
  with found [OF assms(3)] show ?thesis by simp
qed

lemma image_not_ws: "\<not> is_ws CHR 0xFF" "\<not> is_ws CHR 0x89" "\<not> is_ws CHR ''G''" "\<not> is_ws CHR ''B''"
  by (simp_all add: is_ws_def)

lemma image_first:
  "has_prefix s [CHR 0xFF, CHR 0xD8, CHR 0xFF] \<Longrightarrow> first_match sniff_signatures s = ''image/jpeg''"
  "has_prefix s ([CHR 0x89] @ ''PNG'' @ [CHR 0x0D, CHR 0x0A, CHR 0x1A, CHR 0x0A]) \<Longrightarrow>
     first_match sniff_signatures s = ''image/png''"
  "has_prefix s ''GIF87a'' \<or> has_prefix s ''GIF89a'' \<Longrightarrow> first_match sniff_signatures s = ''image/gif''"
  "has_prefix s ''BM'' \<Longrightarrow> first_match sniff_signatures s = ''image/bmp''"
  by (auto simp: has_prefix_iff first_match_take [OF image_not_ws(1) starts_image(1)]
      first_match_take [OF image_not_ws(2) starts_image(2)]
      first_match_take [OF image_not_ws(3) starts_image(3)]
      first_match_take [OF image_not_ws(4) starts_image(4)])

lemma same_masked_Cons:
  "same_masked (m # ms) (p # ps) data \<longleftrightarrow> (\<exists>d ds. data = d # ds \<and> (m \<longrightarrow> d = p) \<and> same_masked ms ps ds)"
  by (cases data) auto

lemma riff_webp:
  "sig_match (container ''RIFF'' ''WEBPVP'' ct) s \<noteq> None \<Longrightarrow>
     12 \<le> length s \<and> take 4 s = ''RIFF'' \<and> take 4 (drop 8 s) = ''WEBP''"
  by (auto simp: container_def exact_mask_def numeral_eq_Suc same_masked_Cons split: if_splits)

lemma has_prefix_take_long: "length p \<le> n \<Longrightarrow> has_prefix (take n s) p = has_prefix s p"
  by (simp add: has_prefix_def min_absorb1)

lemma take_drop_512:
  "take 4 (take 512 s) = take 4 s" "take 4 (drop 4 (take 512 s)) = take 4 (drop 4 s)"
  "take 4 (drop 8 (take 512 s)) = take 4 (drop 8 s)" "12 \<le> length (take 512 s) \<longleftrightarrow> 12 \<le> length s"
  by (simp_all add: drop_take)

lemma image_kind_head: "image_kind (take 512 s) = image_kind s"
  unfolding image_kind_def take_drop_512 by (simp add: has_prefix_take_long)

lemma normalized_types:
  "normalize_media_type ''image/jpeg'' = ''image/jpeg''" "normalize_media_type ''image/png'' = ''image/png''"
  "normalize_media_type ''image/gif'' = ''image/gif''" "normalize_media_type ''image/bmp'' = ''image/bmp''"
  by code_simp+

definition boxed :: "string \<Rightarrow> string option" where
  "boxed s =
     (if 12 \<le> length s \<and> take 4 s = ''RIFF'' \<and> take 4 (drop 8 s) = ''WEBP'' then Some ''image/webp''
      else if 12 \<le> length s \<and> take 4 (drop 4 s) = ''ftyp'' \<and>
              (take 4 (drop 8 s) = ''avif'' \<or> take 4 (drop 8 s) = ''avis'') then Some ''image/avif''
      else None)"

definition led :: "string \<Rightarrow> string option" where
  "led s =
     (if has_prefix s [CHR 0xFF, CHR 0xD8, CHR 0xFF] then Some ''image/jpeg''
      else if has_prefix s ([CHR 0x89] @ ''PNG'' @ [CHR 0x0D, CHR 0x0A, CHR 0x1A, CHR 0x0A]) then Some ''image/png''
      else if has_prefix s ''GIF87a'' \<or> has_prefix s ''GIF89a'' then Some ''image/gif''
      else if has_prefix s ''BM'' then Some ''image/bmp''
      else None)"

lemma image_kind_split: "image_kind s = (case boxed s of Some ct \<Rightarrow> Some ct | None \<Rightarrow> led s)"
  by (simp add: image_kind_def boxed_def led_def)

lemma sniffed_type_split:
  "sniffed_type s = (case boxed s of Some ct \<Rightarrow> ct | None \<Rightarrow> normalize_media_type (detect_content_type s))"
  by (auto simp: sniffed_type_def boxed_def)

lemma led_type: "led s = Some ct \<Longrightarrow> normalize_media_type (first_match sniff_signatures s) = ct"
  by (auto simp: led_def image_first normalized_types split: if_splits)

lemma led_allowed: "led s = Some ct \<Longrightarrow> allowed_media_type ct"
  and boxed_allowed: "boxed s = Some ct \<Longrightarrow> allowed_media_type ct"
  by (auto simp: led_def boxed_def allowed_media_type_def AllowedMediaTypes_def split: if_splits)

lemma not_led:
  assumes "boxed s = None" "led s = None"
  shows "\<not> allowed_media_type (normalize_media_type (first_match sniff_signatures s))"
proof
  assume "allowed_media_type (normalize_media_type (first_match sniff_signatures s))"
  then obtain t where t: "t \<in> set image_signatures" "sig_match t s \<noteq> None" using detected_image by blast
  have "sig_match (container ''RIFF'' ''WEBPVP'' ct) s = None" for ct
  proof (rule ccontr)
    assume "sig_match (container ''RIFF'' ''WEBPVP'' ct) s \<noteq> None"
    from riff_webp [OF this] assms(1) show False by (simp add: boxed_def)
  qed
  with t assms(2) show False
    by (auto simp: image_signatures_def led_def split: if_splits)
qed

lemma sniffed_kind:
  "if image_kind head = None then \<not> allowed_media_type (sniffed_type head)
   else image_kind head = Some (sniffed_type head) \<and> allowed_media_type (sniffed_type head)"
proof (cases "boxed head")
  case (Some ct)
  with boxed_allowed show ?thesis by (simp add: image_kind_split sniffed_type_split)
next
  case None
  let ?d = "take 512 head"
  have b: "boxed ?d = None" using None unfolding boxed_def take_drop_512 .
  have l: "led ?d = led head" unfolding led_def by (simp add: has_prefix_take_long)
  have k: "image_kind head = led head" "sniffed_type head = normalize_media_type (first_match sniff_signatures ?d)"
    using None by (simp_all add: image_kind_split sniffed_type_split detect_content_type_def)
  show ?thesis
  proof (cases "led head")
    case None
    with not_led [OF b] l k show ?thesis by simp
  next
    case (Some ct)
    with led_type [of ?d ct] led_allowed [OF Some] l k show ?thesis by simp
  qed
qed

section \<open>Properties\<close>

text \<open>
  C34: an upload is accepted for what its bytes are. When its start could be read and it is not
  empty, it is judged acceptable exactly when it begins with the signature of a JPEG, PNG, GIF,
  BMP, WebP or AVIF image, and then the type reported is the type of that signature; whatever
  the verdict, the reader handed on yields every byte of the upload. Otherwise the upload is
  refused with an error, which is \<open>ErrUnsupportedMediaType\<close> when the upload is empty.
\<close>

theorem sniffs_content:
  "case sniff_media_type (Reader b e) of
     Inr (mediaType, rewound) \<Rightarrow>
       b \<noteq> [] \<and> rewound = Reader b e \<and> allowed_media_type mediaType = (image_kind b \<noteq> None) \<and>
       (if image_kind b = None then True else image_kind b = Some mediaType)
   | Inl err \<Rightarrow>
       (case e of None \<Rightarrow> b = [] \<and> errors_is err ErrUnsupportedMediaType
        | Some x \<Rightarrow> length b < sniffLen \<and>
            (if errors_is x ErrEOF then b = [] \<and> errors_is err ErrUnsupportedMediaType
             else err = EWrap ''read the start of the upload: '' x []))"
proof -
  have "if image_kind b = None then \<not> allowed_media_type (sniffed_type (take 512 b))
        else image_kind b = Some (sniffed_type (take 512 b)) \<and> allowed_media_type (sniffed_type (take 512 b))"
    using sniffed_kind [of "take 512 b", unfolded image_kind_head] .
  then show ?thesis
    by (auto simp: sniff_media_type_def sniffLen_def Let_def go_errors split: option.splits if_splits)
qed

end
