(* ===== verification/Json_Facts.thy ===== *)
theory Json_Facts
  imports Json
begin

text \<open>
  Facts about the JSON scanner and decoder: the fuel it is given is always enough, and a struct
  that was encoded is decoded to the fields it was encoded from.
\<close>

section \<open>Enough fuel\<close>

lemma skip_space_length [simp]: "length (skip_space s) \<le> length s"
  by (simp add: skip_space_def length_dropWhile_le)

lemma pushing_Inr: "pushing c x = Inr (s, r) \<longleftrightarrow> (\<exists>t. x = Inr (t, r) \<and> s = c # t)"
  by (cases "(c, x)" rule: pushing.cases) auto

lemma pushing_Inl [simp]: "pushing c x = Inl e \<longleftrightarrow> x = Inl e"
  by (cases "(c, x)" rule: pushing.cases) auto

lemma scan_map_Inr: "scan_map f x = Inr (v, r) \<longleftrightarrow> (\<exists>u. x = Inr (u, r) \<and> v = f u)"
  by (cases "(f, x)" rule: scan_map.cases) auto

lemma scan_map_Inl [simp]: "scan_map f x = Inl e \<longleftrightarrow> x = Inl e"
  by (cases "(f, x)" rule: scan_map.cases) auto

lemma scan_bind_Inr: "scan_bind x f = Inr w \<longleftrightarrow> (\<exists>v r. x = Inr (v, r) \<and> f v r = Inr w)"
  by (cases "(x, f)" rule: scan_bind.cases) auto

lemma scan_bind_Inl: "scan_bind x f = Inl e \<longleftrightarrow> x = Inl e \<or> (\<exists>v r. x = Inr (v, r) \<and> f v r = Inl e)"
  by (cases "(x, f)" rule: scan_bind.cases) auto

lemmas scans = pushing_Inr scan_map_Inr scan_bind_Inr scan_bind_Inl bad_char_def

lemma lex_string_shorter: "lex_string st s = Inr (t, r) \<Longrightarrow> length r < length s"
  by (induction st s arbitrary: t rule: lex_string.induct)
     (auto simp: scans split: if_splits intro: less_SucI)

lemma lex_string_fuel: "lex_string st s \<noteq> Inl JFuel"
  by (induction st s rule: lex_string.induct) (auto simp: scans)

lemma lex_number_shorter: "lex_number st s = Inr (t, r) \<Longrightarrow> length r \<le> length s"
  by (induction st s arbitrary: t rule: lex_number.induct)
     (auto simp: scans split: if_splits intro: le_SucI)

lemma lex_number_fuel: "lex_number st s \<noteq> Inl JFuel"
  by (induction st s rule: lex_number.induct) (auto simp: scans)

lemma lex_word_shorter: "lex_word name w v s = Inr (u, r) \<Longrightarrow> length r \<le> length s"
  by (induction name w v s rule: lex_word.induct) (auto simp: scans split: if_splits)

lemma lex_word_fuel: "lex_word name w v s \<noteq> Inl JFuel"
  by (induction name w v s rule: lex_word.induct) (auto simp: scans)

lemmas lex_shorter = lex_string_shorter lex_number_shorter lex_word_shorter

lemma skip_space_Cons: "skip_space s = c # cs \<Longrightarrow> length cs < length s"
  using skip_space_length [of s] by simp

text \<open>What a member is made of, as far as the scan of the members came.\<close>

lemma json_members_result:
  assumes "json_members (Suc n) s = x"
  obtains
    (early) e where "x = Inl e" "e \<noteq> JFuel"
  | (value_fails) e cs key r1 r2 where "x = Inl e" "skip_space s = CHR 0x22 # cs"
      "lex_string InString cs = Inr (key, r1)" "skip_space r1 = CHR '':'' # r2" "json_value n r2 = Inl e"
  | (last) cs key r1 r2 v r3 r4 where "skip_space s = CHR 0x22 # cs"
      "lex_string InString cs = Inr (key, r1)" "skip_space r1 = CHR '':'' # r2"
      "json_value n r2 = Inr (v, r3)" "skip_space r3 = CHR ''}'' # r4" "x = Inr ([(key, v)], r4)"
  | (more) cs key r1 r2 v r3 r4 where "skip_space s = CHR 0x22 # cs"
      "lex_string InString cs = Inr (key, r1)" "skip_space r1 = CHR '':'' # r2"
      "json_value n r2 = Inr (v, r3)" "skip_space r3 = CHR '','' # r4"
      "x = scan_map (\<lambda>ms. (key, v) # ms) (json_members n r4)"
proof (cases "skip_space s")
  case Nil
  with assms show ?thesis by (intro early) auto
next
  case (Cons c cs)
  show ?thesis
  proof (cases "c = CHR 0x22")
    case False
    with assms Cons show ?thesis by (intro early) (auto simp: bad_char_def)
  next
    case True
    note key = Cons [unfolded True]
    show ?thesis
    proof (cases "lex_string InString cs")
      case (Inl e)
      with lex_string_fuel [of InString cs] assms key show ?thesis by (intro early) auto
    next
      case (Inr kr)
      then obtain k r1 where lex: "lex_string InString cs = Inr (k, r1)" by (cases kr) auto
      show ?thesis
      proof (cases "skip_space r1")
        case Nil
        with assms key lex show ?thesis by (intro early) auto
      next
        case (Cons d r2)
        show ?thesis
        proof (cases "d = CHR '':''")
          case False
          with assms key lex Cons show ?thesis by (intro early) (auto simp: bad_char_def)
        next
          case True
          note colon = Cons [unfolded True]
          show ?thesis
          proof (cases "json_value n r2")
            case (Inl e)
            with assms key lex colon show ?thesis by (intro value_fails) auto
          next
            case (Inr vr)
            then obtain v r3 where v: "json_value n r2 = Inr (v, r3)" by (cases vr) auto
            show ?thesis
            proof (cases "skip_space r3")
              case Nil
              with assms key lex colon v show ?thesis by (intro early) auto
            next
              case (Cons e r4)
              consider "e = CHR '',''" | "e = CHR ''}''" | "e \<noteq> CHR '',''" "e \<noteq> CHR ''}''" by blast
              then show ?thesis
              proof cases
                case 1
                from assms key lex colon v Cons [unfolded 1] show ?thesis
                  by (intro more [OF key lex colon v Cons [unfolded 1]]) auto
              next
                case 2
                from assms key lex colon v Cons [unfolded 2] show ?thesis
                  by (intro last [OF key lex colon v Cons [unfolded 2]]) auto
              next
                case 3
                with assms key lex colon v Cons show ?thesis by (intro early) (auto simp: bad_char_def)
              qed
            qed
          qed
        qed
      qed
    qed
  qed
qed

lemma json_elements_result:
  assumes "json_elements (Suc n) s = x"
  obtains
    (early) e where "x = Inl e" "e \<noteq> JFuel"
  | (value_fails) e where "x = Inl e" "json_value n s = Inl e"
  | (last) v r1 r2 where "json_value n s = Inr (v, r1)" "skip_space r1 = CHR '']'' # r2" "x = Inr ([v], r2)"
  | (more) v r1 r2 where "json_value n s = Inr (v, r1)" "skip_space r1 = CHR '','' # r2"
      "x = scan_map (\<lambda>vs. v # vs) (json_elements n r2)"
proof (cases "json_value n s")
  case (Inl e)
  with assms show ?thesis by (intro value_fails) auto
next
  case (Inr vr)
  then obtain v r1 where v: "json_value n s = Inr (v, r1)" by (cases vr) auto
  show ?thesis
  proof (cases "skip_space r1")
    case Nil
    with assms v show ?thesis by (intro early) auto
  next
    case (Cons c r2)
    consider "c = CHR '',''" | "c = CHR '']''" | "c \<noteq> CHR '',''" "c \<noteq> CHR '']''" by blast
    then show ?thesis
    proof cases
      case 1
      from assms v Cons [unfolded 1] show ?thesis by (intro more [OF v Cons [unfolded 1]]) auto
    next
      case 2
      from assms v Cons [unfolded 2] show ?thesis by (intro last [OF v Cons [unfolded 2]]) auto
    next
      case 3
      with assms v Cons show ?thesis by (intro early) (auto simp: bad_char_def)
    qed
  qed
qed

text \<open>A value consumes input: an object or array after its brace, the rest by its own scanner.\<close>

lemma json_value_result:
  assumes "json_value (Suc n) s = x"
  obtains
    (early) e where "x = Inl e" "e \<noteq> JFuel"
  | (plain) v r where "x = Inr (v, r)" "length r < length s"
  | (object) cs where "length cs < length s" "x = scan_map JObj (json_members n cs)"
  | (array) cs where "length cs < length s" "x = scan_map JArr (json_elements n cs)"
proof (cases "skip_space s")
  case Nil
  with assms show ?thesis by (intro early) auto
next
  case (Cons c cs)
  note shorter = skip_space_Cons [OF Cons]
  show ?thesis
  proof (cases "c = CHR ''{'' \<or> c = CHR ''[''")
    case True
    show ?thesis
    proof (cases "skip_space cs")
      case Nil
      with True assms Cons show ?thesis by (intro early) auto
    next
      case d: (Cons d ds)
      note skip_space_Cons [OF d]
      with True assms Cons d shorter show ?thesis
        by (auto split: if_splits intro: plain object array)
    qed
  next
    case False
    show ?thesis
    proof (cases x)
      case (Inl e)
      with False assms Cons show ?thesis
        by (intro early) (auto simp: bad_char_def lex_string_fuel lex_number_fuel lex_word_fuel
            split: if_splits)
    next
      case (Inr vr)
      then obtain v r where x: "x = Inr (v, r)" by (cases vr) auto
      with False assms Cons have "length r \<le> length cs"
        by (auto simp: scans split: if_splits dest: lex_shorter intro: less_imp_le)
      with shorter have "length r < length s" by simp
      with x show ?thesis by (rule plain)
    qed
  qed
qed

lemma json_shorter:
  "json_value n s = Inr (v, r) \<Longrightarrow> length r < length s"
  "json_members n s = Inr (ms, r) \<Longrightarrow> length r < length s"
  "json_elements n s = Inr (vs, r) \<Longrightarrow> length r < length s"
proof (induction n arbitrary: s v r ms vs)
  case (Suc n)
  note value_sh = Suc.IH(1) and members_sh = Suc.IH(2) and elements_sh = Suc.IH(3)
  {
    case 1
    then show ?case
    proof (cases rule: json_value_result)
      case (object cs)
      then obtain ms where "json_members n cs = Inr (ms, r)" by (metis scan_map_Inr)
      from members_sh [OF this] object(1) show ?thesis by simp
    next
      case (array cs)
      then obtain vs where "json_elements n cs = Inr (vs, r)" by (metis scan_map_Inr)
      from elements_sh [OF this] array(1) show ?thesis by simp
    qed auto
  next
    case 2
    then show ?case
    proof (cases rule: json_members_result)
      case (last cs key r1 r2 v r3 r4)
      with skip_space_Cons [OF last(1)] lex_string_shorter [OF last(2)] skip_space_Cons [OF last(3)]
        value_sh [OF last(4)] skip_space_Cons [OF last(5)] show ?thesis by simp
    next
      case (more cs key r1 r2 v r3 r4)
      then obtain ms' where "json_members n r4 = Inr (ms', r)" by (metis scan_map_Inr)
      from members_sh [OF this] skip_space_Cons [OF more(1)] lex_string_shorter [OF more(2)]
        skip_space_Cons [OF more(3)] value_sh [OF more(4)] skip_space_Cons [OF more(5)]
      show ?thesis by simp
    qed auto
  next
    case 3
    then show ?case
    proof (cases rule: json_elements_result)
      case (last v r1 r2)
      with value_sh [OF last(1)] skip_space_Cons [OF last(2)] show ?thesis by simp
    next
      case (more v r1 r2)
      then obtain vs' where "json_elements n r2 = Inr (vs', r)" by (metis scan_map_Inr)
      from elements_sh [OF this] value_sh [OF more(1)] skip_space_Cons [OF more(2)]
      show ?thesis by simp
    qed auto
  }
qed simp_all

lemma json_fuel:
  "2 * length s < n \<Longrightarrow> json_value n s \<noteq> Inl JFuel"
  "2 * length s < n \<Longrightarrow> json_members n s \<noteq> Inl JFuel"
  "2 * length s + 1 < n \<Longrightarrow> json_elements n s \<noteq> Inl JFuel"
proof (induction n arbitrary: s)
  case (Suc n)
  note value_fu = Suc.IH(1) and members_fu = Suc.IH(2) and elements_fu = Suc.IH(3)
  {
    case 1
    show ?case
    proof
      assume "json_value (Suc n) s = Inl JFuel"
      then show False
      proof (cases rule: json_value_result)
        case (object cs)
        then have "2 * length cs < n" using 1 by simp
        from members_fu [OF this] object(2) [symmetric] show ?thesis by simp
      next
        case (array cs)
        then have "2 * length cs + 1 < n" using 1 by simp
        from elements_fu [OF this] array(2) [symmetric] show ?thesis by simp
      qed auto
    qed
  next
    case 2
    show ?case
    proof
      assume "json_members (Suc n) s = Inl JFuel"
      then show False
      proof (cases rule: json_members_result)
        case (value_fails e cs key r1 r2)
        have "2 * length r2 < n" using skip_space_Cons [OF value_fails(2)]
            lex_string_shorter [OF value_fails(3)] skip_space_Cons [OF value_fails(4)] 2 by simp
        from value_fu [OF this] value_fails show ?thesis by simp
      next
        case (more cs key r1 r2 v r3 r4)
        have "2 * length r4 < n" using skip_space_Cons [OF more(1)] lex_string_shorter [OF more(2)]
            skip_space_Cons [OF more(3)] json_shorter(1) [OF more(4)] skip_space_Cons [OF more(5)] 2 by simp
        from members_fu [OF this] more(6) [symmetric] show ?thesis by simp
      qed auto
    qed
  next
    case 3
    show ?case
    proof
      assume "json_elements (Suc n) s = Inl JFuel"
      then show False
      proof (cases rule: json_elements_result)
        case (value_fails e)
        with value_fu [of s] 3 show ?thesis by simp
      next
        case (more v r1 r2)
        have "2 * length r2 + 1 < n"
          using json_shorter(1) [OF more(1)] skip_space_Cons [OF more(2)] 3 by simp
        from elements_fu [OF this] more(3) [symmetric] show ?thesis by simp
      qed auto
    qed
  }
qed simp_all

text \<open>
  More fuel does not change a verdict: with less fuel the scan either ran out or says the same,
  and the ways scans are put together keep it so.
\<close>

definition less_fuel :: "'a scan \<Rightarrow> 'a scan \<Rightarrow> bool" where
  "less_fuel x y \<longleftrightarrow> x = Inl JFuel \<or> x = y"

lemma less_fuel_refl: "less_fuel x x"
  by (simp add: less_fuel_def)

lemma less_fuel_map: "less_fuel x y \<Longrightarrow> less_fuel (scan_map f x) (scan_map f y)"
  by (auto simp: less_fuel_def)

lemma less_fuel_bind:
  "less_fuel x y \<Longrightarrow> (\<And>v r. less_fuel (f v r) (g v r)) \<Longrightarrow> less_fuel (scan_bind x f) (scan_bind y g)"
  by (cases "(x, f)" rule: scan_bind.cases) (fastforce simp: less_fuel_def)+

lemma less_fuel_if:
  "(b \<Longrightarrow> less_fuel x y) \<Longrightarrow> (\<not> b \<Longrightarrow> less_fuel x' y') \<Longrightarrow>
     less_fuel (if b then x else x') (if b then y else y')"
  by simp

lemma less_fuel_list:
  "less_fuel x y \<Longrightarrow> (\<And>c cs. less_fuel (f c cs) (g c cs)) \<Longrightarrow>
     less_fuel (case s of [] \<Rightarrow> x | c # cs \<Rightarrow> f c cs) (case s of [] \<Rightarrow> y | c # cs \<Rightarrow> g c cs)"
  by (cases s) simp_all

lemmas less_fuel_intros = less_fuel_map less_fuel_bind less_fuel_if less_fuel_list less_fuel_refl

lemma json_more_fuel:
  "less_fuel (json_value n s) (json_value (Suc n) s)"
  "less_fuel (json_members n s) (json_members (Suc n) s)"
  "less_fuel (json_elements n s) (json_elements (Suc n) s)"
proof (induction n arbitrary: s)
  case (Suc n)
  note IH = Suc.IH(1) Suc.IH(2) Suc.IH(3)
  {
    case 1
    show ?case unfolding json_value.simps(2) [of "Suc n" s] json_value.simps(2) [of n s]
      by (intro less_fuel_intros IH)
  next
    case 2
    show ?case unfolding json_members.simps(2) [of "Suc n" s] json_members.simps(2) [of n s]
      by (intro less_fuel_intros IH)
  next
    case 3
    show ?case unfolding json_elements.simps(2) [of "Suc n" s] json_elements.simps(2) [of n s]
      by (intro less_fuel_intros IH)
  }
qed (simp_all add: less_fuel_def)

lemma json_fuel_enough:
  assumes "2 * length s < n"
  shows "json_value n s = json_value (Suc (2 * length s)) s"
  using assms
proof (induction "n - Suc (2 * length s)" arbitrary: n)
  case 0
  then have "n = Suc (2 * length s)" by simp
  then show ?case by simp
next
  case (Suc k)
  then obtain m where n: "n = Suc m" "2 * length s < m" "k = m - Suc (2 * length s)" by (cases n) auto
  from json_more_fuel(1) [of m s] json_fuel(1) [OF n(2)] Suc.hyps(1) [OF n(3,2)] n(1)
  show ?case by (auto simp: less_fuel_def)
qed

section \<open>Reading back what was encoded\<close>

text \<open>Text that is scanned and unquoted one escaped character at a time.\<close>

lemma hex_digit_hex: "d < 16 \<Longrightarrow> is_hex (hex_digit d) \<and> hex_number (hex_digit d) = d"
  by (auto simp: hex_digit_def is_hex_def is_digit_def hex_number_def Let_def)

lemma lex_string_plain:
  "\<lbrakk>c \<noteq> CHR 0x22; c \<noteq> CHR 0x5C; 32 \<le> (of_char c :: nat)\<rbrakk> \<Longrightarrow>
     lex_string InString (c # rest) = pushing c (lex_string InString rest)"
  by simp

lemma lex_string_escaped:
  assumes "(of_char c :: nat) < 128"
  shows "lex_string InString (escape_ascii c @ rest) = foldr pushing (escape_ascii c) (lex_string InString rest)"
proof -
  have "is_hex CHR ''0''" by (simp add: is_hex_def is_digit_def)
  moreover have "is_hex (hex_digit (of_char c div 16))" "is_hex (hex_digit (of_char c mod 16))"
    using assms by (simp_all add: hex_digit_hex less_mult_imp_div_less)
  ultimately have h: "is_hex CHR ''0''" "is_hex (hex_digit (of_char c div 16))"
    "is_hex (hex_digit (of_char c mod 16))" by simp_all
  show ?thesis by (auto simp: escape_ascii_def h)
qed

lemma unquote_backslash:
  "e \<noteq> CHR ''u'' \<Longrightarrow> unquote (CHR 0x5C # e # es) = unescape e # unquote es"
  by (simp add: unquote.simps(2) [of "CHR 0x5C"])

lemma unquote_plain:
  "c \<noteq> CHR 0x5C \<Longrightarrow> (of_char c :: nat) < 128 \<Longrightarrow> unquote (c # cs) = c # unquote cs"
  by (simp add: unquote.simps(2) [of c])

lemma unquote_hex:
  assumes "(of_char c :: nat) < 128"
  shows "unquote (CHR 0x5C # CHR ''u'' # CHR ''0'' # CHR ''0'' # hex_digit (of_char c div 16) #
     hex_digit (of_char c mod 16) # rest) = c # unquote rest"
proof -
  have "hex4 (CHR ''0'' # CHR ''0'' # hex_digit (of_char c div 16) # hex_digit (of_char c mod 16) # rest)
      = of_char c"
    using assms by (simp add: hex4_def hex_digit_hex less_mult_imp_div_less hex_number_def [of "CHR ''0''"])
  with assms show ?thesis
    by (simp add: unquote.simps(2) [of "CHR 0x5C"] utf8_encode_def Let_def)
qed

lemma unquote_escaped:
  assumes "(of_char c :: nat) < 128"
  shows "unquote (escape_ascii c @ rest) = c # unquote rest"
  using assms by (auto simp: escape_ascii_def unquote_backslash unquote_plain unquote_hex unescape_def)

lemma ascii_Cons [simp]: "ascii []" "ascii (c # s) \<longleftrightarrow> (of_char c :: nat) < 128 \<and> ascii s"
  by (auto simp: ascii_def)

lemma foldr_pushing: "foldr pushing s (Inr (t, r)) = Inr (s @ t, r)"
  by (induction s) auto

lemma escape_scan:
  "ascii s \<Longrightarrow> lex_string InString (escape_json s @ CHR 0x22 # rest) = Inr (escape_json s, rest)"
  by (induction s) (auto simp: escape_json.simps lex_string_escaped foldr_pushing)

lemma escape_unquote: "ascii s \<Longrightarrow> unquote (escape_json s) = s"
  by (induction s) (auto simp: escape_json.simps unquote.simps(1) unquote_escaped)

text \<open>Numbers: the digits of \<open>itoa\<close> start with zero only for zero itself.\<close>

definition ends_number :: "char \<Rightarrow> bool" where
  "ends_number c \<longleftrightarrow> \<not> is_digit c \<and> c \<noteq> CHR ''.'' \<and> c \<noteq> CHR ''e'' \<and> c \<noteq> CHR ''E''"

lemma digit_char_digit: "d < 10 \<Longrightarrow> is_digit (digit_char d)"
  by (simp add: is_digit_def of_char_digit)

lemma show_nat_is_digit: "list_all is_digit (show_nat n)"
proof (induction n rule: show_nat.induct)
  case (1 n)
  then show ?case by (cases "n < 10") (simp_all add: show_nat.simps [of n] digit_char_digit)
qed

lemma lex_digits:
  "list_all is_digit ds \<Longrightarrow> ends_number c \<Longrightarrow> lex_number InDigits (ds @ c # cs) = Inr (ds, c # cs)"
  by (induction ds) (auto simp: ends_number_def)

lemma digit_zero: "d < 10 \<Longrightarrow> digit_char d = CHR ''0'' \<Longrightarrow> d = 0"
  using of_char_digit [of d] by auto

lemma show_nat_lead: "0 < n \<Longrightarrow> \<exists>d ds. show_nat n = digit_char d # ds \<and> 0 < d \<and> d < 10"
proof (induction n rule: show_nat.induct)
  case (1 n)
  show ?case
  proof (cases "n < 10")
    case True
    with 1(2) show ?thesis by (auto simp: show_nat.simps [of n])
  next
    case False
    then have "0 < n div 10" by simp
    from 1(1) [OF False this] False show ?thesis by (auto simp: show_nat.simps [of n])
  qed
qed

lemma digit_not:
  assumes "is_digit c"
  shows "\<not> json_space c" "c \<noteq> CHR ''{''" "c \<noteq> CHR ''[''" "c \<noteq> CHR 0x22" "c \<noteq> CHR ''-''"
proof -
  have "\<not> is_digit CHR '' ''" "\<not> is_digit CHR 0x09" "\<not> is_digit CHR 0x0D" "\<not> is_digit CHR 0x0A"
    "\<not> is_digit CHR ''{''" "\<not> is_digit CHR ''[''" "\<not> is_digit CHR 0x22" "\<not> is_digit CHR ''-''"
    by (simp_all add: is_digit_def)
  with assms show "\<not> json_space c" "c \<noteq> CHR ''{''" "c \<noteq> CHR ''[''" "c \<noteq> CHR 0x22" "c \<noteq> CHR ''-''"
    unfolding json_space_def by metis+
qed

lemma itoa_zero: "itoa 0 = ''0''"
  by code_simp

lemma scan_itoa:
  assumes "ends_number c"
  shows "json_value (Suc n) (itoa i @ c # rest) = Inr (JNum (itoa i), c # rest)"
proof (cases "i = 0")
  case True
  then have "itoa i = ''0''" by (simp add: itoa_zero)
  with assms show ?thesis
    by (simp add: skip_space_def json_space_def ends_number_def)
next
  case False
  then have "0 < nat \<bar>i\<bar>" by simp
  then obtain d ds where d: "show_nat (nat \<bar>i\<bar>) = digit_char d # ds" "0 < d" "d < 10"
    using show_nat_lead by blast
  have ds: "list_all is_digit ds" using show_nat_is_digit [of "nat \<bar>i\<bar>"] d(1) by simp
  have c: "is_digit (digit_char d)" "digit_char d \<noteq> CHR ''0''"
    using d digit_char_digit digit_zero by auto
  note n = digit_not [OF c(1)]
  have tail: "lex_number InDigits (ds @ c' # rest) = Inr (ds, c' # rest)" if "ends_number c'" for c'
    using lex_digits [OF ds that] .
  show ?thesis
  proof (cases "i < 0")
    case True
    then have "itoa i = CHR ''-'' # digit_char d # ds" using d by (simp add: itoa_def)
    with n c tail [OF assms] show ?thesis
      by (simp add: skip_space_def json_space_def)
  next
    case False
    then have "itoa i = digit_char d # ds" using d by (simp add: itoa_def)
    with n c tail [OF assms] show ?thesis
      by (simp add: skip_space_def)
  qed
qed

definition ends_field :: "char \<Rightarrow> bool" where
  "ends_field c \<longleftrightarrow> c = CHR '','' \<or> c = CHR ''}''"

lemma ends_field_number: "ends_field c \<Longrightarrow> ends_number c"
  by (auto simp: ends_field_def ends_number_def is_digit_def)

fun field_json :: "field_value \<Rightarrow> json" where
  "field_json (FInt n) = JNum (itoa n)"
| "field_json (FString t) = JStr (escape_json t)"
| "field_json (FBool b) = JBool b"

fun field_ok :: "field_value \<Rightarrow> bool" where
  "field_ok (FInt n) = in_i64 n"
| "field_ok (FString t) = ascii t"
| "field_ok (FBool b) = True"

lemma scan_field:
  assumes "field_ok v" "ends_field c"
  shows "json_value (Suc n) (json_field v @ c # rest) = Inr (field_json v, c # rest)"
proof (cases v)
  case (FInt i)
  with scan_itoa [OF ends_field_number [OF assms(2)]] show ?thesis by simp
next
  case (FString t)
  with assms escape_scan [of t "c # rest"] show ?thesis
    by (simp add: json_string_def skip_space_def json_space_def)
next
  case (FBool b)
  then show ?thesis by (simp add: skip_space_def json_space_def is_digit_def)
qed

text \<open>The members of an encoded struct, up to its closing brace.\<close>

lemma scan_members:
  assumes "ms \<noteq> []" "list_all (\<lambda>(k, v). ascii k \<and> field_ok v) ms" "length ms < n"
  shows "json_members n (join_with '','' (map json_member ms) @ CHR ''}'' # rest) =
    Inr (map (\<lambda>(k, v). (escape_json k, field_json v)) ms, rest)"
  using assms
proof (induction ms arbitrary: n)
  case (Cons m ms)
  obtain k v where m: "m = (k, v)" by fastforce
  obtain p where n: "n = Suc (Suc p)" using Cons.prems(3) by (cases n; cases "n - 1") auto
  have kv: "ascii k" "field_ok v" using Cons.prems(2) m by simp_all
  have sp: "skip_space (CHR 0x22 # s) = CHR 0x22 # s" "skip_space (CHR '':'' # s) = CHR '':'' # s"
    "skip_space (CHR '','' # s) = CHR '','' # s" "skip_space (CHR ''}'' # s) = CHR ''}'' # s" for s
    by (simp_all add: skip_space_def json_space_def)
  show ?case
  proof (cases ms)
    case Nil
    from scan_field [OF kv(2), of "CHR ''}''" p rest]
    have "json_value (Suc p) (json_field v @ CHR ''}'' # rest) = Inr (field_json v, CHR ''}'' # rest)"
      by (simp add: ends_field_def)
    with kv escape_scan [OF kv(1)] show ?thesis
      by (simp add: m n Nil json_string_def sp del: json_value.simps)
  next
    case (Cons m' ms')
    let ?more = "join_with '','' (map json_member ms) @ CHR ''}'' # rest"
    from scan_field [OF kv(2), of "CHR '',''" p ?more]
    have "json_value (Suc p) (json_field v @ CHR '','' # ?more) = Inr (field_json v, CHR '','' # ?more)"
      by (simp add: ends_field_def)
    moreover have "json_members (Suc p) ?more = Inr (map (\<lambda>(k, v). (escape_json k, field_json v)) ms, rest)"
      by (rule Cons.IH) (use Cons.prems Cons n in auto)
    moreover have "join_with '','' (map json_member (m # ms)) @ CHR ''}'' # rest
        = json_string k @ CHR '':'' # json_field v @ CHR '','' # ?more"
      by (simp add: m Cons)
    ultimately show ?thesis using kv escape_scan [OF kv(1)]
      by (simp add: m n json_string_def sp del: json_value.simps json_members.simps(2) [of "Suc p"])
  qed
qed simp

text \<open>The whole struct, given that every field is one of the fields decoded into, of its kind.\<close>

fun field_kind_of :: "field_value \<Rightarrow> field_kind" where
  "field_kind_of (FInt n) = KInt"
| "field_kind_of (FString t) = KString"
| "field_kind_of (FBool b) = KBool"

definition find_field :: "(string \<times> field_kind) list \<Rightarrow> string \<Rightarrow> (string \<times> field_kind) option" where
  "find_field fds key = find (\<lambda>(f, k). f = key \<or> fold_key f = fold_key key) fds"

definition set_fields :: "(string \<times> field_value) list \<Rightarrow> field_values \<Rightarrow> field_values" where
  "set_fields ms vals = foldl (\<lambda>m (k, v). m(k \<mapsto> v)) vals ms"

lemma store_field_json: "field_ok v \<Longrightarrow> store_field (field_kind_of v) (field_json v) = Inr (Some v)"
  by (cases v) (simp_all add: parse_int_itoa escape_unquote)

lemma store_encoded:
  assumes "list_all (\<lambda>(k, v). ascii k \<and> field_ok v \<and> find_field fds k = Some (k, field_kind_of v)) ms"
  shows "store_members struct fds (map (\<lambda>(k, v). (escape_json k, field_json v)) ms) vals None =
    (set_fields ms vals, None)"
  using assms
proof (induction ms arbitrary: vals)
  case (Cons m ms)
  obtain k v where m: "m = (k, v)" by fastforce
  with Cons.prems have kv: "ascii k" "field_ok v" "find_field fds k = Some (k, field_kind_of v)" by simp_all
  have "store_members struct fds (map (\<lambda>(k, v). (escape_json k, field_json v)) ms) (vals(k \<mapsto> v)) None =
    (set_fields ms (vals(k \<mapsto> v)), None)"
    by (rule Cons.IH) (use Cons.prems in simp)
  with kv(3) store_field_json [OF kv(2)] show ?case
    by (simp add: m escape_unquote [OF kv(1)] find_field_def [symmetric] set_fields_def)
qed (simp add: set_fields_def)

lemma decode_encoded:
  assumes "ms \<noteq> []"
    and "list_all (\<lambda>(k, v). ascii k \<and> field_ok v \<and> find_field fds k = Some (k, field_kind_of v)) ms"
    and "case limit of None \<Rightarrow> True | Some n \<Rightarrow> length (json_struct ms) \<le> n"
  shows "decode_struct struct fds limit (json_struct ms) = Inr (set_fields ms Map.empty)"
proof -
  let ?text = "json_struct ms" and ?body = "join_with '','' (map json_member ms)"
  have sp: "skip_space ?text = CHR ''{'' # ?body @ ''}''"
    by (simp add: json_struct_def skip_space_def json_space_def)
  obtain k v ms' where m: "ms = (k, v) # ms'" using assms(1) by (cases ms) auto
  have head: "\<exists>t. ?body @ ''}'' = CHR 0x22 # t"
    by (cases ms') (simp_all add: m json_string_def)
  then have body: "skip_space (?body @ ''}'') = ?body @ ''}''" "hd (?body @ ''}'') = CHR 0x22" "?body @ ''}'' \<noteq> []"
    by (auto simp: skip_space_def json_space_def)
  have "length ms \<le> length ?body"
  proof (induction ms)
    case (Cons a as)
    then show ?case by (cases as; cases a) (auto simp: json_string_def)
  qed simp
  then have "length ms < 2 * length ?text" by (simp add: json_struct_def)
  from scan_members [OF assms(1) _ this, of "[]"] assms(2)
  have "json_members (2 * length ?text) (?body @ ''}'') =
      Inr (map (\<lambda>(k, v). (escape_json k, field_json v)) ms, [])"
    by (simp add: list_all_iff split_beta)
  with sp body have "json_value (Suc (2 * length ?text)) ?text =
      Inr (JObj (map (\<lambda>(k, v). (escape_json k, field_json v)) ms), [])"
    by (cases "?body @ ''}''") simp_all
  then have "read_json limit ?text = Inr (JObj (map (\<lambda>(k, v). (escape_json k, field_json v)) ms))"
    using assms(3) by (simp add: read_json_def Let_def closed_value_def split: option.splits del: json_value.simps)
  with store_encoded [OF assms(2)] show ?thesis by (simp add: decode_struct_def)
qed

end
