(* ===== verification/Handlers.thy ===== *)
theory Handlers
  imports Auth Ratelimit Media Json_Facts
begin

text \<open>
  \<open>internal/adapters/httpapi/api.go\<close> and \<open>handlers.go\<close>: the settings of the API, how a job is
  shown to a client, and the handlers. A multipart body comes as what \<open>ParseMultipartForm\<close> made
  of it under the size limit; everything the handlers do with it, and with a JSON body, is here.
\<close>

section \<open>Settings\<close>

definition DefaultMaxUploadBytes :: int where "DefaultMaxUploadBytes = 10 * 2 ^ 20"

record api_config =
  ac_max_upload :: int
  ac_origins :: "string list"
  ac_base_url :: string
  ac_rate_limit :: rat
  ac_rate_burst :: int

definition api_defaults :: "api_config \<Rightarrow> api_config" where
  "api_defaults cfg =
     (let cfg = (if ac_max_upload cfg \<le> 0 then cfg\<lparr>ac_max_upload := DefaultMaxUploadBytes\<rparr> else cfg);
          cfg = (if ac_origins cfg = [] then cfg\<lparr>ac_origins := [''*'']\<rparr> else cfg);
          cfg = (if ac_rate_limit cfg = 0 then cfg\<lparr>ac_rate_limit := DefaultRateLimit\<rparr> else cfg);
          cfg = (if ac_rate_burst cfg = 0 then cfg\<lparr>ac_rate_burst := DefaultRateBurst\<rparr> else cfg)
      in cfg\<lparr>ac_base_url := trim_suffix (ac_base_url cfg) ''/''\<rparr>)"

definition api_new :: "api_config \<Rightarrow> api_config \<times> 'l rate_limiter" where
  "api_new cfg =
     (let cfg = api_defaults cfg in (cfg, new_rate_limiter (ac_rate_limit cfg) (ac_rate_burst cfg)))"

section \<open>What a client is shown\<close>

record transformation_dto =
  dto_width :: int
  dto_height :: int
  dto_format :: string
  dto_quality :: int
  dto_watermark :: bool
  dto_strip_metadata :: bool

definition to_domain :: "transformation_dto \<Rightarrow> transformation_spec" where
  "to_domain s =
     \<lparr>Width = dto_width s, Height = dto_height s, Format = dto_format s, Quality = dto_quality s,
      Watermark = dto_watermark s, StripMetadata = dto_strip_metadata s\<rparr>"

definition spec_from_domain :: "transformation_spec \<Rightarrow> transformation_dto" where
  "spec_from_domain s =
     \<lparr>dto_width = Width s, dto_height = Height s, dto_format = Format s, dto_quality = Quality s,
      dto_watermark = Watermark s, dto_strip_metadata = StripMetadata s\<rparr>"

record job_response =
  jr_id :: string
  jr_status :: string
  jr_transformation :: transformation_dto
  jr_created_at :: int
  jr_updated_at :: int
  jr_result_key :: string
  jr_result_url :: string
  jr_error :: string

definition new_job_response :: "api_config \<Rightarrow> job \<Rightarrow> job_response" where
  "new_job_response cfg job =
     (let resp = \<lparr>jr_id = ID job, jr_status = Status job,
                  jr_transformation = spec_from_domain (Transformation job),
                  jr_created_at = CreatedAt job, jr_updated_at = UpdatedAt job,
                  jr_result_key = ResultKey job, jr_result_url = [], jr_error = Error job\<rparr>
      in if ResultKey job \<noteq> [] \<and> ac_base_url cfg \<noteq> []
         then resp\<lparr>jr_result_url := ac_base_url cfg @ ''/'' @ ResultKey job\<rparr> else resp)"

record token_response =
  tr_access_token :: string
  tr_token_type :: string
  tr_expires_in :: int

datatype api_body = JobBody job_response | StatusBody string | TokenBody token_response

section \<open>Handlers\<close>

text \<open>\<open>gone\<close> is what \<open>r.Context().Err()\<close> says when the failure is reported.\<close>

definition write_usecase_problem :: "request \<Rightarrow> goerr \<Rightarrow> goerr option \<Rightarrow> 'b response" where
  "write_usecase_problem r e gone =
     (if errors_is e ErrInvalidDimensions \<or> errors_is e ErrInvalidFormat \<or> errors_is e ErrInvalidQuality then
        write_problem r [] 400 TypeInvalidTransform ''Bad Request'' (error_text e)
      else if errors_is e ErrNoSource then
        write_problem r [] 400 TypeMissingFile ''Bad Request'' (error_text e)
      else if gone \<noteq> None then
        write_problem r [] 408 TypeInternal ''Request Timeout'' ''The request was canceled.''
      else
        write_problem r [] 500 TypeInternal ''Internal Server Error'' ''The job could not be created.'')"

text \<open>
  The parsed form: the file part, with its name, the query parameters and the other parts.
  \<open>FormValue\<close> looks at the query before the parts.
\<close>

record upload_form =
  uf_file :: "(string \<times> reader) option"
  uf_query :: "string \<Rightarrow> string list"
  uf_parts :: "string \<Rightarrow> string list"

datatype form_result = FormTooLarge | FormInvalid | Form upload_form

definition form_value :: "upload_form \<Rightarrow> string \<Rightarrow> string" where
  "form_value f key = (case uf_query f key @ uf_parts f key of [] \<Rightarrow> [] | v # _ \<Rightarrow> v)"

definition FileField :: string where "FileField = ''file''"
definition SpecField :: string where "SpecField = ''spec''"
definition maxSpecBytes :: nat where "maxSpecBytes = 8192"

text \<open>The JSON shape of a transformation.\<close>

definition spec_fields :: "(string \<times> field_kind) list" where
  "spec_fields =
     [(''width'', KInt), (''height'', KInt), (''format'', KString), (''quality'', KInt),
      (''watermark'', KBool), (''strip_metadata'', KBool)]"

definition dto_of_fields :: "field_values \<Rightarrow> transformation_dto" where
  "dto_of_fields vals =
     \<lparr>dto_width = int_field vals ''width'', dto_height = int_field vals ''height'',
      dto_format = string_field vals ''format'', dto_quality = int_field vals ''quality'',
      dto_watermark = bool_field vals ''watermark'',
      dto_strip_metadata = bool_field vals ''strip_metadata''\<rparr>"

definition bad_request :: "request \<Rightarrow> string \<Rightarrow> string \<Rightarrow> 'b response" where
  "bad_request r problemType detail = write_problem r [] 400 problemType ''Bad Request'' detail"

definition read_spec :: "request \<Rightarrow> upload_form \<Rightarrow> 'b response + transformation_spec" where
  "read_spec r f =
     (let raw = form_value f SpecField in
      if raw = [] then
        Inl (bad_request r TypeInvalidSpec
               (''The '' @ quote SpecField @ '' part is required and must carry a JSON transformation.''))
      else if length raw > maxSpecBytes then
        Inl (bad_request r TypeInvalidSpec
               (''The '' @ quote SpecField @ '' part exceeds '' @ itoa (int maxSpecBytes) @ '' bytes.''))
      else
       (case decode_struct ''transformationSpec'' spec_fields None raw of
          Inl e \<Rightarrow> Inl (bad_request r TypeInvalidSpec
                     (''The '' @ quote SpecField @ '' part is not a valid transformation: '' @ error_text e))
        | Inr vals \<Rightarrow> Inr (to_domain (dto_of_fields vals))))"

text \<open>The count beside a result is how often the uploaded file was closed.\<close>

definition check_media_type :: "request \<Rightarrow> reader \<Rightarrow> string \<Rightarrow> ('b response + reader) \<times> nat" where
  "check_media_type r file filename =
     (case sniff_media_type file of
        Inl e \<Rightarrow>
          (Inl (if errors_is e ErrUnsupportedMediaType then
                  write_problem r [] 415 TypeUnsupportedMedia ''Unsupported Media Type''
                    ''The uploaded file is empty.''
                else bad_request r TypeInvalidMultipart ''The uploaded file could not be read.''), 0)
      | Inr (mediaType, rewound) \<Rightarrow>
          if \<not> allowed_media_type mediaType then
            (Inl (write_problem r [] 415 TypeUnsupportedMedia ''Unsupported Media Type''
                    (quote filename @ '' is '' @ mediaType @
                     '', which is not an accepted image type. Accepted types are '' @
                     join_with '', '' AllowedMediaTypes @ ''.'')), 1)
          else (Inr rewound, 0))"

definition read_upload ::
  "api_config \<Rightarrow> request \<Rightarrow> form_result \<Rightarrow> ('b response + transformation_spec \<times> reader) \<times> nat" where
  "read_upload cfg r form =
     (case form of
        FormTooLarge \<Rightarrow>
          (Inl (write_problem r [] 413 TypePayloadTooLarge ''Payload Too Large''
             (''The request body exceeds the '' @ itoa (ac_max_upload cfg) @ '' byte limit.'')), 0)
      | FormInvalid \<Rightarrow>
          (Inl (bad_request r TypeInvalidMultipart ''The request body is not a valid multipart form.''), 0)
      | Form f \<Rightarrow>
         (case uf_file f of
            None \<Rightarrow>
              (Inl (bad_request r TypeMissingFile
                 (''The '' @ quote FileField @ '' part is required and must carry the image.'')), 0)
          | Some (filename, file) \<Rightarrow>
             (case check_media_type r file filename of
                (Inl resp, closes) \<Rightarrow> (Inl resp, closes + 1)
              | (Inr sniffed, closes) \<Rightarrow>
                 (case read_spec r f of
                    Inl resp \<Rightarrow> (Inl resp, closes + 1)
                  | Inr sp \<Rightarrow> (Inr (sp, sniffed), closes)))))"

definition handle_upload ::
  "'w create_job \<Rightarrow> api_config \<Rightarrow> (ctx \<Rightarrow> 'w \<Rightarrow> goerr option) \<Rightarrow> request \<Rightarrow> ctx \<Rightarrow> form_result \<Rightarrow> 'w \<Rightarrow>
   (api_body response \<times> nat) \<times> 'w" where
  "handle_upload uc cfg ctx_err r c form w =
     (case read_upload cfg r form of
        (Inl resp, closes) \<Rightarrow> ((resp, closes), w)
      | (Inr (sp, file), closes) \<Rightarrow>
         (case create_job_execute uc c (Some file) sp w of
            (Inl e, w') \<Rightarrow> ((write_usecase_problem r e (ctx_err c w'), closes + 1), w')
          | (Inr job, w') \<Rightarrow>
              ((write_json r [(''Location'', ''/jobs/'' @ ID job)] 202 (JobBody (new_job_response cfg job)),
                closes + 1), w')))"

text \<open>
  \<open>handleToken\<close>: \<open>cap\<close> is the limit the request's body already has. The lifetime is given in whole
  seconds; through a float64, exactly so below 2^23 seconds.
\<close>

definition token_fields :: "(string \<times> field_kind) list" where
  "token_fields = [(''client_id'', KString), (''client_secret'', KString)]"

definition handle_token ::
  "jwt_lib \<Rightarrow> token_issuer \<Rightarrow> int \<Rightarrow> nat \<Rightarrow> request \<Rightarrow> string \<Rightarrow> api_body response" where
  "handle_token lib i now cap r body =
     (case decode_struct ''tokenRequest'' token_fields (Some (min cap maxSpecBytes)) body of
        Inl e \<Rightarrow>
          bad_request r TypeInvalidSpec
            (''The body must be JSON with a '' @ quote ''client_id'' @ '', and a '' @ quote ''client_secret'' @
             '' when the server requires one.'')
      | Inr vals \<Rightarrow>
         (let clientID = trim_space (string_field vals ''client_id'') in
          if clientID = [] then bad_request r TypeInvalidSpec (quote ''client_id'' @ '' is required.'')
          else if length clientID > 128 then
            bad_request r TypeInvalidSpec (quote ''client_id'' @ '' must be 128 characters or fewer.'')
          else if \<not> authorize i clientID (string_field vals ''client_secret'') then
            write_problem r [] 401 TypeInvalidCredential ''Unauthorized''
              ''The client id or secret is not recognized.''
          else
           (case issue_token lib i now clientID of
              Inl e \<Rightarrow>
                write_problem r [] 500 TypeInternal ''Internal Server Error'' ''The token could not be issued.''
            | Inr token \<Rightarrow>
                write_json r [(''Cache-Control'', ''no-store'')] 200
                  (TokenBody \<lparr>tr_access_token = token, tr_token_type = ''Bearer'',
                              tr_expires_in = tdiv (ti_ttl i) (10 ^ 9)\<rparr>))))"

definition handle_get_job ::
  "'w repo_port \<Rightarrow> api_config \<Rightarrow> request \<Rightarrow> ctx \<Rightarrow> string \<Rightarrow> 'w \<Rightarrow> api_body response \<times> 'w" where
  "handle_get_job jobs cfg r c i w =
     (if i = [] then
        (write_problem r [] 400 TypeJobNotFound ''Bad Request'' ''A job id is required.'', w)
      else
       (case GetJob jobs c i w of
          (Inl e, w') \<Rightarrow>
            if errors_is e ErrJobNotFound then
              (write_problem r [] 404 TypeJobNotFound ''Not Found'' (''No job with id '' @ quote i @ ''.''), w')
            else
              (write_problem r [] 500 TypeInternal ''Internal Server Error''
                 ''The job could not be loaded.'', w')
        | (Inr job, w') \<Rightarrow> (write_json r [] 200 (JobBody (new_job_response cfg job)), w')))"

definition handle_healthz :: "request \<Rightarrow> api_body response" where
  "handle_healthz r = write_json r [] 200 (StatusBody ''ok'')"

definition handle_readyz ::
  "(ctx \<Rightarrow> 'w \<Rightarrow> goerr option \<times> 'w) option \<Rightarrow> request \<Rightarrow> ctx \<Rightarrow> 'w \<Rightarrow> api_body response \<times> 'w" where
  "handle_readyz ready r c w =
     (case ready of
        None \<Rightarrow> (write_json r [] 200 (StatusBody ''ready''), w)
      | Some check \<Rightarrow>
          (case check c w of
             (Some e, w') \<Rightarrow>
               (write_problem r [] 503 TypeNotReady ''Service Unavailable'' ''The service is not ready.'', w')
           | (None, w') \<Rightarrow> (write_json r [] 200 (StatusBody ''ready''), w')))"

text \<open>A protected route: \<open>requireAuth\<close>, then \<open>rateLimit\<close> on the client it found, then the handler.\<close>

definition protected_route ::
  "jwt_lib \<Rightarrow> token_issuer \<Rightarrow> ('l, 'r) rate_lib \<Rightarrow> nat \<Rightarrow> int \<Rightarrow> request \<Rightarrow>
   ('w \<Rightarrow> api_body response \<times> 'w) \<Rightarrow> 'l rate_limiter \<Rightarrow> 'w \<Rightarrow>
   (api_body response \<times> 'l rate_limiter \<times> 'w) option" where
  "protected_route jwt i lib n now r handler l w =
     require_auth jwt i now r
       (\<lambda>client. rate_limit lib n now r (Some client) handler l w)
       (\<lambda>resp. Some (resp, l, w))"

section \<open>Lemmas\<close>

lemma dto_roundtrip [simp]:
  "to_domain (spec_from_domain s) = s" "spec_from_domain (to_domain d) = d"
  by (simp_all add: to_domain_def spec_from_domain_def)

lemma job_response_url:
  "jr_result_url (new_job_response cfg job) =
     (if ResultKey job = [] \<or> ac_base_url cfg = [] then [] else ac_base_url cfg @ ''/'' @ ResultKey job)"
  by (simp add: new_job_response_def Let_def)

text \<open>Zero means the default, as in \<open>New\<close>: only a negative setting turns the limiter off.\<close>

lemma api_new_enabled:
  "limiter_enabled (snd (api_new cfg)) \<longleftrightarrow> 0 \<le> ac_rate_limit cfg \<and> 0 \<le> ac_rate_burst cfg"
  by (auto simp: api_new_def api_defaults_def Let_def limiter_enabled_def new_rate_limiter_def
      DefaultRateLimit_def DefaultRateBurst_def)

lemma usecase_problem_status:
  "rs_status (write_usecase_problem r e gone) =
     (if errors_is e ErrInvalidDimensions \<or> errors_is e ErrInvalidFormat \<or> errors_is e ErrInvalidQuality \<or>
         errors_is e ErrNoSource then 400 else if gone \<noteq> None then 408 else 500)"
  by (simp add: write_usecase_problem_def)

text \<open>The JSON text of a transformation, as \<open>json.Marshal\<close> writes it inside a job.\<close>

definition dto_members :: "transformation_dto \<Rightarrow> (string \<times> field_value) list" where
  "dto_members d =
     [(''width'', FInt (dto_width d)), (''height'', FInt (dto_height d)), (''format'', FString (dto_format d)),
      (''quality'', FInt (dto_quality d)), (''watermark'', FBool (dto_watermark d)),
      (''strip_metadata'', FBool (dto_strip_metadata d))]"

definition dto_json :: "transformation_dto \<Rightarrow> string" where
  "dto_json d = json_struct (dto_members d)"

lemma set_fields_Cons [simp]:
  "set_fields [] vals = vals" "set_fields ((k, v) # ms) vals = set_fields ms (vals(k \<mapsto> v))"
  by (simp_all add: set_fields_def)

lemma dto_fields_found:
  "list_all (\<lambda>(k, v). ascii k \<and> find_field spec_fields k = Some (k, field_kind_of v)) (dto_members d)"
proof -
  have "find_field spec_fields ''width'' = Some (''width'', KInt)"
    "find_field spec_fields ''height'' = Some (''height'', KInt)"
    "find_field spec_fields ''format'' = Some (''format'', KString)"
    "find_field spec_fields ''quality'' = Some (''quality'', KInt)"
    "find_field spec_fields ''watermark'' = Some (''watermark'', KBool)"
    "find_field spec_fields ''strip_metadata'' = Some (''strip_metadata'', KBool)"
    by code_simp+
  then show ?thesis by (simp add: dto_members_def ascii_def)
qed

lemma dto_decoded: "dto_of_fields (set_fields (dto_members d) Map.empty) = d"
  by (simp add: dto_members_def dto_of_fields_def int_field_def string_field_def bool_field_def)

lemma read_spec_dto:
  assumes "form_value f SpecField = dto_json d" "length (dto_json d) \<le> maxSpecBytes"
    and "list_all (\<lambda>(k, v). field_ok v) (dto_members d)"
  shows "read_spec r f = Inr (to_domain d)"
proof -
  have "list_all (\<lambda>(k, v). ascii k \<and> field_ok v \<and> find_field spec_fields k = Some (k, field_kind_of v))
      (dto_members d)"
    using assms(3) dto_fields_found [of d] by (auto simp: list_all_iff)
  from decode_encoded [OF _ this, of None "''transformationSpec''"]
  have "decode_struct ''transformationSpec'' spec_fields None (dto_json d) = Inr (set_fields (dto_members d) Map.empty)"
    by (simp add: dto_members_def dto_json_def)
  moreover have "dto_json d \<noteq> []" by (simp add: dto_json_def json_struct_def)
  ultimately show ?thesis using assms(1,2) by (simp add: read_spec_def dto_decoded)
qed

lemma show_nat_length: "n < 10 ^ k \<Longrightarrow> length (show_nat n) \<le> max 1 k"
proof (induction k arbitrary: n)
  case (Suc k)
  show ?case
  proof (cases "n < 10")
    case False
    then have "n div 10 < 10 ^ k" using Suc.prems by (simp add: less_mult_imp_div_less mult.commute)
    moreover from False Suc.prems have "k \<noteq> 0" by (cases k) auto
    ultimately show ?thesis using Suc.IH [of "n div 10"] False by (simp add: show_nat.simps [of n])
  qed (simp add: show_nat.simps [of n])
qed (simp add: show_nat.simps)

lemma itoa_length: "0 \<le> i \<Longrightarrow> i \<le> 10000 \<Longrightarrow> length (itoa i) \<le> 5"
  using show_nat_length [of "nat i" 5] by (simp add: itoa_def)

text \<open>A valid transformation is written in far fewer bytes than the part may hold.\<close>

lemma valid_dto_length:
  assumes "spec_ok sp"
  shows "length (dto_json (spec_from_domain sp)) \<le> maxSpecBytes"
proof -
  have "Format sp \<in> {FormatJPEG, FormatPNG, FormatWebP, FormatAVIF}"
    using assms unfolding spec_ok_def by (metis format_validE insertI1 insertI2)
  then have "length (json_string (Format sp)) \<le> 6"
    by (auto simp: FormatJPEG_def FormatPNG_def FormatWebP_def FormatAVIF_def json_string_def
        escape_json.simps escape_ascii_def)
  moreover have "length (itoa (Width sp)) \<le> 5" "length (itoa (Height sp)) \<le> 5" "length (itoa (Quality sp)) \<le> 5"
    using assms by (auto simp: spec_ok_def dimensions_ok_def quality_ok_def MaxDimension_def intro!: itoa_length)
  ultimately show ?thesis
    by (simp add: dto_json_def dto_members_def spec_from_domain_def json_struct_def json_string_def
        escape_json.simps escape_ascii_def maxSpecBytes_def)
qed

text \<open>
  C35: a transformation the API shows can be posted again. The JSON text of any valid
  transformation, as it is echoed on a job, is accepted as the \<open>spec\<close> of an upload and read as
  that very transformation.
\<close>

theorem spec_roundtrip:
  assumes "spec_ok sp" "form_value f SpecField = dto_json (spec_from_domain sp)"
  shows "read_spec r f = Inr sp"
proof -
  have "ascii (Format sp)"
    using assms(1) unfolding spec_ok_def
    by (elim conjE format_validE) (simp_all add: FormatJPEG_def FormatPNG_def FormatWebP_def FormatAVIF_def)
  moreover have "in_i64 (Width sp)" "in_i64 (Height sp)" "in_i64 (Quality sp)"
    using assms(1) by (auto simp: spec_ok_def dimensions_ok_def quality_ok_def MaxDimension_def in_i64_def)
  ultimately have "list_all (\<lambda>(k, v). field_ok v) (dto_members (spec_from_domain sp))"
    by (simp add: dto_members_def spec_from_domain_def)
  from read_spec_dto [OF assms(2) valid_dto_length [OF assms(1)] this] show ?thesis by simp
qed

definition posted_spec :: transformation_spec where
  "posted_spec =
     \<lparr>Width = 640, Height = 0, Format = FormatWebP, Quality = 80, Watermark = True, StripMetadata = False\<rparr>"

definition sample_form :: upload_form where
  "sample_form =
     \<lparr>uf_file = Some (''cat.bmp'', Reader ''BM'' None), uf_query = (\<lambda>k. []),
      uf_parts = (\<lambda>k. if k = SpecField then [dto_json (spec_from_domain posted_spec)] else [])\<rparr>"

lemma posted_spec_ok: "spec_ok posted_spec"
  by (simp add: posted_spec_def spec_ok_def dimensions_ok_def quality_ok_def MaxDimension_def
      format_valid_def FormatWebP_def FormatPNG_def)

theorem spec_roundtrip_witness: "read_spec sample_request sample_form = Inr posted_spec"
  using posted_spec_ok by (rule spec_roundtrip) (simp add: form_value_def sample_form_def)

text \<open>
  What the token endpoint hands out is what the protected routes take. When a request for a
  token was answered with one, the client may have it: its identifier, trimmed, is not blank nor
  over 128 bytes, and its secret is the configured one when there is one. For at least as many
  seconds as the answer says the token lasts, a request that carries it passes the middleware,
  as that client.
\<close>

theorem token_flow:
  assumes "jwt_ok lib sg" and "0 \<le> ti_ttl i" "in_i64 (ti_ttl i)"
    and "rs_body (handle_token lib i issued cap r body) = JsonBody (TokenBody t)"
    and "decode_struct ''tokenRequest'' token_fields (Some (min cap maxSpecBytes)) body = Inr vals"
    and "client = trim_space (string_field vals ''client_id'')" "ascii client"
    and "rq_authorization r' = ''Bearer '' @ tr_access_token t"
    and "issued \<le> now" "now \<le> issued + tr_expires_in t * 10 ^ 9"
  shows "client \<noteq> [] \<and> length client \<le> 128 \<and>
    (if ti_secret i = [] then True else string_field vals ''client_secret'' = ti_secret i) \<and>
    require_auth lib i now r' next_handler respond = next_handler client"
proof -
  obtain s where s: "issue_token lib i issued client = Inr s" "authorize i client (string_field vals ''client_secret'')"
    "client \<noteq> []" "length client \<le> 128"
    and t: "t = \<lparr>tr_access_token = s, tr_token_type = ''Bearer'', tr_expires_in = tdiv (ti_ttl i) (10 ^ 9)\<rparr>"
    using assms(4) unfolding handle_token_def assms(5)
    by (auto simp: assms(6) [symmetric] Let_def bad_request_def write_problem_def write_problem_with_def
        split: if_splits sum.splits)
  have ttl: "tdiv (ti_ttl i) (10 ^ 9) = ti_ttl i div 10 ^ 9"
    using tdiv_nonneg [OF assms(2) _ assms(3)] by simp
  have "ti_ttl i div 10 ^ 9 * 10 ^ 9 \<le> ti_ttl i" by simp
  with numeric_date_bounds [of issued] numeric_date_bounds [of "issued + ti_ttl i"] assms(9,10) t ttl
  have within: "numeric_date issued - clockSkew \<le> now" "now < numeric_date (issued + ti_ttl i) + clockSkew"
    by (simp_all add: clockSkew_def)
  have "rq_authorization r' = ''Bearer '' @ s" using assms(8) t by simp
  from require_auth_issued [OF assms(1,7) s(1) refl this within] s(2-4) show ?thesis
    by (auto simp: authorize_def split: if_splits)
qed

definition sample_token_body :: string where
  "sample_token_body = json_struct [(''client_id'', FString ''ann'')]"

lemma sample_token_decoded:
  "decode_struct ''tokenRequest'' token_fields (Some (min 8192 maxSpecBytes)) sample_token_body =
     Inr [''client_id'' \<mapsto> FString ''ann'']"
proof -
  have "find_field token_fields ''client_id'' = Some (''client_id'', KString)" by code_simp
  moreover have "length sample_token_body \<le> 8192" by code_simp
  ultimately show ?thesis
    using decode_encoded [of "[(''client_id'', FString ''ann'')]" token_fields "Some 8192" "''tokenRequest''"]
    by (simp add: sample_token_body_def maxSpecBytes_def)
qed

definition sample_token :: token_response where
  "sample_token = \<lparr>tr_access_token = ''t'', tr_token_type = ''Bearer'', tr_expires_in = 3600\<rparr>"

lemma sample_token_issued:
  "handle_token sample_jwt sample_issuer 0 8192 sample_request sample_token_body =
     write_json sample_request [(''Cache-Control'', ''no-store'')] 200 (TokenBody sample_token)"
proof -
  have "tdiv (ti_ttl sample_issuer) (10 ^ 9) = 3600"
    using tdiv_nonneg [of "ti_ttl sample_issuer" "10 ^ 9"]
    by (simp add: sample_issuer_def DefaultTokenTTL_def in_i64_def)
  moreover have "ti_secret sample_issuer = []" by (simp add: sample_issuer_def)
  ultimately show ?thesis
    unfolding handle_token_def sample_token_decoded
    by (simp add: string_field_def sample_subject authorize_def sample_issue sample_token_def)
qed

theorem token_flow_witness:
  "require_auth sample_jwt sample_issuer (3600 * 10 ^ 9)
     (sample_request\<lparr>rq_authorization := ''Bearer t''\<rparr>) Some (\<lambda>resp. None) = Some ''ann''"
proof -
  have "0 \<le> ti_ttl sample_issuer" "in_i64 (ti_ttl sample_issuer)"
    by (simp_all add: sample_issuer_def DefaultTokenTTL_def in_i64_def)
  from token_flow [OF sample_jwt_ok this _ sample_token_decoded, of 0 sample_request sample_token "''ann''"
      "sample_request\<lparr>rq_authorization := ''Bearer t''\<rparr>" "3600 * 10 ^ 9" Some "\<lambda>resp. None"]
  show ?thesis by (auto simp: sample_token_issued string_field_def sample_subject ascii_def sample_token_def)
qed

end
