(* ===== verification/Uploads.thy ===== *)
theory Uploads
  imports Scenarios Handlers
begin

text \<open>
  The upload handler on the in-process wiring: what a client is told against what happened to
  the stored jobs and the queue.
\<close>

section \<open>Reading the request\<close>

definition has_file :: "form_result \<Rightarrow> bool" where
  "has_file form = (case form of Form f \<Rightarrow> uf_file f \<noteq> None | _ \<Rightarrow> False)"

lemma check_media_accepts:
  assumes "check_media_type r file filename = (Inr sniffed, closes)"
  shows "sniffed = file \<and> closes = 0 \<and> image_kind (reader_bytes file) \<noteq> None"
proof -
  from assms obtain mt where s: "sniff_media_type file = Inr (mt, sniffed)" "allowed_media_type mt" "closes = 0"
    by (auto simp: check_media_type_def split: sum.splits if_splits)
  then have t: "sniffed = file" "mt = sniffed_type (take 512 (reader_bytes file))"
    by (auto simp: sniff_media_type_def sniffLen_def Let_def split: option.splits if_splits)
  with s sniffed_kind [of "take 512 (reader_bytes file)", unfolded image_kind_head] show ?thesis
    by (auto split: if_splits)
qed

lemma check_media_rejects:
  assumes "check_media_type r file filename = (Inl resp, closes)"
  shows "rs_status resp \<in> {400, 415}"
  using assms by (auto simp: check_media_type_def bad_request_def split: sum.splits if_splits)

lemma read_spec_rejects: "read_spec r f = Inl resp \<Longrightarrow> rs_status resp = 400"
  by (auto simp: read_spec_def bad_request_def Let_def split: sum.splits if_splits)

lemma read_upload_rejects:
  assumes "read_upload cfg r form = (Inl resp, closes)"
  shows "rs_status resp \<in> {400, 413, 415} \<and> (has_file form = (1 \<le> closes))"
  using assms
  by (auto simp: read_upload_def bad_request_def has_file_def
      dest: check_media_rejects read_spec_rejects
      split: form_result.splits option.splits sum.splits prod.splits)

lemma read_upload_reads:
  assumes "read_upload cfg r form = (Inr (sp, upload), closes)"
  shows "has_file form \<and> closes = 0 \<and> image_kind (reader_bytes upload) \<noteq> None"
  using assms
  by (auto simp: read_upload_def has_file_def dest: check_media_accepts
      split: form_result.splits option.splits sum.splits prod.splits)

section \<open>Creating the job\<close>

text \<open>When the request's context is over is read off the world's clock.\<close>

definition mem_upload ::
  "'p mem_env \<Rightarrow> api_config \<Rightarrow> request \<Rightarrow> ctx \<Rightarrow> form_result \<Rightarrow> mem_world \<Rightarrow>
   (api_body response \<times> nat) \<times> mem_world" where
  "mem_upload env cfg r c form w =
     handle_upload (mem_create env) cfg (\<lambda>c w. CtxErr c (w_tick w)) r c form w"

lemma mem_upload_accepted:
  assumes "read_upload cfg r form = (Inr (sp, upload) :: api_body response + _, n)"
    and "mem_upload env cfg r c form w = ((resp, closes), w')"
  obtains e where "create_job_execute (mem_create env) c (Some upload) sp w = (Inl e, w')"
    "resp = write_usecase_problem r e (CtxErr c (w_tick w'))" "closes = n + 1"
  | j where "create_job_execute (mem_create env) c (Some upload) sp w = (Inr j, w')"
    "resp = write_json r [(''Location'', ''/jobs/'' @ ID j)] 202 (JobBody (new_job_response cfg j))" "closes = n + 1"
proof -
  obtain res v where run: "create_job_execute (mem_create env) c (Some upload) sp w = (res, v)" by fastforce
  note m = assms(2) [unfolded mem_upload_def handle_upload_def assms(1)]
  show thesis
  proof (cases res)
    case (Inl e)
    with m run have "v = w'" "resp = write_usecase_problem r e (CtxErr c (w_tick w'))" "closes = n + 1" by auto
    with that(1) run Inl show ?thesis by simp
  next
    case (Inr j)
    with m run have "v = w'" "closes = n + 1"
      "resp = write_json r [(''Location'', ''/jobs/'' @ ID j)] 202 (JobBody (new_job_response cfg j))" by auto
    with that(2) run Inr show ?thesis by simp
  qed
qed

lemma mem_create_leaves:
  assumes "create_job_execute (mem_create env) c src sp w = (Inl e, w')"
  shows "mem_waiting w' = mem_waiting w \<and> (w_jobs w' = w_jobs w \<or>
     (\<exists>i j. w_jobs w' = (w_jobs w)(i \<mapsto> j) \<and> Transformation j = sp \<and>
            (Status j = StatusFailed \<or> Status j = StatusPending)))"
proof -
  let ?i = "fst (mem_new_id env w)"
  from mem.create_failed [OF assms [unfolded mem_create_def]]
  have "mem_waiting w' = mem_waiting w" by simp
  moreover from mem.create_failed [OF assms [unfolded mem_create_def]]
  consider "w_jobs w' = w_jobs w"
    | j where "w_jobs w' = (w_jobs w)(?i \<mapsto> j)" "Transformation j = sp" "Status j = StatusFailed"
    | j where "w_jobs w' = (w_jobs w)(?i \<mapsto> j)" "Transformation j = sp" "Status j = StatusPending"
    by (force simp: updated_job_def)
  then have "w_jobs w' = w_jobs w \<or>
     (\<exists>i j. w_jobs w' = (w_jobs w)(i \<mapsto> j) \<and> Transformation j = sp \<and>
            (Status j = StatusFailed \<or> Status j = StatusPending))" by cases blast+
  ultimately show ?thesis by simp
qed

lemma upload_invalid:
  assumes "read_upload cfg r form = (Inr (sp, upload) :: api_body response + _, n)"
    and "mem_upload env cfg r c form w = ((resp, closes), w')" and "\<not> spec_ok sp"
  shows "rs_status resp = 400 \<and> w' = w"
proof -
  obtain v where v: "spec_validate sp = Some v" using assms(3) by (auto simp: spec_validate_None [symmetric])
  then have "create_job_execute (mem_create env) c (Some upload) sp w
      = (Inl (EWrap ''create job: invalid transformation: '' v []), w)" by (rule create_rejects)
  with assms(1,2) show ?thesis
    using spec_validate_is [OF v] by (auto simp: mem_upload_def handle_upload_def usecase_problem_status)
qed

section \<open>Properties\<close>

text \<open>
  C32: what an upload is told is what happened. A request whose form, file or \<open>spec\<close> is not
  acceptable is refused, 400, 413 or 415, and nothing happens; the file of a request that gets
  past this begins with the signature of an image. An invalid transformation is answered 400 and
  has no effect either. Otherwise the answer is 202, and then the body is the pending job that
  is now stored and queued, its transformation the one asked for, with its address in
  \<open>Location\<close>; or it is an error, and then nothing was queued and at most the new job is there,
  failed or, when that could not be recorded, pending. Whatever the answer, an uploaded file is
  closed.
\<close>

theorem upload_answers:
  assumes "mem_upload env cfg r c form w = ((resp, closes), w')"
  shows "has_file form = (1 \<le> closes) \<and>
    (case fst (read_upload cfg r form) of
       Inl refused \<Rightarrow> resp = refused \<and> rs_status resp \<in> {400, 413, 415} \<and> w' = w
     | Inr (sp, upload) \<Rightarrow>
         image_kind (reader_bytes upload) \<noteq> None \<and>
         (if \<not> spec_ok sp then rs_status resp = 400 \<and> w' = w
          else if rs_status resp = 202 then
            (\<exists>j. rs_body resp = JsonBody (JobBody (new_job_response cfg j)) \<and>
                 (''Location'', ''/jobs/'' @ ID j) \<in> set (rs_headers resp) \<and>
                 Status j = StatusPending \<and> Transformation j = sp \<and>
                 w_jobs w' = (w_jobs w)(ID j \<mapsto> j) \<and> mem_waiting w' = add_mset (ID j) (mem_waiting w))
          else rs_status resp \<in> {400, 408, 500} \<and> mem_waiting w' = mem_waiting w \<and>
            (w_jobs w' = w_jobs w \<or>
             (\<exists>i j. w_jobs w' = (w_jobs w)(i \<mapsto> j) \<and> Transformation j = sp \<and>
                    (Status j = StatusFailed \<or> Status j = StatusPending)))))"
proof (cases "fst (read_upload cfg r form) :: api_body response + _")
  case (Inl refused)
  then obtain n where u: "read_upload cfg r form = (Inl refused :: api_body response + _, n)" by (metis prod.collapse)
  with read_upload_rejects [OF u] assms show ?thesis
    by (auto simp: mem_upload_def handle_upload_def)
next
  case (Inr accepted)
  then obtain sp upload n where u: "read_upload cfg r form = (Inr (sp, upload) :: api_body response + _, n)" by (metis prod.collapse)
  note reads = read_upload_reads [OF u]
  show ?thesis
  proof (cases "spec_ok sp")
    case False
    from upload_invalid [OF u assms False] have "rs_status resp = 400 \<and> w' = w" .
    moreover have "closes = n + 1" using u assms by (auto elim: mem_upload_accepted)
    ultimately show ?thesis using reads u False by simp
  next
    case True
    from u assms show ?thesis
    proof (cases rule: mem_upload_accepted)
      case (1 e)
      from mem_create_leaves [OF 1(1)] 1 u reads True show ?thesis by (simp add: usecase_problem_status)
    next
      case (2 j)
      from mem.create_ok [OF 2(1) [unfolded mem_create_def]]
      have "Status j = StatusPending \<and> Transformation j = sp \<and>
        w_jobs w' = (w_jobs w)(ID j \<mapsto> j) \<and> mem_waiting w' = add_mset (ID j) (mem_waiting w)"
        by (metis TrueI created_job_simps(3,4))
      with 2 u reads True show ?thesis by auto
    qed
  qed
qed

definition sample_config :: api_config where
  "sample_config = api_defaults \<lparr>ac_max_upload = 0, ac_origins = [], ac_base_url = [],
     ac_rate_limit = 0, ac_rate_burst = 0\<rparr>"

lemma sample_form_read:
  "read_upload sample_config sample_request (Form sample_form) =
     (Inr (posted_spec, Reader ''BM'' None) :: api_body response + _, 0)"
proof -
  have "list_all (\<lambda>(k, v). field_ok v) (dto_members (spec_from_domain posted_spec))" by code_simp
  from read_spec_dto [OF _ valid_dto_length [OF posted_spec_ok] this, of sample_form]
  have "read_spec sample_request sample_form = (Inr posted_spec :: api_body response + _)"
    by (simp add: form_value_def sample_form_def)
  moreover have "check_media_type sample_request (Reader ''BM'' None) ''cat.bmp'' =
      (Inr (Reader ''BM'' None) :: api_body response + _, 0)"
    by code_simp
  ultimately show ?thesis by (simp add: read_upload_def sample_form_def)
qed

lemma sample_upload_runs:
  "res_ok (fst (create_job_execute (mem_create ex_env) Background (Some (Reader ''BM'' None)) posted_spec ex_world))"
  by code_simp

theorem upload_answers_witness:
  "\<exists>resp n w'. mem_upload ex_env sample_config sample_request Background (Form sample_form) ex_world
       = ((resp, n), w') \<and> rs_status resp = 202 \<and> 1 \<le> n \<and> mem_waiting w' \<noteq> mem_waiting ex_world"
proof -
  obtain resp n w' where u: "mem_upload ex_env sample_config sample_request Background (Form sample_form) ex_world
       = ((resp, n), w')" by (metis prod.collapse)
  obtain j where "fst (create_job_execute (mem_create ex_env) Background (Some (Reader ''BM'' None)) posted_spec
      ex_world) = Inr j" using sample_upload_runs by (rule res_okE)
  with sample_form_read u have "rs_status resp = 202"
    by (cases rule: mem_upload_accepted [OF sample_form_read u]) simp_all
  moreover have "has_file (Form sample_form)" by (simp add: has_file_def sample_form_def)
  ultimately show ?thesis using upload_answers [OF u] u by (auto simp: sample_form_read posted_spec_ok)
qed

end
