(* ===== verification/Relay.thy ===== *)
theory Relay
  imports Worker
begin

text \<open>
  The goroutine that passes a channel on to another one: \<open>Consume\<close> of both queues, which keeps
  the identifiers of the deliveries (\<open>memqueue.go\<close>, \<open>sqsqueue.go\<close>), and \<open>consume\<close> of the pool,
  which makes deliveries without metadata out of identifiers (\<open>pool.go\<close>). It ranges over its
  source and offers each element until it is taken or the context ends.
\<close>

section \<open>The goroutine\<close>

text \<open>
  Waiting in its \<open>range\<close>, offering an element, or returned, having closed its channel. The source
  may offer elements until it is closed; ghost lists hold what was taken from it, passed on, and
  dropped.
\<close>

datatype 'a relay_pc = Ranging | Offering 'a | Ended

record ('a, 'b) relay =
  ry_pc :: "'a relay_pc"
  ry_closed :: bool
  ry_done :: bool
  ry_taken :: "'a list"
  ry_passed :: "'b list"
  ry_dropped :: "'a list"

definition relay_start :: "('a, 'b) relay" where
  "relay_start =
     \<lparr>ry_pc = Ranging, ry_closed = False, ry_done = False, ry_taken = [], ry_passed = [], ry_dropped = []\<rparr>"

inductive relay_step :: "('a \<Rightarrow> 'b) \<Rightarrow> ('a, 'b) relay \<Rightarrow> ('a, 'b) relay \<Rightarrow> bool" for f :: "'a \<Rightarrow> 'b" where
  receive: "ry_pc s = Ranging \<Longrightarrow> \<not> ry_closed s \<Longrightarrow>
    relay_step f s (s\<lparr>ry_pc := Offering x, ry_taken := ry_taken s @ [x]\<rparr>)"
| source_ends: "ry_pc s = Ranging \<Longrightarrow> ry_closed s \<Longrightarrow> relay_step f s (s\<lparr>ry_pc := Ended\<rparr>)"
| pass: "ry_pc s = Offering x \<Longrightarrow>
    relay_step f s (s\<lparr>ry_pc := Ranging, ry_passed := ry_passed s @ [f x]\<rparr>)"
| give_up: "ry_pc s = Offering x \<Longrightarrow> ry_done s \<Longrightarrow>
    relay_step f s (s\<lparr>ry_pc := Ended, ry_dropped := [x]\<rparr>)"
| close: "relay_step f s (s\<lparr>ry_closed := True\<rparr>)"
| cancel: "relay_step f s (s\<lparr>ry_done := True\<rparr>)"

text \<open>Its uses: \<open>Consume\<close> of the in-memory queue, \<open>Consume\<close> of the SQS queue, the pool's fallback.\<close>

definition consume_step :: "(delivery, string) relay \<Rightarrow> (delivery, string) relay \<Rightarrow> bool" where
  "consume_step = relay_step JobID"

definition sqs_ids_step :: "(delivery, string) relay \<Rightarrow> (delivery, string) relay \<Rightarrow> bool" where
  "sqs_ids_step = relay_step JobID"

definition bare_delivery :: "string \<Rightarrow> delivery" where
  "bare_delivery i = \<lparr>JobID = i, Meta = None\<rparr>"

definition fallback_step :: "(string, delivery) relay \<Rightarrow> (string, delivery) relay \<Rightarrow> bool" where
  "fallback_step = relay_step bare_delivery"

text \<open>
  \<open>consume\<close>: what the pool reads from, the queue's own deliveries when it has the delivery form and
  else its identifiers behind the fallback; and the start of \<open>Run\<close>, which gives up when the queue
  cannot be opened. \<open>'d\<close> and \<open>'i\<close> are the two channels.
\<close>

datatype ('d, 'i) feed = Direct 'd | Bridged 'i

definition pool_consume ::
  "('w \<Rightarrow> 'd res \<times> 'w) option \<Rightarrow> ('w \<Rightarrow> 'i res \<times> 'w) \<Rightarrow> 'w \<Rightarrow> ('d, 'i) feed res \<times> 'w" where
  "pool_consume consumeDeliveries consumeIDs w =
     (case consumeDeliveries of
        Some consumer \<Rightarrow>
          (case consumer w of (Inl e, w) \<Rightarrow> (Inl e, w) | (Inr ds, w) \<Rightarrow> (Inr (Direct ds), w))
      | None \<Rightarrow>
          (case consumeIDs w of (Inl e, w) \<Rightarrow> (Inl e, w) | (Inr ids, w) \<Rightarrow> (Inr (Bridged ids), w)))"

definition pool_run ::
  "'p pool \<Rightarrow> ('w \<Rightarrow> 'd res \<times> 'w) option \<Rightarrow> ('w \<Rightarrow> 'i res \<times> 'w) \<Rightarrow> 'w \<Rightarrow>
   (('d, 'i) feed \<times> pool_sys) res \<times> 'w" where
  "pool_run p consumeDeliveries consumeIDs w =
     (case pool_consume consumeDeliveries consumeIDs w of
        (Inl e, w) \<Rightarrow> (Inl (EWrap ''worker: consume: '' e []), w)
      | (Inr feed, w) \<Rightarrow> (Inr (feed, pool_start p), w))"

section \<open>What is passed on\<close>

fun offered :: "'a relay_pc \<Rightarrow> 'a list" where
  "offered (Offering x) = [x]"
| "offered _ = []"

definition relay_inv :: "('a \<Rightarrow> 'b) \<Rightarrow> ('a, 'b) relay \<Rightarrow> bool" where
  "relay_inv f s \<longleftrightarrow>
     map f (ry_taken s) = ry_passed s @ map f (offered (ry_pc s) @ ry_dropped s) \<and>
     length (ry_dropped s) \<le> 1 \<and>
     (if ry_dropped s = [] then ry_pc s = Ended \<longrightarrow> ry_closed s else ry_pc s = Ended \<and> ry_done s)"

lemma relay_inv_start: "relay_inv f relay_start"
  by (simp add: relay_inv_def relay_start_def)

lemma relay_step_inv: "relay_step f s t \<Longrightarrow> relay_inv f s \<Longrightarrow> relay_inv f t"
  by (induction rule: relay_step.induct) (auto simp: relay_inv_def split: if_splits)

lemma relay_steps_inv: "(relay_step f)\<^sup>*\<^sup>* relay_start s \<Longrightarrow> relay_inv f s"
  by (induction rule: rtranclp_induct) (auto intro: relay_inv_start relay_step_inv)

section \<open>Properties\<close>

text \<open>
  What goes through a wrapped channel (the identifiers \<open>Consume\<close> takes from the deliveries of
  either queue, or the deliveries the pool makes of identifiers) comes out in order, each element
  once: all that was taken but the one still on offer, or the one held when the context ended;
  and the channel is closed only when its source was or the context ended.
\<close>

theorem consume_relays:
  assumes "(relay_step f)\<^sup>*\<^sup>* relay_start s"
  shows "map f (ry_taken s) = ry_passed s @ map f (offered (ry_pc s) @ ry_dropped s) \<and>
    length (offered (ry_pc s) @ ry_dropped s) \<le> 1 \<and>
    (ry_dropped s = [] \<or> ry_done s) \<and> (ry_pc s \<noteq> Ended \<or> ry_closed s \<or> ry_done s)"
  using relay_steps_inv [OF assms]
  by (cases "ry_pc s") (auto simp: relay_inv_def split: if_splits)

theorem consume_relays_witness:
  "\<exists>s. consume_step\<^sup>*\<^sup>* relay_start s \<and> ry_passed s = [''j''] \<and> map JobID (ry_taken s) = ry_passed s"
proof -
  let ?d = "\<lparr>JobID = ''j'', Meta = Some Map.empty\<rparr>"
  let ?s = "relay_start\<lparr>ry_pc := Offering ?d, ry_taken := [?d]\<rparr> :: (delivery, string) relay"
  let ?t = "?s\<lparr>ry_pc := Ranging, ry_passed := [''j'']\<rparr>"
  have "consume_step relay_start ?s" "consume_step ?s ?t"
    using relay_step.receive [of relay_start JobID ?d] relay_step.pass [of ?s ?d JobID]
    by (simp_all add: consume_step_def relay_start_def)
  then have r: "consume_step\<^sup>*\<^sup>* relay_start ?t" by (meson converse_rtranclp_into_rtranclp r_into_rtranclp)
  from consume_relays [OF r [unfolded consume_step_def]] r show ?thesis by (intro exI [of _ ?t]) (simp add: relay_start_def)
qed

text \<open>Through the pool's fallback no job has metadata, so each is traced from the worker on.\<close>

lemma fallback_untraced:
  assumes "fallback_step\<^sup>*\<^sup>* relay_start s"
  shows "list_all (\<lambda>d. Meta d = None) (ry_passed s) \<and>
    map JobID (ry_passed s) = take (length (ry_passed s)) (ry_taken s)"
proof -
  have p: "map bare_delivery (ry_taken s) = ry_passed s @ map bare_delivery (offered (ry_pc s) @ ry_dropped s)"
    using relay_steps_inv [OF assms [unfolded fallback_step_def]] by (simp add: relay_inv_def)
  then have q: "ry_passed s = map bare_delivery (take (length (ry_passed s)) (ry_taken s))"
    by (simp add: take_map [symmetric])
  have "list_all (\<lambda>d. Meta d = None) (map bare_delivery js) \<and> map JobID (map bare_delivery js) = js" for js
    by (simp add: list_all_iff bare_delivery_def comp_def)
  from this [of "take (length (ry_passed s)) (ry_taken s)"] show ?thesis
    unfolding q [symmetric] .
qed

text \<open>
  A queue with the delivery form is never read by identifiers, and an error of the form chosen is
  what \<open>Run\<close> returns, before any worker is started.
\<close>

lemma pool_run_opens:
  "pool_run p (Some consumer) ids w =
     (case consumer w of
        (Inl e, w) \<Rightarrow> (Inl (EWrap ''worker: consume: '' e []), w)
      | (Inr ds, w) \<Rightarrow> (Inr (Direct ds, pool_start p), w))"
  "pool_run p None ids w =
     (case ids w of
        (Inl e, w) \<Rightarrow> (Inl (EWrap ''worker: consume: '' e []), w)
      | (Inr ds, w) \<Rightarrow> (Inr (Bridged ds, pool_start p), w))"
  by (simp_all add: pool_run_def pool_consume_def split: prod.split sum.split)

end
