(* ===== verification/Vips.thy ===== *)
theory Vips
  imports Pipeline Environ
begin

text \<open>
  \<open>internal/adapters/imageproc/vips.go\<close>: the backend over libvips. libvips is a parameter; its
  scale factors are \<open>float64\<close>, a quotient of two sides rounded to 53 bits, kept here as \<open>(m, k)\<close>
  for \<open>m / 2^k\<close>. What the pipeline gives over this backend is compared with the pure-Go one.
\<close>

section \<open>The backend\<close>

definition vipsBackend :: string where "vipsBackend = ''govips''"

text \<open>A label: text, font, the box, its offset from the top left, and the opacity in hundredths.\<close>

record label_params =
  lb_text :: string
  lb_font :: string
  lb_width :: int
  lb_height :: int
  lb_offset_x :: int
  lb_offset_y :: int
  lb_opacity :: int

definition watermarkOpacity :: int where "watermarkOpacity = 65"

type_synonym scale = "nat \<times> nat"

text \<open>Encoders take the quality to set, if one is set.\<close>

record 'p vips_lib =
  vl_decode :: "reader \<Rightarrow> 'p res"
  vl_width :: "'p \<Rightarrow> int"
  vl_height :: "'p \<Rightarrow> int"
  vl_resize :: "'p \<Rightarrow> scale \<Rightarrow> 'p res"
  vl_resize_v :: "'p \<Rightarrow> scale \<Rightarrow> scale \<Rightarrow> 'p res"
  vl_thumbnail :: "'p \<Rightarrow> int \<Rightarrow> int \<Rightarrow> 'p res"
  vl_remove_metadata :: "'p \<Rightarrow> 'p res"
  vl_remove_icc :: "'p \<Rightarrow> 'p res"
  vl_label :: "'p \<Rightarrow> label_params \<Rightarrow> 'p res"
  vl_jpeg :: "int option \<Rightarrow> 'p \<Rightarrow> string res"
  vl_png :: "'p \<Rightarrow> string res"
  vl_webp :: "int option \<Rightarrow> 'p \<Rightarrow> string res"
  vl_avif :: "int option \<Rightarrow> 'p \<Rightarrow> string res"

text \<open>\<open>New\<close>, from what the one start of libvips in the process reported.\<close>

definition vips_new :: "goerr option \<Rightarrow> img_option list \<Rightarrow> config res" where
  "vips_new startupErr opts =
     (case startupErr of
        Some e \<Rightarrow> Inl (EWrap ''imageproc: start libvips: '' e [])
      | None \<Rightarrow> Inr (new_config opts))"

definition wrapping :: "string \<Rightarrow> 'a res \<Rightarrow> 'a res" where
  "wrapping prefix r = (case r of Inl e \<Rightarrow> Inl (EWrap prefix e []) | Inr x \<Rightarrow> Inr x)"

definition vips_open :: "'p vips_lib \<Rightarrow> reader \<Rightarrow> 'p res" where
  "vips_open lib r = wrapping ''decode: '' (vl_decode lib r)"

definition same_scale :: "scale \<Rightarrow> scale \<Rightarrow> bool" where
  "same_scale a b \<longleftrightarrow> fst a * 2 ^ snd b = fst b * 2 ^ snd a"

definition vips_resize :: "'p vips_lib \<Rightarrow> int \<Rightarrow> int \<Rightarrow> bool \<Rightarrow> 'p \<Rightarrow> 'p res option" where
  "vips_resize lib width height keepAspect img =
     (let srcW = vl_width lib img; srcH = vl_height lib img in
      case target_size srcW srcH width height keepAspect of
        None \<Rightarrow> None
      | Some (Inl e) \<Rightarrow> Some (Inl e)
      | Some (Inr (targetW, targetH)) \<Rightarrow>
          if targetW = srcW \<and> targetH = srcH then Some (Inr img)
          else
           (let hScale = f64_quot (nat targetW) (nat srcW); vScale = f64_quot (nat targetH) (nat srcH);
                prefix = ''resize to '' @ itoa targetW @ ''x'' @ itoa targetH @ '': '' in
            if same_scale hScale vScale then Some (wrapping prefix (vl_resize lib img hScale))
            else Some (wrapping prefix (vl_resize_v lib img hScale vScale))))"

definition vips_thumbnail :: "'p vips_lib \<Rightarrow> int \<Rightarrow> 'p \<Rightarrow> 'p res option" where
  "vips_thumbnail lib maxDim img =
     (case thumbnail_size (vl_width lib img) (vl_height lib img) maxDim of
        None \<Rightarrow> None
      | Some (Inl e) \<Rightarrow> Some (Inl e)
      | Some (Inr (targetW, targetH)) \<Rightarrow>
          if targetW = vl_width lib img \<and> targetH = vl_height lib img then Some (Inr img)
          else Some (wrapping (''thumbnail to '' @ itoa targetW @ ''x'' @ itoa targetH @ '': '')
                       (vl_thumbnail lib img targetW targetH)))"

definition vips_strip :: "'p vips_lib \<Rightarrow> 'p \<Rightarrow> 'p res" where
  "vips_strip lib img =
     (case wrapping ''remove metadata: '' (vl_remove_metadata lib img) of
        Inl e \<Rightarrow> Inl e
      | Inr img \<Rightarrow> wrapping ''remove icc profile: '' (vl_remove_icc lib img))"

definition vips_watermark :: "config \<Rightarrow> 'p vips_lib \<Rightarrow> string \<Rightarrow> 'p \<Rightarrow> 'p res" where
  "vips_watermark cfg lib text img =
     (if text = [] then Inr img
      else
       (let w = vl_width lib img; h = vl_height lib img in
        case watermark_box w h of (boxW, boxH, marginX, marginY) \<Rightarrow>
          wrapping (''label '' @ quote text @ '': '')
            (vl_label lib img
               \<lparr>lb_text = text, lb_font = fontName cfg, lb_width = boxW, lb_height = boxH,
                lb_offset_x = i64 (i64 (w - boxW) - marginX), lb_offset_y = i64 (i64 (h - boxH) - marginY),
                lb_opacity = watermarkOpacity\<rparr>)))"

definition quality_param :: "int \<Rightarrow> int option" where
  "quality_param quality = (if quality > 0 then Some quality else None)"

definition vips_convert :: "'p vips_lib \<Rightarrow> string \<Rightarrow> int \<Rightarrow> 'p \<Rightarrow> string res" where
  "vips_convert lib format quality img =
     (case normalize_format format of
        Inl e \<Rightarrow> Inl e
      | Inr f \<Rightarrow>
          if f = FormatJPEG then wrapping (''export '' @ f @ '': '') (vl_jpeg lib (quality_param quality) img)
          else if f = FormatPNG then wrapping (''export '' @ f @ '': '') (vl_png lib img)
          else if f = FormatWebP then wrapping (''export '' @ f @ '': '') (vl_webp lib (quality_param quality) img)
          else if f = FormatAVIF then wrapping (''export '' @ f @ '': '') (vl_avif lib (quality_param quality) img)
          else Inl (EWrap [] ErrUnsupportedFormat ('': '' @ quote format)))"

text \<open>Over the number of image handles held; closing a handle twice is a no-op in \<open>Close\<close>.\<close>

definition vips_ops :: "config \<Rightarrow> 'p vips_lib \<Rightarrow> ('p, nat) img_ops" where
  "vips_ops cfg lib =
     \<lparr>op_open = (\<lambda>r n. case vips_open lib r of Inl e \<Rightarrow> (Inl e, n) | Inr i \<Rightarrow> (Inr i, Suc n)),
      op_close = (\<lambda>i n. n - 1),
      op_strip = vips_strip lib,
      op_resize = vips_resize lib,
      op_watermark = vips_watermark cfg lib,
      op_convert = vips_convert lib\<rparr>"

lemma vips_resize_returns: "vips_resize lib a b k i \<noteq> None"
  using target_size_returns [of "vl_width lib i" "vl_height lib i" a b k]
  by (auto simp: vips_resize_def Let_def split: option.splits sum.splits)

interpretation vips: image_backend "vips_ops cfg lib" "\<lambda>n. n" for cfg :: config and lib :: "'p vips_lib"
  by unfold_locales
    (auto simp: vips_ops_def vips_resize_returns split: sum.splits)

section \<open>Rounding\<close>

lemma round_half_even_error:
  fixes a b :: nat
  assumes "0 < b"
  defines "q \<equiv> a div b" and "r \<equiv> a mod b"
  shows "2 * \<bar>int (if b < 2 * r \<or> b = 2 * r \<and> odd q then q + 1 else q) * int b - int a\<bar> \<le> int b"
proof -
  have a: "a = q * b + r" "r < b" using assms by simp_all
  then show ?thesis by (auto simp: algebra_simps)
qed

text \<open>A quotient of sides is within half a unit in its last place, which is a 2^52th of it or less.\<close>

lemma f64_quot_error:
  assumes "0 < a" "0 < b" "bit_count a \<le> 52 + bit_count b" "f64_quot a b = (m, k)"
  shows "2 * \<bar>int m * int b - int a * 2 ^ k\<bar> \<le> int b \<and> 2 ^ 52 * b \<le> a * 2 ^ k"
proof -
  define k0 where "k0 = 52 + bit_count b - bit_count a"
  from assms(4) have k: "k = (if 2 ^ 52 * b \<le> a * 2 ^ k0 then k0 else k0 + 1)"
    and m: "m = (if b < 2 * (a * 2 ^ k mod b) \<or> b = 2 * (a * 2 ^ k mod b) \<and> odd (a * 2 ^ k div b)
                 then a * 2 ^ k div b + 1 else a * 2 ^ k div b)"
    by (auto simp: f64_quot_def k0_def Let_def)
  have "2 * \<bar>int m * int b - int (a * 2 ^ k)\<bar> \<le> int b"
    unfolding m by (rule round_half_even_error [OF assms(2)])
  moreover have "2 ^ 52 * b \<le> a * 2 ^ k"
  proof (cases "2 ^ 52 * b \<le> a * 2 ^ k0")
    case False
    from bit_count_bounds [OF assms(1)] have a: "2 ^ (bit_count a - 1) \<le> a" "0 < bit_count a" by auto
    from bit_count_bounds [OF assms(2)] have "2 ^ 52 * b \<le> 2 ^ (52 + bit_count b)" by (simp add: power_add)
    also have "\<dots> = 2 ^ (bit_count a - 1) * 2 ^ (k0 + 1)"
      unfolding power_add [symmetric] using assms(3) a(2) by (simp add: k0_def)
    also have "\<dots> \<le> a * 2 ^ (k0 + 1)" using a(1) by simp
    finally show ?thesis using False k by simp
  qed (simp add: k)
  ultimately show ?thesis by simp
qed

lemma errors_add_up:
  fixes M T X F P W :: int
  assumes "2 * \<bar>M - T\<bar> \<le> W" "4503599627370496 * W \<le> T" "4503599627370496 * \<bar>F - M\<bar> \<le> M"
    and "T \<le> 10000000 * P" "2 * \<bar>X - F\<bar> \<le> P" "0 < P"
  shows "\<bar>X - T\<bar> < P"
proof -
  obtain a b c where abc: "a = \<bar>X - F\<bar>" "b = \<bar>F - M\<bar>" "c = \<bar>M - T\<bar>" by blast
  have "\<bar>X - T\<bar> \<le> a + b + c" "M \<le> T + c" "0 \<le> c" unfolding abc by arith+
  moreover have "2 * c \<le> W" "4503599627370496 * b \<le> M" "2 * a \<le> P"
    using assms(1,3,5) unfolding abc by simp_all
  ultimately show ?thesis using assms(2,4,6) by linarith
qed

lemma abs_scaled:
  fixes c x y z N :: int
  assumes "0 < c" "x = c * y" "N * \<bar>y\<bar> \<le> z"
  shows "N * \<bar>x\<bar> \<le> c * z"
  using mult_left_mono [OF assms(3), of c] assms(1,2) by (simp add: abs_mult mult.left_commute)

text \<open>
  A side scaled by a double equal to its target's quotient comes out as the target: the errors
  of the quotient and of the product stay below the half that rounding takes back.
\<close>

lemma scaled_side:
  assumes "0 < w" "0 < t" "w \<le> 10 ^ 7" "t \<le> 10 ^ 7"
    and "f64_quot t w = (m, k)" "m * 2 ^ k' = m' * 2 ^ k"
    and "2 * \<bar>2 ^ k' * d - int (f64_of_nat (w * m'))\<bar> \<le> 2 ^ k'"
  shows "d = int t"
proof -
  define K where "K = (2 :: int) ^ k"
  define K' where "K' = (2 :: int) ^ k'"
  define P where "P = K * K'"
  define M where "M = int m' * int w * K"
  define F where "F = int (f64_of_nat (w * m')) * K"
  define T where "T = int t * P"
  have K: "0 < K" "0 < K'" by (simp_all add: K_def K'_def)
  then have P: "0 < P" by (simp add: P_def)
  have "bit_count t \<le> 52"
  proof (rule ccontr)
    assume "\<not> bit_count t \<le> 52"
    then have "(2 :: nat) ^ 52 \<le> 2 ^ (bit_count t - 1)" by (intro power_increasing) simp_all
    with bit_count_bounds [OF assms(2)] assms(4) show False by simp
  qed
  with f64_quot_error [OF assms(2,1) _ assms(5)]
  have q: "2 * \<bar>int m * int w - int t * K\<bar> \<le> int w" and "2 ^ 52 * w \<le> t * 2 ^ k"
    by (auto simp: K_def)
  from iffD2 [OF of_nat_le_iff this(2)] have b: "2 ^ 52 * int w \<le> int t * K"
    unfolding K_def of_nat_mult of_nat_power of_nat_numeral .
  have "int m * K' = int m' * K"
    unfolding K_def K'_def using arg_cong [OF assms(6), of int] by simp
  then have "M - T = K' * (int m * int w - int t * K)" by (simp add: M_def T_def P_def algebra_simps)
  from abs_scaled [OF K(2) this q] have e: "2 * \<bar>M - T\<bar> \<le> int w * K'" by (simp only: mult.commute)
  have b': "2 ^ 52 * (int w * K') \<le> T"
    using mult_right_mono [OF b, of K'] K by (simp add: T_def P_def algebra_simps)
  have "F - M = K * (int (f64_of_nat (w * m')) - int (w * m'))" by (simp add: F_def M_def algebra_simps)
  from abs_scaled [OF K(1) this f64_of_nat_error] have f: "2 ^ 52 * \<bar>F - M\<bar> \<le> M"
    by (simp add: M_def mult.commute mult.left_commute)
  have t: "T \<le> 10 ^ 7 * P" unfolding T_def using assms(4) P by (intro mult_right_mono) simp_all
  have "P * d - F = K * (K' * d - int (f64_of_nat (w * m')))" by (simp add: P_def F_def algebra_simps)
  from abs_scaled [OF K(1) this assms(7) [folded K'_def]] have d: "2 * \<bar>P * d - F\<bar> \<le> P"
    by (simp only: P_def)
  have n: "(2 :: int) ^ 52 = 4503599627370496" "(10 :: int) ^ 7 = 10000000" by simp_all
  have "\<bar>P * d - T\<bar> < P"
    by (rule errors_add_up [OF e b' [unfolded n] f [unfolded n] t [unfolded n] d P])
  then have "P * \<bar>d - int t\<bar> < P * 1"
    unfolding T_def by (metis P abs_mult abs_of_pos mult.commute mult.right_neutral right_diff_distrib)
  with P have "\<bar>d - int t\<bar> < 1" by (simp only: mult_less_cancel_left_pos)
  then show ?thesis by simp
qed

section \<open>The same sizes as the pure-Go backend\<close>

text \<open>
  What is relied on of libvips: a resized side is the one before times the scale, a
  \<open>float64\<close> product, rounded to a nearest whole number; nothing else changes a size.
\<close>

definition rounded_side :: "int \<Rightarrow> scale \<Rightarrow> int \<Rightarrow> bool" where
  "rounded_side w s d \<longleftrightarrow> 2 * \<bar>2 ^ snd s * d - int (f64_of_nat (nat w * fst s))\<bar> \<le> 2 ^ snd s"

definition vips_lib_ok :: "'p vips_lib \<Rightarrow> bool" where
  "vips_lib_ok lib \<longleftrightarrow>
     (\<forall>p s q. vl_resize lib p s = Inr q \<longrightarrow>
        rounded_side (vl_width lib p) s (vl_width lib q) \<and> rounded_side (vl_height lib p) s (vl_height lib q)) \<and>
     (\<forall>p s t q. vl_resize_v lib p s t = Inr q \<longrightarrow>
        rounded_side (vl_width lib p) s (vl_width lib q) \<and> rounded_side (vl_height lib p) t (vl_height lib q)) \<and>
     (\<forall>p q l. vl_remove_metadata lib p = Inr q \<or> vl_remove_icc lib p = Inr q \<or> vl_label lib p l = Inr q \<longrightarrow>
        vl_width lib q = vl_width lib p \<and> vl_height lib q = vl_height lib p)"

lemma rounded_side_exact:
  assumes "0 < w" "0 < t" "w \<le> 10 ^ 7" "t \<le> 10 ^ 7"
    and "same_scale (f64_quot (nat t) (nat w)) s" "rounded_side w s d"
  shows "d = t"
proof -
  obtain m k m' k' where q: "f64_quot (nat t) (nat w) = (m, k)" "s = (m', k')"
    by (metis surj_pair)
  have "d = int (nat t)"
    by (rule scaled_side [OF _ _ _ _ q(1)])
      (use assms q in \<open>simp_all add: rounded_side_def same_scale_def nat_le_iff\<close>)
  with assms(2) show ?thesis by simp
qed

lemma wrapping_Inr [simp]: "wrapping p r = Inr x \<longleftrightarrow> r = Inr x"
  by (auto simp: wrapping_def split: sum.splits)

definition proper_sides :: "int \<Rightarrow> int \<Rightarrow> bool" where
  "proper_sides w h \<longleftrightarrow> 0 < w \<and> w \<le> 10 ^ 7 \<and> 0 < h \<and> h \<le> 10 ^ 7"

lemma vips_resize_size:
  assumes "vips_lib_ok lib" "vips_resize lib a b k img = Some (Inr p)"
    "target_size (vl_width lib img) (vl_height lib img) a b k = Some (Inr (tw, th))"
    "proper_sides (vl_width lib img) (vl_height lib img)" "tw \<le> 10 ^ 7" "th \<le> 10 ^ 7"
  shows "vl_width lib p = tw \<and> vl_height lib p = th"
proof -
  define hs vs where "hs = f64_quot (nat tw) (nat (vl_width lib img))"
    and "vs = f64_quot (nat th) (nat (vl_height lib img))"
  have t: "0 < tw" "0 < th" using target_size_positive [OF assms(3)] by auto
  have h: "same_scale hs s \<Longrightarrow> rounded_side (vl_width lib img) s d \<Longrightarrow> d = tw" for s d
    using assms(4,5) t(1) unfolding hs_def proper_sides_def by (blast intro: rounded_side_exact)
  have v: "same_scale vs s \<Longrightarrow> rounded_side (vl_height lib img) s d \<Longrightarrow> d = th" for s d
    using assms(4,6) t(2) unfolding vs_def proper_sides_def by (blast intro: rounded_side_exact)
  consider "tw = vl_width lib img" "th = vl_height lib img" "p = img"
    | "same_scale hs vs" "vl_resize lib img hs = Inr p"
    | "vl_resize_v lib img hs vs = Inr p"
    using assms(2,3) by (auto simp: vips_resize_def hs_def vs_def Let_def split: if_splits)
  then show ?thesis
  proof cases
    case 2
    then have "same_scale vs hs" by (simp add: same_scale_def)
    from 2(2) assms(1) have "rounded_side (vl_width lib img) hs (vl_width lib p)"
      "rounded_side (vl_height lib img) hs (vl_height lib p)" unfolding vips_lib_ok_def by blast+
    with h [of hs] v [OF \<open>same_scale vs hs\<close>] show ?thesis by (simp add: same_scale_def)
  next
    case 3
    with assms(1) have "rounded_side (vl_width lib img) hs (vl_width lib p)"
      "rounded_side (vl_height lib img) vs (vl_height lib p)" unfolding vips_lib_ok_def by blast+
    with h [of hs] v [of vs] show ?thesis by (simp add: same_scale_def)
  qed simp
qed

lemma vips_strip_size:
  assumes "vips_lib_ok lib" "vips_strip lib img = Inr p"
  shows "vl_width lib p = vl_width lib img \<and> vl_height lib p = vl_height lib img"
proof -
  from assms(2) obtain q where "vl_remove_metadata lib img = Inr q" "vl_remove_icc lib q = Inr p"
    by (auto simp: vips_strip_def split: sum.splits)
  with assms(1) show ?thesis by (auto simp: vips_lib_ok_def)
qed

lemma vips_watermark_size:
  assumes "vips_lib_ok lib" "vips_watermark cfg lib t img = Inr p"
  shows "vl_width lib p = vl_width lib img \<and> vl_height lib p = vl_height lib img"
proof -
  obtain bw bh mx my where box: "watermark_box (vl_width lib img) (vl_height lib img) = (bw, bh, mx, my)"
    by (metis surj_pair)
  have "t = [] \<and> p = img \<or> (\<exists>l. vl_label lib img l = Inr p)"
  proof (cases "t = []")
    case True
    with assms(2) show ?thesis by (simp add: vips_watermark_def)
  next
    case False
    with assms(2) show ?thesis
      unfolding vips_watermark_def Let_def box by (simp only: if_False prod.case wrapping_Inr) blast
  qed
  then show ?thesis using assms(1) unfolding vips_lib_ok_def by blast
qed

lemma vips_ops_simps [simp]:
  "op_strip (vips_ops cfg lib) = vips_strip lib" "op_resize (vips_ops cfg lib) = vips_resize lib"
  "op_watermark (vips_ops cfg lib) = vips_watermark cfg lib" "op_convert (vips_ops cfg lib) = vips_convert lib"
  by (simp_all add: vips_ops_def)

lemma vips_process_size:
  assumes "vips_lib_ok lib" "vl_decode lib r = Inr src" "proper_sides (vl_width lib src) (vl_height lib src)"
    and "target_size (vl_width lib src) (vl_height lib src) (Width sp) (Height sp) (Width sp = 0 \<or> Height sp = 0)
         = Some (Inr (tw, th))" "tw \<le> 10 ^ 7" "th \<le> 10 ^ 7"
    and "imageproc_process (vips_ops cfg lib) cfg ce0 ce1 (Some r) sp n = (Some (Inr out), n')"
  shows "\<exists>p. vl_width lib p = tw \<and> vl_height lib p = th \<and>
             vips_convert lib (Format sp) (Quality sp) p = Inr (reader_bytes out)"
proof -
  from assms(7) obtain r' src' w1 a b c where s:
    "Some r = Some r'" "op_open (vips_ops cfg lib) r' n = (Inr src', w1)"
    "(if StripMetadata sp then vips_strip lib src' else Inr src') = Inr a"
    "vips_resize lib (Width sp) (Height sp) (Width sp = 0 \<or> Height sp = 0) a = Some (Inr b)"
    "(if Watermark sp then vips_watermark cfg lib (watermarkText cfg) b else Inr b) = Inr c"
    "vips_convert lib (Format sp) (Quality sp) c = Inr (reader_bytes out)"
    by (rule process_stages) (unfold vips_ops_simps, rule that)
  from s(1,2) assms(2) have "src' = src"
    by (auto simp: vips_ops_def vips_open_def split: sum.splits)
  with s(3) have a: "vl_width lib a = vl_width lib src \<and> vl_height lib a = vl_height lib src"
    using vips_strip_size [OF assms(1)] by (auto split: if_splits)
  from vips_resize_size [OF assms(1) s(4)] a assms(3-6)
  have "vl_width lib b = tw \<and> vl_height lib b = th" by simp
  moreover have "vl_width lib c = vl_width lib b \<and> vl_height lib c = vl_height lib b"
    using s(5) vips_watermark_size [OF assms(1)] by (auto split: if_splits)
  ultimately show ?thesis using s(6) by auto
qed

text \<open>
  C18: the two builds agree on sizes: when both transform the same source by the same specification
  and succeed, both results encode images of the size \<open>targetSize\<close> gives, though one computes
  it from floating-point scale factors; for sides up to ten million, libvips's own limit.
\<close>

theorem backends_agree:
  assumes "vips_lib_ok vlib" "pixel_lib_ok plib"
    and "vl_decode vlib r = Inr vsrc" "px_decode plib r = Inr psrc"
    and "vl_width vlib vsrc = px_dx plib psrc" "vl_height vlib vsrc = px_dy plib psrc"
    and "proper_sides (px_dx plib psrc) (px_dy plib psrc)"
    and "imageproc_process (vips_ops cfg vlib) cfg ce0 ce1 (Some r) sp n = (Some (Inr vout), n')"
    and "imageproc_process (pure_ops plib) cfg ce0 ce1 (Some r) sp m = (Some (Inr pout), m')"
    and "target_size (px_dx plib psrc) (px_dy plib psrc) (Width sp) (Height sp) (Width sp = 0 \<or> Height sp = 0)
         = Some (Inr (tw, th))" "tw \<le> 10 ^ 7" "th \<le> 10 ^ 7"
  shows "\<exists>p q. vips_convert vlib (Format sp) (Quality sp) p = Inr (reader_bytes vout) \<and>
               pure_convert plib (Format sp) (Quality sp) q = Inr (reader_bytes pout) \<and>
               (vl_width vlib p, vl_height vlib p) = (tw, th) \<and> (px_dx plib q, px_dy plib q) = (tw, th)"
proof -
  obtain p where p: "vl_width vlib p = tw" "vl_height vlib p = th"
      "vips_convert vlib (Format sp) (Quality sp) p = Inr (reader_bytes vout)"
    using vips_process_size [OF assms(1,3) _ _ assms(11,12,8)] assms(5-7,10) by auto
  obtain r' src q where "Some r = Some r'" "px_decode plib r' = Inr src"
    "target_size (px_dx plib src) (px_dy plib src) (Width sp) (Height sp) (Width sp = 0 \<or> Height sp = 0)
       = Some (Inr (px_dx plib q, px_dy plib q))"
    "pure_convert plib (Format sp) (Quality sp) q = Inr (reader_bytes pout)"
    by (rule pure_process_ok [OF assms(2,9)])
  with assms(4,10) have "px_dx plib q = tw" "px_dy plib q = th"
    "pure_convert plib (Format sp) (Quality sp) q = Inr (reader_bytes pout)" by auto
  with p show ?thesis by blast
qed

definition sample_vips :: "(int \<times> int) vips_lib" where
  "sample_vips =
    (let side = (\<lambda>w s. (2 * int (f64_of_nat (nat w * fst s)) + 2 ^ snd s) div (2 * 2 ^ snd s)) in
     \<lparr>vl_decode = \<lambda>r. Inr (8, 4), vl_width = fst, vl_height = snd,
      vl_resize = \<lambda>p s. Inr (side (fst p) s, side (snd p) s),
      vl_resize_v = \<lambda>p s t. Inr (side (fst p) s, side (snd p) t),
      vl_thumbnail = \<lambda>p w h. Inr (w, h), vl_remove_metadata = Inr, vl_remove_icc = Inr,
      vl_label = \<lambda>p l. Inr p, vl_jpeg = \<lambda>q p. Inr ''jpeg'', vl_png = \<lambda>p. Inr ''png'',
      vl_webp = \<lambda>q p. Inr ''webp'', vl_avif = \<lambda>q p. Inr ''avif''\<rparr>)"

lemma half_up_nearest:
  fixes f p :: int
  assumes "0 < p"
  shows "2 * \<bar>p * ((2 * f + p) div (2 * p)) - f\<bar> \<le> p"
proof -
  define D where "D = (2 * f + p) div (2 * p)"
  define R where "R = (2 * f + p) mod (2 * p)"
  have "2 * p * D + R = 2 * f + p" by (simp only: D_def R_def mult_div_mod_eq)
  then have "2 * (p * D) + R = 2 * f + p" by (simp only: mult.assoc)
  moreover have "0 \<le> R" "R < 2 * p" using assms by (simp_all add: R_def)
  ultimately show ?thesis unfolding D_def [symmetric] by arith
qed

lemma bit_count_power: "bit_count (2 ^ n) = Suc n"
  by (induction n) (simp_all add: bit_count.simps [of "Suc 0"] bit_count.simps [of 0] bit_count.simps [of "2 * 2 ^ n" for n])

lemma f64_of_nat_power: "f64_of_nat (2 ^ n) = 2 ^ n"
proof (cases "n \<le> 53")
  case True
  then have "(2 :: nat) ^ n \<le> 2 ^ 53" by (intro power_increasing) simp_all
  then show ?thesis by (simp add: f64_of_nat_def)
next
  case False
  then have "(2 :: nat) ^ n = 2 ^ (Suc n - 53) * 2 ^ 52"
    by (simp only: power_add [symmetric] if_False) simp
  then have "2 ^ n mod 2 ^ (Suc n - 53) = (0 :: nat)" "2 ^ n div 2 ^ (Suc n - 53) * 2 ^ (Suc n - 53) = (2 :: nat) ^ n"
    by simp_all
  with False show ?thesis by (simp add: f64_of_nat_def bit_count_power Let_def)
qed

lemma sample_vips_simps:
  "vl_decode sample_vips r = Inr (8, 4)" "vl_width sample_vips = fst" "vl_height sample_vips = snd"
  "vl_remove_metadata sample_vips = Inr" "vl_remove_icc sample_vips = Inr"
  "vl_png sample_vips p = Inr ''png''"
  by (simp_all add: sample_vips_def)

lemma sample_vips_ok: "vips_lib_ok sample_vips"
  by (auto simp: vips_lib_ok_def sample_vips_def rounded_side_def half_up_nearest Let_def)

theorem backends_agree_witness:
  "\<exists>p q. vips_convert sample_vips FormatPNG 0 p = Inr ''png'' \<and> pure_convert sample_lib FormatPNG 0 q = Inr ''png'' \<and>
         (vl_width sample_vips p, vl_height sample_vips p) = (px_dx sample_lib q, px_dy sample_lib q)"
proof -
  have t: "target_size 8 4 4 0 True = Some (Inr (4, 2))" by code_simp
  have v: "spec_validate (sample_spec FormatPNG) = None" "normalize_format FormatPNG = Inr FormatPNG"
    and n: "Width (sample_spec FormatPNG) = 4" "Height (sample_spec FormatPNG) = 0"
      "Format (sample_spec FormatPNG) = FormatPNG" "Watermark (sample_spec FormatPNG) = False"
    and f: "FormatPNG \<noteq> FormatJPEG"
    by code_simp+
  have "bit_count 4 = 3" "bit_count 8 = 4" "bit_count 2 = 2" 
    by (simp_all add: bit_count.simps [of 8] bit_count.simps [of 4] bit_count.simps [of 2]
        bit_count.simps [of "Suc 0"] bit_count.simps [of 0])
  then have "f64_quot 4 8 = (2 ^ 52, 53)" "f64_quot 2 4 = (2 ^ 52, 53)"
    by (simp_all add: f64_quot_def)
  moreover have "vl_resize sample_vips (8, 4) (2 ^ 52, 53) = Inr (4, 2)"
    using f64_of_nat_power [of 55] f64_of_nat_power [of 54] by (simp add: sample_vips_def)
  ultimately have "vips_resize sample_vips 4 0 True (8, 4) = Some (Inr (4, 2))"
    by (simp only: vips_resize_def t sample_vips_simps Let_def fst_conv snd_conv sum.case option.case
        prod.case nat_numeral) (simp add: same_scale_def)
  then have "imageproc_process (vips_ops (new_config []) sample_vips) (new_config []) None None
      (Some (Reader [] None)) (sample_spec FormatPNG) 0 = (Some (Inr (Reader ''png'' None)), 0)"
    by (simp add: imageproc_process_def run_stages_def v n vips_ops_def vips_open_def wrapping_def vips_strip_def
        vips_convert_def f sample_vips_simps)
  moreover have "imageproc_process (pure_ops sample_lib) (new_config []) None None
      (Some (Reader [] None)) (sample_spec FormatPNG) 0 = (Some (Inr (Reader ''png'' None)), 0)"
    by code_simp
  moreover have "pixel_lib_ok sample_lib" by (simp add: pixel_lib_ok_def sample_lib_def)
  ultimately show ?thesis
    using t backends_agree [of sample_vips sample_lib "Reader [] None" "(8, 4)" "(8, 4)" "new_config []" None None
        "sample_spec FormatPNG" 0 "Reader ''png'' None" 0 0 "Reader ''png'' None" 0 4 2] sample_vips_ok
    by (auto simp: sample_spec_def sample_vips_def sample_lib_def proper_sides_def)
qed

end
