(* ===== verification/Middleware.thy ===== *)
theory Middleware
  imports Uploads "HOL-Library.AList"
begin

text \<open>
  \<open>internal/adapters/httpapi/middleware.go\<close> and the routes of \<open>api.go\<close>: the layers every request
  goes through, the route table, and the whole server. The router that matches a path against
  the table and the CORS layer are libraries and stand as parameters.
\<close>

section \<open>A request being answered\<close>

text \<open>
  A handler acts on the response writer, the log, the server span and a state of its own, and may
  panic. Headers set before the status was written are sent with it; a second status is ignored.
  \<open>x_route\<close> is the routing context with the pattern matched so far, \<open>x_span\<close> the name of the
  server span when it is recorded.
\<close>

datatype panic = AbortHandler | OtherPanic string

datatype log_line =
    RequestCompleted (ll_level: string) (ll_method: string) (ll_path: string) (ll_status: int)
      (ll_request_id: string)
  | PanicRecovered (ll_request_id: string)

record ('b, 's) exchange =
  x_headers :: "(string \<times> string) list"
  x_sent :: "(int \<times> (string \<times> string) list) option"
  x_bodies :: "'b body list"
  x_log :: "log_line list"
  x_span :: "string option"
  x_route :: "string option"
  x_state :: 's

type_synonym ('b, 's) handler = "('b, 's) exchange \<Rightarrow> panic option \<times> ('b, 's) exchange"

definition set_header :: "string \<Rightarrow> string \<Rightarrow> ('b, 's) exchange \<Rightarrow> ('b, 's) exchange" where
  "set_header k v e = e\<lparr>x_headers := AList.update k v (x_headers e)\<rparr>"

definition add_headers :: "(string \<times> string) list \<Rightarrow> ('b, 's) exchange \<Rightarrow> ('b, 's) exchange" where
  "add_headers hs = fold (\<lambda>(k, v). set_header k v) hs"

definition write_header :: "int \<Rightarrow> ('b, 's) exchange \<Rightarrow> ('b, 's) exchange" where
  "write_header status e =
     (case x_sent e of None \<Rightarrow> e\<lparr>x_sent := Some (status, x_headers e)\<rparr> | Some s \<Rightarrow> e)"

definition send_response :: "'b response \<Rightarrow> ('b, 's) exchange \<Rightarrow> ('b, 's) exchange" where
  "send_response resp e =
     (let e = add_headers (rs_headers resp) e;
          e = write_header (rs_status resp) e
      in e\<lparr>x_bodies := x_bodies e @ [rs_body resp]\<rparr>)"

section \<open>The layers\<close>

definition TraceIDHeader :: string where "TraceIDHeader = ''X-Trace-Id''"
definition RequestIDHeader :: string where "RequestIDHeader = ''X-Request-Id''"

definition is_probe :: "string \<Rightarrow> bool" where
  "is_probe path \<longleftrightarrow> path = ''/healthz'' \<or> path = ''/readyz''"

text \<open>\<open>sampled\<close> is the sampler's decision on this request.\<close>

definition with_tracing :: "bool \<Rightarrow> request \<Rightarrow> ('b, 's) handler \<Rightarrow> ('b, 's) handler" where
  "with_tracing sampled r next_handler e =
     (if is_probe (rq_path r) \<or> \<not> sampled then next_handler e
      else next_handler (e\<lparr>x_span := Some (rq_method r)\<rparr>))"

function replace_all :: "string \<Rightarrow> string \<Rightarrow> string \<Rightarrow> string" where
  "replace_all old new s =
     (if s = [] \<or> old = [] then s
      else if has_prefix s old then new @ replace_all old new (drop (length old) s)
      else hd s # replace_all old new (tl s))"
  by pat_completeness auto
termination by (relation "measure (\<lambda>(old, new, s). length s)") auto

definition route_pattern :: "string option \<Rightarrow> string" where
  "route_pattern rctx = (case rctx of None \<Rightarrow> [] | Some pattern \<Rightarrow> replace_all ''/*/'' ''/'' pattern)"

definition trace_route :: "request \<Rightarrow> ('b, 's) handler \<Rightarrow> ('b, 's) handler" where
  "trace_route r next_handler e =
     (let e = (if rq_trace r \<noteq> [] then set_header TraceIDHeader (rq_trace r) e else e) in
      case next_handler e of
        (p, e') \<Rightarrow>
          (p, case x_span e' of
                None \<Rightarrow> e'
              | Some name \<Rightarrow>
                  if route_pattern (x_route e') \<noteq> []
                  then e'\<lparr>x_span := Some (rq_method r @ '' '' @ route_pattern (x_route e'))\<rparr> else e'))"

definition echo_request_id :: "request \<Rightarrow> ('b, 's) handler \<Rightarrow> ('b, 's) handler" where
  "echo_request_id r next_handler e =
     next_handler (if rq_id r \<noteq> [] then set_header RequestIDHeader (rq_id r) e else e)"

text \<open>The status is that of the wrapped writer, zero when nothing was written.\<close>

definition written_status :: "('b, 's) exchange \<Rightarrow> int" where
  "written_status e = (case x_sent e of None \<Rightarrow> 0 | Some (status, hs) \<Rightarrow> status)"

definition log_level :: "int \<Rightarrow> string" where
  "log_level status = (if 500 \<le> status then ''ERROR'' else if 400 \<le> status then ''WARN'' else ''INFO'')"

definition request_logger :: "request \<Rightarrow> ('b, 's) handler \<Rightarrow> ('b, 's) handler" where
  "request_logger r next_handler e =
     (case next_handler e of
        (p, e') \<Rightarrow>
          (p, e'\<lparr>x_log := x_log e' @
                 [RequestCompleted (log_level (written_status e')) (rq_method r) (rq_path r)
                    (written_status e') (rq_id r)]\<rparr>))"

definition recoverer :: "request \<Rightarrow> ('b, 's) handler \<Rightarrow> ('b, 's) handler" where
  "recoverer r next_handler e =
     (case next_handler e of
        (None, e') \<Rightarrow> (None, e')
      | (Some AbortHandler, e') \<Rightarrow> (Some AbortHandler, e')
      | (Some (OtherPanic v), e') \<Rightarrow>
          (None, send_response
             (write_problem r [] 500 TypeInternal ''Internal Server Error''
                ''The server encountered an unexpected condition.'')
             (e'\<lparr>x_log := x_log e' @ [PanicRecovered (rq_id r)]\<rparr>)))"

section \<open>Routes\<close>

datatype route = Healthz | Readyz | AuthToken | Uploads | Jobs

definition routes_table :: "((string \<times> string) \<times> route) list" where
  "routes_table =
     [((''GET'', ''/healthz''), Healthz), ((''GET'', ''/readyz''), Readyz),
      ((''POST'', ''/auth/token''), AuthToken),
      ((''POST'', ''/uploads''), Uploads), ((''GET'', ''/jobs/{id}''), Jobs)]"

text \<open>What the router makes of a method and a path: an entry of the table and the URL parameters.\<close>

datatype routing = Matched nat "string \<Rightarrow> string" | NoRoute | WrongMethod

type_synonym router = "(string \<times> string) list \<Rightarrow> string \<Rightarrow> string \<Rightarrow> routing"

text \<open>A request's body, as the handler that reads it takes it, its context, time and name.\<close>

record call =
  cl_request :: request
  cl_ctx :: ctx
  cl_now :: int
  cl_number :: nat
  cl_text :: string
  cl_form :: form_result

text \<open>
  The server: its libraries, its collaborators on a world \<open>'w\<close>, and its settings. The state of an
  exchange is the rate limiter and the world. A handler's collaborators may panic: \<open>sv_panic\<close> says on
  which calls the route's handler does, and whether it had answered by then; \<open>sv_broken\<close> what a
  handler of an upload or a job that had not answered has done to the world by then.
\<close>

record ('l, 'r, 'w) server =
  sv_router :: router
  sv_cors :: "request \<Rightarrow> (api_body, 'l rate_limiter \<times> 'w) handler \<Rightarrow> (api_body, 'l rate_limiter \<times> 'w) handler"
  sv_jwt :: jwt_lib
  sv_rate :: "('l, 'r) rate_lib"
  sv_issuer :: token_issuer
  sv_create :: "'w create_job"
  sv_jobs :: "'w repo_port"
  sv_ready :: "(ctx \<Rightarrow> 'w \<Rightarrow> goerr option \<times> 'w) option"
  sv_ctx_err :: "ctx \<Rightarrow> 'w \<Rightarrow> goerr option"
  sv_cfg :: api_config
  sv_panic :: "call \<Rightarrow> (panic \<times> bool) option"
  sv_broken :: "call \<Rightarrow> 'w \<Rightarrow> 'w"

text \<open>How a handler ends that was to send \<open>resp\<close> and leave \<open>s\<close>, or has left \<open>broken\<close> if it did not get there.\<close>

definition handled ::
  "('l, 'r, 'w) server \<Rightarrow> call \<Rightarrow> api_body response \<Rightarrow> 'l rate_limiter \<times> 'w \<Rightarrow> 'l rate_limiter \<times> 'w \<Rightarrow>
   (api_body, 'l rate_limiter \<times> 'w) handler" where
  "handled sv c resp s broken e =
     (case sv_panic sv c of
        None \<Rightarrow> (None, send_response resp (e\<lparr>x_state := s\<rparr>))
      | Some (p, True) \<Rightarrow> (Some p, send_response resp (e\<lparr>x_state := s\<rparr>))
      | Some (p, False) \<Rightarrow> (Some p, e\<lparr>x_state := broken\<rparr>))"

text \<open>The handlers of the open routes have nothing to leave half done.\<close>

definition answer ::
  "('l, 'r, 'w) server \<Rightarrow> call \<Rightarrow> api_body response \<times> 'w \<Rightarrow> (api_body, 'l rate_limiter \<times> 'w) handler" where
  "answer sv c result e =
     handled sv c (fst result) (fst (x_state e), snd result) (fst (x_state e), snd result) e"

text \<open>The handler behind the layers of a protected route notes that it was reached.\<close>

definition protected ::
  "('l, 'r, 'w) server \<Rightarrow> call \<Rightarrow> ('w \<Rightarrow> api_body response \<times> 'w) \<Rightarrow>
   (api_body, 'l rate_limiter \<times> 'w) handler" where
  "protected sv c handler e =
     (case protected_route (sv_jwt sv) (sv_issuer sv) (sv_rate sv) (cl_number c) (cl_now c) (cl_request c)
             (\<lambda>(w, reached). case handler w of (resp, w') \<Rightarrow> (resp, (w', True)))
             (fst (x_state e)) (snd (x_state e), False) of
        None \<Rightarrow> (Some (OtherPanic ''invalid memory address or nil pointer dereference''), e)
      | Some (resp, l, (w, reached)) \<Rightarrow>
          if reached then handled sv c resp (l, w) (l, sv_broken sv c (snd (x_state e))) e
          else (None, send_response resp (e\<lparr>x_state := (l, w)\<rparr>)))"

definition run_route ::
  "('l, 'r, 'w) server \<Rightarrow> call \<Rightarrow> route \<Rightarrow> (string \<Rightarrow> string) \<Rightarrow>
   (api_body, 'l rate_limiter \<times> 'w) handler" where
  "run_route sv c rt params e =
     (case rt of
        Healthz \<Rightarrow> answer sv c (handle_healthz (cl_request c), snd (x_state e)) e
      | Readyz \<Rightarrow> answer sv c (handle_readyz (sv_ready sv) (cl_request c) (cl_ctx c) (snd (x_state e))) e
      | AuthToken \<Rightarrow>
          answer sv c (handle_token (sv_jwt sv) (sv_issuer sv) (cl_now c) (nat (ac_max_upload (sv_cfg sv)))
                    (cl_request c) (cl_text c), snd (x_state e)) e
      | Uploads \<Rightarrow>
          protected sv c
            (\<lambda>w. case handle_upload (sv_create sv) (sv_cfg sv) (sv_ctx_err sv) (cl_request c) (cl_ctx c)
                        (cl_form c) w of ((resp, closes), w') \<Rightarrow> (resp, w')) e
      | Jobs \<Rightarrow>
          protected sv c
            (handle_get_job (sv_jobs sv) (sv_cfg sv) (cl_request c) (cl_ctx c) (params ''id'')) e)"

definition api_router :: "('l, 'r, 'w) server \<Rightarrow> call \<Rightarrow> (api_body, 'l rate_limiter \<times> 'w) handler" where
  "api_router sv c e =
     (let r = cl_request c in
      case sv_router sv (map fst routes_table) (rq_method r) (rq_path r) of
        NoRoute \<Rightarrow>
          (None, send_response
             (write_problem r [] 404 TypeNotFound ''Not Found'' ''No route matches this path.'') e)
      | WrongMethod \<Rightarrow>
          (None, send_response
             (write_problem r [] 405 TypeMethodNotAllowed ''Method Not Allowed''
                ''This method is not allowed on this path.'') e)
      | Matched i params \<Rightarrow>
          (case routes_table ! i of
             ((meth, pattern), rt) \<Rightarrow> run_route sv c rt params (e\<lparr>x_route := Some pattern\<rparr>)))"

definition api_routes :: "('l, 'r, 'w) server \<Rightarrow> call \<Rightarrow> (api_body, 'l rate_limiter \<times> 'w) handler" where
  "api_routes sv c =
     (let r = cl_request c in
      echo_request_id r (trace_route r (request_logger r (recoverer r (sv_cors sv r (api_router sv c))))))"

definition serve :: "('l, 'r, 'w) server \<Rightarrow> bool \<Rightarrow> call \<Rightarrow> (api_body, 'l rate_limiter \<times> 'w) handler" where
  "serve sv sampled c = with_tracing sampled (cl_request c) (api_routes sv c)"

text \<open>A fresh exchange, as the server starts one.\<close>

definition new_exchange :: "log_line list \<Rightarrow> 's \<Rightarrow> ('b, 's) exchange" where
  "new_exchange lg s =
     \<lparr>x_headers = [], x_sent = None, x_bodies = [], x_log = lg, x_span = None, x_route = Some [], x_state = s\<rparr>"

section \<open>What is relied on\<close>

text \<open>
  The router matches an entry of the table only when the method is its method and the path is
  its pattern with the parameters filled in, and it finds an entry without parameters. The CORS
  layer, with headers of its own, passes the request on or answers it itself with an empty 200.
\<close>

definition fill_segment :: "(string \<Rightarrow> string) \<Rightarrow> string \<Rightarrow> string" where
  "fill_segment params s = (if has_prefix s ''{'' then params (butlast (tl s)) else s)"

definition fill_pattern :: "(string \<Rightarrow> string) \<Rightarrow> string \<Rightarrow> string" where
  "fill_pattern params pattern = join_with ''/'' (map (fill_segment params) (split_on CHR ''/'' pattern))"

definition router_ok :: "router \<Rightarrow> bool" where
  "router_ok rt \<longleftrightarrow> (\<forall>table m p.
     (\<forall>i params. rt table m p = Matched i params \<longrightarrow>
        i < length table \<and> fst (table ! i) = m \<and> fill_pattern params (snd (table ! i)) = p) \<and>
     ((m, p) \<in> set table \<longrightarrow> CHR ''{'' \<notin> set p \<longrightarrow>
        (\<exists>i params. rt table m p = Matched i params \<and> table ! i = (m, p))))"

definition correlation :: "string list" where "correlation = [TraceIDHeader, RequestIDHeader]"

definition foreign_headers :: "(string \<times> string) list \<Rightarrow> bool" where
  "foreign_headers hs \<longleftrightarrow> list_all (\<lambda>(k, v). k \<notin> set correlation) hs"

definition cors_ok :: "(request \<Rightarrow> ('b, 's) handler \<Rightarrow> ('b, 's) handler) \<Rightarrow> bool" where
  "cors_ok cors \<longleftrightarrow> (\<forall>r next_handler e. \<exists>hs. foreign_headers hs \<and>
     (cors r next_handler e = next_handler (add_headers hs e) \<or>
      cors r next_handler e = (None, write_header 200 (add_headers hs e))))"

section \<open>Writing a response\<close>

lemma correlation_not:
  "''Content-Type'' \<notin> set correlation" "''Location'' \<notin> set correlation" "''Retry-After'' \<notin> set correlation"
  "''WWW-Authenticate'' \<notin> set correlation" "''Cache-Control'' \<notin> set correlation"
  by (simp_all add: correlation_def TraceIDHeader_def RequestIDHeader_def)

lemma set_header_simps [simp]:
  "x_sent (set_header k v e) = x_sent e" "x_bodies (set_header k v e) = x_bodies e"
  "x_log (set_header k v e) = x_log e" "x_span (set_header k v e) = x_span e"
  "x_route (set_header k v e) = x_route e" "x_state (set_header k v e) = x_state e"
  "map_of (x_headers (set_header k v e)) = (map_of (x_headers e))(k \<mapsto> v)"
  by (simp_all add: set_header_def update_conv')

lemma add_headers_simps [simp]:
  "x_sent (add_headers hs e) = x_sent e" "x_bodies (add_headers hs e) = x_bodies e"
  "x_log (add_headers hs e) = x_log e" "x_span (add_headers hs e) = x_span e"
  "x_route (add_headers hs e) = x_route e" "x_state (add_headers hs e) = x_state e"
  by (induction hs arbitrary: e) (auto simp: add_headers_def)

lemma add_foreign_headers:
  "foreign_headers hs \<Longrightarrow> k \<in> set correlation \<Longrightarrow> map_of (x_headers (add_headers hs e)) k = map_of (x_headers e) k"
  by (induction hs arbitrary: e) (auto simp: add_headers_def foreign_headers_def)

lemma write_header_simps [simp]:
  "x_headers (write_header st e) = x_headers e" "x_bodies (write_header st e) = x_bodies e"
  "x_log (write_header st e) = x_log e" "x_state (write_header st e) = x_state e"
  by (simp_all add: write_header_def split: option.splits)

text \<open>Where an exchange stands that was answered once, with the correlation headers it started with.\<close>

definition own_statuses :: "int list" where
  "own_statuses = [200, 202, 400, 401, 404, 405, 408, 413, 415, 429, 500, 503]"

definition own_response :: "'b response \<Rightarrow> bool" where
  "own_response resp \<longleftrightarrow> rs_status resp \<in> set own_statuses \<and> foreign_headers (rs_headers resp)"

definition answered_once :: "('b, 's) exchange \<Rightarrow> ('b, 's) exchange \<Rightarrow> bool" where
  "answered_once e e' \<longleftrightarrow>
     (\<exists>st hs. x_sent e' = Some (st, hs) \<and> st \<in> set own_statuses \<and>
        (\<forall>k \<in> set correlation. map_of hs k = map_of (x_headers e) k)) \<and>
     length (x_bodies e') \<le> Suc (length (x_bodies e)) \<and> x_log e' = x_log e"

lemma send_answers:
  assumes "x_sent e = None" "own_response resp"
  shows "answered_once e (send_response resp e)"
proof -
  have "x_sent (send_response resp e) = Some (rs_status resp, x_headers (add_headers (rs_headers resp) e))"
    using assms(1) by (simp add: send_response_def write_header_def Let_def)
  with assms(2) add_foreign_headers [of "rs_headers resp"] show ?thesis
    by (auto simp: answered_once_def own_response_def send_response_def Let_def)
qed

lemma send_state [simp]: "x_state (send_response resp e) = x_state e"
  "x_bodies (send_response resp e) = x_bodies e @ [rs_body resp]"
  by (simp_all add: send_response_def Let_def)

section \<open>What the handlers answer\<close>

lemma problem_own [simp]:
  "own_response (write_problem r hs st ty ti d) \<longleftrightarrow> st \<in> set own_statuses \<and> foreign_headers hs"
  "own_response (write_json r hs st v) \<longleftrightarrow> st \<in> set own_statuses \<and> foreign_headers hs"
  "own_response (write_problem_with r hs p) \<longleftrightarrow> p_status p \<in> set own_statuses \<and> foreign_headers hs"
  by (auto simp: own_response_def foreign_headers_def correlation_not)

lemma foreign_simps [simp]:
  "foreign_headers []" "foreign_headers [(''Location'', v)]" "foreign_headers [(''Retry-After'', v)]"
  "foreign_headers [(''WWW-Authenticate'', v)]" "foreign_headers [(''Cache-Control'', v)]"
  by (simp_all add: foreign_headers_def correlation_not)

lemma own_statuses_simps [simp]:
  "{200, 202, 400, 401, 404, 405, 408, 413, 415, 429, 500, 503} \<subseteq> set own_statuses"
  "200 \<in> set own_statuses" "202 \<in> set own_statuses" "400 \<in> set own_statuses" "401 \<in> set own_statuses"
  "404 \<in> set own_statuses" "405 \<in> set own_statuses" "408 \<in> set own_statuses" "413 \<in> set own_statuses"
  "415 \<in> set own_statuses" "429 \<in> set own_statuses" "500 \<in> set own_statuses" "503 \<in> set own_statuses"
  by (simp_all add: own_statuses_def)

lemma usecase_problem_own: "own_response (write_usecase_problem r e gone)"
  by (simp add: write_usecase_problem_def)

lemma check_media_own: "check_media_type r f name = (Inl resp, n) \<Longrightarrow> own_response resp"
  by (auto simp: check_media_type_def bad_request_def split: sum.splits if_splits)

lemma read_spec_own: "read_spec r f = Inl resp \<Longrightarrow> own_response resp"
  by (auto simp: read_spec_def bad_request_def Let_def split: sum.splits if_splits)

lemma read_upload_own: "read_upload cfg r form = (Inl resp, n) \<Longrightarrow> own_response resp"
  by (auto simp: read_upload_def bad_request_def dest: check_media_own read_spec_own
      split: form_result.splits option.splits sum.splits prod.splits)

lemma upload_own: "own_response (fst (fst (handle_upload uc cfg ce r c form w)))"
  by (auto simp: handle_upload_def usecase_problem_own dest: read_upload_own split: prod.splits sum.splits)

lemma get_job_own: "own_response (fst (handle_get_job jobs cfg r c i w))"
  by (auto simp: handle_get_job_def split: prod.splits sum.splits)

lemma token_own: "own_response (handle_token lib i now cap r body)"
  by (auto simp: handle_token_def bad_request_def Let_def split: sum.splits)

lemma probes_own:
  "own_response (handle_healthz r)" "own_response (fst (handle_readyz ready r c w))"
  by (auto simp: handle_healthz_def handle_readyz_def split: option.splits prod.splits)

lemma readyz_state: "ready = None \<or> (\<forall>check w. ready = Some check \<longrightarrow> snd (check c w) = w) \<Longrightarrow>
    snd (handle_readyz ready r c w) = w"
  by (auto simp: handle_readyz_def split: option.splits prod.splits) (metis snd_conv)+

lemma unauthorized_own: "own_response (unauthorized r e)"
  by (simp add: unauthorized_def foreign_headers_def correlation_not)

lemma over_budget_own: "own_response (write_problem_with r [(''Retry-After'', v)] (over_budget q s))"
  by (simp add: over_budget_def)

section \<open>Protected routes\<close>

lemma protected_route_past:
  "(case bearer_token r of Inl e \<Rightarrow> Inl e | Inr signed \<Rightarrow> verify_token lib i now signed) = Inr client \<Longrightarrow>
   protected_route lib i rate n now r h l w = rate_limit rate n now r (Some client) h l w"
  by (simp add: require_auth_def protected_route_def)

text \<open>The three ways through the layers of a protected route.\<close>

lemma protected_cases:
  assumes "buckets_ok (fst (x_state e))"
  obtains x where "protected sv c h e = (None, send_response (unauthorized (cl_request c) x) e)"
  | client l retry v s where "require_auth (sv_jwt sv) (sv_issuer sv) (cl_now c) (cl_request c) Some (\<lambda>resp :: api_body response. None) = Some client"
      "allow (sv_rate sv) (client, cl_number c) (cl_now c) (fst (x_state e)) = Some ((False, retry), l)" "buckets_ok l"
      "protected sv c h e =
         (None, send_response (write_problem_with (cl_request c) [(''Retry-After'', v)] (over_budget (rl_limit l) s))
            (e\<lparr>x_state := (l, snd (x_state e))\<rparr>))"
  | client l retry resp w where "require_auth (sv_jwt sv) (sv_issuer sv) (cl_now c) (cl_request c) Some (\<lambda>resp :: api_body response. None) = Some client"
      "allow (sv_rate sv) (client, cl_number c) (cl_now c) (fst (x_state e)) = Some ((True, retry), l)" "buckets_ok l"
      "h (snd (x_state e)) = (resp, w)"
      "protected sv c h e = handled sv c resp (l, w) (l, sv_broken sv c (snd (x_state e))) e"
proof -
  obtain l w where s: "x_state e = (l, w)" by fastforce
  let ?r = "cl_request c"
  show thesis
  proof (cases "case bearer_token ?r of Inl e \<Rightarrow> Inl e | Inr signed \<Rightarrow> verify_token (sv_jwt sv) (sv_issuer sv) (cl_now c) signed")
    case (Inl x)
    then have "protected sv c h e = (None, send_response (unauthorized ?r x) (e\<lparr>x_state := (l, w)\<rparr>))"
      using s by (simp add: protected_def protected_route_def require_auth_def)
    moreover have "e\<lparr>x_state := (l, w)\<rparr> = e" using s by (cases e) simp
    ultimately show ?thesis using that(1) [of x] by metis
  next
    case (Inr client)
    then have auth: "require_auth (sv_jwt sv) (sv_issuer sv) (cl_now c) ?r Some (\<lambda>resp :: api_body response. None) = Some client"
      by (simp add: require_auth_def)
    note route = protected_route_past [OF Inr]
    obtain allowed retry l' where a:
      "allow (sv_rate sv) (client, cl_number c) (cl_now c) l = Some ((allowed, retry), l')" "buckets_ok l'"
      using allow_answers [of l "sv_rate sv" "(client, cl_number c)" "cl_now c"] assms s by auto
    obtain resp w' where h: "h w = (resp, w')" by fastforce
    show ?thesis
    proof (cases allowed)
      case True
      with a s auth h show ?thesis
        by (intro that(3) [of client retry l' resp w']) (simp_all add: protected_def rate_limit_def route)
    next
      case False
      with a s auth show ?thesis
        by (intro that(2) [of client retry l' "itoa (retry_seconds retry)" "retry_seconds retry"])
           (simp_all add: protected_def rate_limit_def Let_def route)
    qed
  qed
qed

text \<open>
  What any route leaves: one answer, or none when its handler panicked before; and a limiter that is
  still well-formed.
\<close>

definition unanswered :: "('b, 's) exchange \<Rightarrow> ('b, 's) exchange \<Rightarrow> bool" where
  "unanswered e e' \<longleftrightarrow>
     x_sent e' = None \<and> x_bodies e' = x_bodies e \<and> x_log e' = x_log e \<and>
     (\<forall>k \<in> set correlation. map_of (x_headers e') k = map_of (x_headers e) k)"

definition well_answered ::
  "('l, 'r, 'w) server \<Rightarrow> call \<Rightarrow> (api_body, 'l rate_limiter \<times> 'w) exchange \<Rightarrow>
   panic option \<times> (api_body, 'l rate_limiter \<times> 'w) exchange \<Rightarrow> bool"
where
  "well_answered sv c e result \<longleftrightarrow>
     buckets_ok (fst (x_state (snd result))) \<and>
     (case fst result of
        None \<Rightarrow> answered_once e (snd result)
      | Some p \<Rightarrow> sv_panic sv c = Some (p, True) \<and> answered_once e (snd result) \<or>
                 sv_panic sv c = Some (p, False) \<and> unanswered e (snd result))"

lemma answered_state [simp]:
  "answered_once (e\<lparr>x_state := s\<rparr>) e' = answered_once e e'" "answered_once (e\<lparr>x_route := p\<rparr>) e' = answered_once e e'"
  "unanswered (e\<lparr>x_route := p\<rparr>) e' = unanswered e e'"
  by (simp_all add: answered_once_def unanswered_def)

lemma send_well_answered:
  assumes "x_sent e = None" "buckets_ok (fst s)" "own_response resp"
  shows "well_answered sv c e (None, send_response resp (e\<lparr>x_state := s\<rparr>))"
  using assms send_answers [of "e\<lparr>x_state := s\<rparr>" resp] by (simp add: well_answered_def)

lemma handled_answers:
  assumes "x_sent e = None" "buckets_ok (fst s)" "buckets_ok (fst broken)" "own_response resp"
  shows "well_answered sv c e (handled sv c resp s broken e)"
  using assms send_answers [of "e\<lparr>x_state := s\<rparr>" resp]
  by (auto simp: well_answered_def handled_def unanswered_def split: option.splits bool.splits)

lemma protected_answers:
  assumes "x_sent e = None" "buckets_ok (fst (x_state e))" "\<And>w. own_response (fst (h w))"
  shows "well_answered sv c e (protected sv c h e)"
proof (rule protected_cases [OF assms(2), of sv c h], goal_cases)
  case (1 x)
  with send_answers [OF assms(1) unauthorized_own] assms(2) show ?case by (simp add: well_answered_def)
next
  case (2 client l retry v s)
  with send_well_answered [OF assms(1), of "(l, snd (x_state e))", OF _ over_budget_own] show ?case by simp
next
  case (3 client l retry resp w)
  have "own_response resp" using assms(3) [of "snd (x_state e)"] 3(4) by simp
  with handled_answers [OF assms(1), of "(l, w)" "(l, v)" for v] 3(3,5) show ?case by simp
qed

section \<open>Every route\<close>

lemma answer_answers:
  assumes "x_sent e = None" "buckets_ok (fst (x_state e))" "own_response (fst res)"
  shows "well_answered sv c e (answer sv c res e)"
  unfolding answer_def by (rule handled_answers [OF assms(1) _ _ assms(3)]) (simp_all add: assms(2))

lemma run_route_answers:
  fixes sv :: "('l, 'r, 'w) server"
  assumes "x_sent e = None" "buckets_ok (fst (x_state e))"
  shows "well_answered sv c e (run_route sv c rt params e)"
proof (cases rt)
  case Uploads
  have "own_response (fst (case handle_upload uc cfg ce r x form w of ((resp, n), w') \<Rightarrow> (resp, w')))"
    for uc :: "'w create_job" and cfg ce r x form w
    using upload_own [of uc cfg ce r x form w] by (auto split: prod.splits)
  then have "well_answered sv c e (protected sv c (\<lambda>w. case handle_upload (sv_create sv) (sv_cfg sv) (sv_ctx_err sv)
      (cl_request c) (cl_ctx c) (cl_form c) w of ((resp, n), w') \<Rightarrow> (resp, w')) e)"
    by (intro protected_answers [OF assms])
  with Uploads show ?thesis by (simp add: run_route_def)
next
  case Jobs
  then show ?thesis by (simp add: run_route_def protected_answers [OF assms] get_job_own)
qed (simp_all add: run_route_def answer_answers [OF assms] probes_own token_own)

lemma well_answered_route [simp]:
  "well_answered sv c (e\<lparr>x_route := pat\<rparr>) res = well_answered sv c e res"
  by (simp add: well_answered_def split: option.splits)

lemma api_router_answers:
  assumes "x_sent e = None" "buckets_ok (fst (x_state e))"
  shows "well_answered sv c e (api_router sv c e)"
proof -
  have problem: "well_answered sv c e (None, send_response (write_problem r [] st ty ti d) e)" if "st \<in> set own_statuses"
    for r st ty ti d
    using send_answers [OF assms(1)] that assms(2) by (simp add: well_answered_def)
  have "well_answered sv c (e\<lparr>x_route := pat\<rparr>) (run_route sv c rt params (e\<lparr>x_route := pat\<rparr>))" for pat rt params
    by (rule run_route_answers) (simp_all add: assms)
  with problem show ?thesis by (auto simp: api_router_def Let_def split: routing.splits prod.splits)
qed

lemma cors_answers:
  assumes "cors_ok (sv_cors sv)" "x_sent e = None" "buckets_ok (fst (x_state e))"
  shows "well_answered sv c e (sv_cors sv r (api_router sv c) e)"
proof -
  from assms(1) obtain hs where hs: "foreign_headers hs"
    "sv_cors sv r (api_router sv c) e = api_router sv c (add_headers hs e) \<or>
     sv_cors sv r (api_router sv c) e = (None, write_header 200 (add_headers hs e))"
    unfolding cors_ok_def by meson
  have same: "answered_once (add_headers hs e) e' = answered_once e e'" "unanswered (add_headers hs e) e' = unanswered e e'"
    for e' using add_foreign_headers [OF hs(1), of _ e] by (simp_all add: answered_once_def unanswered_def)
  show ?thesis
    using hs(2)
  proof
    assume "sv_cors sv r (api_router sv c) e = api_router sv c (add_headers hs e)"
    with api_router_answers [of "add_headers hs e" sv c] assms(2,3) show ?thesis
      by (simp add: well_answered_def same split: option.splits)
  next
    assume "sv_cors sv r (api_router sv c) e = (None, write_header 200 (add_headers hs e))"
    with assms(2,3) add_foreign_headers [OF hs(1), of _ e] show ?thesis
      by (simp add: well_answered_def answered_once_def write_header_def)
  qed
qed

section \<open>What a route touches\<close>

definition shows_job :: "(api_body, 's) exchange \<Rightarrow> bool" where
  "shows_job e \<longleftrightarrow> list_ex (\<lambda>b. case b of JsonBody (JobBody j) \<Rightarrow> True | _ \<Rightarrow> False) (x_bodies e)"

definition good_credential :: "signed_rel \<Rightarrow> token_issuer \<Rightarrow> int \<Rightarrow> request \<Rightarrow> string \<Rightarrow> bool" where
  "good_credential sg i now r client \<longleftrightarrow>
     (\<exists>signed cl. bearer_token r = Inr signed \<and> sg signingMethod (ti_key i) cl signed \<and>
        c_issuer cl = Issuer \<and> c_subject cl = client \<and> trim_space client \<noteq> [] \<and>
        (case c_expires_at cl of None \<Rightarrow> False | Some e \<Rightarrow> now < e + clockSkew) \<and>
        (case c_not_before cl of None \<Rightarrow> True | Some n \<Rightarrow> n - clockSkew \<le> now))"

lemma require_auth_good:
  assumes "jwt_ok lib sg" "require_auth lib i now r Some (\<lambda>resp :: api_body response. None) = Some client"
  shows "good_credential sg i now r client"
proof -
  from assms(2) obtain signed where b: "bearer_token r = Inr signed" "verify_token lib i now signed = Inr client"
    by (auto simp: require_auth_def split: sum.splits)
  from b(2) obtain cl where "sg signingMethod (ti_key i) cl signed"
    "claims_pass (verify_options now) cl" "c_subject cl = client" "trim_space client \<noteq> []"
    unfolding verify_token_iff [OF assms(1)] by blast
  with b(1) show ?thesis unfolding good_credential_def
    by (intro exI [of _ signed] exI [of _ cl]) (simp add: claims_pass_def verify_options_def split: option.splits)
qed

text \<open>Nothing happened, or a client was found and the limiter asked.\<close>

definition gated ::
  "('l, 'r, 'w) server \<Rightarrow> call \<Rightarrow> (string \<Rightarrow> bool) \<Rightarrow> (api_body, 'l rate_limiter \<times> 'w) exchange \<Rightarrow>
   (api_body, 'l rate_limiter \<times> 'w) exchange \<Rightarrow> bool" where
  "gated sv c found e e' \<longleftrightarrow>
     (x_state e' = x_state e \<and> (shows_job e' \<longrightarrow> shows_job e)) \<or>
     (\<exists>client allowed retry l. found client \<and>
        allow (sv_rate sv) (client, cl_number c) (cl_now c) (fst (x_state e)) = Some ((allowed, retry), l) \<and>
        fst (x_state e') = l \<and>
        (allowed \<or> snd (x_state e') = snd (x_state e) \<and> (shows_job e' \<longrightarrow> shows_job e)))"

definition job_route :: "request \<Rightarrow> bool" where
  "job_route r \<longleftrightarrow>
     rq_method r = ''POST'' \<and> rq_path r = ''/uploads'' \<or> rq_method r = ''GET'' \<and> has_prefix (rq_path r) ''/jobs/''"

lemma shows_job_simps [simp]:
  "shows_job (send_response resp e) =
     (shows_job e \<or> (case rs_body resp of JsonBody (JobBody j) \<Rightarrow> True | _ \<Rightarrow> False))"
  "shows_job (add_headers hs e) = shows_job e" "shows_job (write_header st e) = shows_job e"
  "shows_job (e\<lparr>x_state := s\<rparr>) = shows_job e" "shows_job (e\<lparr>x_route := rt\<rparr>) = shows_job e"
  "shows_job (set_header k v e) = shows_job e"
  by (auto simp: shows_job_def)

lemma shows_job_log [simp]: "shows_job (e\<lparr>x_log := lg\<rparr>) = shows_job e"
  by (simp add: shows_job_def)

lemma problem_body_simps [simp]:
  "(case rs_body (write_problem r hs st ty ti d) of JsonBody (JobBody j) \<Rightarrow> True | _ \<Rightarrow> False) = False"
  "(case rs_body (write_problem_with r hs p) of JsonBody (JobBody j) \<Rightarrow> True | _ \<Rightarrow> False) = False"
  "(case rs_body (unauthorized r x) of JsonBody (JobBody j) \<Rightarrow> True | _ \<Rightarrow> False) = False"
  by (simp_all add: write_problem_def write_problem_with_def unauthorized_def Let_def)

lemma open_bodies:
  "(case rs_body (handle_healthz r) of JsonBody (JobBody j) \<Rightarrow> True | _ \<Rightarrow> False) = False"
  "(case rs_body (fst (handle_readyz ready r c w)) of JsonBody (JobBody j) \<Rightarrow> True | _ \<Rightarrow> False) = False"
  "(case rs_body (handle_token lib i now cap r body) of JsonBody (JobBody j) \<Rightarrow> True | _ \<Rightarrow> False) = False"
  by (auto simp: handle_healthz_def handle_readyz_def handle_token_def bad_request_def Let_def
      split: option.splits prod.splits sum.splits)

lemma protected_gated:
  assumes "buckets_ok (fst (x_state e))" "jwt_ok (sv_jwt sv) sg"
  shows "gated sv c (good_credential sg (sv_issuer sv) (cl_now c) (cl_request c)) e (snd (protected sv c h e))"
  using assms(1)
proof (cases rule: protected_cases [where sv = sv and c = c and h = h])
  case (1 x)
  then show ?thesis by (simp add: gated_def)
next
  case (2 client l retry v s)
  with require_auth_good [OF assms(2) 2(1)] show ?thesis by (force simp: gated_def)
next
  case (3 client l retry resp w)
  have "fst (x_state (snd (handled sv c resp (l, w) (l, v) e))) = l" for v
    by (simp add: handled_def split: option.split bool.split)
  with 3 require_auth_good [OF assms(2) 3(1)] show ?thesis unfolding gated_def by (metis (full_types))
qed

definition ready_harmless :: "('l, 'r, 'w) server \<Rightarrow> bool" where
  "ready_harmless sv \<longleftrightarrow> (\<forall>check c w. sv_ready sv = Some check \<longrightarrow> snd (check c w) = w)"

lemma answer_gated:
  "snd res = snd (x_state e) \<Longrightarrow> (case rs_body (fst res) of JsonBody (JobBody j) \<Rightarrow> True | _ \<Rightarrow> False) = False \<Longrightarrow>
     gated sv c found e (snd (answer sv c res e))"
  by (auto simp: gated_def answer_def handled_def split: option.splits bool.splits)

text \<open>A panic recovered, or not, touches nothing and shows no job.\<close>

lemma recoverer_gated:
  assumes "gated sv c found e (snd (inner e))"
  shows "gated sv c found e (snd (recoverer r inner e))"
proof -
  have same: "gated sv c found e b = gated sv c found e a" if "x_state b = x_state a" "shows_job b = shows_job a" for a b
    using that by (simp add: gated_def)
  have "x_state (snd (recoverer r inner e)) = x_state (snd (inner e))"
    "shows_job (snd (recoverer r inner e)) = shows_job (snd (inner e))"
    by (auto simp: recoverer_def split: prod.split option.split panic.split)
  from same [OF this] assms show ?thesis by simp
qed

lemma run_route_gated:
  assumes "buckets_ok (fst (x_state e))" "jwt_ok (sv_jwt sv) sg" "ready_harmless sv"
  shows "gated sv c (\<lambda>client. rt \<in> {Uploads, Jobs} \<and> good_credential sg (sv_issuer sv) (cl_now c) (cl_request c) client)
    e (snd (run_route sv c rt params e))"
proof (cases rt)
  case Readyz
  have "snd (handle_readyz (sv_ready sv) r x w) = w" for r x w
    using assms(3) by (intro readyz_state) (auto simp: ready_harmless_def)
  with Readyz show ?thesis by (simp add: run_route_def answer_gated open_bodies)
next
  case Uploads
  then show ?thesis using protected_gated [OF assms(1,2)] by (simp add: run_route_def)
next
  case Jobs
  then show ?thesis using protected_gated [OF assms(1,2)] by (simp add: run_route_def)
qed (simp_all add: run_route_def answer_gated open_bodies)

lemma table_entries:
  assumes "i < length routes_table" "routes_table ! i = ((m, pattern), rt)" "rt \<in> {Uploads, Jobs}"
  shows "(m, pattern) = (''POST'', ''/uploads'') \<or> (m, pattern) = (''GET'', ''/jobs/{id}'')"
proof -
  have "((m, pattern), rt) \<in> set routes_table" using assms(1,2) by (metis nth_mem)
  with assms(3) show ?thesis by (auto simp: routes_table_def)
qed

lemma filled_paths:
  "fill_pattern params ''/uploads'' = ''/uploads''" "has_prefix (fill_pattern params ''/jobs/{id}'') ''/jobs/''"
  by (simp_all add: fill_pattern_def fill_segment_def has_prefix_def)

lemma gated_mono:
  "gated sv c found e e' \<Longrightarrow> (\<And>client. found client \<Longrightarrow> found' client) \<Longrightarrow> gated sv c found' e e'"
  unfolding gated_def by blast

lemma gated_route [simp]: "gated sv c found (e\<lparr>x_route := pat\<rparr>) e' = gated sv c found e e'"
  by (simp add: gated_def)

lemma router_matched:
  assumes "router_ok rt" "rt table m p = Matched i params"
  shows "i < length table \<and> fst (table ! i) = m \<and> fill_pattern params (snd (table ! i)) = p"
  using assms unfolding router_ok_def by meson

lemma api_router_gated:
  assumes "router_ok (sv_router sv)" "buckets_ok (fst (x_state e))" "jwt_ok (sv_jwt sv) sg" "ready_harmless sv"
  shows "gated sv c (\<lambda>client. job_route (cl_request c) \<and>
      good_credential sg (sv_issuer sv) (cl_now c) (cl_request c) client) e (snd (api_router sv c e))"
proof (cases "sv_router sv (map fst routes_table) (rq_method (cl_request c)) (rq_path (cl_request c))")
  case (Matched i params)
  obtain m pattern rt where entry: "routes_table ! i = ((m, pattern), rt)" by (metis prod.exhaust)
  from router_matched [OF assms(1) Matched] entry have m: "i < length routes_table" "m = rq_method (cl_request c)"
    "fill_pattern params pattern = rq_path (cl_request c)"
    by (auto simp: nth_map)
  have "gated sv c (\<lambda>client. rt \<in> {Uploads, Jobs} \<and> good_credential sg (sv_issuer sv) (cl_now c) (cl_request c) client)
      e (snd (api_router sv c e))"
    using run_route_gated [of "e\<lparr>x_route := Some pattern\<rparr>" sv sg c rt params] assms Matched entry
    by (simp add: api_router_def)
  then show ?thesis
  proof (rule gated_mono)
    fix client
    assume "rt \<in> {Uploads, Jobs} \<and> good_credential sg (sv_issuer sv) (cl_now c) (cl_request c) client"
    with table_entries [OF m(1) entry] m filled_paths [of params]
    show "job_route (cl_request c) \<and> good_credential sg (sv_issuer sv) (cl_now c) (cl_request c) client"
      by (auto simp: job_route_def)
  qed
qed (simp_all add: api_router_def gated_def)

lemma cors_gated:
  assumes "cors_ok (sv_cors sv)" "gated sv c found (add_headers hs e) (snd (api_router sv c (add_headers hs e)))"
    and "sv_cors sv r (api_router sv c) e = api_router sv c (add_headers hs e) \<or>
         sv_cors sv r (api_router sv c) e = (None, write_header 200 (add_headers hs e))"
  shows "gated sv c found e (snd (sv_cors sv r (api_router sv c) e))"
proof -
  have "gated sv c found (add_headers hs e) e' = gated sv c found e e'" for e' by (simp add: gated_def)
  moreover have "gated sv c found e (write_header 200 (add_headers hs e))" by (simp add: gated_def)
  ultimately show ?thesis using assms(2,3) by (metis snd_conv)
qed

section \<open>The whole stack\<close>

definition opened :: "request \<Rightarrow> ('b, 's) exchange \<Rightarrow> ('b, 's) exchange" where
  "opened r e =
     (let e = (if rq_id r \<noteq> [] then set_header RequestIDHeader (rq_id r) e else e) in
      if rq_trace r \<noteq> [] then set_header TraceIDHeader (rq_trace r) e else e)"

lemma opened_simps [simp]:
  "x_sent (opened r e) = x_sent e" "x_bodies (opened r e) = x_bodies e" "x_log (opened r e) = x_log e"
  "x_state (opened r e) = x_state e" "shows_job (opened r e) = shows_job e"
  by (simp_all add: opened_def Let_def)

lemma opened_headers:
  "rq_id r \<noteq> [] \<Longrightarrow> map_of (x_headers (opened r e)) RequestIDHeader = Some (rq_id r)"
  "rq_trace r \<noteq> [] \<Longrightarrow> map_of (x_headers (opened r e)) TraceIDHeader = Some (rq_trace r)"
  by (simp_all add: opened_def Let_def RequestIDHeader_def TraceIDHeader_def)

lemma stack_ends:
  assumes "recoverer r inner (opened r e) = (p, d)"
  obtains e' where "echo_request_id r (trace_route r (request_logger r (recoverer r inner))) e = (p, e')"
    "x_sent e' = x_sent d" "x_bodies e' = x_bodies d" "x_state e' = x_state d"
    "x_log e' = x_log d @ [RequestCompleted (log_level (written_status d)) (rq_method r) (rq_path r)
       (written_status d) (rq_id r)]"
  using assms
  by (fastforce simp: echo_request_id_def trace_route_def request_logger_def opened_def Let_def
      split: option.splits if_splits)

lemma serve_ends:
  assumes "cors_ok (sv_cors sv)" "x_sent e = None" "buckets_ok (fst (x_state e))"
  obtains e0 q d0 p d e' where "e0 = (e\<lparr>x_span := x_span e0\<rparr>)"
    "sv_cors sv (cl_request c) (api_router sv c) (opened (cl_request c) e0) = (q, d0)"
    "well_answered sv c (opened (cl_request c) e0) (q, d0)"
    "recoverer (cl_request c) (sv_cors sv (cl_request c) (api_router sv c)) (opened (cl_request c) e0) = (p, d)"
    "serve sv sampled c e = (p, e')" "x_sent e' = x_sent d" "x_bodies e' = x_bodies d" "x_state e' = x_state d"
    "x_log e' = x_log d @ [RequestCompleted (log_level (written_status d)) (rq_method (cl_request c))
       (rq_path (cl_request c)) (written_status d) (rq_id (cl_request c))]"
proof -
  let ?r = "cl_request c"
  let ?inner = "sv_cors sv ?r (api_router sv c)"
  define e0 where "e0 = (if is_probe (rq_path ?r) \<or> \<not> sampled then e else e\<lparr>x_span := Some (rq_method ?r)\<rparr>)"
  have s: "serve sv sampled c e = api_routes sv c e0" by (simp add: serve_def with_tracing_def e0_def)
  have e0: "x_sent e0 = None" "buckets_ok (fst (x_state e0))" "e0 = e\<lparr>x_span := x_span e0\<rparr>"
    using assms(2,3) by (simp_all add: e0_def)
  obtain q d0 where q: "?inner (opened ?r e0) = (q, d0)" by fastforce
  with cors_answers [OF assms(1), where e = "opened ?r e0" and r = ?r and c = c] e0(1,2)
  have w: "well_answered sv c (opened ?r e0) (q, d0)" by simp
  obtain p d where p: "recoverer ?r ?inner (opened ?r e0) = (p, d)" by fastforce
  from stack_ends [OF p] s obtain e' where "serve sv sampled c e = (p, e')"
    "x_sent e' = x_sent d" "x_bodies e' = x_bodies d" "x_state e' = x_state d"
    "x_log e' = x_log d @ [RequestCompleted (log_level (written_status d)) (rq_method ?r) (rq_path ?r)
       (written_status d) (rq_id ?r)]"
    by (auto simp: api_routes_def Let_def)
  with that e0(3) q w p show thesis by blast
qed

text \<open>What becomes of a panic: another than \<open>ErrAbortHandler\<close> is logged and answered, unless it was too late.\<close>

lemma recoverer_ends:
  assumes "inner e = (q, d0)" "recoverer r inner e = (p, d)"
  shows "case q of
      None \<Rightarrow> p = None \<and> d = d0
    | Some AbortHandler \<Rightarrow> p = Some AbortHandler \<and> d = d0
    | Some (OtherPanic v) \<Rightarrow> p = None \<and> x_log d = x_log d0 @ [PanicRecovered (rq_id r)] \<and>
        length (x_bodies d) = Suc (length (x_bodies d0)) \<and> x_state d = x_state d0 \<and>
        (case x_sent d0 of
           Some sent \<Rightarrow> x_sent d = Some sent
         | None \<Rightarrow> \<exists>hs. x_sent d = Some (500, hs) \<and> (\<forall>k \<in> set correlation. map_of hs k = map_of (x_headers d0) k))"
proof -
  let ?d = "d0\<lparr>x_log := x_log d0 @ [PanicRecovered (rq_id r)]\<rparr>"
  let ?resp = "write_problem r [] 500 TypeInternal ''Internal Server Error''
      ''The server encountered an unexpected condition.'' :: 'a response"
  have "x_log (send_response ?resp ?d) = x_log ?d" by (simp add: send_response_def Let_def)
  moreover have "x_sent (send_response ?resp ?d) =
      (case x_sent d0 of Some sent \<Rightarrow> Some sent | None \<Rightarrow> Some (500, x_headers (add_headers (rs_headers ?resp) ?d)))"
    by (simp add: send_response_def write_header_def write_problem_def Let_def split: option.splits)
  moreover have "foreign_headers (rs_headers ?resp)"
    using problem_own(1) [of r "[]" 500] by (simp add: own_response_def)
  then have "\<forall>k \<in> set correlation. map_of (x_headers (add_headers (rs_headers ?resp) ?d)) k = map_of (x_headers d0) k"
    by (simp add: add_foreign_headers)
  ultimately show ?thesis
    using assms by (auto simp: recoverer_def split: option.splits panic.splits)
qed

section \<open>Properties\<close>

text \<open>The status sent is one of the API's, and went with the identifiers of the request and its trace.\<close>

definition answered_with_ids :: "request \<Rightarrow> ('b, 's) exchange \<Rightarrow> bool" where
  "answered_with_ids r e \<longleftrightarrow>
     (\<exists>st hs. x_sent e = Some (st, hs) \<and> st \<in> set own_statuses \<and>
        (rq_id r = [] \<or> map_of hs RequestIDHeader = Some (rq_id r)) \<and>
        (rq_trace r = [] \<or> map_of hs TraceIDHeader = Some (rq_trace r)))"

lemma answered_with_idsI:
  assumes "x_sent e' = Some (st, hs)" "st \<in> set own_statuses"
    "\<forall>k \<in> set correlation. map_of hs k = map_of (x_headers (opened r e)) k"
  shows "answered_with_ids r e'"
  using assms opened_headers [of r e] unfolding answered_with_ids_def correlation_def by fastforce

text \<open>
  C36: every request is answered, and accounted for, handlers that panic included. Whatever the
  method, path, credentials and body, and whatever the handlers' collaborators do, the limiter is left
  well-formed for the next request, and: when the handler that was reached, if any, does not
  panic (\<open>q\<close> is \<open>None\<close>), one status of the API's own vocabulary is sent with the identifiers of the request and the
  trace and at most one body, and the log gains exactly one line, with that status at the level
  that goes with it. When the handler panics, the panic goes no further: before that line the
  log gains another, and the client has a 500 with the identifiers and one body, or, if the handler had
  answered already, the status it sent, with the problem after the body. Only \<open>ErrAbortHandler\<close> goes on to
  \<open>net/http\<close>: the line is logged, and nothing is added to what the handler had sent.
\<close>

theorem requests_answered:
  assumes "cors_ok (sv_cors sv)" "buckets_ok (fst s)"
  shows "\<exists>q p e'. (q = None \<or> q = sv_panic sv c) \<and> serve sv sampled c (new_exchange lg s) = (p, e') \<and>
    buckets_ok (fst (x_state e')) \<and>
    (let r = cl_request c; st = written_status e';
         line = RequestCompleted (log_level st) (rq_method r) (rq_path r) st (rq_id r)
     in case q of
          None \<Rightarrow> p = None \<and> x_log e' = lg @ [line] \<and> answered_with_ids r e' \<and> length (x_bodies e') \<le> 1
        | Some (OtherPanic v, answered) \<Rightarrow>
            p = None \<and> x_log e' = lg @ [PanicRecovered (rq_id r), line] \<and> answered_with_ids r e' \<and>
            (if answered then length (x_bodies e') \<le> 2 else st = 500 \<and> length (x_bodies e') = 1)
        | Some (AbortHandler, answered) \<Rightarrow>
            p = Some AbortHandler \<and> x_log e' = lg @ [line] \<and>
            (if answered then answered_with_ids r e' \<and> length (x_bodies e') \<le> 1
             else x_sent e' = None \<and> x_bodies e' = []))"
proof -
  let ?e = "new_exchange lg s" and ?r = "cl_request c"
  have "x_sent ?e = None" "buckets_ok (fst (x_state ?e))" using assms(2) by (simp_all add: new_exchange_def)
  then show ?thesis
  proof (rule serve_ends [OF assms(1), where c = c and sampled = sampled], goal_cases)
    case (1 e0 q d0 p d e')
    have e0: "x_bodies e0 = []" "x_log e0 = lg" by (subst 1(1), simp add: new_exchange_def)+
    have ids: "answered_with_ids ?r e'" if "answered_once (opened ?r e0) d0" "x_sent d = x_sent d0"
      using that 1(6) answered_with_idsI [of e' _ _ ?r e0] by (auto simp: answered_once_def)
    have ids500: "answered_with_ids ?r e'" if "unanswered (opened ?r e0) d0" "x_sent d = Some (500, hs)"
        "\<forall>k \<in> set correlation. map_of hs k = map_of (x_headers d0) k" for hs
      using that 1(6) answered_with_idsI [of e' 500 hs ?r e0] by (simp add: unanswered_def)
    have st: "written_status e' = written_status d" using 1(6) by (simp add: written_status_def)
    note ends = recoverer_ends [OF 1(2,4)]
    show ?case
    proof (cases q)
      case None
      with 1 ends e0 ids st show ?thesis
        by (intro exI [of _ None] exI [of _ p] exI [of _ e']) (auto simp: well_answered_def answered_once_def)
    next
      case (Some pn)
      with 1(3) obtain answered where pn: "sv_panic sv c = Some (pn, answered)"
        and w: "if answered then answered_once (opened ?r e0) d0 else unanswered (opened ?r e0) d0"
          "buckets_ok (fst (x_state d0))"
        using that [of True] that [of False] by (auto simp: well_answered_def)
      show ?thesis
      proof (cases pn)
        case AbortHandler
        with 1 ends e0 ids st pn w Some show ?thesis
          by (intro exI [of _ "Some (pn, answered)"] exI [of _ p] exI [of _ e'])
            (auto simp: answered_once_def unanswered_def)
      next
        case (OtherPanic v)
        show ?thesis
        proof (cases answered)
          case True
          with OtherPanic 1 ends e0 ids st pn w Some show ?thesis
            by (intro exI [of _ "Some (pn, answered)"] exI [of _ p] exI [of _ e'])
              (auto simp: answered_once_def)
        next
          case False
          with OtherPanic ends w Some obtain hs where hs: "x_sent d = Some (500, hs)"
            "\<forall>k \<in> set correlation. map_of hs k = map_of (x_headers d0) k"
            by (auto simp: unanswered_def)
          with False OtherPanic 1 ends e0 ids500 [OF _ hs] st pn w Some show ?thesis
            by (intro exI [of _ "Some (pn, answered)"] exI [of _ p] exI [of _ e'])
              (auto simp: unanswered_def written_status_def)
        qed
      qed
    qed
  qed
qed

text \<open>
  C37: nobody reaches a job without a token. Serving any request leaves the stored jobs, the queue
  and the limiter as they were and shows no job, unless the path is that of an upload or of a
  job and the request carries a token signed by this service, current and with a subject; then
  the limiter was asked for that subject, and unless it allowed the request nothing but the
  limiter changed and no job is shown.
\<close>

theorem jobs_need_token:
  assumes "router_ok (sv_router sv)" "cors_ok (sv_cors sv)" "jwt_ok (sv_jwt sv) sg" "ready_harmless sv"
    and "buckets_ok (fst s)" "serve sv sampled c (new_exchange lg s) = (p, e')"
  shows "(x_state e' = s \<and> \<not> shows_job e') \<or>
    (\<exists>client allowed retry l. job_route (cl_request c) \<and>
       good_credential sg (sv_issuer sv) (cl_now c) (cl_request c) client \<and>
       allow (sv_rate sv) (client, cl_number c) (cl_now c) (fst s) = Some ((allowed, retry), l) \<and>
       fst (x_state e') = l \<and>
       (if allowed then True else snd (x_state e') = snd s \<and> \<not> shows_job e'))"
proof -
  let ?e = "new_exchange lg s" and ?r = "cl_request c"
  let ?found = "\<lambda>client. job_route ?r \<and> good_credential sg (sv_issuer sv) (cl_now c) ?r client"
  have fresh: "x_sent ?e = None" "buckets_ok (fst (x_state ?e))" using assms(5) by (simp_all add: new_exchange_def)
  from serve_ends [OF assms(2) fresh, where c = c and sampled = sampled] obtain e0 d where
    e0: "e0 = ?e\<lparr>x_span := x_span e0\<rparr>"
    and d: "recoverer ?r (sv_cors sv ?r (api_router sv c)) (opened ?r e0) = (p, d)"
    and e': "x_bodies e' = x_bodies d" "x_state e' = x_state d"
    using assms(6) by (metis prod.inject)
  have st: "x_state e0 = s" "x_bodies e0 = []" by (subst e0, simp add: new_exchange_def)+
  obtain hs where hs: "sv_cors sv ?r (api_router sv c) (opened ?r e0) = api_router sv c (add_headers hs (opened ?r e0)) \<or>
      sv_cors sv ?r (api_router sv c) (opened ?r e0) = (None, write_header 200 (add_headers hs (opened ?r e0)))"
    using assms(2) unfolding cors_ok_def by meson
  have "gated sv c ?found (add_headers hs (opened ?r e0)) (snd (api_router sv c (add_headers hs (opened ?r e0))))"
    using api_router_gated [OF assms(1) _ assms(3,4)] assms(5) st(1) by simp
  from recoverer_gated [where inner = "sv_cors sv ?r (api_router sv c)", OF cors_gated [OF assms(2) this hs], of ?r] have "gated sv c ?found (opened ?r e0) d" unfolding d by simp
  moreover have "shows_job (opened ?r e0) = False" "shows_job e' = shows_job d"
    using st(2) e'(1) by (simp_all add: shows_job_def)
  ultimately consider "x_state e' = s" "\<not> shows_job e'"
    | client allowed retry l where "?found client"
        "allow (sv_rate sv) (client, cl_number c) (cl_now c) (fst s) = Some ((allowed, retry), l)"
        "fst (x_state e') = l" "allowed \<or> snd (x_state e') = snd s \<and> \<not> shows_job e'"
    unfolding gated_def using st(1) e'(2) by (metis opened_simps(4))
  then show ?thesis
  proof cases
    case (2 client allowed retry l)
    then show ?thesis
      by (intro disjI2 exI [of _ client] exI [of _ allowed] exI [of _ retry] exI [of _ l]) auto
  qed simp
qed

text \<open>A server to apply the properties to: its router knows the entries without parameters.\<close>

definition sample_router :: router where
  "sample_router table m p =
     (if CHR ''{'' \<notin> set p \<and> (m, p) \<in> set table
      then Matched (the (find (\<lambda>i. table ! i = (m, p)) [0..<length table])) (\<lambda>k. [])
      else NoRoute)"

lemma split_on_chars: "f \<in> set (split_on sep s) \<Longrightarrow> set f \<subseteq> set s"
proof (induction s arbitrary: f)
  case (Cons c cs)
  obtain g gs where "split_on sep cs = g # gs" by (metis neq_Nil_conv split_on_nonempty)
  with Cons.IH [of g] Cons.IH [of f] Cons.prems show ?case by (auto split: if_splits)
qed simp

lemma join_split: "join_with [sep] (split_on sep s) = s"
proof (induction s)
  case (Cons c cs)
  obtain g gs where g: "split_on sep cs = g # gs" by (metis neq_Nil_conv split_on_nonempty)
  with Cons.IH show ?case by (cases gs) (auto simp: join_with_Cons)
qed simp

lemma fill_literal: "CHR ''{'' \<notin> set p \<Longrightarrow> fill_pattern params p = p"
proof -
  assume "CHR ''{'' \<notin> set p"
  then have "f \<in> set (split_on CHR ''/'' p) \<Longrightarrow> fill_segment params f = f" for f
    using split_on_chars [of f "CHR ''/''" p] by (cases f) (auto simp: fill_segment_def has_prefix_def)
  then have "map (fill_segment params) (split_on CHR ''/'' p) = split_on CHR ''/'' p" by (rule map_idI)
  then show ?thesis by (simp add: fill_pattern_def join_split)
qed

lemma sample_router_ok: "router_ok sample_router"
proof -
  have found: "\<exists>i. find (\<lambda>i. table ! i = e) [0..<length table] = Some i \<and> i < length table \<and> table ! i = e"
    if "e \<in> set table" for table and e :: "string \<times> string"
  proof (cases "find (\<lambda>i. table ! i = e) [0..<length table]")
    case None
    with that show ?thesis by (auto simp: find_None_iff in_set_conv_nth)
  next
    case (Some i)
    then show ?thesis by (auto simp: find_Some_iff)
  qed
  show ?thesis
    unfolding router_ok_def
  proof (intro allI conjI impI)
    fix table m p i params
    assume "sample_router table m p = Matched i params"
    then have p: "CHR ''{'' \<notin> set p" "(m, p) \<in> set table"
      and i: "i = the (find (\<lambda>i. table ! i = (m, p)) [0..<length table])" "params = (\<lambda>k. [])"
      by (auto simp: sample_router_def split: if_splits)
    from found [of "(m, p)" table] p(2) i have "i < length table" "table ! i = (m, p)" by auto
    with fill_literal [OF p(1), of params]
    show "i < length table" "fst (table ! i) = m" "fill_pattern params (snd (table ! i)) = p" by simp_all
  next
    fix table :: "(string \<times> string) list" and m p
    assume "(m, p) \<in> set table" "CHR ''{'' \<notin> set p"
    with found [of "(m, p)" table] show "\<exists>i params. sample_router table m p = Matched i params \<and> table ! i = (m, p)"
      by (auto simp: sample_router_def)
  qed
qed

definition sample_rate :: "(unit, unit) rate_lib" where
  "sample_rate =
     \<lparr>lib_new = (\<lambda>r b. ()), lib_reserve = (\<lambda>l t n. ((), l)), lib_ok = (\<lambda>r. True),
      lib_delay_from = (\<lambda>r t. 0), lib_cancel_at = (\<lambda>r t l. l)\<rparr>"

definition sample_server :: "(unit, unit, mem_world) server" where
  "sample_server =
     \<lparr>sv_router = sample_router, sv_cors = (\<lambda>r next_handler. next_handler), sv_jwt = sample_jwt,
      sv_rate = sample_rate, sv_issuer = sample_issuer, sv_create = mem_create ex_env, sv_jobs = mem_jobs ex_env,
      sv_ready = None, sv_ctx_err = (\<lambda>c w. CtxErr c (w_tick w)), sv_cfg = sample_config,
      sv_panic = (\<lambda>c. None), sv_broken = (\<lambda>c w. w)\<rparr>"

definition sample_call :: "string \<Rightarrow> string \<Rightarrow> call" where
  "sample_call meth path =
     \<lparr>cl_request = sample_request\<lparr>rq_method := meth, rq_path := path\<rparr>, cl_ctx = Background, cl_now = 0,
      cl_number = 0, cl_text = [], cl_form = Form sample_form\<rparr>"

lemma sample_server_ok:
  "cors_ok (sv_cors sample_server)" "router_ok (sv_router sample_server)" "ready_harmless sample_server"
  "jwt_ok (sv_jwt sample_server) sample_sg" "buckets_ok (new_rate_limiter r b)"
proof -
  show "cors_ok (sv_cors sample_server)"
    unfolding cors_ok_def sample_server_def by (intro allI exI [of _ "[]"]) (simp add: add_headers_def)
qed (simp_all add: sample_server_def sample_router_ok ready_harmless_def sample_jwt_ok buckets_ok_def new_rate_limiter_def Let_def)

text \<open>The same server when the handler of a probe panics before it has answered.\<close>

abbreviation failing_server :: "(unit, unit, mem_world) server" where
  "failing_server \<equiv> sample_server\<lparr>sv_panic := \<lambda>c. Some (OtherPanic ''boom'', False)\<rparr>"

lemma failing_server_logs:
  "length (x_log (snd (serve failing_server True (sample_call ''GET'' ''/healthz'')
     (new_exchange [] (new_rate_limiter 5 10, ex_world))))) = 2"
  by code_simp

theorem requests_answered_witness:
  "\<exists>e'. serve failing_server True (sample_call ''GET'' ''/healthz'')
     (new_exchange [] (new_rate_limiter 5 10, ex_world)) = (None, e') \<and> written_status e' = 500 \<and> length (x_log e') = 2"
proof -
  have "buckets_ok (fst (new_rate_limiter 5 10 :: unit rate_limiter, ex_world))" using sample_server_ok(5) by simp
  moreover have "cors_ok (sv_cors failing_server)" using sample_server_ok(1) by simp
  ultimately show ?thesis
    using failing_server_logs
      requests_answered [where sv = failing_server and sampled = True and c = "sample_call ''GET'' ''/healthz''"
        and lg = "[]" and s = "(new_rate_limiter 5 10, ex_world)"]
    by (auto simp: Let_def)
qed

theorem jobs_need_token_witness:
  "x_state (snd (serve sample_server True (sample_call ''POST'' ''/uploads'')
     (new_exchange [] (new_rate_limiter 5 10, ex_world)))) = (new_rate_limiter 5 10, ex_world)"
proof -
  let ?c = "sample_call ''POST'' ''/uploads''"
  obtain p e' where run: "serve sample_server True ?c (new_exchange [] (new_rate_limiter 5 10, ex_world)) = (p, e')"
    by fastforce
  have "buckets_ok (fst (new_rate_limiter 5 10 :: unit rate_limiter, ex_world))" using sample_server_ok(5) by simp
  from jobs_need_token [OF sample_server_ok(2,1,4,3) this run]
  have "x_state e' = (new_rate_limiter 5 10, ex_world) \<or> (\<exists>s. bearer_token (cl_request ?c) = Inr s)"
    by (auto simp: good_credential_def)
  moreover have "bearer_token (cl_request ?c) = Inl ErrNoCredentials"
    by (simp add: sample_call_def sample_request_def bearer_token_def)
  ultimately show ?thesis using run by simp
qed

end
