(* ===== verification/Metrics.thy ===== *)
theory Metrics
  imports Worker
begin

text \<open>
  \<open>internal/metrics/metrics.go\<close>: the worker's collectors as the values they hold, the depth
  poller, and the metrics server. A counter vector holds a value for every label that was ever
  named; a histogram is its observations. The exposition format is Prometheus's.
\<close>

section \<open>Collectors\<close>

definition MetricProcessed :: string where "MetricProcessed = ''processed''"
definition MetricFailed :: string where "MetricFailed = ''failed''"
definition MetricSkipped :: string where "MetricSkipped = ''skipped''"

definition DefaultDepthInterval :: int where "DefaultDepthInterval = 15 * 10 ^ 9"

record metrics =
  me_processed :: "string \<rightharpoonup> nat"
  me_duration :: "string \<Rightarrow> int list"
  me_depth :: int
  me_receive_errors :: nat

definition with_label :: "string \<Rightarrow> (string \<rightharpoonup> nat) \<Rightarrow> (string \<rightharpoonup> nat)" where
  "with_label s v = (case v s of None \<Rightarrow> v(s \<mapsto> 0) | Some n \<Rightarrow> v)"

definition metrics_new :: metrics where
  "metrics_new =
     \<lparr>me_processed = fold with_label [MetricProcessed, MetricFailed, MetricSkipped] Map.empty,
      me_duration = (\<lambda>s. []), me_depth = 0, me_receive_errors = 0\<rparr>"

definition job_finished :: "string \<Rightarrow> int \<Rightarrow> metrics \<Rightarrow> metrics" where
  "job_finished status d m =
     (let v = with_label status (me_processed m) in
      m\<lparr>me_processed := v(status \<mapsto> Suc (the (v status))),
        me_duration := (me_duration m)(status := me_duration m status @ [d])\<rparr>)"

definition set_queue_depth :: "int \<Rightarrow> metrics \<Rightarrow> metrics" where
  "set_queue_depth n m = m\<lparr>me_depth := n\<rparr>"

definition receive_failed :: "metrics \<Rightarrow> metrics" where
  "receive_failed m = m\<lparr>me_receive_errors := Suc (me_receive_errors m)\<rparr>"

section \<open>PollDepth\<close>

text \<open>
  One reading, under a context that ends after \<open>interval\<close>: a failed one leaves the gauge. The
  poller reads at once and then once per tick; \<open>readings\<close> is what the queue says each time, up to
  the end of the context.
\<close>

definition read_depth :: "int res \<Rightarrow> metrics \<Rightarrow> metrics" where
  "read_depth reading m = (case reading of Inl e \<Rightarrow> m | Inr n \<Rightarrow> set_queue_depth n m)"

definition poll_interval :: "int \<Rightarrow> int" where
  "poll_interval interval = (if interval \<le> 0 then DefaultDepthInterval else interval)"

definition poll_depth :: "(nat \<Rightarrow> int res) option \<Rightarrow> nat \<Rightarrow> metrics \<Rightarrow> metrics" where
  "poll_depth depth ticks m =
     (case depth of
        None \<Rightarrow> m
      | Some readings \<Rightarrow> fold (\<lambda>k. read_depth (readings k)) [0..<Suc ticks] m)"

section \<open>The server\<close>

definition ErrServerClosed :: goerr where
  "ErrServerClosed = ENew ''http.ErrServerClosed'' ''http: Server closed''"

definition metrics_serve :: "goerr option \<Rightarrow> goerr option" where
  "metrics_serve err =
     (case err of Some e \<Rightarrow> if errors_is e ErrServerClosed then None else Some e | None \<Rightarrow> None)"

text \<open>Whether the server was closed by force comes with the error.\<close>

definition metrics_shutdown :: "goerr option \<Rightarrow> goerr option \<times> bool" where
  "metrics_shutdown err = (case err of Some e \<Rightarrow> (Some e, True) | None \<Rightarrow> (None, False))"

section \<open>Lemmas\<close>

lemma metrics_new_labels: "me_processed metrics_new =
    [StatusProcessed \<mapsto> 0, OutcomeFailed \<mapsto> 0, StatusSkipped \<mapsto> 0]"
proof -
  have "MetricProcessed = StatusProcessed" "MetricFailed = OutcomeFailed" "MetricSkipped = StatusSkipped"
    by (simp_all add: MetricProcessed_def MetricFailed_def MetricSkipped_def
        StatusProcessed_def OutcomeFailed_def StatusSkipped_def)
  then have "me_processed metrics_new t = [StatusProcessed \<mapsto> 0, OutcomeFailed \<mapsto> 0, StatusSkipped \<mapsto> 0] t" for t
    by (auto simp: metrics_new_def with_label_def split: option.splits)
  then show ?thesis by blast
qed

lemma job_finished_counts:
  "me_processed (job_finished s d m) t =
     (if t = s then Some (Suc (case me_processed m s of None \<Rightarrow> 0 | Some n \<Rightarrow> n)) else me_processed m t)"
  "length (me_duration (job_finished s d m) t) = length (me_duration m t) + (if t = s then 1 else 0)"
  by (auto simp: job_finished_def with_label_def Let_def split: option.splits)

end
