(* ===== verification/Config.thy ===== *)
theory Config
  imports Environ Uploads Aws_Backend Metrics
begin

text \<open>
  How the two commands are configured and put together: \<open>internal/adapters/awscfg\<close>,
  \<open>internal/adapters/backend.go\<close>, and the settings of \<open>cmd/api\<close> and \<open>cmd/worker\<close>. The
  environment is a map; the AWS SDK and the file system are parameters. Logging is left out. How
  the commands start and end is in theory \<open>Lifecycle\<close>.
\<close>

section \<open>AWS settings\<close>

definition awsEnvEndpoint :: string where "awsEnvEndpoint = ''AWS_ENDPOINT_URL''"
definition EnvRegion :: string where "EnvRegion = ''AWS_REGION''"
definition EnvBucket :: string where "EnvBucket = ''IMAGEFORGE_S3_BUCKET''"
definition EnvQueue :: string where "EnvQueue = ''IMAGEFORGE_SQS_QUEUE''"
definition EnvTable :: string where "EnvTable = ''IMAGEFORGE_DYNAMODB_TABLE''"

definition DefaultRegion :: string where "DefaultRegion = ''eu-west-1''"
definition DefaultBucket :: string where "DefaultBucket = ''imageforge-media''"
definition DefaultQueue :: string where "DefaultQueue = ''imageforge-jobs''"
definition DefaultTable :: string where "DefaultTable = ''imageforge-jobs''"

definition ErrMissingSetting :: goerr where
  "ErrMissingSetting = ENew ''awscfg.ErrMissingSetting'' ''missing aws setting''"

record settings =
  se_region :: string
  se_endpoint :: string
  se_bucket :: string
  se_queue :: string
  se_table :: string

definition aws_env :: "environ \<Rightarrow> string \<Rightarrow> string \<Rightarrow> string" where
  "aws_env en key fallback =
     (case en key of
        Some v \<Rightarrow> if trim_space v \<noteq> [] then trim_space v else fallback
      | None \<Rightarrow> fallback)"

definition settings_from_env :: "environ \<Rightarrow> settings" where
  "settings_from_env en =
     \<lparr>se_region = aws_env en EnvRegion DefaultRegion, se_endpoint = aws_env en awsEnvEndpoint [],
      se_bucket = aws_env en EnvBucket DefaultBucket, se_queue = aws_env en EnvQueue DefaultQueue,
      se_table = aws_env en EnvTable DefaultTable\<rparr>"

definition uses_localstack :: "settings \<Rightarrow> bool" where
  "uses_localstack s \<longleftrightarrow> se_endpoint s \<noteq> []"

definition settings_validate :: "settings \<Rightarrow> goerr option" where
  "settings_validate s =
     errors_join (concat (map (\<lambda>(name, v).
         if trim_space v = [] then [EWrap [] ErrMissingSetting ('': '' @ name)] else [])
       [(''region'', se_region s), (''bucket'', se_bucket s), (''queue'', se_queue s), (''table'', se_table s)]))"

text \<open>What \<open>Load\<close> asks of the SDK: a region, and placeholder credentials for LocalStack.\<close>

definition load_options :: "environ \<Rightarrow> settings \<Rightarrow> string \<times> (string \<times> string \<times> string) option" where
  "load_options en s =
     (se_region s,
      if uses_localstack s \<and> (case en ''AWS_ACCESS_KEY_ID'' of None \<Rightarrow> [] | Some v \<Rightarrow> v) = []
      then Some (''test'', ''test'', []) else None)"

record client_options =
  co_endpoint :: "string option"
  co_path_style :: bool

definition s3_client_options :: "settings \<Rightarrow> client_options" where
  "s3_client_options s =
     (if uses_localstack s then \<lparr>co_endpoint = Some (se_endpoint s), co_path_style = True\<rparr>
      else \<lparr>co_endpoint = None, co_path_style = False\<rparr>)"

definition sqs_client_options :: "settings \<Rightarrow> client_options" where
  "sqs_client_options s =
     (if uses_localstack s then \<lparr>co_endpoint = Some (se_endpoint s), co_path_style = False\<rparr>
      else \<lparr>co_endpoint = None, co_path_style = False\<rparr>)"

definition dynamo_client_options :: "settings \<Rightarrow> client_options" where
  "dynamo_client_options s =
     (if uses_localstack s then \<lparr>co_endpoint = Some (se_endpoint s), co_path_style = False\<rparr>
      else \<lparr>co_endpoint = None, co_path_style = False\<rparr>)"

record ('c, 'w) aws_sdk =
  sdk_load :: "string \<times> (string \<times> string \<times> string) option \<Rightarrow> 'c res"
  sdk_s3 :: "'c \<Rightarrow> client_options \<Rightarrow> 'w s3_api"
  sdk_sqs :: "'c \<Rightarrow> client_options \<Rightarrow> 'w sqs_api"
  sdk_dynamo :: "'c \<Rightarrow> client_options \<Rightarrow> 'w dynamo_api"

definition load_aws :: "('c, 'w) aws_sdk \<Rightarrow> environ \<Rightarrow> settings \<Rightarrow> 'c res" where
  "load_aws sdk en s =
     (case sdk_load sdk (load_options en s) of
        Inl e \<Rightarrow> Inl (EWrap ''awscfg: load: '' e []) | Inr cfg \<Rightarrow> Inr cfg)"

section \<open>Backends\<close>

definition EnvBackend :: string where "EnvBackend = ''IMAGEFORGE_BACKEND''"
definition BackendMemory :: string where "BackendMemory = ''memory''"
definition BackendAWS :: string where "BackendAWS = ''aws''"

definition ErrUnknownBackend :: goerr where
  "ErrUnknownBackend = ENew ''adapters.ErrUnknownBackend'' ''unknown backend''"

declare ErrUnknownBackend_def [go_errors] ErrMissingSetting_def [go_errors]

datatype adapters =
    InProcess string mem_queue "string \<rightharpoonup> job"
  | Cloud s3_storage sqs_queue string

record adapter_set =
  as_name :: string
  as_description :: string
  as_adapters :: adapters

record adapters_config =
  adc_storage_dir :: string
  adc_queue_buffer :: int

definition backend_from_env :: "environ \<Rightarrow> string" where
  "backend_from_env en =
     (case en EnvBackend of
        Some v \<Rightarrow> if trim_space v \<noteq> [] then to_lower (trim_space v) else BackendMemory
      | None \<Rightarrow> BackendMemory)"

text \<open>
  \<open>ReceiveErrorHandler\<close>, the package variable, may be replaced by another function or by nil; at
  first it writes a warning. It is read at each failure, so a queue tells whichever is installed.
\<close>

record receive_warning =
  rw_message :: string
  rw_attempt :: nat
  rw_retry_in :: int
  rw_error :: string

definition log_receive_error :: "goerr \<Rightarrow> nat \<Rightarrow> int \<Rightarrow> receive_warning list \<Rightarrow> receive_warning list" where
  "log_receive_error err attempt delay warned =
     warned @ [\<lparr>rw_message = ''reading from the queue failed, backing off'', rw_attempt = attempt,
             rw_retry_in = delay, rw_error = error_text err\<rparr>]"

definition on_receive_error ::
  "(goerr \<Rightarrow> nat \<Rightarrow> int \<Rightarrow> 'l \<Rightarrow> 'l) option \<Rightarrow> goerr \<Rightarrow> nat \<Rightarrow> int \<Rightarrow> 'l \<Rightarrow> 'l" where
  "on_receive_error handler err attempt delay l =
     (case handler of Some h \<Rightarrow> h err attempt delay l | None \<Rightarrow> l)"

text \<open>
  \<open>cwd\<close> and \<open>mkdir\<close> are the file system's answers. \<open>None\<close> is the panic of a channel too large to
  make.
\<close>

definition open_memory ::
  "string res \<Rightarrow> (string \<Rightarrow> goerr option) \<Rightarrow> adapters_config \<Rightarrow> adapter_set res option" where
  "open_memory cwd mkdir cfg =
     (case local_new cwd mkdir (adc_storage_dir cfg) of
        Inl e \<Rightarrow> Some (Inl (EWrap ''adapters: storage: '' e []))
      | Inr base \<Rightarrow>
     (case mq_make (adc_queue_buffer cfg) of
        None \<Rightarrow> None
      | Some queue \<Rightarrow>
          Some (Inr \<lparr>as_name = BackendMemory,
                     as_description = ''filesystem store at '' @ base @ '', in-memory queue and repository'',
                     as_adapters = InProcess base queue memrepo_new\<rparr>)))"

definition open_aws ::
  "('c, 'w) aws_sdk \<Rightarrow> environ \<Rightarrow> ctx \<Rightarrow> 'w \<Rightarrow> adapter_set res \<times> 'w" where
  "open_aws sdk en c w =
     (let s = settings_from_env en; fail = (\<lambda>e w. (Inl (EWrap ''adapters: '' e []), w)) in
      case settings_validate s of Some e \<Rightarrow> fail e w | None \<Rightarrow>
     (case load_aws sdk en s of Inl e \<Rightarrow> fail e w | Inr cfg \<Rightarrow>
     (case s3_new (Some (sdk_s3 sdk cfg (s3_client_options s))) (se_bucket s) [] of
        Inl e \<Rightarrow> fail e w
      | Inr st \<Rightarrow>
     (case sqs_new (Some (sdk_sqs sdk cfg (sqs_client_options s))) c (se_queue s)
             [WithReceiveErrorHandler True] w of
        (Inl e, w) \<Rightarrow> fail e w
      | (Inr q, w) \<Rightarrow>
     (case dyn_new (Some (sdk_dynamo sdk cfg (dynamo_client_options s))) (se_table s) of
        Inl e \<Rightarrow> fail e w
      | Inr table \<Rightarrow>
          (let endpoint = (if se_endpoint s = [] then ''aws'' else se_endpoint s) in
           (Inr \<lparr>as_name = BackendAWS,
                 as_description = endpoint @ '': bucket='' @ se_bucket s @ '' queue='' @ queueURL q @
                   '' table='' @ se_table s @ '' region='' @ se_region s,
                 as_adapters = Cloud st q table\<rparr>, w)))))))"

definition open_backend ::
  "string res \<Rightarrow> (string \<Rightarrow> goerr option) \<Rightarrow> ('c, 'w) aws_sdk \<Rightarrow> environ \<Rightarrow> ctx \<Rightarrow> string \<Rightarrow>
   adapters_config \<Rightarrow> 'w \<Rightarrow> adapter_set res option \<times> 'w" where
  "open_backend cwd mkdir sdk en c name cfg w =
     (if name = BackendMemory \<or> name = [] then (open_memory cwd mkdir cfg, w)
      else if name = BackendAWS then (case open_aws sdk en c w of (r, w) \<Rightarrow> (Some r, w))
      else (Some (Inl (EWrap ''adapters: '' ErrUnknownBackend
                   ('': '' @ quote name @ '' (want '' @ quote BackendMemory @ '' or '' @
                    quote BackendAWS @ '')''))), w))"

section \<open>cmd/api: settings\<close>

text \<open>An empty value is a value here.\<close>

definition api_env_string :: "environ \<Rightarrow> string \<Rightarrow> string \<Rightarrow> string" where
  "api_env_string en key fallback = (case en key of Some v \<Rightarrow> v | None \<Rightarrow> fallback)"

definition api_env_int64 :: "environ \<Rightarrow> string \<Rightarrow> int \<Rightarrow> int" where
  "api_env_int64 en key fallback =
     (case en key of
        None \<Rightarrow> fallback
      | Some raw \<Rightarrow> (case parse_int raw of None \<Rightarrow> fallback | Some v \<Rightarrow> v))"

definition api_env_log_level :: "environ \<Rightarrow> string \<Rightarrow> int \<Rightarrow> int" where
  "api_env_log_level en key fallback =
     (case en key of
        None \<Rightarrow> fallback
      | Some raw \<Rightarrow> (case parse_level raw of None \<Rightarrow> fallback | Some l \<Rightarrow> l))"

definition api_env_duration :: "environ \<Rightarrow> string \<Rightarrow> int \<Rightarrow> int" where
  "api_env_duration en key fallback =
     (case en key of
        None \<Rightarrow> fallback
      | Some raw \<Rightarrow> (case parse_duration raw of None \<Rightarrow> fallback | Some d \<Rightarrow> d))"

record api_settings =
  as_backend :: string
  as_signing_key :: string
  as_client_secret :: string
  as_token_ttl :: int
  as_rate_limit :: rat
  as_rate_burst :: int
  as_addr :: string
  as_storage_dir :: string
  as_base_url :: string
  as_origins :: "string list"
  as_max_upload :: int
  as_queue_buffer :: int
  as_log_level :: int

definition cors_origins :: "string \<Rightarrow> string list" where
  "cors_origins origins =
     (if origins = [] then []
      else filter (\<lambda>s. s \<noteq> []) (map trim_space (split_on CHR '','' origins)))"

definition api_load_config :: "environ \<Rightarrow> api_settings" where
  "api_load_config en =
     \<lparr>as_backend = backend_from_env en,
      as_signing_key = api_env_string en ''IMAGEFORGE_JWT_KEY'' [],
      as_client_secret = api_env_string en ''IMAGEFORGE_CLIENT_SECRET'' [],
      as_token_ttl = api_env_duration en ''IMAGEFORGE_TOKEN_TTL'' DefaultTokenTTL,
      as_rate_limit = of_int (f64_of_int (api_env_int64 en ''IMAGEFORGE_RATE_LIMIT'' 5)),
      as_rate_burst = api_env_int64 en ''IMAGEFORGE_RATE_BURST'' DefaultRateBurst,
      as_addr = api_env_string en ''IMAGEFORGE_ADDR'' '':8080'',
      as_storage_dir = api_env_string en ''IMAGEFORGE_STORAGE_DIR'' ''.data/storage'',
      as_base_url = api_env_string en ''IMAGEFORGE_PUBLIC_BASE_URL'' [],
      as_origins = cors_origins (api_env_string en ''IMAGEFORGE_CORS_ORIGINS'' ''*''),
      as_max_upload = api_env_int64 en ''IMAGEFORGE_MAX_UPLOAD_BYTES'' DefaultMaxUploadBytes,
      as_queue_buffer = api_env_int64 en ''IMAGEFORGE_QUEUE_BUFFER'' DefaultBuffer,
      as_log_level = api_env_log_level en ''IMAGEFORGE_LOG_LEVEL'' LevelInfo\<rparr>"

text \<open>\<open>GenerateKey\<close> from what \<open>rand.Read\<close> gave it.\<close>

definition generate_key :: "string res \<Rightarrow> string res" where
  "generate_key buf =
     (case buf of Inl e \<Rightarrow> Inl (EWrap ''generate signing key: '' e []) | Inr key \<Rightarrow> Inr key)"

definition new_issuer_from :: "string res \<Rightarrow> api_settings \<Rightarrow> token_issuer res" where
  "new_issuer_from buf cfg =
     (case (if as_signing_key cfg \<noteq> [] then parse_key (as_signing_key cfg) else generate_key buf) of
        Inl e \<Rightarrow> Inl (EWrap ''auth: '' e [])
      | Inr key \<Rightarrow>
          (case new_issuer key [WithTokenTTL (as_token_ttl cfg), WithClientSecret (as_client_secret cfg)] of
             Inl e \<Rightarrow> Inl (EWrap ''auth: '' e [])
           | Inr issuer \<Rightarrow> Inr issuer))"

definition api_config_of :: "api_settings \<Rightarrow> api_config" where
  "api_config_of cfg =
     \<lparr>ac_max_upload = as_max_upload cfg, ac_origins = as_origins cfg, ac_base_url = as_base_url cfg,
      ac_rate_limit = as_rate_limit cfg, ac_rate_burst = as_rate_burst cfg\<rparr>"

section \<open>cmd/worker: settings\<close>

definition worker_env_string :: "environ \<Rightarrow> string \<Rightarrow> string \<Rightarrow> string" where
  "worker_env_string en key fallback =
     (case en key of Some v \<Rightarrow> if trim_space v \<noteq> [] then v else fallback | None \<Rightarrow> fallback)"

definition worker_env_int64 :: "environ \<Rightarrow> string \<Rightarrow> int \<Rightarrow> int" where
  "worker_env_int64 en key fallback =
     (case en key of
        None \<Rightarrow> fallback
      | Some raw \<Rightarrow> (case parse_int raw of None \<Rightarrow> fallback | Some v \<Rightarrow> v))"

definition worker_env_duration :: "environ \<Rightarrow> string \<Rightarrow> int \<Rightarrow> int" where
  "worker_env_duration en key fallback =
     (case en key of
        None \<Rightarrow> fallback
      | Some raw \<Rightarrow> (case parse_duration raw of None \<Rightarrow> fallback | Some d \<Rightarrow> d))"

definition worker_env_log_level :: "environ \<Rightarrow> string \<Rightarrow> int \<Rightarrow> int" where
  "worker_env_log_level en key fallback =
     (case en key of
        None \<Rightarrow> fallback
      | Some raw \<Rightarrow> (case parse_level raw of None \<Rightarrow> fallback | Some l \<Rightarrow> l))"

record worker_settings =
  ws_backend :: string
  ws_metrics_addr :: string
  ws_depth_interval :: int
  ws_storage_dir :: string
  ws_watermark_text :: string
  ws_pool_size :: int
  ws_queue_buffer :: int
  ws_shutdown_timeout :: int
  ws_job_timeout :: int
  ws_seed_spec :: transformation_spec
  ws_log_level :: int

definition worker_load_config :: "environ \<Rightarrow> worker_settings" where
  "worker_load_config en =
     \<lparr>ws_backend = backend_from_env en,
      ws_metrics_addr = worker_env_string en ''IMAGEFORGE_METRICS_ADDR'' '':9090'',
      ws_depth_interval = worker_env_duration en ''IMAGEFORGE_QUEUE_DEPTH_INTERVAL'' DefaultDepthInterval,
      ws_storage_dir = worker_env_string en ''IMAGEFORGE_STORAGE_DIR'' ''.data/storage'',
      ws_watermark_text = worker_env_string en ''IMAGEFORGE_WATERMARK_TEXT'' DefaultWatermarkText,
      ws_pool_size = worker_env_int64 en ''IMAGEFORGE_WORKERS'' DefaultSize,
      ws_queue_buffer = worker_env_int64 en ''IMAGEFORGE_QUEUE_BUFFER'' DefaultBuffer,
      ws_shutdown_timeout = worker_env_duration en ''IMAGEFORGE_SHUTDOWN_TIMEOUT'' DefaultShutdownTimeout,
      ws_job_timeout = worker_env_duration en ''IMAGEFORGE_JOB_TIMEOUT'' DefaultJobTimeout,
      ws_seed_spec =
        \<lparr>Width = worker_env_int64 en ''IMAGEFORGE_SEED_WIDTH'' 640, Height = 0,
         Format = worker_env_string en ''IMAGEFORGE_SEED_FORMAT'' FormatJPEG,
         Quality = worker_env_int64 en ''IMAGEFORGE_SEED_QUALITY'' 80, Watermark = False, StripMetadata = True\<rparr>,
      ws_log_level = worker_env_log_level en ''IMAGEFORGE_LOG_LEVEL'' LevelInfo\<rparr>"

definition worker_pool :: "'w process_job \<Rightarrow> 'w acker_port option \<Rightarrow> worker_settings \<Rightarrow> 'w pool" where
  "worker_pool process acker cfg =
     new_pool process acker
       [WithSize (ws_pool_size cfg), WithShutdownTimeout (ws_shutdown_timeout cfg),
        WithJobTimeout (ws_job_timeout cfg)]"

text \<open>
  \<open>seed\<close>: the images named on the command line, each opened (\<open>os.Open\<close> is a parameter), submitted
  and closed, up to the first failure. The list is that of the jobs submitted.
\<close>

fun seed ::
  "(string \<Rightarrow> reader res) \<Rightarrow> 'w create_job \<Rightarrow> ctx \<Rightarrow> transformation_spec \<Rightarrow> string list \<Rightarrow> 'w \<Rightarrow>
   (goerr option \<times> job list) \<times> 'w" where
  "seed open_file uc c sp [] w = ((None, []), w)"
| "seed open_file uc c sp (path # paths) w =
     (case open_file path of
        Inl e \<Rightarrow> ((Some (EWrap (''seed '' @ quote path @ '': '') e []), []), w)
      | Inr file \<Rightarrow>
          (case create_job_execute uc c (Some file) sp w of
             (Inl e, w') \<Rightarrow> ((Some (EWrap (''seed '' @ quote path @ '': '') e []), []), w')
           | (Inr job, w') \<Rightarrow>
               (case seed open_file uc c sp paths w' of ((err, jobs), w'') \<Rightarrow> ((err, job # jobs), w''))))"

section \<open>Lemmas\<close>

lemma strip_first_prefix: "strip_first ps (s @ t) = None \<Longrightarrow> strip_first ps s = None"
  by (induction ps) (auto split: if_splits dest: has_prefix_append2)

lemma strip_first_suffix: "strip_first ps s = Some t \<Longrightarrow> \<exists>u. s = u @ t"
  by (induction ps) (auto split: if_splits simp: has_prefix_iff)

lemma trim_left_of_done: "strip_first ps (trim_left_of ps s) = None \<and> (\<exists>u. s = u @ trim_left_of ps s)"
proof (induction ps s rule: trim_left_of.induct)
  case (1 ps s)
  show ?case
  proof (cases "strip_first ps s")
    case None
    then show ?thesis by (simp add: trim_left_of.simps)
  next
    case (Some t)
    obtain u v where "s = u @ t" "t = v @ trim_left_of ps t" "strip_first ps (trim_left_of ps t) = None"
      using 1 [OF Some] strip_first_suffix [OF Some] by blast
    moreover have "trim_left_of ps s = trim_left_of ps t" using Some by (simp add: trim_left_of.simps [of ps s])
    ultimately show ?thesis by (metis append_assoc)
  qed
qed

lemma trim_space_idem [simp]: "trim_space (trim_space s) = trim_space s"
proof -
  define a where "a = trim_left_of space_encodings s"
  define b where "b = trim_left_of (map rev space_encodings) (rev a)"
  obtain u where "rev a = u @ b" using trim_left_of_done [of "map rev space_encodings" "rev a"] b_def by auto
  then have "a = rev b @ rev u" by (metis rev_append rev_rev_ident)
  moreover have "strip_first space_encodings a = None" using trim_left_of_done a_def by simp
  ultimately have "strip_first space_encodings (rev b) = None" by (metis strip_first_prefix)
  moreover have "strip_first (map rev space_encodings) b = None" using trim_left_of_done b_def by simp
  ultimately have "trim_space (rev b) = rev b" by (simp add: trim_space_def trim_left_of.simps)
  moreover have "trim_space s = rev b" by (simp add: trim_space_def a_def b_def)
  ultimately show ?thesis by simp
qed

lemma aws_env_not_blank: "trim_space fallback \<noteq> [] \<Longrightarrow> trim_space (aws_env en key fallback) \<noteq> []"
  by (simp add: aws_env_def split: option.splits)

lemma api_env_int64_range: "in_i64 fallback \<Longrightarrow> in_i64 (api_env_int64 en key fallback)"
  by (auto simp: api_env_int64_def dest: parse_int_range split: option.splits)

lemma api_env_duration_range: "in_i64 fallback \<Longrightarrow> in_i64 (api_env_duration en key fallback)"
  by (auto simp: api_env_duration_def dest: parse_duration_range split: option.splits)

lemma f64_of_nat_pos: "0 < n \<Longrightarrow> 0 < f64_of_nat n"
proof -
  assume n: "0 < n"
  have "2 ^ (bit_count n - 53) \<le> n"
    using bit_count_bounds [OF n] by (metis diff_le_mono2 le_trans one_le_numeral power_increasing)
  then have "0 < n div 2 ^ (bit_count n - 53)" by (simp add: div_greater_zero_iff)
  with n show ?thesis by (auto simp: f64_of_nat_def Let_def)
qed

lemma f64_of_int_sign [simp]: "0 < f64_of_int x \<longleftrightarrow> 0 < x" "f64_of_int x = 0 \<longleftrightarrow> x = 0"
proof -
  have "f64_of_nat 0 = 0" by (simp add: f64_of_nat_def)
  then show "0 < f64_of_int x \<longleftrightarrow> 0 < x" "f64_of_int x = 0 \<longleftrightarrow> x = 0"
    using f64_of_nat_pos [of "nat x"] f64_of_nat_pos [of "nat (- x)"]
    by (cases "x = 0"; auto simp: f64_of_int_def)+
qed

lemma api_new_bounds:
  assumes "api_new cfg = (cfg', l)"
  shows "0 < ac_max_upload cfg'" "ac_origins cfg' \<noteq> []"
    "limiter_enabled l \<Longrightarrow> 0 < rl_limit l \<and> 0 < rl_burst l"
  using assms
  by (auto simp: api_new_def api_defaults_def new_rate_limiter_def limiter_enabled_def Let_def
      DefaultMaxUploadBytes_def DefaultRateLimit_def DefaultRateBurst_def split: if_splits)

lemma new_pool_shutdown: "0 < p_shutdownTimeout (new_pool process acker opts)"
  for process :: "'w process_job"
proof -
  have "0 < p_shutdownTimeout p \<Longrightarrow> 0 < p_shutdownTimeout (foldl (\<lambda>p opt. apply_pool_option opt p) p opts)"
    for p :: "'w pool"
  proof (induction opts arbitrary: p)
    case (Cons opt opts)
    then show ?case by (cases opt) simp_all
  qed simp
  then show ?thesis by (simp add: new_pool_def DefaultShutdownTimeout_def)
qed

lemma mem_keeps_queue:
  "Put (mem_storage env) c k d w = (x, w') \<Longrightarrow> w_queue w' = w_queue w"
  "Save (mem_jobs env) c j w = (x, w') \<Longrightarrow> w_queue w' = w_queue w"
  "mem_new_id env w = (i, w') \<Longrightarrow> w_queue w' = w_queue w"
  "mem_now env w = (t, w') \<Longrightarrow> w_queue w' = w_queue w"
  by (auto simp: mem_storage_def mem_jobs_def mem_new_id_def mem_now_def split: prod.splits)

lemma mem_enqueue_accepts:
  assumes "Enqueue (mem_enqueue env) c i w = (None, w')"
  shows "\<exists>m. length (mq_buf (w_queue w)) < mq_cap (w_queue w) \<and>
    w_queue w' = (w_queue w)\<lparr>mq_buf := mq_buf (w_queue w) @ [\<lparr>JobID = i, Meta = m\<rparr>]\<rparr>"
  using assms by (auto simp: mem_enqueue_def mq_enqueue_ok split: option.splits prod.splits)

lemma mem_create_queue:
  assumes "create_job_execute (mem_create env) c (Some src) sp w = (Inr j, w')"
  shows "\<exists>m. length (mq_buf (w_queue w)) < mq_cap (w_queue w) \<and>
    w_queue w' = (w_queue w)\<lparr>mq_buf := mq_buf (w_queue w) @ [\<lparr>JobID = ID j, Meta = m\<rparr>]\<rparr> \<and> Status j = StatusPending"
proof -
  from assms obtain i w1 w2 t w3 w4 where
    "mem_new_id env w = (i, w1)" "Put (mem_storage env) c (original_key i) (Some src) w1 = (None, w2)"
    "mem_now env w2 = (t, w3)" "Save (mem_jobs env) c (Some (created_job i sp t)) w3 = (None, w4)"
    and e: "Enqueue (mem_enqueue env) c i w4 = (None, w')" and j: "j = created_job i sp t"
    by (auto simp: create_job_execute_def mem_create_def new_create_job_def Let_def
        split: option.splits prod.splits)
  then have "w_queue w4 = w_queue w" by (simp add: mem_keeps_queue)
  with mem_enqueue_accepts [OF e] j show ?thesis by (auto simp: created_job_def)
qed

text \<open>The queue the AWS backend builds reports every failed receive, with sane limits.\<close>

lemma open_aws_queue:
  assumes "open_aws sdk en c w = (Inr built, w')"
  shows "\<exists>st q t. as_adapters built = Cloud st q t \<and> onReceiveError q \<and> sqs_limits q \<and> receipts q = Map.empty"
proof -
  have sets: "onReceiveError (foldl (\<lambda>q opt. apply_sqs_option opt q) (default_queue u) [WithReceiveErrorHandler True]) \<and>
    sqs_limits (foldl (\<lambda>q opt. apply_sqs_option opt q) (default_queue u) [WithReceiveErrorHandler True]) \<and>
    receipts (foldl (\<lambda>q opt. apply_sqs_option opt q) (default_queue u) [WithReceiveErrorHandler True]) = Map.empty" for u
    using options_limits [OF default_queue_limits, of u "[WithReceiveErrorHandler True]"]
    by (simp add: with_receive_error_handler_def default_queue_def)
  have "onReceiveError q \<and> sqs_limits q \<and> receipts q = Map.empty"
    if "sqs_new client c name [WithReceiveErrorHandler True] w = (Inr q, w1)" for client name q w1
    using that sets unfolding sqs_new_def Let_def by (auto split: option.splits sum.splits prod.splits if_splits)
  with assms show ?thesis
    unfolding open_aws_def Let_def by (auto split: option.splits sum.splits prod.splits)
qed

text \<open>
  With the handler that writes warnings, the log of a consumer's reports has a line for each, in
  order; with nil in its place, none.
\<close>

lemma receive_log_complete:
  "foldl (\<lambda>l (e, n, d). on_receive_error (Some log_receive_error) e n d l) warned reports =
     warned @ map (\<lambda>(e, n, d). \<lparr>rw_message = ''reading from the queue failed, backing off'', rw_attempt = n,
                             rw_retry_in = d, rw_error = error_text e\<rparr>) reports"
  "foldl (\<lambda>l (e, n, d). on_receive_error None e n d l) warned reports = warned"
  by (induction reports arbitrary: warned) (auto simp: on_receive_error_def log_receive_error_def)

lemma to_lower_blank [simp]: "to_lower s = [] \<longleftrightarrow> s = []"
  by (simp add: to_lower_def)

lemma backend_from_env_not_blank: "backend_from_env en \<noteq> []"
  by (simp add: backend_from_env_def BackendMemory_def split: option.split)

lemma open_aws_name:
  assumes "fst (open_aws sdk en c w) = Inr opened"
  shows "as_name opened = BackendAWS \<and> (\<exists>st q t. as_adapters opened = Cloud st q t)"
  using assms unfolding open_aws_def Let_def by (auto split: option.splits sum.splits prod.splits)

lemma open_backend_outcomes:
  assumes "name \<noteq> []"
  shows "(case fst (open_backend cwd mkdir sdk en c name cfg w) of
       None \<Rightarrow> True
     | Some (Inr opened) \<Rightarrow> as_name opened = name \<and> name \<in> {BackendMemory, BackendAWS} \<and>
         (case as_adapters opened of
            InProcess base q jobs \<Rightarrow> name = BackendMemory \<and> mq_buf q = [] \<and> 0 < mq_cap q \<and>
              local_new cwd mkdir (adc_storage_dir cfg) = Inr base \<and> jobs = Map.empty
          | Cloud st q table \<Rightarrow> name = BackendAWS)
     | Some (Inl e) \<Rightarrow>
         (if name = BackendMemory then \<not> res_ok (local_new cwd mkdir (adc_storage_dir cfg))
          else name = BackendAWS \<or> errors_is e ErrUnknownBackend)) \<and>
    (fst (open_backend cwd mkdir sdk en c name cfg w) = None \<longleftrightarrow>
       name = BackendMemory \<and> res_ok (local_new cwd mkdir (adc_storage_dir cfg)) \<and>
       max_deliveries < adc_queue_buffer cfg)"
proof -
  consider (memory) "name = BackendMemory" | (aws) "name = BackendAWS" "name \<noteq> BackendMemory"
    | (other) "name \<noteq> BackendMemory" "name \<noteq> BackendAWS" by blast
  then show ?thesis
  proof cases
    case memory
    show ?thesis
    proof (cases "local_new cwd mkdir (adc_storage_dir cfg)")
      case (Inl e)
      with memory show ?thesis by (simp add: open_backend_def open_memory_def res_ok_def)
    next
      case (Inr base)
      with memory show ?thesis
        using mq_make_cases(1) [of "adc_queue_buffer cfg"] mq_make_cases(2) [of "adc_queue_buffer cfg"]
        by (cases "mq_make (adc_queue_buffer cfg)")
          (auto simp: open_backend_def open_memory_def res_ok_def mq_new_def memrepo_new_def Let_def)
    qed
  next
    case aws
    obtain r w' where run: "open_aws sdk en c w = (r, w')" by fastforce
    show ?thesis
    proof (cases r)
      case (Inl e)
      with aws assms run show ?thesis by (simp add: open_backend_def)
    next
      case (Inr opened)
      with open_aws_name [of sdk en c w opened] aws assms run show ?thesis by (auto simp: open_backend_def)
    qed
  next
    case other
    with assms show ?thesis by (simp add: open_backend_def go_errors)
  qed
qed

section \<open>Properties\<close>

text \<open>
  The AWS settings are complete whatever the environment holds: no resource name is ever
  blank, so \<open>Validate\<close> has nothing to report, and with no endpoint override the clients are
  pointed at AWS itself and never given the placeholder credentials.
\<close>

theorem aws_settings_complete:
  "settings_validate (settings_from_env en) = None \<and>
   (let s = settings_from_env en in
    if uses_localstack s then co_endpoint (s3_client_options s) = Some (se_endpoint s) \<and>
      co_endpoint (sqs_client_options s) = Some (se_endpoint s) \<and>
      co_endpoint (dynamo_client_options s) = Some (se_endpoint s)
    else snd (load_options en s) = None \<and> co_endpoint (s3_client_options s) = None \<and>
      co_endpoint (sqs_client_options s) = None \<and> co_endpoint (dynamo_client_options s) = None)"
proof -
  have "trim_space DefaultRegion \<noteq> []" "trim_space DefaultBucket \<noteq> []" "trim_space DefaultQueue \<noteq> []"
    "trim_space DefaultTable \<noteq> []"
    by code_simp+
  then show ?thesis
    by (simp add: settings_validate_def settings_from_env_def aws_env_not_blank Let_def load_options_def
        s3_client_options_def sqs_client_options_def dynamo_client_options_def)
qed

text \<open>
  C38: what the API makes of any environment. Whatever the variables hold, numbers and durations
  included, the upload limit is positive, there is an allowed origin, and a limiter that is on has
  a positive rate and burst. Given 32 random bytes the token issuer has a key of 32 bytes or more
  and a positive lifetime within 64 bits, or there is none because a signing key was given that is
  no hex or too short. The backend that is opened is the one named, in process with an empty queue
  of positive room; a name that is neither of the two is refused as \<open>ErrUnknownBackend\<close>; and the
  process panics exactly when the backend is the in-process one, its storage directory could be
  made and the queue's buffer is larger than a channel can be. (Whether the address can be
  listened on is not settled here.)
\<close>

theorem api_settings_usable:
  assumes "length seed_bytes = 32"
  shows "(let cfg = api_load_config en; (ac, l :: 'l rate_limiter) = api_new (api_config_of cfg) in
    0 < ac_max_upload ac \<and> ac_origins ac \<noteq> [] \<and>
    (if limiter_enabled l then 0 < rl_limit l \<and> 0 < rl_burst l else True) \<and>
    (case new_issuer_from (Inr seed_bytes) cfg of
       Inr i \<Rightarrow> 32 \<le> length (ti_key i) \<and> 0 < ti_ttl i \<and> in_i64 (ti_ttl i) \<and> ti_secret i = as_client_secret cfg
     | Inl e \<Rightarrow> as_signing_key cfg \<noteq> [] \<and> errors_is e ErrNoSigningKey) \<and>
    (case fst (open_backend cwd mkdir sdk en c (as_backend cfg)
                 \<lparr>adc_storage_dir = as_storage_dir cfg, adc_queue_buffer = as_queue_buffer cfg\<rparr> w) of
       None \<Rightarrow> True
     | Some (Inr opened) \<Rightarrow> as_name opened = as_backend cfg \<and> as_backend cfg \<in> {BackendMemory, BackendAWS} \<and>
         (case as_adapters opened of
            InProcess base q jobs \<Rightarrow> as_backend cfg = BackendMemory \<and> mq_buf q = [] \<and> 0 < mq_cap q \<and>
              local_new cwd mkdir (as_storage_dir cfg) = Inr base \<and> jobs = Map.empty
          | Cloud st q table \<Rightarrow> as_backend cfg = BackendAWS)
     | Some (Inl e) \<Rightarrow>
         (if as_backend cfg = BackendMemory then \<not> res_ok (local_new cwd mkdir (as_storage_dir cfg))
          else as_backend cfg = BackendAWS \<or> errors_is e ErrUnknownBackend)) \<and>
    (fst (open_backend cwd mkdir sdk en c (as_backend cfg)
            \<lparr>adc_storage_dir = as_storage_dir cfg, adc_queue_buffer = as_queue_buffer cfg\<rparr> w) = None \<longleftrightarrow>
       as_backend cfg = BackendMemory \<and> res_ok (local_new cwd mkdir (as_storage_dir cfg)) \<and>
       max_deliveries < as_queue_buffer cfg))"
proof -
  define cfg where "cfg = api_load_config en"
  obtain ac l where n: "api_new (api_config_of cfg) = (ac, l :: 'l rate_limiter)" by fastforce
  have "0 < DefaultTokenTTL" "in_i64 DefaultTokenTTL" by (simp_all add: DefaultTokenTTL_def in_i64_def)
  moreover from this(2) have "in_i64 (as_token_ttl cfg)"
    by (simp add: cfg_def api_load_config_def api_env_duration_range)
  ultimately have "case new_issuer_from (Inr seed_bytes) cfg of
       Inr i \<Rightarrow> 32 \<le> length (ti_key i) \<and> 0 < ti_ttl i \<and> in_i64 (ti_ttl i) \<and> ti_secret i = as_client_secret cfg
     | Inl e \<Rightarrow> as_signing_key cfg \<noteq> [] \<and> errors_is e ErrNoSigningKey"
    using assms
    by (auto simp: new_issuer_from_def generate_key_def new_issuer_def parse_key_def go_errors
        split: sum.splits if_splits)
  moreover have "as_backend cfg \<noteq> []"
    by (simp add: cfg_def api_load_config_def backend_from_env_not_blank)
  note open_backend_outcomes [OF this, of cwd mkdir
      "\<lparr>adc_storage_dir = as_storage_dir cfg, adc_queue_buffer = as_queue_buffer cfg\<rparr>" sdk en c w,
      unfolded adapters_config.select_convs]
  ultimately show ?thesis
    using api_new_bounds [OF n] unfolding cfg_def [symmetric] Let_def n prod.case by simp
qed

theorem api_settings_usable_witness:
  "0 < ac_max_upload (fst (api_new (api_config_of (api_load_config [''IMAGEFORGE_MAX_UPLOAD_BYTES'' \<mapsto> ''-1'']))
     :: api_config \<times> unit rate_limiter))"
proof -
  obtain ac l where n: "(api_new (api_config_of (api_load_config [''IMAGEFORGE_MAX_UPLOAD_BYTES'' \<mapsto> ''-1'']))
      :: api_config \<times> unit rate_limiter) = (ac, l)" by fastforce
  have "length (replicate 32 CHR ''k'') = 32" by simp
  from api_settings_usable [where ?'l = unit, OF this, of "[''IMAGEFORGE_MAX_UPLOAD_BYTES'' \<mapsto> ''-1'']"]
  show ?thesis unfolding Let_def n prod.case fst_conv by (rule conjunct1)
qed

text \<open>
  Nor the worker: the pool has workers, a bound on its shutdown and a queue with room
  whatever the environment holds, and with nothing set it runs in process and the seeding
  specification is valid.
\<close>

theorem worker_settings_usable:
  "0 < p_size (worker_pool process acker (worker_load_config en)) \<and>
   0 < p_shutdownTimeout (worker_pool process acker (worker_load_config en)) \<and>
   0 < mq_cap (mq_new (ws_queue_buffer (worker_load_config en))) \<and>
   ws_backend (worker_load_config Map.empty) = BackendMemory \<and>
   spec_ok (ws_seed_spec (worker_load_config Map.empty))"
  unfolding worker_pool_def
  by (simp add: new_pool_size new_pool_shutdown mq_new_room)
     (simp add: worker_load_config_def worker_env_string_def worker_env_int64_def backend_from_env_def
       spec_ok_def dimensions_ok_def quality_ok_def MaxDimension_def format_valid_def FormatJPEG_def FormatPNG_def)

text \<open>
  Seeding holds only what fits. The worker submits the images named on its command line
  before its pool takes anything off the queue, so on the in-process backend seeding succeeds
  only when all of them fit in the room the queue has left; then each is queued, in the order
  of the command line, as a pending job.
\<close>

theorem seed_needs_room:
  assumes "seed open_file (mem_create env) c sp paths w = ((None, jobs), w')"
    and "length (mq_buf (w_queue w)) \<le> mq_cap (w_queue w)"
  shows "length jobs = length paths \<and> list_all (\<lambda>j. Status j = StatusPending) jobs \<and>
    map JobID (mq_buf (w_queue w')) = map JobID (mq_buf (w_queue w)) @ map ID jobs \<and>
    length (mq_buf (w_queue w)) + length paths \<le> mq_cap (w_queue w)"
  using assms
proof (induction paths arbitrary: w jobs)
  case (Cons path paths)
  from Cons.prems(1) obtain src j w1 js where
    c: "create_job_execute (mem_create env) c (Some src) sp w = (Inr j, w1)"
    and r: "seed open_file (mem_create env) c sp paths w1 = ((None, js), w')" and jobs: "jobs = j # js"
    by (auto split: sum.splits prod.splits)
  from mem_create_queue [OF c] obtain m where q: "length (mq_buf (w_queue w)) < mq_cap (w_queue w)"
    "w_queue w1 = (w_queue w)\<lparr>mq_buf := mq_buf (w_queue w) @ [\<lparr>JobID = ID j, Meta = m\<rparr>]\<rparr>"
    "Status j = StatusPending" by auto
  from Cons.IH [OF r] q jobs show ?case by auto
qed simp

theorem seed_needs_room_witness:
  "\<exists>jobs w'. seed (\<lambda>p. Inr (Reader ''pixels'' None)) (mem_create ex_env) Background ex_spec [''a.png''] ex_world
     = ((None, jobs), w') \<and> length jobs = 1"
proof -
  obtain j where "fst (create_job_execute (mem_create ex_env) Background (Some (Reader ''pixels'' None)) ex_spec ex_world)
      = Inr j" using ex_create_runs by (rule res_okE)
  then obtain w' where "create_job_execute (mem_create ex_env) Background (Some (Reader ''pixels'' None)) ex_spec ex_world
      = (Inr j, w')" by (metis prod.collapse)
  then have s: "seed (\<lambda>p. Inr (Reader ''pixels'' None)) (mem_create ex_env) Background ex_spec [''a.png''] ex_world
     = ((None, [j]), w')" by simp
  have "length (mq_buf (w_queue ex_world)) \<le> mq_cap (w_queue ex_world)"
    by (simp add: ex_world_def mq_new_def Let_def)
  from seed_needs_room [OF s this] s show ?thesis by simp
qed

text \<open>
  A configured signing key outlives the process. Two processes started with the same
  \<open>IMAGEFORGE_JWT_KEY\<close>, at any times and with whatever other settings, accept each other's
  tokens for as long as they last.
\<close>

lemma configured_key_shared:
  assumes "jwt_ok lib sg" "ascii client" "k \<noteq> []"
    and "en ''IMAGEFORGE_JWT_KEY'' = Some k" "en' ''IMAGEFORGE_JWT_KEY'' = Some k"
    and "new_issuer_from buf (api_load_config en) = Inr i" "new_issuer_from buf' (api_load_config en') = Inr j"
    and "issue_token lib i issued client = Inr s"
    and "issued \<le> now" "now < numeric_date (issued + ti_ttl i)"
  shows "verify_token lib j now s = Inr client"
proof -
  have key: "new_issuer_from b (api_load_config e) = Inr x \<Longrightarrow> e ''IMAGEFORGE_JWT_KEY'' = Some k \<Longrightarrow> parse_key k = Inr (ti_key x)"
    for b e x
    using assms(3) by (auto simp: new_issuer_from_def api_load_config_def api_env_string_def new_issuer_def
        split: sum.splits if_splits)
  from key [OF assms(6,4)] key [OF assms(7,5)] have "ti_key j = ti_key i" by simp
  from issued_token_verifies [OF assms(1,2,8) this, of now client] assms(9,10) numeric_date_bounds [of issued]
  show ?thesis by (simp add: clockSkew_def)
qed

end
