(* ===== verification/Healthcheck.thy ===== *)
theory Healthcheck
  imports Go_Base
begin

text \<open>
  \<open>internal/healthcheck\<close>: the probe a binary makes of itself. Building the request and making it
  are parameters; a response is its status code and text.
\<close>

definition Arg :: string where "Arg = ''healthcheck''"

definition requested :: "string list \<Rightarrow> bool" where
  "requested args \<longleftrightarrow> args \<noteq> [] \<and> hd args = Arg"

definition normalize_addr :: "string \<Rightarrow> string" where
  "normalize_addr addr =
     (let addr = trim_space addr in
      if addr = [] then ''127.0.0.1:8080''
      else if has_prefix addr '':'' then ''127.0.0.1'' @ addr
      else (case cut_at CHR '':'' addr of
              (host, port, found) \<Rightarrow>
                if found \<and> (host = [] \<or> host = ''0.0.0.0'' \<or> host = ''[::]'') then ''127.0.0.1:'' @ port
                else addr))"

definition health_run ::
  "(string \<Rightarrow> goerr option) \<Rightarrow> (string \<Rightarrow> (int \<times> string) res) \<Rightarrow> string \<Rightarrow> goerr option" where
  "health_run new_request do_request addr =
     (let url = ''http://'' @ normalize_addr addr @ ''/healthz'' in
      case new_request url of
        Some e \<Rightarrow> Some (EWrap (''healthcheck: build a request for '' @ url @ '': '') e [])
      | None \<Rightarrow>
          (case do_request url of
             Inl e \<Rightarrow> Some (EWrap (''healthcheck: '' @ url @ '': '') e [])
           | Inr (status, text) \<Rightarrow>
               if status < 200 \<or> status \<ge> 300
               then Some (EText (''healthcheck: '' @ url @ '' answered '' @ text)) else None))"

text \<open>\<open>Main\<close> ends the process: the exit code.\<close>

definition health_main ::
  "(string \<Rightarrow> goerr option) \<Rightarrow> (string \<Rightarrow> (int \<times> string) res) \<Rightarrow> string \<Rightarrow> int" where
  "health_main new_request do_request addr =
     (case health_run new_request do_request addr of Some e \<Rightarrow> 1 | None \<Rightarrow> 0)"

section \<open>Lemmas\<close>

lemma cut_at_first: "sep \<notin> set a \<Longrightarrow> cut_at sep (a @ sep # b) = (a, b, True)"
  by (induction a) auto

text \<open>
  The probe goes to the process's own listener over the loopback interface. For a listen
  address with no host, or with the IPv4 wildcard, and a numeric port, it asks
  \<open>127.0.0.1\<close> at that port for \<open>/healthz\<close>, and it exits with 0 exactly when the request could be
  made and the answer was a 2xx.
\<close>

theorem probe_dials_loopback:
  assumes "port \<noteq> []" "list_all plain_char port" "host = [] \<or> host = ''0.0.0.0''"
  shows "health_main new_request do_request (host @ '':'' @ port) = 0 \<longleftrightarrow>
    new_request (''http://127.0.0.1:'' @ port @ ''/healthz'') = None \<and>
    (\<exists>status text. do_request (''http://127.0.0.1:'' @ port @ ''/healthz'') = Inr (status, text) \<and>
       200 \<le> status \<and> status < 300)"
proof -
  let ?a = "host @ '':'' @ port" and ?url = "''http://127.0.0.1:'' @ port @ ''/healthz''"
  obtain p q where p: "port = p @ [q]" "plain_char q"
    using assms(1,2) by (metis append_butlast_last_id last_in_set list_all_iff)
  have "trim_space ?a = ?a"
  proof (rule trim_space_plain)
    show "plain_char (hd ?a)" using assms(3) by (auto simp: plain_char_def)
    show "?a = hd ?a # tl ?a" by (cases host) auto
    show "?a = (host @ '':'' @ p) @ [q]" "plain_char q" using p by simp_all
  qed
  with assms(3) cut_at_first [of "CHR '':''" "''0.0.0.0''" port]
  have "''http://'' @ normalize_addr ?a @ ''/healthz'' = ?url"
    by (auto simp: normalize_addr_def Let_def)
  then show ?thesis
    by (auto simp: health_main_def health_run_def Let_def split: option.splits sum.splits if_splits)
qed

theorem probe_dials_loopback_witness:
  "health_main (\<lambda>url. None) (\<lambda>url. if url = ''http://127.0.0.1:8080/healthz'' then Inr (200, ''200 OK'')
     else Inl (EText ''connection refused'')) '':8080'' = 0"
  using probe_dials_loopback [of "''8080''" "[]"] by (simp add: plain_char_def)

text \<open>The IPv6 wildcard is not recognised: the cut at the first colon never leaves its host.\<close>

lemma ipv6_wildcard_kept: "normalize_addr ''[::]:8080'' = ''[::]:8080''"
  by code_simp

end
