(* ===== verification/Pool_Metrics.thy ===== *)
theory Pool_Metrics
  imports Metrics
begin

text \<open>
  \<open>internal/worker/pool.go\<close> with its observer, statement by statement: between taking a delivery and
  waiting for the next, a worker runs the job, adds to a counter, calls the observer and settles the
  delivery, and everything else can happen in between. The collectors of
  \<open>internal/metrics/metrics.go\<close> are the observer, as \<open>cmd/worker/main.go\<close> installs them. The
  coarser pool of theory \<open>Worker\<close> is what one sees of it through the counters.
\<close>

section \<open>The pool and its observer\<close>

text \<open>
  Where a worker stands: in its \<open>select\<close>; in \<open>handle\<close>, with the job running, ended after some time,
  counted, or observed and not yet settled; or gone.
\<close>

datatype worker_phase =
    Selecting
  | Running delivery
  | Ran delivery "goerr option" int
  | Counted delivery string bool int
  | Observed delivery bool
  | Left

record observed_pool =
  op_workers :: "worker_phase list"
  op_done :: bool
  op_closed :: bool
  op_abandoned :: bool
  op_run :: run_state
  op_stats :: stats
  op_metrics :: metrics
  op_taken :: "delivery list"
  op_counted :: "(delivery \<times> string \<times> bool) list"
  op_settled :: "(delivery \<times> bool) list"

definition observed_start :: "'w pool \<Rightarrow> observed_pool" where
  "observed_start p =
     \<lparr>op_workers = replicate (nat (p_size p)) Selecting, op_done = False, op_closed = False,
      op_abandoned = False, op_run = Serving, op_stats = \<lparr>Processed = 0, Failed = 0, Skipped = 0\<rparr>,
      op_metrics = metrics_new, op_taken = [], op_counted = [], op_settled = []\<rparr>"

definition all_left :: "observed_pool \<Rightarrow> bool" where
  "all_left s \<longleftrightarrow> list_all (\<lambda>x. x = Left) (op_workers s)"

inductive observed_step :: "observed_pool \<Rightarrow> observed_pool \<Rightarrow> bool" where
  take: "k < length (op_workers s) \<Longrightarrow> op_workers s ! k = Selecting \<Longrightarrow> \<not> op_closed s \<Longrightarrow>
    observed_step s (s\<lparr>op_workers := (op_workers s)[k := Running d], op_taken := op_taken s @ [d]\<rparr>)"
| execute: "k < length (op_workers s) \<Longrightarrow> op_workers s ! k = Running d \<Longrightarrow>
    observed_step s (s\<lparr>op_workers := (op_workers s)[k := Ran d err elapsed]\<rparr>)"
| add: "k < length (op_workers s) \<Longrightarrow> op_workers s ! k = Ran d err elapsed \<Longrightarrow>
    record_outcome err (op_stats s) = (st, observed, acked) \<Longrightarrow>
    observed_step s (s\<lparr>op_workers := (op_workers s)[k := Counted d observed acked elapsed],
                       op_stats := st, op_counted := op_counted s @ [(d, observed, acked)]\<rparr>)"
| observe: "k < length (op_workers s) \<Longrightarrow> op_workers s ! k = Counted d observed acked elapsed \<Longrightarrow>
    observed_step s (s\<lparr>op_workers := (op_workers s)[k := Observed d acked],
                       op_metrics := job_finished observed elapsed (op_metrics s)\<rparr>)"
| settle: "k < length (op_workers s) \<Longrightarrow> op_workers s ! k = Observed d acked \<Longrightarrow>
    observed_step s (s\<lparr>op_workers := (op_workers s)[k := Selecting],
                       op_settled := op_settled s @ [(d, acked)]\<rparr>)"
| leave: "k < length (op_workers s) \<Longrightarrow> op_workers s ! k = Selecting \<Longrightarrow> op_done s \<or> op_closed s \<Longrightarrow>
    observed_step s (s\<lparr>op_workers := (op_workers s)[k := Left]\<rparr>)"
| cancel: "observed_step s (s\<lparr>op_done := True\<rparr>)"
| close: "observed_step s (s\<lparr>op_closed := True\<rparr>)"
| stopped: "op_run s = Serving \<Longrightarrow> all_left s \<Longrightarrow> observed_step s (s\<lparr>op_run := Returned None\<rparr>)"
| drain: "op_run s = Serving \<Longrightarrow> op_done s \<Longrightarrow> observed_step s (s\<lparr>op_run := Draining\<rparr>)"
| drained: "op_run s = Draining \<Longrightarrow> all_left s \<Longrightarrow> observed_step s (s\<lparr>op_run := Returned None\<rparr>)"
| timeout: "op_run s = Draining \<Longrightarrow>
    observed_step s (s\<lparr>op_run := Abandoning, op_abandoned := True\<rparr>)"
| unwound: "op_run s = Abandoning \<Longrightarrow> all_left s \<Longrightarrow>
    observed_step s (s\<lparr>op_run := Returned (Some ErrShutdownTimeout)\<rparr>)"

definition observed_reachable :: "'w pool \<Rightarrow> observed_pool \<Rightarrow> bool" where
  "observed_reachable p s \<longleftrightarrow> observed_step\<^sup>*\<^sup>* (observed_start p) s"

section \<open>The pool seen through its counters\<close>

text \<open>A job has ended when it is counted; from then on the worker has nothing left of it to count.\<close>

fun view_phase :: "worker_phase \<Rightarrow> wstate" where
  "view_phase (Running d) = Busy d"
| "view_phase (Ran d err elapsed) = Busy d"
| "view_phase Left = Gone"
| "view_phase ph = Idle"

definition pool_view :: "observed_pool \<Rightarrow> pool_sys" where
  "pool_view s =
     \<lparr>ps_workers = map view_phase (op_workers s), ps_done = op_done s, ps_closed = op_closed s,
      ps_abandoned = op_abandoned s, ps_run = op_run s, ps_stats = op_stats s, ps_taken = op_taken s,
      ps_ended = op_counted s\<rparr>"

lemma view_gone [simp]: "view_phase ph = Gone \<longleftrightarrow> ph = Left"
  by (cases ph) simp_all

lemma all_gone_view [simp]: "all_gone (pool_view s) = all_left s"
  by (simp add: all_gone_def all_left_def pool_view_def list_all_iff)

lemma map_same: "k < length xs \<Longrightarrow> f x = f (xs ! k) \<Longrightarrow> map f (xs[k := x]) = map f xs"
  by (simp add: map_update list_update_same_conv)

text \<open>Each step is one of the coarser pool, or is not seen there.\<close>

lemma observed_step_view: "observed_step s t \<Longrightarrow> pool_step (pool_view s) (pool_view t) \<or> pool_view t = pool_view s"
proof (induction rule: observed_step.induct)
  case (take k s d)
  then show ?case using pool_step.take [of k "pool_view s" d] by (simp add: pool_view_def map_update)
next
  case (execute k s d err elapsed)
  then show ?case by (simp add: pool_view_def map_same)
next
  case (add k s d err elapsed st observed acked)
  then show ?case using pool_step.finish [of k "pool_view s" d err st observed acked]
    by (simp add: pool_view_def map_update)
next
  case (observe k s d observed acked elapsed)
  then show ?case by (simp add: pool_view_def map_same)
next
  case (settle k s d acked)
  then show ?case by (simp add: pool_view_def map_same)
next
  case (leave k s)
  then show ?case using pool_step.leave [of k "pool_view s"] by (simp add: pool_view_def map_update)
next
  case (cancel s)
  then show ?case using pool_step.cancel [of "pool_view s"] by (simp add: pool_view_def)
next
  case (close s)
  then show ?case using pool_step.close [of "pool_view s"] by (simp add: pool_view_def)
next
  case (stopped s)
  with all_gone_view [of s] show ?case using pool_step.stopped [of "pool_view s"] by (simp add: pool_view_def)
next
  case (drain s)
  then show ?case using pool_step.drain [of "pool_view s"] by (simp add: pool_view_def)
next
  case (drained s)
  with all_gone_view [of s] show ?case using pool_step.drained [of "pool_view s"] by (simp add: pool_view_def)
next
  case (timeout s)
  then show ?case using pool_step.timeout [of "pool_view s"] by (simp add: pool_view_def)
next
  case (unwound s)
  with all_gone_view [of s] show ?case using pool_step.unwound [of "pool_view s"] by (simp add: pool_view_def)
qed

lemma observed_view:
  assumes "observed_reachable p s"
  shows "pool_reachable p (pool_view s)"
  using assms unfolding observed_reachable_def
proof (induction rule: rtranclp_induct)
  case base
  have "pool_view (observed_start p) = pool_start p"
    by (simp add: pool_view_def observed_start_def pool_start_def)
  then show ?case using pool_reachable.start [of p] by simp
next
  case (step s t)
  then show ?case using observed_step_view [of s t] pool_reachable.step by metis
qed

section \<open>Between the counter and the observer\<close>

text \<open>What a worker has counted and not told the observer yet, and the delivery it has not settled.\<close>

fun unobserved :: "worker_phase \<Rightarrow> string list" where
  "unobserved (Counted d observed acked elapsed) = [observed]"
| "unobserved ph = []"

fun unsettled :: "worker_phase \<Rightarrow> delivery list" where
  "unsettled (Running d) = [d]"
| "unsettled (Ran d err elapsed) = [d]"
| "unsettled (Counted d observed acked elapsed) = [d]"
| "unsettled (Observed d acked) = [d]"
| "unsettled ph = []"

definition gathered :: "(worker_phase \<Rightarrow> 'b list) \<Rightarrow> worker_phase list \<Rightarrow> 'b multiset" where
  "gathered f phs = mset (concat (map f phs))"

lemma gathered_update:
  "k < length phs \<Longrightarrow> gathered f (phs[k := x]) + mset (f (phs ! k)) = gathered f phs + mset (f x)"
proof (induction phs arbitrary: k)
  case (Cons y ys)
  then show ?case by (cases k) (auto simp: gathered_def)
qed simp

lemma gathered_waiting: "f Selecting = [] \<Longrightarrow> gathered f (replicate n Selecting) = {#}"
  by (induction n) (simp_all add: gathered_def)

lemma gathered_left:
  "list_all (\<lambda>x. x = Left) phs \<Longrightarrow> gathered unobserved phs = {#}"
  "list_all (\<lambda>x. x = Left) phs \<Longrightarrow> gathered unsettled phs = {#}"
  by (induction phs) (simp_all add: gathered_def)

text \<open>The counters are ahead of the observer by what is between the two.\<close>

definition counter_of :: "string \<Rightarrow> stats \<Rightarrow> nat" where
  "counter_of z st = (if z = StatusProcessed then Processed st else if z = OutcomeFailed then Failed st else Skipped st)"

definition metric_of :: "string \<Rightarrow> metrics \<Rightarrow> nat" where
  "metric_of z m = the (me_processed m z)"

definition observed_inv :: "observed_pool \<Rightarrow> bool" where
  "observed_inv s \<longleftrightarrow>
     dom (me_processed (op_metrics s)) = {StatusProcessed, OutcomeFailed, StatusSkipped} \<and>
     (\<forall>z \<in> {StatusProcessed, OutcomeFailed, StatusSkipped}. counter_of z (op_stats s) =
        (metric_of z (op_metrics s) + count (gathered unobserved (op_workers s)) z) mod uint64_size) \<and>
     (\<forall>z \<in> {StatusProcessed, OutcomeFailed, StatusSkipped}.
        length (me_duration (op_metrics s) z) = metric_of z (op_metrics s)) \<and>
     set_mset (gathered unobserved (op_workers s)) \<subseteq> {StatusProcessed, OutcomeFailed, StatusSkipped} \<and>
     mset (op_taken s) = mset (map fst (op_settled s)) + gathered unsettled (op_workers s)"

lemma observed_start_inv: "observed_inv (observed_start p)"
proof -
  have "me_duration metrics_new z = []" for z by (simp add: metrics_new_def)
  then show ?thesis
    by (auto simp: observed_inv_def observed_start_def gathered_waiting counter_of_def metric_of_def metrics_new_labels)
qed

lemma recorded:
  assumes "record_outcome err st = (st', observed, acked)"
  shows "observed \<in> {StatusProcessed, OutcomeFailed, StatusSkipped}"
    "z \<in> {StatusProcessed, OutcomeFailed, StatusSkipped} \<Longrightarrow>
       counter_of z st' = (if z = observed then add_one (counter_of z st) else counter_of z st)"
  using assms by (auto simp: record_outcome_def counter_of_def split: option.splits if_splits)

lemma metric_finished:
  "metric_of z (job_finished observed d m) =
     (if z = observed then Suc (case me_processed m z of None \<Rightarrow> 0 | Some n \<Rightarrow> n) else metric_of z m)"
  "dom (me_processed (job_finished observed d m)) = insert observed (dom (me_processed m))"
  by (auto simp: metric_of_def job_finished_counts(1))

text \<open>A step that moves a worker on without counting or observing.\<close>

lemma observed_inv_move:
  assumes "observed_inv s" "k < length (op_workers s)" "unobserved x = unobserved (op_workers s ! k)"
    and "t = s\<lparr>op_workers := (op_workers s)[k := x], op_taken := taken, op_settled := settled\<rparr>"
    and "mset taken + mset (map fst (op_settled s)) + mset (unsettled (op_workers s ! k)) =
         mset (op_taken s) + mset (map fst settled) + mset (unsettled x)"
  shows "observed_inv t"
proof -
  from gathered_update [OF assms(2), of unobserved x] assms(3)
  have u: "gathered unobserved (op_workers t) = gathered unobserved (op_workers s)" by (simp add: assms(4))
  from gathered_update [OF assms(2), of unsettled x]
  have "gathered unsettled (op_workers t) + mset (unsettled (op_workers s ! k)) =
      gathered unsettled (op_workers s) + mset (unsettled x)" by (simp add: assms(4))
  note moved = this
  have "mset taken + (mset (map fst (op_settled s)) + mset (unsettled (op_workers s ! k))) =
      mset (map fst (op_settled s)) + mset (map fst settled) + (gathered unsettled (op_workers s) + mset (unsettled x))"
    using assms(1,5) by (simp add: observed_inv_def ac_simps)
  also have "\<dots> = (mset (map fst settled) + gathered unsettled (op_workers t)) +
      (mset (map fst (op_settled s)) + mset (unsettled (op_workers s ! k)))"
    unfolding moved [symmetric] by (simp add: ac_simps)
  finally have "mset taken = mset (map fst settled) + gathered unsettled (op_workers t)"
    by (simp only: add_right_cancel)
  with assms(1,4) u show ?thesis by (simp add: observed_inv_def)
qed

lemma observed_inv_add:
  assumes "observed_inv s" "k < length (op_workers s)" "op_workers s ! k = Ran d err elapsed"
    and "record_outcome err (op_stats s) = (st, observed, acked)"
  shows "observed_inv (s\<lparr>op_workers := (op_workers s)[k := Counted d observed acked elapsed],
                         op_stats := st, op_counted := op_counted s @ [(d, observed, acked)]\<rparr>)"
proof -
  let ?ws = "(op_workers s)[k := Counted d observed acked elapsed]"
  have u: "gathered unobserved ?ws = add_mset observed (gathered unobserved (op_workers s))"
    and v: "gathered unsettled ?ws = gathered unsettled (op_workers s)"
    using gathered_update [OF assms(2), of unobserved "Counted d observed acked elapsed"]
      gathered_update [OF assms(2), of unsettled "Counted d observed acked elapsed"] assms(3) by simp_all
  have "counter_of z st = (metric_of z (op_metrics s) + count (gathered unobserved ?ws) z) mod uint64_size"
    if "z \<in> {StatusProcessed, OutcomeFailed, StatusSkipped}" for z
    using assms(1) that recorded(2) [OF assms(4) that] by (auto simp: observed_inv_def u add_one_mod)
  with assms(1) recorded(1) [OF assms(4)] u v show ?thesis by (simp add: observed_inv_def)
qed

lemma observed_inv_observe:
  assumes "observed_inv s" "k < length (op_workers s)" "op_workers s ! k = Counted d observed acked elapsed"
  shows "observed_inv (s\<lparr>op_workers := (op_workers s)[k := Observed d acked],
                         op_metrics := job_finished observed elapsed (op_metrics s)\<rparr>)"
proof -
  let ?ws = "(op_workers s)[k := Observed d acked]" and ?m = "job_finished observed elapsed (op_metrics s)"
  let ?t = "s\<lparr>op_workers := ?ws, op_metrics := ?m\<rparr>"
  have u: "add_mset observed (gathered unobserved ?ws) = gathered unobserved (op_workers s)"
    and v: "gathered unsettled ?ws = gathered unsettled (op_workers s)"
    using gathered_update [OF assms(2), of unobserved "Observed d acked"]
      gathered_update [OF assms(2), of unsettled "Observed d acked"] assms(3) by simp_all
  from assms(1) have dm: "dom (me_processed (op_metrics s)) = {StatusProcessed, OutcomeFailed, StatusSkipped}"
    and "set_mset (gathered unobserved (op_workers s)) \<subseteq> {StatusProcessed, OutcomeFailed, StatusSkipped}"
    by (simp_all add: observed_inv_def)
  then have ob: "observed \<in> {StatusProcessed, OutcomeFailed, StatusSkipped}" 
    and sub: "set_mset (gathered unobserved ?ws) \<subseteq> {StatusProcessed, OutcomeFailed, StatusSkipped}" by (auto simp: u [symmetric])
  have one: "metric_of observed ?m = Suc (metric_of observed (op_metrics s))"
  proof -
    obtain n where "me_processed (op_metrics s) observed = Some n" using ob dm by (metis domD)
    then show ?thesis by (simp add: metric_finished(1)) (simp add: metric_of_def)
  qed
  have "metric_of z ?m + count (gathered unobserved ?ws) z =
      metric_of z (op_metrics s) + count (gathered unobserved (op_workers s)) z" for z
    using one by (auto simp: u [symmetric] metric_finished(1))
  note both = this
  let ?os = "{StatusProcessed, OutcomeFailed, StatusSkipped}"
  have "\<forall>z \<in> ?os. counter_of z (op_stats s) = (metric_of z ?m + count (gathered unobserved ?ws) z) mod uint64_size"
    using assms(1) unfolding observed_inv_def both by blast
  moreover have "length (me_duration ?m z) = metric_of z ?m"
    if "length (me_duration (op_metrics s) z) = metric_of z (op_metrics s)" for z
    using that one by (auto simp: job_finished_counts(2) metric_finished(1))
  then have "\<forall>z \<in> ?os. length (me_duration ?m z) = metric_of z ?m"
    using assms(1) unfolding observed_inv_def by blast
  moreover have "mset (op_taken s) = mset (map fst (op_settled s)) + gathered unsettled ?ws"
    using assms(1) unfolding observed_inv_def v by blast
  moreover have "dom (me_processed ?m) = ?os"
    using dm ob by (auto simp: metric_finished(2))
  moreover have "op_workers ?t = ?ws" "op_metrics ?t = ?m" "op_stats ?t = op_stats s" "op_taken ?t = op_taken s"
    "op_settled ?t = op_settled s" by simp_all
  note sels = this
  ultimately show ?thesis using sub unfolding observed_inv_def sels by (intro conjI)
qed

lemma observed_step_inv: "observed_step s t \<Longrightarrow> observed_inv s \<Longrightarrow> observed_inv t"
proof (induction rule: observed_step.induct)
  case (take k s d)
  show ?case
    by (rule observed_inv_move [where s = s and k = k and x = "Running d" and taken = "op_taken s @ [d]" and
          settled = "op_settled s"]) (simp_all add: take)
next
  case (execute k s d err elapsed)
  show ?case
    by (rule observed_inv_move [where s = s and k = k and x = "Ran d err elapsed" and taken = "op_taken s" and
          settled = "op_settled s"]) (simp_all add: execute)
next
  case (add k s d err elapsed st observed acked)
  show ?case by (rule observed_inv_add [OF add.prems add.hyps])
next
  case (observe k s d observed acked elapsed)
  show ?case by (rule observed_inv_observe [OF observe.prems observe.hyps])
next
  case (settle k s d acked)
  show ?case
    by (rule observed_inv_move [where s = s and k = k and x = Selecting and taken = "op_taken s" and
          settled = "op_settled s @ [(d, acked)]"]) (simp_all add: settle)
next
  case (leave k s)
  show ?case
    by (rule observed_inv_move [where s = s and k = k and x = Left and taken = "op_taken s" and
          settled = "op_settled s"]) (simp_all add: leave)
qed (simp_all add: observed_inv_def)

lemma observed_reachable_inv: "observed_reachable p s \<Longrightarrow> observed_inv s"
  unfolding observed_reachable_def
  by (induction rule: rtranclp_induct) (auto intro: observed_start_inv observed_step_inv)

section \<open>Properties\<close>

text \<open>
  C40: the metrics agree with the pool. In every state the pool can reach, its workers at
  any statement of \<open>handle\<close>, the processed counter has the three outcomes as labels and no
  other; each of the pool's own 64-bit counters is ahead of the metric of its outcome by exactly
  the jobs counted and not observed yet, each of which a worker is holding between the two
  calls; and each histogram has one observation per job its counter counts. Once \<open>Run\<close> has returned
  the two agree, and every delivery taken has been settled. Seen through its counters the pool
  is the one of theory \<open>Worker\<close>, so what is proved there holds of it.
\<close>

theorem metrics_match_pool:
  assumes "observed_reachable p s"
  shows "dom (me_processed (op_metrics s)) = {StatusProcessed, OutcomeFailed, StatusSkipped} \<and>
    list_all (\<lambda>z. counter_of z (op_stats s) =
        (metric_of z (op_metrics s) + count (gathered unobserved (op_workers s)) z) mod uint64_size \<and>
        length (me_duration (op_metrics s) z) = metric_of z (op_metrics s))
      [StatusProcessed, OutcomeFailed, StatusSkipped] \<and>
    (case op_run s of
       Returned r \<Rightarrow>
         op_stats s = \<lparr>Processed = metric_of StatusProcessed (op_metrics s) mod uint64_size,
                       Failed = metric_of OutcomeFailed (op_metrics s) mod uint64_size,
                       Skipped = metric_of StatusSkipped (op_metrics s) mod uint64_size\<rparr> \<and>
         mset (map fst (op_settled s)) = mset (op_taken s)
     | _ \<Rightarrow> True) \<and>
    pool_reachable p (pool_view s)"
proof (intro conjI)
  have i: "observed_inv s" by (rule observed_reachable_inv [OF assms])
  then show "dom (me_processed (op_metrics s)) = {StatusProcessed, OutcomeFailed, StatusSkipped}"
    "list_all (\<lambda>z. counter_of z (op_stats s) =
        (metric_of z (op_metrics s) + count (gathered unobserved (op_workers s)) z) mod uint64_size \<and>
        length (me_duration (op_metrics s) z) = metric_of z (op_metrics s))
      [StatusProcessed, OutcomeFailed, StatusSkipped]"
    by (simp_all add: observed_inv_def)
  show view: "pool_reachable p (pool_view s)" by (rule observed_view [OF assms])
  show "case op_run s of
       Returned r \<Rightarrow>
         op_stats s = \<lparr>Processed = metric_of StatusProcessed (op_metrics s) mod uint64_size,
                       Failed = metric_of OutcomeFailed (op_metrics s) mod uint64_size,
                       Skipped = metric_of StatusSkipped (op_metrics s) mod uint64_size\<rparr> \<and>
         mset (map fst (op_settled s)) = mset (op_taken s)
     | _ \<Rightarrow> True"
  proof (cases "op_run s")
    case (Returned r)
    then have "all_gone (pool_view s)" using pool_reachable_inv [OF view] by (auto simp: pool_inv_def pool_view_def)
    then have "gathered unobserved (op_workers s) = {#}" "gathered unsettled (op_workers s) = {#}"
      unfolding all_gone_view all_left_def by (rule gathered_left)+
    with i Returned show ?thesis by (cases "op_stats s") (simp add: observed_inv_def counter_of_def)
  qed simp_all
qed

text \<open>A job between its counter and the observer, and after.\<close>

theorem metrics_match_pool_witness:
  "\<exists>s t. observed_reachable sample_pool s \<and> observed_reachable sample_pool t \<and>
     metric_of StatusProcessed (op_metrics s) = 0 \<and> Processed (op_stats s) = 1 \<and>
     metric_of StatusProcessed (op_metrics t) = 1 \<and> Processed (op_stats t) = 1"
proof -
  let ?d = "\<lparr>JobID = ''j'', Meta = None\<rparr>" and ?a = "observed_start sample_pool"
  let ?b = "?a\<lparr>op_workers := (op_workers ?a)[0 := Running ?d], op_taken := op_taken ?a @ [?d]\<rparr>"
  let ?c = "?b\<lparr>op_workers := (op_workers ?b)[0 := Ran ?d None 7]\<rparr>"
  let ?s = "?c\<lparr>op_workers := (op_workers ?c)[0 := Counted ?d StatusProcessed True 7],
      op_stats := (op_stats ?c)\<lparr>Processed := add_one (Processed (op_stats ?c))\<rparr>,
      op_counted := op_counted ?c @ [(?d, StatusProcessed, True)]\<rparr>"
  let ?t = "?s\<lparr>op_workers := (op_workers ?s)[0 := Observed ?d True],
      op_metrics := job_finished StatusProcessed 7 (op_metrics ?s)\<rparr>"
  have "0 < nat (p_size sample_pool)" using new_pool_size by (simp add: sample_pool_def)
  then have steps: "observed_step ?a ?b" "observed_step ?b ?c" "observed_step ?c ?s" "observed_step ?s ?t"
    by (intro observed_step.take observed_step.execute observed_step.add [where err = None and elapsed = 7]
          observed_step.observe; simp add: observed_start_def record_outcome_def)+
  then have s: "observed_reachable sample_pool ?s"
    unfolding observed_reachable_def by (meson rtranclp.rtrancl_refl rtranclp.rtrancl_into_rtrancl)
  with steps(4) have t: "observed_reachable sample_pool ?t"
    unfolding observed_reachable_def by (meson rtranclp.rtrancl_into_rtrancl)
  have "add_one 0 = 1" by (simp add: add_one_def uint64_size_def)
  then have p: "Processed (op_stats ?s) = 1" "Processed (op_stats ?t) = 1" by (simp_all add: observed_start_def)
  have "metric_of StatusProcessed (op_metrics ?s) = 0"
    by (simp add: observed_start_def metric_of_def metrics_new_labels)
  moreover have "metric_of StatusProcessed (op_metrics ?t) = length (me_duration (op_metrics ?t) StatusProcessed)"
    using metrics_match_pool [OF t] by simp
  then have "metric_of StatusProcessed (op_metrics ?t) = 1"
    by (simp add: observed_start_def job_finished_counts(2) metrics_new_def)
  ultimately show ?thesis using s t p by blast
qed

end
