(* ===== verification/Telemetry.thy ===== *)
theory Telemetry
  imports Floats
begin

text \<open>
  \<open>internal/telemetry\<close>: what the tracing set-up decides, the check of the collector's address,
  and the log handler that stamps records. The OpenTelemetry SDK, its exporter and \<open>url.Parse\<close> are
  parameters; log output is left out. The sampling ratio is a \<open>float64\<close> (\<open>Floats\<close>).
\<close>

section \<open>Stamping log records (logging.go)\<close>

definition TraceIDKey :: string where "TraceIDKey = ''trace_id''"
definition SpanIDKey :: string where "SpanIDKey = ''span_id''"
definition JobIDKey :: string where "JobIDKey = ''job_id''"

text \<open>Of a context: the trace and span identifiers of a valid span context, and the job named.\<close>

record log_ctx =
  lc_span :: "(string \<times> string) option"
  lc_job :: "string option"

definition with_job_id :: "log_ctx \<Rightarrow> string \<Rightarrow> log_ctx" where
  "with_job_id c jobID = (if jobID = [] then c else c\<lparr>lc_job := Some jobID\<rparr>)"

definition job_id_of :: "log_ctx \<Rightarrow> string" where
  "job_id_of c = (case lc_job c of None \<Rightarrow> [] | Some i \<Rightarrow> i)"

type_synonym attrs = "(string \<times> string) list"

fun has_attr :: "attrs \<Rightarrow> string \<Rightarrow> bool" where
  "has_attr [] key = False"
| "has_attr ((k, v) # rest) key = (k = key \<or> has_attr rest key)"

text \<open>The record as the inner handler gets it.\<close>

definition log_handle :: "log_ctx \<Rightarrow> attrs \<Rightarrow> attrs" where
  "log_handle c r =
     (let r = (case lc_span c of
                 Some (traceID, spanID) \<Rightarrow> r @ [(TraceIDKey, traceID), (SpanIDKey, spanID)]
               | None \<Rightarrow> r)
      in if job_id_of c \<noteq> [] \<and> \<not> has_attr r JobIDKey then r @ [(JobIDKey, job_id_of c)] else r)"

text \<open>
  A \<open>slog.Handler\<close> over the state its output goes to: whether a level is on, what handling a record
  does, and the handlers derived for loggers with attributes or a group of their own.
\<close>

codatatype 's log_handler =
  LogHandler
    (lh_enabled: "log_ctx \<Rightarrow> int \<Rightarrow> bool")
    (lh_handle: "log_ctx \<Rightarrow> attrs \<Rightarrow> 's \<Rightarrow> goerr option \<times> 's")
    (lh_with_attrs: "attrs \<Rightarrow> 's log_handler")
    (lh_with_group: "string \<Rightarrow> 's log_handler")

primcorec stamping :: "'s log_handler \<Rightarrow> 's log_handler" where
  "lh_enabled (stamping h) = lh_enabled h"
| "lh_handle (stamping h) = (\<lambda>c r. lh_handle h c (log_handle c r))"
| "lh_with_attrs (stamping h) = (\<lambda>extra. stamping (lh_with_attrs h extra))"
| "lh_with_group (stamping h) = (\<lambda>name. stamping (lh_with_group h name))"

definition new_log_handler :: "'s log_handler option \<Rightarrow> 's log_handler option" where
  "new_log_handler inner = (case inner of None \<Rightarrow> None | Some h \<Rightarrow> Some (stamping h))"

text \<open>A logger derived by any sequence of \<open>With\<close> and \<open>WithGroup\<close>.\<close>

datatype derivation = ByAttrs attrs | ByGroup string

fun derive :: "derivation list \<Rightarrow> 's log_handler \<Rightarrow> 's log_handler" where
  "derive [] h = h"
| "derive (ByAttrs extra # ds) h = derive ds (lh_with_attrs h extra)"
| "derive (ByGroup name # ds) h = derive ds (lh_with_group h name)"

section \<open>Trace context (propagate.go)\<close>

text \<open>
  A carrier is a map; the nil one is \<open>None\<close>. \<open>write\<close> is what the global propagator writes of a
  context into a carrier.
\<close>

type_synonym carrier = "string \<rightharpoonup> string"

definition carrier_get :: "carrier \<Rightarrow> string \<Rightarrow> string" where
  "carrier_get c key = (case c key of None \<Rightarrow> [] | Some v \<Rightarrow> v)"

definition carrier_set :: "string \<Rightarrow> string \<Rightarrow> carrier \<Rightarrow> carrier" where
  "carrier_set key v c = c(key \<mapsto> v)"

definition carrier_keys :: "carrier \<Rightarrow> string set" where
  "carrier_keys c = dom c"

definition inject :: "('c \<Rightarrow> carrier \<Rightarrow> carrier) \<Rightarrow> 'c \<Rightarrow> carrier option" where
  "inject write c =
     (let carrier = write c Map.empty in if dom carrier = {} then None else Some carrier)"

text \<open>\<open>TraceID\<close>, of the trace identifier of a context's span, if it has one.\<close>

definition trace_id_of :: "string option \<Rightarrow> string" where
  "trace_id_of sc = (case sc of None \<Rightarrow> [] | Some i \<Rightarrow> i)"

section \<open>Configuration (env.go)\<close>

definition otelEnvEndpoint :: string where "otelEnvEndpoint = ''OTEL_EXPORTER_OTLP_ENDPOINT''"
definition EnvTracesEndpoint :: string where "EnvTracesEndpoint = ''OTEL_EXPORTER_OTLP_TRACES_ENDPOINT''"
definition EnvServiceName :: string where "EnvServiceName = ''OTEL_SERVICE_NAME''"
definition EnvSamplerArg :: string where "EnvSamplerArg = ''OTEL_TRACES_SAMPLER_ARG''"
definition EnvDisabled :: string where "EnvDisabled = ''OTEL_SDK_DISABLED''"
definition EnvEnvironment :: string where "EnvEnvironment = ''IMAGEFORGE_ENV''"

record tracing_config =
  tc_service :: string
  tc_version :: string
  tc_environment :: string
  tc_endpoint :: string
  tc_insecure :: bool
  tc_ratio :: float64
  tc_disabled :: bool

definition otel_env :: "environ \<Rightarrow> string \<Rightarrow> string \<Rightarrow> string" where
  "otel_env en key fallback =
     (case en key of
        Some v \<Rightarrow> if trim_space v \<noteq> [] then trim_space v else fallback
      | None \<Rightarrow> fallback)"

definition env_bool :: "environ \<Rightarrow> string \<Rightarrow> bool \<Rightarrow> bool" where
  "env_bool en key fallback =
     (case en key of
        None \<Rightarrow> fallback
      | Some raw \<Rightarrow> (case parse_bool (trim_space raw) of None \<Rightarrow> fallback | Some b \<Rightarrow> b))"

definition env_float :: "environ \<Rightarrow> string \<Rightarrow> float64 \<Rightarrow> float64" where
  "env_float en key fallback =
     (case en key of
        None \<Rightarrow> fallback
      | Some raw \<Rightarrow> (case parse_float (trim_space raw) of None \<Rightarrow> fallback | Some v \<Rightarrow> v))"

definition config_from_env :: "environ \<Rightarrow> string \<Rightarrow> string \<Rightarrow> tracing_config" where
  "config_from_env en serviceName version =
     (let endpoint = otel_env en EnvTracesEndpoint (otel_env en otelEnvEndpoint []) in
      \<lparr>tc_service = otel_env en EnvServiceName serviceName, tc_version = version,
       tc_environment = otel_env en EnvEnvironment [], tc_endpoint = endpoint,
       tc_insecure = (\<not> has_prefix endpoint ''https://''), tc_ratio = env_float en EnvSamplerArg (FNum 1),
       tc_disabled = env_bool en EnvDisabled False\<rparr>)"

section \<open>The collector's address (telemetry.go)\<close>

text \<open>\<open>net.SplitHostPort\<close>.\<close>

definition addr_error :: "string \<Rightarrow> string \<Rightarrow> goerr" where
  "addr_error addr why = EText (''address '' @ addr @ '': '' @ why)"

definition index_of :: "char \<Rightarrow> string \<Rightarrow> nat option" where
  "index_of c s = (if c \<in> set s then Some (length (takeWhile (\<lambda>d. d \<noteq> c) s)) else None)"

definition last_index_of :: "char \<Rightarrow> string \<Rightarrow> nat option" where
  "last_index_of c s = map_option (\<lambda>k. length s - 1 - k) (index_of c (rev s))"

definition split_host_port :: "string \<Rightarrow> (string \<times> string) res" where
  "split_host_port hostport =
     (case last_index_of CHR '':'' hostport of
        None \<Rightarrow> Inl (addr_error hostport ''missing port in address'')
      | Some i \<Rightarrow>
     (let finish = (\<lambda>host j k.
            if CHR ''['' \<in> set (drop j hostport) then
              Inl (addr_error hostport (''unexpected '' @ CHR 0x27 # ''['' @ CHR 0x27 # '' in address''))
            else if CHR '']'' \<in> set (drop k hostport) then
              Inl (addr_error hostport (''unexpected '' @ CHR 0x27 # '']'' @ CHR 0x27 # '' in address''))
            else Inr (host, drop (i + 1) hostport)) in
      if has_prefix hostport ''['' then
       (case index_of CHR '']'' hostport of
          None \<Rightarrow> Inl (addr_error hostport (''missing '' @ CHR 0x27 # '']'' @ CHR 0x27 # '' in address''))
        | Some e \<Rightarrow>
            if e + 1 = length hostport then Inl (addr_error hostport ''missing port in address'')
            else if e + 1 = i then finish (drop 1 (take e hostport)) 1 (e + 1)
            else if hostport ! (e + 1) = CHR '':'' then
              Inl (addr_error hostport ''too many colons in address'')
            else Inl (addr_error hostport ''missing port in address''))
      else if CHR '':'' \<in> set (take i hostport) then
        Inl (addr_error hostport ''too many colons in address'')
      else finish (take i hostport) 0 0))"

record 'u url_lib =
  url_parse :: "string \<Rightarrow> 'u res"
  url_host :: "'u \<Rightarrow> string"
  url_path :: "'u \<Rightarrow> string"
  url_set_path :: "string \<Rightarrow> 'u \<Rightarrow> 'u"
  url_string :: "'u \<Rightarrow> string"

definition exporter_error :: "string \<Rightarrow> string" where
  "exporter_error endpoint = ''telemetry: build the OTLP exporter for '' @ quote endpoint @ '': ''"

definition validate_endpoint :: "'u url_lib \<Rightarrow> string \<Rightarrow> goerr option" where
  "validate_endpoint url endpoint =
     (if contains_str endpoint ''://'' then
       (case url_parse url endpoint of
          Inl e \<Rightarrow> Some (EWrap (exporter_error endpoint) e [])
        | Inr u \<Rightarrow> if url_host url u = [] then Some (EText (exporter_error endpoint @ ''no host'')) else None)
      else if list_ex (\<lambda>c. c \<in> set ''/?#'') endpoint then
        Some (EText (exporter_error endpoint @
          ''a bare endpoint is a host and port, so give a full URL to include a path''))
      else if CHR '':'' \<notin> set endpoint then None
      else
       (case split_host_port endpoint of
          Inl e \<Rightarrow> Some (EWrap (exporter_error endpoint) e [])
        | Inr (host, port) \<Rightarrow>
            if host = [] then Some (EText (exporter_error endpoint @ ''no host''))
            else (case atoi port of
                    Inl e \<Rightarrow> Some (EText (exporter_error endpoint @ quote port @ '' is not a port''))
                  | Inr n \<Rightarrow> None)))"

definition tracesPath :: string where "tracesPath = ''/v1/traces''"

definition with_signal_path :: "'u url_lib \<Rightarrow> string \<Rightarrow> string" where
  "with_signal_path url endpoint =
     (case url_parse url endpoint of
        Inl e \<Rightarrow> endpoint
      | Inr u \<Rightarrow>
          url_string url (if url_path url u = [] \<or> url_path url u = ''/'' then url_set_path url tracesPath u else u))"

datatype exporter_option = WithEndpointURL string | WithEndpoint string | WithInsecure

definition exporter_options :: "'u url_lib \<Rightarrow> string \<Rightarrow> bool \<Rightarrow> exporter_option list" where
  "exporter_options url endpoint insecure =
     (if has_prefix endpoint ''http://'' then [WithEndpointURL (with_signal_path url endpoint), WithInsecure]
      else if has_prefix endpoint ''https://'' then [WithEndpointURL (with_signal_path url endpoint)]
      else WithEndpoint endpoint # (if insecure then [WithInsecure] else []))"

definition new_exporter ::
  "'u url_lib \<Rightarrow> (exporter_option list \<Rightarrow> 'x res) \<Rightarrow> string \<Rightarrow> bool \<Rightarrow> 'x res" where
  "new_exporter url build endpoint insecure =
     (case validate_endpoint url endpoint of
        Some e \<Rightarrow> Inl e
      | None \<Rightarrow>
          (case build (exporter_options url endpoint insecure) of
             Inl e \<Rightarrow> Inl (EWrap (exporter_error endpoint) e [])
           | Inr x \<Rightarrow> Inr x))"

section \<open>Setup and Shutdown (telemetry.go)\<close>

text \<open>
  What is installed: the resource's attributes, the ratio of the sampler under the parent-based
  one, and the exporter. \<open>None\<close> is a provider with nothing behind it.
\<close>

definition ScopeName :: string where "ScopeName = ''imageforge''"

record 'x tracer =
  tr_attrs :: attrs
  tr_ratio :: float64
  tr_exporter :: "'x option"

definition resource_attrs :: "tracing_config \<Rightarrow> attrs" where
  "resource_attrs cfg =
     [(''service.name'', tc_service cfg)] @
     (if tc_version cfg \<noteq> [] then [(''service.version'', tc_version cfg)] else []) @
     (if tc_environment cfg \<noteq> [] then [(''deployment.environment.name'', tc_environment cfg)] else [])"

definition setup_tracing ::
  "'u url_lib \<Rightarrow> (attrs \<Rightarrow> goerr option) \<Rightarrow> (exporter_option list \<Rightarrow> 'x res) \<Rightarrow> tracing_config \<Rightarrow> 'x tracer option res" where
  "setup_tracing url merge build cfg =
     (let cfg = (if tc_service cfg = [] then cfg\<lparr>tc_service := ScopeName\<rparr> else cfg) in
      if tc_disabled cfg then Inr None
      else
     (let cfg = (if f64_le (tc_ratio cfg) (FNum 0) \<or> f64_less (FNum 1) (tc_ratio cfg) then cfg\<lparr>tc_ratio := FNum 1\<rparr>
                 else cfg);
          attrs = resource_attrs cfg in
      case merge attrs of Some e \<Rightarrow> Inl (EWrap ''telemetry: build the resource: '' e []) | None \<Rightarrow>
     (let endpoint = trim_space (tc_endpoint cfg) in
      if endpoint = [] then
        Inr (Some \<lparr>tr_attrs = attrs, tr_ratio = tc_ratio cfg, tr_exporter = None\<rparr>)
      else
       (case new_exporter url build endpoint (tc_insecure cfg) of
          Inl e \<Rightarrow> Inl e
        | Inr x \<Rightarrow> Inr (Some \<lparr>tr_attrs = attrs, tr_ratio = tc_ratio cfg, tr_exporter = Some x\<rparr>)))))"

definition exporting :: "'x tracer option \<Rightarrow> bool" where
  "exporting p = (case p of None \<Rightarrow> False | Some t \<Rightarrow> tr_exporter t \<noteq> None)"

text \<open>\<open>err\<close> is what shutting the SDK's provider down reports.\<close>

definition telemetry_shutdown :: "'x tracer option \<Rightarrow> goerr option \<Rightarrow> goerr option" where
  "telemetry_shutdown p err =
     (case p of
        None \<Rightarrow> None
      | Some t \<Rightarrow>
          (case err of
             Some e \<Rightarrow> if \<not> errors_is e Canceled then Some (EWrap ''telemetry: shutdown: '' e []) else None
           | None \<Rightarrow> None))"

text \<open>\<open>End\<close>: what a span has recorded, its status and whether it ended.\<close>

record trace_span =
  sp_errors :: "goerr list"
  sp_status :: "string option"
  sp_ended :: bool

definition end_span :: "goerr option \<Rightarrow> trace_span \<Rightarrow> trace_span" where
  "end_span err s =
     (let s = (case err of
                 Some e \<Rightarrow> s\<lparr>sp_errors := sp_errors s @ [e], sp_status := Some (error_text e)\<rparr>
               | None \<Rightarrow> s)
      in s\<lparr>sp_ended := True\<rparr>)"

section \<open>Properties\<close>

lemma has_attr_iff: "has_attr r key \<longleftrightarrow> key \<in> fst ` set r"
  by (induction r key rule: has_attr.induct) auto

text \<open>
  A record keeps what its call site gave it, in order, and is only added to. With a job
  named in the context it says which, and the key is there once unless the call site itself gave
  it more often; with a valid span it carries the trace.
\<close>

theorem log_record_stamped:
  "take (length r) (log_handle c r) = r \<and>
   (if job_id_of c = [] then True else has_attr (log_handle c r) JobIDKey) \<and>
   length (filter (\<lambda>(k, v). k = JobIDKey) (log_handle c r)) =
     (if job_id_of c = [] \<or> has_attr r JobIDKey then length (filter (\<lambda>(k, v). k = JobIDKey) r) else 1) \<and>
   (case lc_span c of None \<Rightarrow> True | Some (t, s) \<Rightarrow> (TraceIDKey, t) \<in> set (log_handle c r))"
proof -
  have keys: "TraceIDKey \<noteq> JobIDKey" "SpanIDKey \<noteq> JobIDKey"
    by (simp_all add: TraceIDKey_def SpanIDKey_def JobIDKey_def)
  have "filter (\<lambda>(k, v). k = JobIDKey) r = []" if "\<not> has_attr r JobIDKey"
    using that by (induction r) auto
  with keys show ?thesis
    by (auto simp: log_handle_def has_attr_iff Let_def split: option.splits)
qed

text \<open>
  Deriving a logger keeps the stamping: whatever attributes and groups were put on it, its records
  reach the handler derived the same way from the inner one, with the identifiers added.
\<close>

lemma derived_logger_stamps:
  "lh_handle (derive ds (stamping h)) c r s = lh_handle (derive ds h) c (log_handle c r) s"
  "lh_enabled (derive ds (stamping h)) = lh_enabled (derive ds h)"
proof -
  have d: "derive ds (stamping h) = stamping (derive ds h)"
    by (induction ds h rule: derive.induct) simp_all
  show "lh_handle (derive ds (stamping h)) c r s = lh_handle (derive ds h) c (log_handle c r) s"
    "lh_enabled (derive ds (stamping h)) = lh_enabled (derive ds h)"
    by (simp_all add: d)
qed

text \<open>
  With a propagator that writes the pairs of a trace context, the carrier a message travels with
  is there exactly when the context has one, and it holds each pair.
\<close>

lemma inject_carries:
  "inject (\<lambda>pairs c. foldl (\<lambda>c (k, v). carrier_set k v c) c pairs) pairs =
     (if pairs = [] then None else Some (map_of (rev pairs)))"
proof -
  have fold: "foldl (\<lambda>c (k, v). carrier_set k v c) c pairs = c ++ map_of (rev pairs)" for c
    by (induction pairs arbitrary: c) (auto simp: carrier_set_def map_add_def fun_eq_iff split: option.split)
  have "map_of (rev pairs) = Map.empty \<longleftrightarrow> pairs = []" by (cases pairs rule: rev_cases) auto
  then show ?thesis by (simp add: inject_def fold Let_def)
qed

lemma index_of_at: "index_of c s = Some i \<Longrightarrow> i < length s \<and> s ! i = c"
proof (induction s arbitrary: i)
  case Nil
  then show ?case by (simp add: index_of_def)
next
  case (Cons d s)
  show ?case
  proof (cases "d = c")
    case True
    with Cons.prems show ?thesis by (simp add: index_of_def)
  next
    case False
    with Cons.prems obtain j where "index_of c s = Some j" "i = Suc j"
      by (auto simp: index_of_def split: if_splits)
    with Cons.IH [of j] show ?thesis by simp
  qed
qed

lemma last_index_of_at:
  assumes "last_index_of c s = Some i"
  shows "i < length s" "s = take i s @ c # drop (i + 1) s"
proof -
  from assms obtain k where k: "index_of c (rev s) = Some k" "i = length s - 1 - k"
    by (auto simp: last_index_of_def)
  with index_of_at [OF k(1)] have "i < length s" "s ! i = c" by (auto simp: rev_nth)
  then show "i < length s" "s = take i s @ c # drop (i + 1) s" using id_take_nth_drop [of i s] by simp_all
qed

lemma split_host_port_parts:
  assumes "split_host_port s = Inr (host, port)"
  shows "(s = host @ CHR '':'' # port \<and> CHR '':'' \<notin> set host) \<or> s = CHR ''['' # host @ CHR '']'' # CHR '':'' # port"
proof -
  obtain i where i: "last_index_of CHR '':'' s = Some i"
    using assms by (cases "last_index_of CHR '':'' s") (auto simp: split_host_port_def)
  note s = last_index_of_at [OF i]
  show ?thesis
  proof (cases "has_prefix s ''[''")
    case False
    with assms i have "host = take i s" "port = drop (i + 1) s" "CHR '':'' \<notin> set (take i s)"
      by (auto simp: split_host_port_def Let_def split: if_splits)
    with s show ?thesis by metis
  next
    case True
    with assms i obtain e where e: "index_of CHR '']'' s = Some e" "e + 1 = i" "host = drop 1 (take e s)"
      "port = drop (i + 1) s"
      by (auto simp: split_host_port_def Let_def split: if_splits option.splits)
    note at = index_of_at [OF e(1)]
    from True obtain t where t: "s = CHR ''['' # t" by (auto simp: has_prefix_iff)
    with at have "0 < e" by (cases e) auto
    with t have "take e s = CHR ''['' # host" using e(3) by (cases e) auto
    moreover have "take i s = take e s @ [CHR '']'']" using at e(2) by (auto simp: take_Suc_conv_app_nth)
    ultimately show ?thesis using s(2) e(4) by (metis append.assoc append_Cons append_Nil)
  qed
qed

text \<open>
  An address the exporter could not use is refused before anything is built. A bare endpoint
  is accepted only when it has no path, query or fragment and is a host by itself, or a host and
  a port that is a number, the host in brackets when it has colons of its own.
\<close>

theorem bare_endpoint_checked:
  assumes "\<not> contains_str endpoint ''://''" "validate_endpoint url endpoint = None"
  shows "(\<forall>c \<in> set endpoint. c \<noteq> CHR ''/'' \<and> c \<noteq> CHR ''?'' \<and> c \<noteq> CHR ''#'') \<and>
    (CHR '':'' \<notin> set endpoint \<or>
     (\<exists>host port n. host \<noteq> [] \<and> atoi port = Inr n \<and>
        (endpoint = host @ CHR '':'' # port \<and> CHR '':'' \<notin> set host \<or>
         endpoint = CHR ''['' # host @ CHR '']'' # CHR '':'' # port)))"
proof (intro conjI)
  show "\<forall>c \<in> set endpoint. c \<noteq> CHR ''/'' \<and> c \<noteq> CHR ''?'' \<and> c \<noteq> CHR ''#''"
    using assms by (auto simp: validate_endpoint_def list_ex_iff split: if_splits)
  show "CHR '':'' \<notin> set endpoint \<or>
     (\<exists>host port n. host \<noteq> [] \<and> atoi port = Inr n \<and>
        (endpoint = host @ CHR '':'' # port \<and> CHR '':'' \<notin> set host \<or>
         endpoint = CHR ''['' # host @ CHR '']'' # CHR '':'' # port))"
  proof (cases "CHR '':'' \<in> set endpoint")
    case True
    with assms obtain host port n where "split_host_port endpoint = Inr (host, port)" "host \<noteq> []" "atoi port = Inr n"
      by (auto simp: validate_endpoint_def split: if_splits sum.splits)
    with split_host_port_parts [of endpoint host port] show ?thesis by blast
  qed simp
qed

lemma tracing_ratio:
  assumes "setup_tracing url merge build cfg = Inr (Some t)"
  shows "tr_ratio t =
       (case tc_ratio cfg of
          FNum x \<Rightarrow> if 0 < x \<and> x \<le> 1 then FNum x else FNum 1
        | FInf negative \<Rightarrow> FNum 1
        | FNaN \<Rightarrow> FNaN)"
  using assms
  by (auto simp: setup_tracing_def Let_def f64_less_def split: if_splits option.splits sum.splits float64.splits)

text \<open>
  What tracing is set up to do. Disabled, nothing is installed. Otherwise the sampler's ratio
  is the one asked for when that is a number above zero and at most one, and 1 when it is another
  number, zero included, or infinite; a ratio that is not a number is let through as it is. Spans
  are exported exactly when an endpoint is given, and the service has a name.
\<close>

theorem tracing_set_up:
  "case setup_tracing url merge build cfg of
     Inr None \<Rightarrow> tc_disabled cfg
   | Inr (Some t) \<Rightarrow>
       \<not> tc_disabled cfg \<and> tr_ratio t =
       (case tc_ratio cfg of
          FNum x \<Rightarrow> if 0 < x \<and> x \<le> 1 then FNum x else FNum 1
        | FInf negative \<Rightarrow> FNum 1
        | FNaN \<Rightarrow> FNaN) \<and>
       exporting (Some t) = (trim_space (tc_endpoint cfg) \<noteq> []) \<and>
       (\<exists>name. (''service.name'', name) \<in> set (tr_attrs t) \<and> name \<noteq> [])
   | Inl e \<Rightarrow>
       \<not> tc_disabled cfg \<and>
       ((\<exists>attrs x. merge attrs = Some x) \<or>
        (\<exists>x. new_exporter url build (trim_space (tc_endpoint cfg)) (tc_insecure cfg) = Inl x))"
proof -
  define c1 where "c1 = (if tc_service cfg = [] then cfg\<lparr>tc_service := ScopeName\<rparr> else cfg)"
  define c2 where "c2 = (if f64_le (tc_ratio c1) (FNum 0) \<or> f64_less (FNum 1) (tc_ratio c1) then c1\<lparr>tc_ratio := FNum 1\<rparr> else c1)"
  have c: "tc_disabled c1 = tc_disabled cfg" "tc_endpoint c2 = tc_endpoint cfg" "tc_insecure c2 = tc_insecure cfg"
    "tc_ratio c2 =
       (case tc_ratio cfg of
          FNum x \<Rightarrow> if 0 < x \<and> x \<le> 1 then FNum x else FNum 1
        | FInf negative \<Rightarrow> FNum 1
        | FNaN \<Rightarrow> FNaN)" "tc_service c2 \<noteq> []"
    by (auto simp: c1_def c2_def ScopeName_def f64_less_def split: float64.split)
  have service: "(''service.name'', tc_service c2) \<in> set (resource_attrs c2)" by (simp add: resource_attrs_def)
  have run: "setup_tracing url merge build cfg =
    (if tc_disabled c1 then Inr None
     else case merge (resource_attrs c2) of Some e \<Rightarrow> Inl (EWrap ''telemetry: build the resource: '' e []) | None \<Rightarrow>
       if trim_space (tc_endpoint c2) = [] then
         Inr (Some \<lparr>tr_attrs = resource_attrs c2, tr_ratio = tc_ratio c2, tr_exporter = None\<rparr>)
       else case new_exporter url build (trim_space (tc_endpoint c2)) (tc_insecure c2) of
          Inl e \<Rightarrow> Inl e
        | Inr x \<Rightarrow> Inr (Some \<lparr>tr_attrs = resource_attrs c2, tr_ratio = tc_ratio c2, tr_exporter = Some x\<rparr>))"
    unfolding setup_tracing_def c1_def [symmetric] Let_def c2_def [symmetric] ..
  show ?thesis
  proof (cases "tc_disabled cfg")
    case False
    show ?thesis
    proof (cases "merge (resource_attrs c2)")
      case None
      show ?thesis
      proof (cases "trim_space (tc_endpoint cfg) = []")
        case True
        with False None c service show ?thesis unfolding run by (auto simp: exporting_def)
      next
        case endpoint: False
        show ?thesis
        proof (cases "new_exporter url build (trim_space (tc_endpoint cfg)) (tc_insecure cfg)")
          case (Inl e)
          with False None endpoint c show ?thesis unfolding run by simp
        next
          case (Inr x)
          with False None endpoint c service show ?thesis unfolding run by (auto simp: exporting_def)
        qed
      qed
    qed (use False c in \<open>auto simp: run\<close>)
  qed (simp add: run c)
qed

text \<open>
  What the environment can ask for: unset or unreadable it is 1, and whatever its text the ratio
  in force is above zero and at most one, unless the text is NaN in some letter case.
\<close>

lemma sampler_argument:
  assumes "setup_tracing url merge build (config_from_env en service version) = Inr (Some t)"
  shows "if (case en EnvSamplerArg of None \<Rightarrow> False | Some raw \<Rightarrow> to_lower (trim_space raw) = ''nan'')
    then tr_ratio t = FNaN else \<exists>x. tr_ratio t = FNum x \<and> 0 < x \<and> x \<le> 1"
    "(case en EnvSamplerArg of None \<Rightarrow> True | Some raw \<Rightarrow> parse_float (trim_space raw) = None) \<Longrightarrow>
       tr_ratio t = FNum 1"
proof -
  define r where "r = env_float en EnvSamplerArg (FNum 1)"
  have "setup_tracing url merge build cfg = Inr (Some t) \<Longrightarrow>
    tr_ratio t = (case tc_ratio cfg of FNum x \<Rightarrow> if 0 < x \<and> x \<le> 1 then FNum x else FNum 1
                  | FInf negative \<Rightarrow> FNum 1 | FNaN \<Rightarrow> FNaN)" for cfg
    using tracing_ratio by blast
  from this [OF assms] have t: "tr_ratio t = (case r of FNum x \<Rightarrow> if 0 < x \<and> x \<le> 1 then FNum x else FNum 1
      | FInf negative \<Rightarrow> FNum 1 | FNaN \<Rightarrow> FNaN)"
    by (simp add: r_def config_from_env_def Let_def)
  have "r = FNaN \<longleftrightarrow> (case en EnvSamplerArg of None \<Rightarrow> False | Some raw \<Rightarrow> to_lower (trim_space raw) = ''nan'')"
    by (auto simp: r_def env_float_def parse_float_nan [symmetric] split: option.splits)
  with t show "if (case en EnvSamplerArg of None \<Rightarrow> False | Some raw \<Rightarrow> to_lower (trim_space raw) = ''nan'')
    then tr_ratio t = FNaN else \<exists>x. tr_ratio t = FNum x \<and> 0 < x \<and> x \<le> 1"
    by (cases r) auto
  show "tr_ratio t = FNum 1"
    if "case en EnvSamplerArg of None \<Rightarrow> True | Some raw \<Rightarrow> parse_float (trim_space raw) = None"
    using that t by (simp add: r_def env_float_def split: option.splits)
qed

text \<open>
  A URL of another scheme passes the check and is then taken for a bare host and port, so the
  exporter is given an authority that is none.
\<close>

lemma other_scheme_accepted:
  assumes "url_parse url ''ftp://collector:4318'' = Inr u" "url_host url u = ''collector:4318''"
  shows "validate_endpoint url ''ftp://collector:4318'' = None"
    "exporter_options url ''ftp://collector:4318'' insecure =
       WithEndpoint ''ftp://collector:4318'' # (if insecure then [WithInsecure] else [])"
  using assms by (simp_all add: validate_endpoint_def exporter_options_def)

end
