(* ===== verification/Steps.thy ===== *)
theory Steps
  imports Usecase_Contracts
begin

text \<open>
  The use cases call by call. \<open>CreateJob\<close> and \<open>ProcessJob\<close> of theory \<open>Usecase\<close> run to completion; the
  API serves many uploads at once and the pool has several workers, so between two calls on the
  ports other use cases make theirs. Here a use case is a program counter with its local
  variables, and one step is one call on a port. Run alone the steps are the function (the two
  equivalences below); theory \<open>Interleaving\<close> lets them come in any order.
\<close>

section \<open>ProcessJob\<close>

text \<open>
  Where \<open>Execute\<close> is: about to load, to claim the loaded job, to open its original, to run the
  processor, to store what it made, to close the source with the outcome of the transformation, to
  record the failure, to mark the job done; or it has returned.
\<close>

datatype process_pc =
    PLoad
  | PClaim job
  | PRead job
  | PTransform job reader
  | PStore job reader reader
  | PClose job reader "string res"
  | PFail job goerr
  | PFinish job string
  | PReturned "job option \<times> goerr option"

fun process_step ::
  "'w process_job \<Rightarrow> ctx \<Rightarrow> string \<Rightarrow> process_pc \<times> 'w \<Rightarrow> process_pc \<times> 'w" where
  "process_step uc c jobID (PLoad, w) =
     (case GetJob (pj_jobs uc) c jobID w of
        (Inl e, w1) \<Rightarrow> (PReturned (None, Some (EWrap (''process job '' @ jobID @ '': load: '') e [])), w1)
      | (Inr job, w1) \<Rightarrow>
          if Status job \<noteq> StatusPending then
            (PReturned (Some job,
               Some (EWrap (''process job '' @ jobID @ '': '') ErrJobNotPending ('': '' @ Status job))), w1)
          else (PClaim job, w1))"
| "process_step uc c jobID (PClaim job, w) =
     (case UpdateStatus (pj_jobs uc) c jobID StatusProcessing [] None w of
        (Some e, w1) \<Rightarrow> (PReturned (None, Some (EWrap (''process job '' @ jobID @ '': claim: '') e [])), w1)
      | (None, w1) \<Rightarrow> (PRead (job\<lparr>Status := StatusProcessing\<rparr>), w1))"
| "process_step uc c jobID (PRead job, w) =
     (case GetObject (pj_storage uc) c (OriginalKey job) w of
        (Inl e, w1) \<Rightarrow> (PFail job (EWrap (''read original '' @ OriginalKey job @ '': '') e []), w1)
      | (Inr src, w1) \<Rightarrow> (PTransform job src, w1))"
| "process_step uc c jobID (PTransform job src, w) =
     (case Process (pj_processor uc) c (Some src) (Transformation job) w of
        (Inl e, w1) \<Rightarrow> (PClose job src (Inl (EWrap ''transform: '' e [])), w1)
      | (Inr out, w1) \<Rightarrow> (PStore job src out, w1))"
| "process_step uc c jobID (PStore job src out, w) =
     (let rk = result_key (ID job) (Transformation job) in
      case Put (pj_storage uc) c rk (Some out) w of
        (Some e, w1) \<Rightarrow> (PClose job src (Inl (EWrap (''store result '' @ rk @ '': '') e [])), w1)
      | (None, w1) \<Rightarrow> (PClose job src (Inr rk), w1))"
| "process_step uc c jobID (PClose job src r, w) =
     ((case r of Inl e \<Rightarrow> PFail job e | Inr rk \<Rightarrow> PFinish job rk), CloseObject (pj_storage uc) src w)"
| "process_step uc c jobID (PFail job e, w) = (case fail_job uc c job e w of (r, w1) \<Rightarrow> (PReturned r, w1))"
| "process_step uc c jobID (PFinish job rk, w) =
     (case UpdateStatus (pj_jobs uc) c jobID StatusDone rk None w of
        (Some e, w1) \<Rightarrow> (PReturned (None, Some (EWrap (''process job '' @ jobID @ '': mark done: '') e [])), w1)
      | (None, w1) \<Rightarrow> (PReturned (Some (job\<lparr>Status := StatusDone, ResultKey := rk, Error := []\<rparr>), None), w1))"
| "process_step uc c jobID (PReturned r, w) = (PReturned r, w)"

section \<open>CreateJob\<close>

datatype create_pc =
    CStart
  | CPut string
  | CNow string
  | CSave job
  | CEnqueue job
  | CMark job goerr
  | CReturned "job res"

fun create_step ::
  "'w create_job \<Rightarrow> ctx \<Rightarrow> reader option \<Rightarrow> transformation_spec \<Rightarrow> create_pc \<times> 'w \<Rightarrow> create_pc \<times> 'w" where
  "create_step uc c source sp (CStart, w) =
     (case source of
        None \<Rightarrow> (CReturned (Inl ErrNoSource), w)
      | Some _ \<Rightarrow>
          (case spec_validate sp of
             Some e \<Rightarrow> (CReturned (Inl (EWrap ''create job: invalid transformation: '' e [])), w)
           | None \<Rightarrow> (case cj_newID uc w of (i, w1) \<Rightarrow> (CPut i, w1))))"
| "create_step uc c source sp (CPut i, w) =
     (case Put (cj_storage uc) c (original_key i) source w of
        (Some e, w1) \<Rightarrow> (CReturned (Inl (EWrap (''create job '' @ i @ '': store original: '') e [])), w1)
      | (None, w1) \<Rightarrow> (CNow i, w1))"
| "create_step uc c source sp (CNow i, w) = (case cj_now uc w of (t, w1) \<Rightarrow> (CSave (created_job i sp t), w1))"
| "create_step uc c source sp (CSave job, w) =
     (case Save (cj_jobs uc) c (Some job) w of
        (Some e, w1) \<Rightarrow> (CReturned (Inl (EWrap (''create job '' @ ID job @ '': save: '') e [])), w1)
      | (None, w1) \<Rightarrow> (CEnqueue job, w1))"
| "create_step uc c source sp (CEnqueue job, w) =
     (case Enqueue (cj_queue uc) c (ID job) w of
        (None, w1) \<Rightarrow> (CReturned (Inr job), w1)
      | (Some e, w1) \<Rightarrow> (CMark job (EWrap (''create job '' @ ID job @ '': enqueue: '') e []), w1))"
| "create_step uc c source sp (CMark job enqueueErr, w) =
     (case UpdateStatus (cj_jobs uc) c (ID job) StatusFailed [] (Some enqueueErr) w of
        (Some markErr, w1) \<Rightarrow> (CReturned (Inl (EJoin [enqueueErr, EWrap ''mark failed: '' markErr []])), w1)
      | (None, w1) \<Rightarrow> (CReturned (Inl enqueueErr), w1))"
| "create_step uc c source sp (CReturned r, w) = (CReturned r, w)"

section \<open>Run alone, the steps are the function\<close>

text \<open>A bounded run; a use case that has returned stays so.\<close>

fun times :: "nat \<Rightarrow> ('a \<Rightarrow> 'a) \<Rightarrow> 'a \<Rightarrow> 'a" where
  "times 0 f x = x"
| "times (Suc n) f x = times n f (f x)"

lemma process_returned [simp]: "times n (process_step uc c i) (PReturned r, w) = (PReturned r, w)"
  by (induction n) simp_all

lemma create_returned [simp]: "times n (create_step uc c src sp) (CReturned r, w) = (CReturned r, w)"
  by (induction n) simp_all

lemma process_run:
  "times (7 + n) (process_step uc c i) (PLoad, w) =
     (case process_job_execute uc c i w of (r, w') \<Rightarrow> (PReturned r, w'))"
  by (simp add: process_job_execute_def transform_def numeral_eq_Suc Let_def
      split: prod.split sum.split option.split)

lemma create_run:
  "times (6 + n) (create_step uc c src sp) (CStart, w) =
     (case create_job_execute uc c src sp w of (r, w') \<Rightarrow> (CReturned r, w'))"
  by (simp add: create_job_execute_def numeral_eq_Suc Let_def
      split: prod.split sum.split option.split)

section \<open>No interference keeps a use case from returning\<close>

text \<open>How many calls a use case has left at most.\<close>

fun process_left :: "process_pc \<Rightarrow> nat" where
  "process_left PLoad = 7"
| "process_left (PClaim j) = 6"
| "process_left (PRead j) = 5"
| "process_left (PTransform j src) = 4"
| "process_left (PStore j src out) = 3"
| "process_left (PClose j src r) = 2"
| "process_left (PFail j e) = 1"
| "process_left (PFinish j rk) = 1"
| "process_left (PReturned r) = 0"

fun create_left :: "create_pc \<Rightarrow> nat" where
  "create_left CStart = 6"
| "create_left (CPut i) = 5"
| "create_left (CNow i) = 4"
| "create_left (CSave j) = 3"
| "create_left (CEnqueue j) = 2"
| "create_left (CMark j e) = 1"
| "create_left (CReturned r) = 0"

lemma process_left_step: "process_left (fst (process_step uc c i (pc, w))) \<le> process_left pc - 1"
  by (cases pc) (auto simp: Let_def split: prod.split sum.split option.split)

lemma create_left_step: "create_left (fst (create_step uc c src sp (pc, w))) \<le> create_left pc - 1"
  by (cases pc) (auto split: prod.split option.split)

lemma process_left_0: "process_left pc = 0 \<longleftrightarrow> (\<exists>r. pc = PReturned r)"
  by (cases pc) auto

lemma create_left_0: "create_left pc = 0 \<longleftrightarrow> (\<exists>r. pc = CReturned r)"
  by (cases pc) auto

text \<open>A run of \<open>n\<close> calls, with whatever \<open>others\<close> does to the world before each.\<close>

fun interfered :: "nat \<Rightarrow> (nat \<Rightarrow> 'w \<Rightarrow> 'w) \<Rightarrow> ('a \<times> 'w \<Rightarrow> 'a \<times> 'w) \<Rightarrow> 'a \<times> 'w \<Rightarrow> 'a \<times> 'w" where
  "interfered 0 others f s = s"
| "interfered (Suc n) others f (pc, w) = interfered n others f (f (pc, others n w))"

lemma interfered_measure:
  assumes "\<And>pc w. left (fst (f (pc, w))) \<le> left pc - (1::nat)"
  shows "left (fst (interfered n others f (pc, w))) \<le> left pc - n"
proof (induction n arbitrary: pc w)
  case (Suc n)
  obtain pc1 w1 where s: "f (pc, others n w) = (pc1, w1)" by fastforce
  with assms [of pc "others n w"] Suc [of pc1 w1] show ?case by simp
qed simp


end
