(* ===== verification/Interleaving.thy ===== *)
theory Interleaving
  imports Steps Memory_Backend
begin

text \<open>
  Uploads and workers at once. A system is a world and the use cases in progress; at each step one
  of them makes its next call on a port, or an upload arrives, or a worker takes an identifier off
  the queue. What holds in every state the system can reach is proved from the contracts of
  theory \<open>Ports\<close>: each use case keeps a fact of its own that the others' calls do not disturb,
  and its calls keep what the stored jobs promise.
\<close>

section \<open>What a stored job promises\<close>

text \<open>\<open>present k\<close>: there is an object under the key \<open>k\<close>.\<close>

definition job_ok :: "(string \<Rightarrow> bool) \<Rightarrow> string \<Rightarrow> job \<Rightarrow> bool" where
  "job_ok present i j \<longleftrightarrow>
     ID j = i \<and> spec_ok (Transformation j) \<and> OriginalKey j = original_key i \<and> status_valid (Status j) \<and>
     present (original_key i) \<and>
     (ResultKey j = [] \<or> ResultKey j = result_key i (Transformation j) \<and> present (ResultKey j)) \<and>
     (Status j = StatusDone \<longrightarrow> ResultKey j \<noteq> []) \<and> (Error j \<noteq> [] \<longleftrightarrow> Status j = StatusFailed)"

text \<open>What never changes about a job, once it is stored.\<close>

definition same_job :: "job \<Rightarrow> job \<Rightarrow> bool" where
  "same_job j j' \<longleftrightarrow>
     ID j' = ID j \<and> OriginalKey j' = OriginalKey j \<and> Transformation j' = Transformation j \<and>
     CreatedAt j' = CreatedAt j"

lemma same_job_refl [simp]: "same_job j j"
  by (simp add: same_job_def)

lemma same_job_trans: "same_job a b \<Longrightarrow> same_job b c \<Longrightarrow> same_job a c"
  by (simp add: same_job_def)

lemma same_job_simps [simp]:
  "same_job j (updated_job s rk pe t k) = same_job j k" "same_job (j\<lparr>Status := s\<rparr>) k = same_job j k"
  by (simp_all add: same_job_def)

definition extends :: "(string \<rightharpoonup> job) \<Rightarrow> (string \<rightharpoonup> job) \<Rightarrow> bool" where
  "extends m m' \<longleftrightarrow> (\<forall>i j. m i = Some j \<longrightarrow> (\<exists>j'. m' i = Some j' \<and> same_job j j'))"

lemma extends_refl [simp]: "extends m m"
  by (auto simp: extends_def)

lemma extends_new: "m i = None \<Longrightarrow> extends m (m(i \<mapsto> j))"
  by (auto simp: extends_def)

lemma extends_update: "m i = Some j \<Longrightarrow> same_job j j' \<Longrightarrow> extends m (m(i \<mapsto> j'))"
  by (auto simp: extends_def)

lemma extends_trans: "extends a b \<Longrightarrow> extends b c \<Longrightarrow> extends a c"
  unfolding extends_def by (blast intro: same_job_trans)

lemma extends_dom: "extends m m' \<Longrightarrow> dom m \<subseteq> dom m'"
  by (force simp: extends_def)

text \<open>The updates the use cases make keep the promise.\<close>

lemma err_string_wrap [simp]: "err_string (Some (EWrap (c # p) e q)) \<noteq> []"
  by (simp add: err_string_def)

lemma err_string_none [simp]: "err_string None = []"
  by (simp add: err_string_def)

lemma job_ok_created:
  "spec_ok sp \<Longrightarrow> present (original_key i) \<Longrightarrow> job_ok present i (created_job i sp t)"
  by (simp add: job_ok_def created_job_def status_valid_def status_defs)

lemma job_ok_claimed: "job_ok present i j \<Longrightarrow> job_ok present i (updated_job StatusProcessing [] None t j)"
  by (simp add: job_ok_def status_valid_def status_defs)

lemma job_ok_failed:
  "job_ok present i j \<Longrightarrow> err_string (Some e) \<noteq> [] \<Longrightarrow>
   job_ok present i (updated_job StatusFailed [] (Some e) t j)"
  by (simp add: job_ok_def status_valid_def status_defs)

lemma job_ok_finished:
  "job_ok present i j \<Longrightarrow> rk = result_key i (Transformation j) \<Longrightarrow> present rk \<Longrightarrow>
   job_ok present i (updated_job StatusDone rk None t j)"
  by (simp add: job_ok_def status_valid_def status_defs)

lemma job_ok_mono: "job_ok present i j \<Longrightarrow> (\<And>k. present k \<Longrightarrow> present' k) \<Longrightarrow> job_ok present' i j"
  by (auto simp: job_ok_def)

lemmas job_ok_updates = job_ok_claimed job_ok_failed job_ok_finished

section \<open>What a use case in progress knows\<close>

text \<open>
  A creation, a run of \<open>ProcessJob\<close>, and what a delivery is between the two: in the hand of the
  goroutine that \<open>ConsumeDeliveries\<close> started, under its context, or dropped by it.
\<close>

datatype activity =
    Creating ctx "reader option" transformation_spec create_pc
  | Delivering ctx string
  | Dropped ctx string
  | Processing ctx string process_pc

text \<open>The identifier a creation holds that is not stored yet.\<close>

fun reserved :: "activity \<Rightarrow> string set" where
  "reserved (Creating c src sp (CPut i)) = {i}"
| "reserved (Creating c src sp (CNow i)) = {i}"
| "reserved (Creating c src sp (CSave j)) = {ID j}"
| "reserved a = {}"

text \<open>The job a use case works on is stored, as far as it never changes.\<close>

definition works_on :: "(string \<rightharpoonup> job) \<Rightarrow> string \<Rightarrow> job \<Rightarrow> bool" where
  "works_on m i j \<longleftrightarrow> ID j = i \<and> (\<exists>k. m i = Some k \<and> same_job j k)"

fun knows :: "(int \<Rightarrow> bool) \<Rightarrow> (string \<Rightarrow> bool) \<Rightarrow> (string \<rightharpoonup> job) \<Rightarrow> activity \<Rightarrow> bool" where
  "knows tk present m (Creating c src sp CStart) = True"
| "knows tk present m (Creating c src sp (CPut i)) = spec_ok sp"
| "knows tk present m (Creating c src sp (CNow i)) = (spec_ok sp \<and> present (original_key i))"
| "knows tk present m (Creating c src sp (CSave j)) =
     (spec_ok sp \<and> present (original_key (ID j)) \<and> (\<exists>t. tk t \<and> j = created_job (ID j) sp t))"
| "knows tk present m (Creating c src sp (CEnqueue j)) = (\<exists>k. m (ID j) = Some k)"
| "knows tk present m (Creating c src sp (CMark j e)) =
     ((\<exists>k. m (ID j) = Some k) \<and> (\<exists>x. e = EWrap (''create job '' @ ID j @ '': enqueue: '') x []))"
| "knows tk present m (Creating c src sp (CReturned r)) = True"
| "knows tk present m (Delivering c i) = (\<exists>k. m i = Some k)"
| "knows tk present m (Dropped c i) = True"
| "knows tk present m (Processing c i PLoad) = (\<exists>k. m i = Some k)"
| "knows tk present m (Processing c i (PClaim j)) = works_on m i j"
| "knows tk present m (Processing c i (PRead j)) = works_on m i j"
| "knows tk present m (Processing c i (PTransform j src)) = works_on m i j"
| "knows tk present m (Processing c i (PStore j src out)) = works_on m i j"
| "knows tk present m (Processing c i (PClose j src r)) =
     (works_on m i j \<and> (case r of Inl e \<Rightarrow> True | Inr rk \<Rightarrow> rk = result_key i (Transformation j) \<and> present rk))"
| "knows tk present m (Processing c i (PFail j e)) = works_on m i j"
| "knows tk present m (Processing c i (PFinish j rk)) =
     (works_on m i j \<and> rk = result_key i (Transformation j) \<and> present rk)"
| "knows tk present m (Processing c i (PReturned r)) = True"

text \<open>What another use case does leaves it so.\<close>

lemma works_on_stable: "works_on m i j \<Longrightarrow> extends m m' \<Longrightarrow> works_on m' i j"
  unfolding works_on_def extends_def by (blast intro: same_job_trans)

lemma stored_stable: "m i = Some k \<Longrightarrow> extends m m' \<Longrightarrow> \<exists>k. m' i = Some k"
  unfolding extends_def by blast

lemma knows_stable:
  "knows tk present m a \<Longrightarrow> extends m m' \<Longrightarrow> (\<And>k. present k \<Longrightarrow> present' k) \<Longrightarrow> knows tk present' m' a"
  by (induction tk present m a rule: knows.induct)
    (auto intro: works_on_stable dest: stored_stable split: sum.splits)

section \<open>The invariant and how one step keeps it\<close>

text \<open>
  Of a state: the keys that hold an object, the stored jobs, the identifiers waiting and those
  ever made, and the use cases in progress.
\<close>

definition system_ok ::
  "(int \<Rightarrow> bool) \<Rightarrow> (string \<Rightarrow> bool) \<Rightarrow> (string \<rightharpoonup> job) \<Rightarrow> string set \<Rightarrow> string set \<Rightarrow> activity list \<Rightarrow> bool" where
  "system_ok tk present m queued used as \<longleftrightarrow>
     (\<forall>i j. m i = Some j \<longrightarrow> job_ok present i j) \<and> dom m \<subseteq> used \<and> queued \<subseteq> dom m \<and>
     (\<forall>a \<in> set as. knows tk present m a \<and> reserved a \<subseteq> used \<and> reserved a \<inter> dom m = {}) \<and>
     (\<forall>k < length as. \<forall>l < length as. k \<noteq> l \<longrightarrow> reserved (as ! k) \<inter> reserved (as ! l) = {})"

definition world_ok :: "(string \<Rightarrow> bool) \<Rightarrow> (string \<rightharpoonup> job) \<Rightarrow> string set \<Rightarrow> bool" where
  "world_ok present m queued \<longleftrightarrow> (\<forall>i j. m i = Some j \<longrightarrow> job_ok present i j) \<and> queued \<subseteq> dom m"

text \<open>What the step of one use case, from \<open>a\<close> to \<open>a'\<close>, guarantees.\<close>

definition keeps ::
  "(int \<Rightarrow> bool) \<Rightarrow> activity \<Rightarrow> activity \<Rightarrow> (string \<Rightarrow> bool) \<Rightarrow> (string \<rightharpoonup> job) \<Rightarrow> string set \<Rightarrow>
   (string \<Rightarrow> bool) \<Rightarrow> (string \<rightharpoonup> job) \<Rightarrow> string set \<Rightarrow> string set \<Rightarrow> bool" where
  "keeps tk a a' present m used present' m' queued' used' \<longleftrightarrow>
     (\<forall>k. present k \<longrightarrow> present' k) \<and> extends m m' \<and> dom m' \<subseteq> dom m \<union> reserved a \<and>
     (\<forall>i j. m' i = Some j \<longrightarrow> job_ok present' i j) \<and> queued' \<subseteq> dom m' \<and> used \<subseteq> used' \<and>
     knows tk present' m' a' \<and> reserved a' \<subseteq> reserved a \<union> (used' - used) \<and> reserved a' \<subseteq> used' \<and>
     reserved a' \<inter> dom m' = {}"

lemma system_ok_step:
  assumes "system_ok tk present m queued used as" "k < length as"
    and "keeps tk (as ! k) a' present m used present' m' queued' used'"
  shows "system_ok tk present' m' queued' used' (as[k := a'])"
proof -
  let ?a = "as ! k"
  have a: "?a \<in> set as" using assms(2) by simp
  have inv: "dom m \<subseteq> used" "\<And>a. a \<in> set as \<Longrightarrow> knows tk present m a"
    "\<And>a. a \<in> set as \<Longrightarrow> reserved a \<subseteq> used" "\<And>a. a \<in> set as \<Longrightarrow> reserved a \<inter> dom m = {}"
    "\<And>p q. p < length as \<Longrightarrow> q < length as \<Longrightarrow> p \<noteq> q \<Longrightarrow> reserved (as ! p) \<inter> reserved (as ! q) = {}"
    using assms(1) by (simp_all add: system_ok_def)
  have kp: "\<And>k. present k \<Longrightarrow> present' k" "extends m m'" "dom m' \<subseteq> dom m \<union> reserved ?a"
    "\<forall>i j. m' i = Some j \<longrightarrow> job_ok present' i j" "queued' \<subseteq> dom m'" "used \<subseteq> used'"
    "knows tk present' m' a'" "reserved a' \<subseteq> reserved ?a \<union> (used' - used)" "reserved a' \<subseteq> used'"
    "reserved a' \<inter> dom m' = {}"
    using assms(3) by (simp_all add: keeps_def)
  have others: "knows tk present' m' (as ! l) \<and> reserved (as ! l) \<subseteq> used' \<and> reserved (as ! l) \<inter> dom m' = {} \<and>
      reserved a' \<inter> reserved (as ! l) = {}"
    if "l < length as" "l \<noteq> k" for l
  proof -
    have b: "as ! l \<in> set as" using that by simp
    have d: "reserved ?a \<inter> reserved (as ! l) = {}" using inv(5) that assms(2) by blast
    have "knows tk present' m' (as ! l)" by (rule knows_stable [OF inv(2) [OF b] kp(2,1)])
    moreover have "reserved (as ! l) \<subseteq> used'" using inv(3) [OF b] kp(6) by (rule order_trans)
    moreover have "reserved (as ! l) \<inter> dom m' = {}" using inv(4) [OF b] d kp(3) by fast
    moreover have "reserved a' \<inter> reserved (as ! l) = {}" using inv(3) [OF b] d kp(8) by fast
    ultimately show ?thesis by simp
  qed
  have "knows tk present' m' b \<and> reserved b \<subseteq> used' \<and> reserved b \<inter> dom m' = {}" if "b \<in> set (as[k := a'])" for b
  proof -
    from that obtain l where "l < length as" "b = as[k := a'] ! l" by (auto simp: in_set_conv_nth)
    then show ?thesis using others [of l] kp(7,9,10) assms(2) by (cases "l = k") simp_all
  qed
  moreover have "dom m' \<subseteq> used'" using inv(1) inv(3) [OF a] kp(3,6) by fast
  moreover have "reserved (as[k := a'] ! p) \<inter> reserved (as[k := a'] ! q) = {}"
    if "p < length as" "q < length as" "p \<noteq> q" for p q
    using that inv(5) [of p q] others [of p] others [of q] by (cases "p = k"; cases "q = k") (simp_all add: Int_commute)
  ultimately show ?thesis using kp(4,5) by (simp add: system_ok_def)
qed

text \<open>What else can happen: a use case begins, and an identifier leaves the queue.\<close>

lemma system_ok_begin:
  assumes "system_ok tk present m queued used as" "knows tk present m a" "reserved a = {}"
  shows "system_ok tk present m queued used (as @ [a])"
  using assms by (auto simp: system_ok_def nth_append less_Suc_eq)

lemma system_ok_take:
  "system_ok tk present m queued used as \<Longrightarrow> queued' \<subseteq> queued \<Longrightarrow> used \<subseteq> used' \<Longrightarrow>
   system_ok tk present m queued' used' as"
  unfolding system_ok_def by (meson order_trans)

lemma system_ok_world: "system_ok tk present m queued used as \<Longrightarrow> world_ok present m queued"
  by (simp add: system_ok_def world_ok_def)

lemma system_ok_at:
  assumes "system_ok tk present m queued used as" "k < length as"
  shows "knows tk present m (as ! k)" "reserved (as ! k) \<subseteq> used" "reserved (as ! k) \<inter> dom m = {}"
    "dom m \<subseteq> used"
  using assms nth_mem [OF assms(2)] by (simp_all add: system_ok_def)

text \<open>The shapes a step can have.\<close>

lemma keeps_quiet:
  assumes "world_ok present m queued" "used \<subseteq> used'" "reserved a \<subseteq> used" "reserved a \<inter> dom m = {}"
    and "\<And>k. present k \<Longrightarrow> present' k" "knows tk present' m a'" "reserved a' \<subseteq> reserved a"
  shows "keeps tk a a' present m used present' m queued used'"
  using assms job_ok_mono [of present _ _ present'] unfolding keeps_def world_ok_def by (auto 0 3)

text \<open>A delivery changes hands: nothing else does.\<close>

lemma system_ok_swap:
  assumes "system_ok tk present m queued used as" "k < length as" "knows tk present m a'" "reserved a' = {}"
  shows "system_ok tk present m queued used (as[k := a'])"
  by (rule system_ok_step [OF assms(1,2)], rule keeps_quiet [OF system_ok_world [OF assms(1)]])
    (use assms system_ok_at [OF assms(1,2)] in auto)

lemma keeps_update:
  assumes "world_ok present m queued" "used \<subseteq> used'" "m i = Some j" "same_job j j'" "job_ok present i j'"
    and "knows tk present (m(i \<mapsto> j')) a'" "reserved a' = {}"
  shows "keeps tk a a' present m used present (m(i \<mapsto> j')) queued used'"
  using assms extends_update [of m i j j'] unfolding keeps_def world_ok_def by auto

lemma keeps_save:
  assumes "world_ok present m queued" "used \<subseteq> used'" "reserved a = {i}" "reserved a \<inter> dom m = {}"
    and "job_ok present i j" "knows tk present (m(i \<mapsto> j)) a'" "reserved a' = {}"
  shows "keeps tk a a' present m used present (m(i \<mapsto> j)) queued used'"
  using assms extends_new [of m i j] unfolding keeps_def world_ok_def by auto

lemma keeps_enqueue:
  assumes "world_ok present m queued" "used \<subseteq> used'" "i \<in> dom m" "knows tk present m a'" "reserved a' = {}"
    and "queued' \<subseteq> insert i queued"
  shows "keeps tk a a' present m used present m queued' used'"
  using assms unfolding keeps_def world_ok_def by auto

lemma keeps_new_id:
  assumes "world_ok present m queued" "used \<subseteq> used'" "dom m \<subseteq> used" "reserved a' = {i}" "i \<notin> used" "i \<in> used'"
    and "knows tk present m a'"
  shows "keeps tk a a' present m used present m queued used'"
  using assms unfolding keeps_def world_ok_def by auto

section \<open>The steps of the use cases, over any adapters\<close>

text \<open>Only the first step of a creation makes an identifier.\<close>

lemma create_reserved:
  "pc \<noteq> CStart \<Longrightarrow> create_step uc c src sp (pc, w) = (pc', w') \<Longrightarrow>
   reserved (Creating c src sp pc') \<subseteq> reserved (Creating c src sp pc)"
  by (cases pc) (auto split: prod.splits option.splits)

definition stored_at :: "(string \<Rightarrow> string option) \<Rightarrow> (string \<rightharpoonup> string) \<Rightarrow> string \<Rightarrow> bool" where
  "stored_at loc m k \<longleftrightarrow> (\<forall>p. loc k = Some p \<longrightarrow> m p \<noteq> None)"

lemma stored_at_put: "stored_at loc m k \<Longrightarrow> stored_at loc (store_at l b m) k"
  by (cases l) (auto simp: stored_at_def)

lemma stored_at_self: "stored_at loc (store_at (loc k) b m) k"
  by (auto simp: stored_at_def)

text \<open>
  What a set of adapters under load can do. The queue delivers an identifier that waits at any time
  and any number of times; it lets go of one when it likes, as time and whatever else does not
  touch the objects and the jobs pass by. An identifier is never made twice.
\<close>

inductive system_step ::
  "'w create_job \<Rightarrow> 'w process_job \<Rightarrow> ('w \<Rightarrow> string \<rightharpoonup> string) \<Rightarrow> ('w \<Rightarrow> string \<rightharpoonup> job) \<Rightarrow>
   ('w \<Rightarrow> string multiset) \<Rightarrow> 'w \<times> string set \<times> activity list \<Rightarrow> 'w \<times> string set \<times> activity list \<Rightarrow> bool"
  for cu :: "'w create_job" and pu :: "'w process_job" and objs jobs waiting where
  upload: "system_step cu pu objs jobs waiting (w, U, as) (w, U, as @ [Creating c src sp CStart])"
| deliver: "i \<in># waiting w \<Longrightarrow>
    system_step cu pu objs jobs waiting (w, U, as) (w, U, as @ [Processing c i PLoad])"
| create: "k < length as \<Longrightarrow> as ! k = Creating c src sp pc \<Longrightarrow> (pc = CStart \<Longrightarrow> fst (cj_newID cu w) \<notin> U) \<Longrightarrow>
    create_step cu c src sp (pc, w) = (pc', w') \<Longrightarrow>
    system_step cu pu objs jobs waiting (w, U, as)
      (w', U \<union> reserved (Creating c src sp pc'), as[k := Creating c src sp pc'])"
| process: "k < length as \<Longrightarrow> as ! k = Processing c i pc \<Longrightarrow> process_step pu c i (pc, w) = (pc', w') \<Longrightarrow>
    system_step cu pu objs jobs waiting (w, U, as) (w', U, as[k := Processing c i pc'])"
| outside: "objs w' = objs w \<Longrightarrow> jobs w' = jobs w \<Longrightarrow> waiting w' \<subseteq># waiting w \<Longrightarrow>
    system_step cu pu objs jobs waiting (w, U, as) (w', U, as)"

text \<open>
  The use cases with a clock whose times the repository can represent (\<open>tk\<close>). \<open>U\<close> and \<open>U'\<close> are the
  identifiers ever made before and after a step.
\<close>

locale timed_env =
  create_env st loc objs rp storable jobs qp waiting pp nid nw
  for st :: "'w storage_port" and loc and objs
    and rp :: "'w repo_port" and storable and jobs
    and qp :: "'w queue_port" and waiting and pp :: "'w processor_port"
    and nid :: "'w \<Rightarrow> string \<times> 'w" and nw :: "'w \<Rightarrow> int \<times> 'w" +
  fixes tk :: "int \<Rightarrow> bool"
  assumes nw_time: "nw w = (t, w') \<Longrightarrow> tk t"
    and time_storable: "spec_ok sp \<Longrightarrow> tk t \<Longrightarrow> storable (created_job i sp t)"
begin

lemma put_present:
  assumes "Put st c k d w = (x, w')" "stored_at loc (objs w) l"
  shows "stored_at loc (objs w') l"
  using assms put_ok [of c k d w w'] put_err [of c k d w _ w'] by (cases x) (auto intro: stored_at_put)

lemma put_presents: "Put st c k d w = (None, w') \<Longrightarrow> stored_at loc (objs w') k"
  using put_ok [of c k d w w'] by (auto intro: stored_at_self)

lemma quiet_keeps:
  assumes "world_ok (stored_at loc (objs w)) (jobs w) (set_mset (waiting w))"
    and "jobs w' = jobs w" "waiting w' = waiting w" "U \<subseteq> U'"
    and "\<And>k. stored_at loc (objs w) k \<Longrightarrow> stored_at loc (objs w') k"
    and "knows tk (stored_at loc (objs w')) (jobs w) a'" "reserved a \<subseteq> U"
    and "reserved a \<inter> dom (jobs w) = {}" "reserved a' \<subseteq> reserved a"
  shows "keeps tk a a' (stored_at loc (objs w)) (jobs w) U
           (stored_at loc (objs w')) (jobs w') (set_mset (waiting w')) U'"
  unfolding assms(2,3) by (rule keeps_quiet) (use assms in auto)

lemma update_keeps:
  assumes "UpdateStatus rp c i s rk pe w = (x, w')" "jobs w i = Some k"
    and wo: "world_ok (stored_at loc (objs w)) (jobs w) (set_mset (waiting w))"
    and jo: "\<And>t. job_ok (stored_at loc (objs w)) i (updated_job s rk pe t k)"
    and kn: "knows tk (stored_at loc (objs w)) (jobs w) a'" and r: "reserved a = {}" "reserved a' = {}"
    and u: "U \<subseteq> U'"
  shows "keeps tk a a' (stored_at loc (objs w)) (jobs w) U
           (stored_at loc (objs w')) (jobs w') (set_mset (waiting w')) U'"
proof -
  have o: "objs w' = objs w" "waiting w' = waiting w"
    using upd_other [OF assms(1)] by simp_all
  from assms(1,2) show ?thesis
  proof (cases rule: upd_cases)
    case 1
    show ?thesis by (rule quiet_keeps) (use wo 1 o u kn r in simp_all)
  next
    case (2 t)
    have e: "extends (jobs w) ((jobs w)(i \<mapsto> updated_job s rk pe t k))"
      using assms(2) by (rule extends_update) simp
    show ?thesis
      unfolding 2 o
      by (rule keeps_update [OF wo u assms(2) _ jo]) (use kn e r in \<open>auto elim: knows_stable\<close>)
  qed
qed

lemma process_keeps:
  assumes step: "process_step (new_process_job st rp pp) c i (pc, w) = (pc', w')"
    and wo: "world_ok (stored_at loc (objs w)) (jobs w) (set_mset (waiting w))"
    and kn: "knows tk (stored_at loc (objs w)) (jobs w) (Processing c i pc)" and U: "U \<subseteq> U'"
  shows "keeps tk (Processing c i pc) (Processing c i pc') (stored_at loc (objs w)) (jobs w) U
           (stored_at loc (objs w')) (jobs w') (set_mset (waiting w')) U'"
proof -
  have jo: "job_ok (stored_at loc (objs w)) i k" if "jobs w i = Some k" for k
    using wo that by (simp add: world_ok_def)
  have wk: "\<exists>k. jobs w i = Some k \<and> same_job j k \<and> ID j = i \<and> job_ok (stored_at loc (objs w)) i k"
    if "works_on (jobs w) i j" for j
    using that jo by (auto simp: works_on_def)
  show ?thesis
  proof (cases pc)
    case PLoad
    obtain x w1 where g: "GetJob rp c i w = (x, w1)" by fastforce
    have w1: "w' = w1" and kp: "knows tk (stored_at loc (objs w)) (jobs w) (Processing c i pc')"
      using step g load_ok [of c i w _ w1] jo
      by (auto simp: PLoad new_process_job_def works_on_def job_ok_def split: sum.splits if_splits)
    show ?thesis
      by (rule quiet_keeps [OF wo])
        (use load_jobs [OF g] load_other [OF g] w1 kp in \<open>simp_all add: U PLoad\<close>)
  next
    case (PClaim j)
    obtain x w1 where u: "UpdateStatus rp c i StatusProcessing [] None w = (x, w1)" by fastforce
    from wk kn obtain k where k: "jobs w i = Some k" "same_job j k" "ID j = i"
      "job_ok (stored_at loc (objs w)) i k" by (auto simp: PClaim)
    have w1: "w' = w1" and kp: "knows tk (stored_at loc (objs w)) (jobs w) (Processing c i pc')"
      and rs: "reserved (Processing c i pc') = {}"
      using step u k by (auto simp: PClaim new_process_job_def works_on_def split: option.splits)
    show ?thesis
      unfolding w1 by (rule update_keeps [OF u k(1) wo job_ok_claimed [OF k(4)] kp]) (simp_all add: U PClaim)
  next
    case (PRead j)
    obtain x w1 where g: "GetObject st c (OriginalKey j) w = (x, w1)" by fastforce
    have w1: "w' = w1" and kp: "knows tk (stored_at loc (objs w)) (jobs w) (Processing c i pc')"
      using step g kn by (auto simp: PRead new_process_job_def split: sum.splits)
    show ?thesis
      by (rule quiet_keeps [OF wo])
        (use get_other [OF g] get_objs [OF g] w1 kp in \<open>simp_all add: U PRead\<close>)
  next
    case (PTransform j src)
    obtain x w1 where g: "Process pp c (Some src) (Transformation j) w = (x, w1)" by fastforce
    have w1: "w' = w1" and kp: "knows tk (stored_at loc (objs w)) (jobs w) (Processing c i pc')"
      using step g kn by (auto simp: PTransform new_process_job_def split: sum.splits)
    show ?thesis
      by (rule quiet_keeps [OF wo])
        (use process_other [OF g] w1 kp in \<open>simp_all add: U PTransform\<close>)
  next
    case (PStore j src out)
    obtain x w1 where g: "Put st c (result_key (ID j) (Transformation j)) (Some out) w = (x, w1)" by fastforce
    from kn have idj: "works_on (jobs w) i j" "ID j = i" by (auto simp: PStore works_on_def)
    have w1: "w' = w1" and kp: "knows tk (stored_at loc (objs w1)) (jobs w) (Processing c i pc')"
      using step g idj put_presents [of c "result_key (ID j) (Transformation j)" "Some out" w w1]
      by (auto simp: PStore new_process_job_def Let_def split: option.splits)
    show ?thesis
      by (rule quiet_keeps [OF wo])
        (use put_other [OF g] put_present [OF g] w1 kp in \<open>simp_all add: U PStore\<close>)
  next
    case (PClose j src r)
    have w1: "w' = CloseObject st src w" and kp: "knows tk (stored_at loc (objs w)) (jobs w) (Processing c i pc')"
      using step kn by (auto simp: PClose new_process_job_def split: sum.splits)
    show ?thesis
      by (rule quiet_keeps [OF wo])
        (use close_all w1 kp in \<open>simp_all add: U PClose\<close>)
  next
    case (PFail j e)
    from wk kn obtain k where k: "jobs w i = Some k" "same_job j k" "ID j = i"
      "job_ok (stored_at loc (objs w)) i k" by (auto simp: PFail)
    let ?e = "EWrap (''process job '' @ ID j @ '': '') e []"
    obtain x w1 where u: "UpdateStatus rp c i StatusFailed [] (Some ?e) w = (x, w1)" by fastforce
    have w1: "w' = w1" and kp: "knows tk (stored_at loc (objs w)) (jobs w) (Processing c i pc')"
      using step u k(3) by (auto simp: PFail fail_job_def new_process_job_def Let_def split: option.splits)
    show ?thesis
      unfolding w1
      by (rule update_keeps [OF u k(1) wo job_ok_failed [OF k(4)] kp]) (simp_all add: U PFail)
  next
    case (PFinish j rk)
    from wk kn obtain k where k: "jobs w i = Some k" "same_job j k" "ID j = i"
      "job_ok (stored_at loc (objs w)) i k" by (auto simp: PFinish)
    obtain x w1 where u: "UpdateStatus rp c i StatusDone rk None w = (x, w1)" by fastforce
    have w1: "w' = w1" and kp: "knows tk (stored_at loc (objs w)) (jobs w) (Processing c i pc')"
      using step u by (auto simp: PFinish new_process_job_def split: option.splits)
    have rk: "rk = result_key i (Transformation k)" "stored_at loc (objs w) rk"
      using kn k(2) by (auto simp: PFinish same_job_def)
    show ?thesis
      unfolding w1
      by (rule update_keeps [OF u k(1) wo job_ok_finished [OF k(4) rk] kp]) (simp_all add: U PFinish)
  next
    case (PReturned r)
    show ?thesis by (rule quiet_keeps [OF wo]) (use step in \<open>auto simp: U PReturned\<close>)
  qed
qed

text \<open>
  A creation needs two things more: that the job it saves is one the repository represents, and
  that the identifier it draws was never drawn before.
\<close>

lemma create_keeps:
  assumes step: "create_step (new_create_job st rp qp nid nw) c src sp (pc, w) = (pc', w')"
    and wo: "world_ok (stored_at loc (objs w)) (jobs w) (set_mset (waiting w))"
    and kn: "knows tk (stored_at loc (objs w)) (jobs w) (Creating c src sp pc)"
    and du: "dom (jobs w) \<subseteq> U" and ru: "reserved (Creating c src sp pc) \<subseteq> U"
    and rd: "reserved (Creating c src sp pc) \<inter> dom (jobs w) = {}"
    and fresh: "pc = CStart \<Longrightarrow> fst (nid w) \<notin> U"
    and U: "U \<subseteq> U'" and ru': "reserved (Creating c src sp pc') \<subseteq> U'"
  shows "keeps tk (Creating c src sp pc) (Creating c src sp pc') (stored_at loc (objs w)) (jobs w) U
           (stored_at loc (objs w')) (jobs w') (set_mset (waiting w')) U'"
proof (cases pc)
  case CStart
  show ?thesis
  proof (cases "src = None \<or> spec_validate sp \<noteq> None")
    case True
    then have "w' = w" and "\<exists>r. pc' = CReturned r"
      using step by (auto simp: CStart split: option.splits)
    then show ?thesis by (intro quiet_keeps [OF wo]) (auto simp: U CStart)
  next
    case False
    obtain i w1 where n: "nid w = (i, w1)" by fastforce
    from False have f: "\<exists>d. src = Some d" "spec_validate sp = None" by auto
    have p: "w' = w1" "pc' = CPut i"
      using step f n by (auto simp: CStart new_create_job_def split: option.splits)
    have sp: "spec_ok sp" using f(2) by (simp only: spec_validate_None)
    note o = nid_other [OF n]
    show ?thesis
      using o ru' fresh [OF CStart] n unfolding p
      by (auto intro!: keeps_new_id [OF wo U du, of _ i] simp: sp)
  qed
next
  case (CPut i)
  obtain x w1 where g: "Put st c (original_key i) src w = (x, w1)" by fastforce
  have w1: "w' = w1" and kp: "knows tk (stored_at loc (objs w1)) (jobs w) (Creating c src sp pc')"
    and rs: "reserved (Creating c src sp pc') \<subseteq> {i}"
    using step g kn put_presents [of c "original_key i" src w w1]
    by (auto simp: CPut new_create_job_def split: option.splits)
  show ?thesis
    by (rule quiet_keeps [OF wo])
      (use put_other [OF g] put_present [OF g] w1 kp rs ru rd in \<open>simp_all add: U CPut\<close>)
next
  case (CNow i)
  obtain t w1 where g: "nw w = (t, w1)" by fastforce
  have w1: "w' = w1" "pc' = CSave (created_job i sp t)"
    using step g by (auto simp: CNow new_create_job_def)
  show ?thesis
    by (rule quiet_keeps [OF wo])
      (use nw_other [OF g] nw_time [OF g] w1 kn ru rd in \<open>auto simp: U CNow\<close>)
next
  case (CSave j)
  obtain x w1 where g: "Save rp c (Some j) w = (x, w1)" by fastforce
  from kn obtain t where j: "tk t" "j = created_job (ID j) sp t" and sp: "spec_ok sp" by (auto simp: CSave)
  have st: "storable j" by (subst j(2)) (rule time_storable [OF sp j(1)])
  have jk: "job_ok (stored_at loc (objs w)) (ID j) j"
    using kn j job_ok_created [of sp "stored_at loc (objs w)" "ID j" t] by (simp add: CSave)
  note o = save_other [OF g]
  have w1: "w' = w1" using step g by (auto simp: CSave new_create_job_def split: option.splits)
  have "jobs w' = jobs w \<and> x \<noteq> None \<or> jobs w' = (jobs w)(ID j \<mapsto> j)"
    using g save_ok [of c j w w1] save_err [of c j w _ w1] st w1 by (cases x) auto
  then show ?thesis
  proof (elim disjE conjE)
    assume q: "jobs w' = jobs w" "x \<noteq> None"
    then have "\<exists>r. pc' = CReturned r" using step g by (auto simp: CSave new_create_job_def)
    then show ?thesis by (intro quiet_keeps [OF wo]) (use q o w1 ru rd in \<open>auto simp: U CSave\<close>)
  next
    assume s: "jobs w' = (jobs w)(ID j \<mapsto> j)"
    have kp: "knows tk (stored_at loc (objs w)) ((jobs w)(ID j \<mapsto> j)) (Creating c src sp pc')"
      and rs: "reserved (Creating c src sp pc') = {}"
      using step g by (auto simp: CSave new_create_job_def split: option.splits)
    show ?thesis
      using o kp rs rd jk unfolding s w1 [symmetric]
      by (auto intro!: keeps_save [OF wo U] simp: CSave w1)
  qed
next
  case (CEnqueue j)
  obtain x w1 where g: "Enqueue qp c (ID j) w = (x, w1)" by fastforce
  have w1: "w' = w1" and kp: "knows tk (stored_at loc (objs w)) (jobs w) (Creating c src sp pc')"
    and rs: "reserved (Creating c src sp pc') = {}"
    using step g kn by (auto simp: CEnqueue new_create_job_def split: option.splits)
  have q: "set_mset (waiting w') \<subseteq> insert (ID j) (set_mset (waiting w))"
    using g enq_ok [of c "ID j" w w1] enq_err [of c "ID j" w _ w1] w1 by (cases x) auto
  show ?thesis
    using enq_other [OF g] kn kp rs q unfolding w1 [symmetric]
    by (auto intro!: keeps_enqueue [OF wo U, of "ID j"] simp: CEnqueue)
next
  case (CMark j e)
  from kn obtain k where k: "jobs w (ID j) = Some k" and e: "err_string (Some e) \<noteq> []" by (auto simp: CMark)
  obtain x w1 where u: "UpdateStatus rp c (ID j) StatusFailed [] (Some e) w = (x, w1)" by fastforce
  have w1: "w' = w1" and kp: "knows tk (stored_at loc (objs w)) (jobs w) (Creating c src sp pc')"
    and rs: "reserved (Creating c src sp pc') = {}"
    using step u by (auto simp: CMark new_create_job_def split: option.splits)
  have jk: "job_ok (stored_at loc (objs w)) (ID j) k" using wo k by (simp add: world_ok_def)
  show ?thesis
    unfolding w1
    by (rule update_keeps [OF u k wo job_ok_failed [OF jk e] kp]) (simp_all add: U CMark rs)
next
  case (CReturned r)
  show ?thesis by (rule quiet_keeps [OF wo]) (use step in \<open>auto simp: U CReturned\<close>)
qed

text \<open>Where each step may write.\<close>

lemma process_writes:
  assumes "process_step (new_process_job st rp pp) c i (pc, w) = (pc', w')" "objs w' p \<noteq> objs w p"
  obtains j src out where "pc = PStore j src out" "loc (result_key (ID j) (Transformation j)) = Some p"
proof (cases pc)
  case (PStore j src out)
  obtain x w1 where g: "Put st c (result_key (ID j) (Transformation j)) (Some out) w = (x, w1)" by fastforce
  then have "w' = w1" using assms(1) by (auto simp: PStore new_process_job_def Let_def split: option.splits)
  with put_frame [OF g, of p] assms(2) PStore that show ?thesis by blast
qed (use assms in \<open>auto simp: new_process_job_def fail_job_def Let_def close_objs
        dest: get_objs load_other upd_other process_other
        split: prod.splits sum.splits option.splits if_splits\<close>)

lemma create_writes:
  assumes "create_step (new_create_job st rp qp nid nw) c src sp (pc, w) = (pc', w')" "objs w' p \<noteq> objs w p"
  obtains i where "pc = CPut i" "loc (original_key i) = Some p"
proof (cases pc)
  case (CPut i)
  obtain x w1 where g: "Put st c (original_key i) src w = (x, w1)" by fastforce
  then have "w' = w1" using assms(1) by (auto simp: CPut new_create_job_def split: option.splits)
  with put_frame [OF g, of p] assms(2) CPut that show ?thesis by blast
qed (use assms in \<open>auto simp: new_create_job_def
        dest: nid_other nw_other save_other enq_other upd_other
        split: prod.splits option.splits\<close>)

text \<open>Every step keeps the invariant, and what is stored stays stored.\<close>

lemma system_kept:
  assumes step: "system_step (new_create_job st rp qp nid nw) (new_process_job st rp pp) objs jobs waiting
      (w, U, as) (w', U', as')"
    and ok: "system_ok tk (stored_at loc (objs w)) (jobs w) (set_mset (waiting w)) U as"
  shows "system_ok tk (stored_at loc (objs w')) (jobs w') (set_mset (waiting w')) U' as' \<and>
    extends (jobs w) (jobs w')"
  using step
proof cases
  case (upload c src sp)
  with ok show ?thesis by (simp add: system_ok_begin)
next
  case (deliver i c)
  then have "knows tk (stored_at loc (objs w)) (jobs w) (Processing c i PLoad)"
    using ok by (auto simp: system_ok_def)
  from system_ok_begin [OF ok this] deliver show ?thesis by simp
next
  case (create k c src sp pc pc')
  note at = system_ok_at [OF ok create(3), unfolded create(4)]
  have "keeps tk (as ! k) (Creating c src sp pc') (stored_at loc (objs w)) (jobs w) U
      (stored_at loc (objs w')) (jobs w') (set_mset (waiting w')) U'"
    using create_keeps [OF create(6) system_ok_world [OF ok] at(1,4,2,3), of U'] create(1,4,5)
    by (simp add: new_create_job_def)
  with system_ok_step [OF ok create(3) this] show ?thesis by (simp add: create(2) keeps_def)
next
  case (process k c i pc pc')
  note at = system_ok_at [OF ok process(3), unfolded process(4)]
  have "keeps tk (as ! k) (Processing c i pc') (stored_at loc (objs w)) (jobs w) U
      (stored_at loc (objs w')) (jobs w') (set_mset (waiting w')) U'"
    using process_keeps [OF process(5) system_ok_world [OF ok] at(1), of U'] process(1,4) by simp
  with system_ok_step [OF ok process(3) this] show ?thesis by (simp add: process(2) keeps_def)
next
  case outside
  with system_ok_take [OF ok set_mset_mono [OF outside(5)], of U] show ?thesis by simp
qed

end

end
