(* ===== verification/Mem_System.thy ===== *)
theory Mem_System
  imports Interleaving Scenarios Auth
begin

text \<open>
  The in-process program under load: uploads arrive, workers take identifiers off the channel,
  and the use cases in progress make their calls in any order. Every state the program can reach
  this way keeps what its stored jobs promise.
\<close>

section \<open>The identifiers made so far\<close>

text \<open>The random bytes of every instant that has passed.\<close>

definition mem_used :: "'p mem_env \<Rightarrow> mem_world \<Rightarrow> string set" where
  "mem_used env w = (\<lambda>t. hex_encode (env_rand env t)) ` {..<w_tick w}"

lemma mem_used_mono: "w_tick w \<le> w_tick w' \<Longrightarrow> mem_used env w \<subseteq> mem_used env w'"
  by (auto simp: mem_used_def)

text \<open>Any time will do: the map holds what it is given.\<close>

interpretation mem_ids: timed_env "mem_storage env" "mem_loc env" mem_objs
  "mem_jobs env" "\<lambda>j. True" w_jobs "mem_enqueue env" mem_waiting "mem_processor env"
  "mem_new_id env" "mem_now env" "\<lambda>t. True"
  for env :: "'p mem_env"
  by unfold_locales simp_all

lemma mem_id_fresh:
  assumes "inj_on (env_rand env) {..w_tick w}"
  shows "fst (mem_new_id env w) \<notin> mem_used env w"
proof
  assume "fst (mem_new_id env w) \<in> mem_used env w"
  then obtain t where t: "t < w_tick w" "hex_encode (env_rand env (w_tick w)) = hex_encode (env_rand env t)"
    by (auto simp: mem_new_id_def new_id_def mem_used_def)
  from arg_cong [OF t(2), of hex_decode] have "env_rand env (w_tick w) = env_rand env t"
    by (simp add: hex_decode_encode)
  with assms t(1) show False by (auto dest: inj_onD)
qed

section \<open>The steps of the program\<close>

text \<open>
  A creation's send waits: the buffer is full, the queue open and the context not over. Until that
  changes its goroutine makes no step.
\<close>

definition mem_blocked :: "'p mem_env \<Rightarrow> ctx \<Rightarrow> create_pc \<Rightarrow> mem_world \<Rightarrow> bool" where
  "mem_blocked env c pc w =
     (case pc of
        CEnqueue j \<Rightarrow>
          mq_enqueue (env_pick env (w_tick w)) (CtxErr c (w_tick w)) (CtxCarrier c) (ID j) (w_queue w) = None
      | _ \<Rightarrow> False)"

text \<open>
  A \<open>CreateJob\<close> begins; a consumer's goroutine, under its context, takes an identifier off the
  channel, hands it to a worker, which begins \<open>ProcessJob\<close>, or drops it when its context is over; one
  use case in progress makes its next call; the queue is closed for shutdown; time passes. There may
  be any number of each, uploads and workers in one process among them: the API's process has no
  consumer, and the worker's creates jobs only while it seeds, so both do less than this.
\<close>

inductive mem_system_step ::
  "'p mem_env \<Rightarrow> mem_world \<times> activity list \<Rightarrow> mem_world \<times> activity list \<Rightarrow> bool" for env :: "'p mem_env" where
  upload: "mem_system_step env (w, as) (w, as @ [Creating c src sp CStart])"
| pull: "mq_receive (w_queue w) = Some (Some d, q) \<Longrightarrow>
    mem_system_step env (w, as) (w\<lparr>w_queue := q\<rparr>, as @ [Delivering c (JobID d)])"
| hand: "k < length as \<Longrightarrow> as ! k = Delivering c i \<Longrightarrow>
    mem_system_step env (w, as) (w, as[k := Processing c' i PLoad])"
| drop: "k < length as \<Longrightarrow> as ! k = Delivering c i \<Longrightarrow> CtxErr c (w_tick w) \<noteq> None \<Longrightarrow>
    mem_system_step env (w, as) (w, as[k := Dropped c i])"
| create: "k < length as \<Longrightarrow> as ! k = Creating c src sp pc \<Longrightarrow>
    create_step (mem_create env) c src sp (pc, w) = (pc', w') \<Longrightarrow> \<not> mem_blocked env c pc w \<Longrightarrow>
    mem_system_step env (w, as) (w', as[k := Creating c src sp pc'])"
| process: "k < length as \<Longrightarrow> as ! k = Processing c i pc \<Longrightarrow>
    process_step (mem_process env) c i (pc, w) = (pc', w') \<Longrightarrow>
    mem_system_step env (w, as) (w', as[k := Processing c i pc'])"
| shut: "mem_system_step env (w, as) (w\<lparr>w_queue := mq_close (w_queue w)\<rparr>, as)"
| pass: "mem_system_step env (w, as) (after_call w, as)"

text \<open>The program when it starts, on whatever files there are.\<close>

definition mem_start :: "fs \<Rightarrow> int \<Rightarrow> mem_world" where
  "mem_start m buffer =
     \<lparr>w_files = m, w_open = 0, w_images = 0, w_jobs = memrepo_new, w_queue = mq_new buffer, w_tick = 0\<rparr>"

definition mem_reachable :: "'p mem_env \<Rightarrow> mem_world \<times> activity list \<Rightarrow> bool" where
  "mem_reachable env s \<longleftrightarrow> (\<exists>m buffer. (mem_system_step env)\<^sup>*\<^sup>* (mem_start m buffer, []) s)"

section \<open>The invariant\<close>

definition mem_system_ok :: "'p mem_env \<Rightarrow> mem_world \<times> activity list \<Rightarrow> bool" where
  "mem_system_ok env s =
     (case s of (w, as) \<Rightarrow>
        system_ok (\<lambda>t. True) (stored_at (mem_loc env) (mem_objs w)) (w_jobs w) (set_mset (mem_waiting w)) (mem_used env w) as)"

lemma mem_system_ok_start: "mem_system_ok env (mem_start m buffer, [])"
  by (simp add: mem_system_ok_def system_ok_def mem_start_def memrepo_new_def mem_waiting_def mq_new_def Let_def)

text \<open>Time does not go back.\<close>

lemma mem_create_step_tick:
  "create_step (mem_create env) c src sp (pc, w) = (pc', w') \<Longrightarrow> w_tick w \<le> w_tick w'"
  by (cases pc)
    (auto simp: mem_create_def new_create_job_def mem_new_id_def mem_now_def dest: mem_ticks(1,4,6,7)
      split: prod.splits option.splits)

lemma mem_process_step_tick:
  "process_step (mem_process env) c i (pc, w) = (pc', w') \<Longrightarrow> w_tick w \<le> w_tick w'"
  by (cases pc)
    (auto simp: mem_process_def new_process_job_def fail_job_def Let_def mem_ticks(3) dest: mem_ticks(1,2,5,6,8)
      split: prod.splits option.splits sum.splits if_splits)

lemma mem_step_tick: "mem_system_step env (w, as) (w', as') \<Longrightarrow> w_tick w \<le> w_tick w'"
  by (erule mem_system_step.cases)
    (auto dest: mem_create_step_tick mem_process_step_tick)

lemma mem_create_keeps:
  assumes "mem_system_ok env (w, as)" "k < length as" "as ! k = Creating c src sp pc"
    and step: "create_step (mem_create env) c src sp (pc, w) = (pc', w')" and "inj_on (env_rand env) {..w_tick w}"
  shows "keeps (\<lambda>t. True) (as ! k) (Creating c src sp pc') (stored_at (mem_loc env) (mem_objs w)) (w_jobs w)
      (mem_used env w) (stored_at (mem_loc env) (mem_objs w')) (w_jobs w') (set_mset (mem_waiting w')) (mem_used env w')"
proof -
  note inv = assms(1) [unfolded mem_system_ok_def prod.case]
  have U: "mem_used env w \<subseteq> mem_used env w'" by (rule mem_used_mono [OF mem_create_step_tick [OF step]])
  note at = system_ok_at [OF inv assms(2), unfolded assms(3)]
  have "reserved (Creating c src sp pc') \<subseteq> mem_used env w'"
  proof (cases "pc = CStart")
    case True
    with step show ?thesis
      by (auto simp: mem_create_def new_create_job_def mem_new_id_def new_id_def mem_used_def split: option.splits)
  next
    case False
    then have "reserved (Creating c src sp pc') \<subseteq> reserved (Creating c src sp pc)"
      using step by (rule create_reserved)
    with at(2) U show ?thesis by blast
  qed
  from mem_ids.create_keeps [OF step [unfolded mem_create_def] system_ok_world [OF inv] at(1,4,2,3)
      mem_id_fresh [OF assms(5)] U this]
  show ?thesis by (simp only: assms(3))
qed

lemma mem_process_keeps:
  assumes "mem_system_ok env (w, as)" "k < length as" "as ! k = Processing c i pc"
    and step: "process_step (mem_process env) c i (pc, w) = (pc', w')"
  shows "keeps (\<lambda>t. True) (as ! k) (Processing c i pc') (stored_at (mem_loc env) (mem_objs w)) (w_jobs w)
      (mem_used env w) (stored_at (mem_loc env) (mem_objs w')) (w_jobs w') (set_mset (mem_waiting w')) (mem_used env w')"
proof -
  note inv = assms(1) [unfolded mem_system_ok_def prod.case]
  from mem_ids.process_keeps [OF step [unfolded mem_process_def] system_ok_world [OF inv]
      system_ok_at(1) [OF inv assms(2), unfolded assms(3)]
      mem_used_mono [OF mem_process_step_tick [OF step]]]
  show ?thesis by (simp only: assms(3))
qed

lemma mem_system_ok_step:
  assumes "mem_system_step env (w, as) (w', as')" "mem_system_ok env (w, as)"
    and "inj_on (env_rand env) {..w_tick w}"
  shows "mem_system_ok env (w', as')"
  using assms(1)
proof cases
  case (upload c src sp)
  with assms(2) show ?thesis by (simp add: mem_system_ok_def system_ok_begin)
next
  case (hand k c i c')
  then have "knows (\<lambda>t. True) (stored_at (mem_loc env) (mem_objs w)) (w_jobs w) (Processing c' i PLoad)"
    using system_ok_at(1) [OF assms(2) [unfolded mem_system_ok_def prod.case] hand(3)] by simp
  from system_ok_swap [OF assms(2) [unfolded mem_system_ok_def prod.case] hand(3) this] hand
  show ?thesis by (simp add: mem_system_ok_def)
next
  case (drop k c i)
  have "knows (\<lambda>t. True) (stored_at (mem_loc env) (mem_objs w)) (w_jobs w) (Dropped c i)" by simp
  from system_ok_swap [OF assms(2) [unfolded mem_system_ok_def prod.case] drop(3) this] drop
  show ?thesis by (simp add: mem_system_ok_def)
next
  case (pull d q c)
  then obtain ds where q: "mq_buf (w_queue w) = d # ds" "q = (w_queue w)\<lparr>mq_buf := ds\<rparr>"
    by (auto simp: mq_receive_simps)
  have sub: "set_mset (mem_waiting (w\<lparr>w_queue := q\<rparr>)) \<subseteq> set_mset (mem_waiting w)"
    and jd: "JobID d \<in> set_mset (mem_waiting w)"
    using q by (auto simp: mem_waiting_def)
  have ok: "system_ok (\<lambda>t. True) (stored_at (mem_loc env) (mem_objs w)) (w_jobs w) (set_mset (mem_waiting (w\<lparr>w_queue := q\<rparr>)))
      (mem_used env w) as"
    using assms(2) sub by (auto simp: mem_system_ok_def elim: system_ok_take)
  have kn: "knows (\<lambda>t. True) (stored_at (mem_loc env) (mem_objs w)) (w_jobs w) (Delivering c (JobID d))"
    using assms(2) jd by (auto simp: mem_system_ok_def system_ok_def)
  from system_ok_begin [OF ok kn] pull show ?thesis by (simp add: mem_system_ok_def mem_used_def)
next
  case (create k c src sp pc pc')
  from system_ok_step [OF assms(2) [unfolded mem_system_ok_def prod.case] create(2)
      mem_create_keeps [OF assms(2) create(2,3,4) assms(3)]]
  show ?thesis by (simp add: mem_system_ok_def create(1))
next
  case (process k c i pc pc')
  from system_ok_step [OF assms(2) [unfolded mem_system_ok_def prod.case] process(2)
      mem_process_keeps [OF assms(2) process(2,3,4)]]
  show ?thesis by (simp add: mem_system_ok_def process(1))
next
  case shut
  with assms(2) show ?thesis by (simp add: mem_system_ok_def mem_used_def mem_waiting_def)
next
  case pass
  then show ?thesis
    using assms(2) mem_used_mono [of w "after_call w" env]
    by (auto simp: mem_system_ok_def elim: system_ok_take)
qed

lemma mem_system_ok_reachable:
  assumes "mem_reachable env s" "inj_on (env_rand env) {..w_tick (fst s)}"
  shows "mem_system_ok env s"
proof -
  from assms(1) obtain m buffer where "(mem_system_step env)\<^sup>*\<^sup>* (mem_start m buffer, []) s"
    by (auto simp: mem_reachable_def)
  from this assms(2) show ?thesis
  proof induction
    case base
    show ?case by (rule mem_system_ok_start)
  next
    case (step s t)
    obtain w as w' as' where st: "s = (w, as)" "t = (w', as')" by fastforce
    have "inj_on (env_rand env) {..w_tick w}"
      using step.prems st mem_step_tick [OF step.hyps(2) [unfolded st]] by (auto elim: inj_on_subset)
    then show ?case using mem_system_ok_step step st by fastforce
  qed
qed

section \<open>What is stored stays\<close>

lemma mem_steps_tick: "(mem_system_step env)\<^sup>*\<^sup>* s t \<Longrightarrow> w_tick (fst s) \<le> w_tick (fst t)"
proof (induction rule: rtranclp_induct)
  case (step t u)
  then show ?case using mem_step_tick [of env "fst t" "snd t" "fst u" "snd u"] by simp
qed simp

lemma mem_step_extends:
  assumes "mem_system_step env (w, as) (w', as')" "mem_system_ok env (w, as)"
    and "inj_on (env_rand env) {..w_tick w}"
  shows "extends (w_jobs w) (w_jobs w')"
  using assms(1)
proof cases
  case (create k c src sp pc pc')
  from mem_create_keeps [OF assms(2) create(2,3,4) assms(3)] show ?thesis by (simp add: keeps_def)
next
  case (process k c i pc pc')
  from mem_process_keeps [OF assms(2) process(2,3,4)] show ?thesis by (simp add: keeps_def)
qed simp_all

abbreviation original_path :: "'p mem_env \<Rightarrow> string \<Rightarrow> string" where
  "original_path env i \<equiv> root_of (env_root env @ [''originals'', i])"

abbreviation result_path :: "'p mem_env \<Rightarrow> string \<Rightarrow> transformation_spec \<Rightarrow> string" where
  "result_path env i sp \<equiv> root_of (env_root env @ [''results'', i @ ''.'' @ format_ext (Format sp)])"

lemma mem_used_id_ok: "i \<in> mem_used env w \<Longrightarrow> (\<And>t. env_rand env t \<noteq> []) \<Longrightarrow> id_ok i"
  by (auto simp: mem_used_def intro: id_ok_new)

lemma mem_system_ok_jobs:
  assumes "mem_system_ok env (w, as)" "w_jobs w i = Some j"
  shows "job_ok (stored_at (mem_loc env) (mem_objs w)) i j" "i \<in> mem_used env w"
  using assms by (auto simp: mem_system_ok_def system_ok_def)

lemma id_path_names:
  assumes "id_ok i"
  shows "path_name i" "format_valid f \<Longrightarrow> path_name (i @ ''.'' @ format_ext f)"
  using assms id_ok_chars [OF assms] format_ext_chars [of f]
  by (cases i; auto simp: path_name_def id_ok_def)+

lemma original_path_inj:
  assumes "root_ok (env_root env)" "id_ok i" "id_ok k" "original_path env i = original_path env k"
  shows "i = k"
proof -
  have "env_root env @ [''originals'', i] = env_root env @ [''originals'', k]"
    by (rule root_of_inj)
      (use assms id_path_names(1) in \<open>auto simp: root_ok_def path_name_def [of "''originals''"]\<close>)
  then show ?thesis by simp
qed

lemma original_path_not_result:
  assumes "root_ok (env_root env)" "id_ok i" "id_ok k" "format_valid (Format sp)"
  shows "original_path env i \<noteq> result_path env k sp"
proof
  assume "original_path env i = result_path env k sp"
  then have "env_root env @ [''originals'', i] = env_root env @ [''results'', k @ ''.'' @ format_ext (Format sp)]"
    by (intro root_of_inj)
      (use assms id_path_names in \<open>auto simp: root_ok_def path_name_def [of "''originals''"]
         path_name_def [of "''results''"]\<close>)
  then show False by simp
qed

lemma mem_step_originals:
  assumes "mem_system_step env (w, as) (w', as')" "mem_system_ok env (w, as)" "w_jobs w i = Some j"
    and "root_ok (env_root env)" "\<And>t. env_rand env t \<noteq> []"
  shows "mem_objs w' (original_path env i) = mem_objs w (original_path env i)"
  using assms(1)
proof cases
  case (create k c src sp pc pc')
  have i: "id_ok i" using mem_system_ok_jobs(2) [OF assms(2,3)] assms(5) by (rule mem_used_id_ok)
  note at = system_ok_at [OF assms(2) [unfolded mem_system_ok_def prod.case] create(2)]
  show ?thesis
  proof (rule ccontr)
    assume "\<not> ?thesis"
    with create(4) obtain l where l: "pc = CPut l" "mem_loc env (original_key l) = Some (original_path env i)"
      unfolding mem_create_def by (rule mem_ids.create_writes)
    with at create(3) have "l \<in> mem_used env w" "l \<notin> dom (w_jobs w)" by auto
    moreover from this have "id_ok l" using assms(5) by (auto intro: mem_used_id_ok)
    ultimately show False
      using l(2) mem_loc_original [OF assms(4)] original_path_inj [OF assms(4) i, of l] assms(3) by auto
  qed
next
  case (process k c l pc pc')
  have i: "id_ok i" using mem_system_ok_jobs(2) [OF assms(2,3)] assms(5) by (rule mem_used_id_ok)
  note at = system_ok_at [OF assms(2) [unfolded mem_system_ok_def prod.case] process(2)]
  show ?thesis
  proof (rule ccontr)
    assume "\<not> ?thesis"
    with process(4) obtain q src out where q: "pc = PStore q src out"
      "mem_loc env (result_key (ID q) (Transformation q)) = Some (original_path env i)"
      unfolding mem_process_def by (rule mem_ids.process_writes)
    with at(1) process(3) obtain kk where kk: "ID q = l" "w_jobs w l = Some kk" "same_job q kk"
      by (auto simp: works_on_def)
    have "id_ok l" using mem_system_ok_jobs(2) [OF assms(2) kk(2)] assms(5) by (rule mem_used_id_ok)
    moreover have "format_valid (Format (Transformation q))"
      using mem_system_ok_jobs(1) [OF assms(2) kk(2)] kk(3) by (simp add: job_ok_def same_job_def spec_ok_def)
    ultimately show False
      using q(2) mem_loc_result [OF assms(4)] original_path_not_result [OF assms(4) i, of l] kk(1) by fastforce
  qed
qed simp_all

lemma mem_steps_keep:
  assumes "(mem_system_step env)\<^sup>*\<^sup>* s t" "mem_system_ok env s" "inj_on (env_rand env) {..w_tick (fst t)}"
    and "root_ok (env_root env)" "\<And>t. env_rand env t \<noteq> []" "w_jobs (fst s) i = Some j"
  shows "mem_system_ok env t \<and> extends (w_jobs (fst s)) (w_jobs (fst t)) \<and>
     mem_objs (fst t) (original_path env i) = mem_objs (fst s) (original_path env i)"
  using assms(1,3)
proof induction
  case base
  show ?case using assms(2) by simp
next
  case (step t u)
  obtain w as w' as' where st: "t = (w, as)" "u = (w', as')" by fastforce
  note m = step.hyps(2) [unfolded st]
  have inj: "inj_on (env_rand env) {..w_tick w}"
    using step.prems st mem_step_tick [OF m] by (auto elim: inj_on_subset)
  with step.IH st have ih: "mem_system_ok env (w, as)" "extends (w_jobs (fst s)) (w_jobs w)"
    "mem_objs w (original_path env i) = mem_objs (fst s) (original_path env i)" by simp_all
  from ih(2) assms(6) obtain j1 where j1: "w_jobs w i = Some j1" by (auto simp: extends_def)
  have "extends (w_jobs (fst s)) (w_jobs w')"
    using ih(2) mem_step_extends [OF m ih(1) inj] by (rule extends_trans)
  then show ?case
    using mem_system_ok_step [OF m ih(1) inj] mem_step_originals [OF m ih(1) j1 assms(4,5)] ih(3) st by simp
qed

section \<open>Runs to completion are runs of the program\<close>

lemma mem_reachable_steps:
  "mem_reachable env s \<Longrightarrow> (mem_system_step env)\<^sup>*\<^sup>* s t \<Longrightarrow> mem_reachable env t"
  unfolding mem_reachable_def by (meson rtranclp_trans)

text \<open>A creation that succeeds never waited: alone, it would have had to give up.\<close>

lemma marked_fails: "times n (create_step uc c src sp) (CMark j e, w) \<noteq> (CReturned (Inr k), w')"
proof (cases n)
  case (Suc m)
  obtain y w1 where "UpdateStatus (cj_jobs uc) c (ID j) StatusFailed [] (Some e) w = (y, w1)" by fastforce
  with Suc show ?thesis by (cases y) simp_all
qed simp

lemma blocked_fails:
  assumes "mem_blocked env c pc w"
  shows "times n (create_step (mem_create env) c src sp) (pc, w) \<noteq> (CReturned (Inr k), w')"
proof -
  from assms obtain j where pc: "pc = CEnqueue j"
    and "mq_enqueue (env_pick env (w_tick w)) (CtxErr c (w_tick w)) (CtxCarrier c) (ID j) (w_queue w) = None"
    by (auto simp: mem_blocked_def split: create_pc.splits)
  then obtain e w1 where "create_step (mem_create env) c src sp (pc, w) = (CMark j e, w1)"
    by (simp add: mem_create_def new_create_job_def mem_enqueue_def)
  with marked_fails pc show ?thesis by (cases n) simp_all
qed

lemma create_steps:
  "times n (create_step (mem_create env) c src sp) (pc, w) = (CReturned (Inr j), w') \<Longrightarrow>
   (mem_system_step env)\<^sup>*\<^sup>* (w, as @ [Creating c src sp pc]) (w', as @ [Creating c src sp (CReturned (Inr j))])"
proof (induction n arbitrary: pc w)
  case (Suc n)
  obtain pc1 w1 where s: "create_step (mem_create env) c src sp (pc, w) = (pc1, w1)" by fastforce
  have "\<not> mem_blocked env c pc w" using Suc.prems blocked_fails by blast
  from mem_system_step.create [OF _ _ s this, of "length as" "as @ [Creating c src sp pc]"]
  have "mem_system_step env (w, as @ [Creating c src sp pc]) (w1, as @ [Creating c src sp pc1])" by simp
  moreover have "(mem_system_step env)\<^sup>*\<^sup>* (w1, as @ [Creating c src sp pc1]) (w', as @ [Creating c src sp (CReturned (Inr j))])"
    using Suc s by simp
  ultimately show ?case by (rule converse_rtranclp_into_rtranclp)
qed simp

lemma process_steps:
  "times n (process_step (mem_process env) c i) (pc, w) = (pc', w') \<Longrightarrow>
   (mem_system_step env)\<^sup>*\<^sup>* (w, as @ [Processing c i pc]) (w', as @ [Processing c i pc'])"
proof (induction n arbitrary: pc w)
  case (Suc n)
  obtain pc1 w1 where s: "process_step (mem_process env) c i (pc, w) = (pc1, w1)" by fastforce
  from mem_system_step.process [OF _ _ s, of "length as" "as @ [Processing c i pc]"]
  have "mem_system_step env (w, as @ [Processing c i pc]) (w1, as @ [Processing c i pc1])" by simp
  moreover have "(mem_system_step env)\<^sup>*\<^sup>* (w1, as @ [Processing c i pc1]) (w', as @ [Processing c i pc'])"
    using Suc s by simp
  ultimately show ?case by (rule converse_rtranclp_into_rtranclp)
qed simp

lemma create_runs_steps:
  assumes "create_job_execute (mem_create env) c src sp w = (Inr j, w')"
  shows "(mem_system_step env)\<^sup>*\<^sup>* (w, as) (w', as @ [Creating c src sp (CReturned (Inr j))])"
proof -
  have "times (6 + 0) (create_step (mem_create env) c src sp) (CStart, w) = (CReturned (Inr j), w')"
    using assms by (simp only: create_run prod.case)
  from mem_system_step.upload create_steps [OF this] show ?thesis by (rule converse_rtranclp_into_rtranclp)
qed

lemma process_runs_steps:
  assumes "mq_receive (w_queue w) = Some (Some d, q)"
    and "process_job_execute (mem_process env) c (JobID d) (w\<lparr>w_queue := q\<rparr>) = (r, w')"
  shows "(mem_system_step env)\<^sup>*\<^sup>* (w, as) (w', as @ [Processing c (JobID d) (PReturned r)])"
proof -
  have "times (7 + 0) (process_step (mem_process env) c (JobID d)) (PLoad, w\<lparr>w_queue := q\<rparr>) = (PReturned r, w')"
    using assms(2) by (simp only: process_run prod.case)
  note run = process_steps [OF this, of as]
  have "mem_system_step env (w, as) (w\<lparr>w_queue := q\<rparr>, as @ [Delivering c (JobID d)])"
    by (rule mem_system_step.pull [OF assms(1)])
  moreover have "mem_system_step env (w\<lparr>w_queue := q\<rparr>, as @ [Delivering c (JobID d)])
      (w\<lparr>w_queue := q\<rparr>, as @ [Processing c (JobID d) PLoad])"
    using mem_system_step.hand [of "length as" "as @ [Delivering c (JobID d)]" c "JobID d" env _ c] by simp
  ultimately show ?thesis using run by (meson converse_rtranclp_into_rtranclp)
qed

section \<open>What every reachable state promises\<close>

text \<open>
  C1: whatever uploads and workers do at once, in every state the in-process program can
  reach each stored job is complete: it has its key as identifier, a valid specification and a
  status of the lifecycle, and its original is there; a job that is done has its result under its
  result key; a job carries an error exactly when it failed; and every identifier on the queue is
  that of a stored job. (As long as the random bytes drawn for identifiers have not repeated.)
\<close>

theorem system_invariant:
  assumes "mem_reachable env (w, as)" "inj_on (env_rand env) {..w_tick w}" "root_ok (env_root env)"
    and "\<And>t. env_rand env t \<noteq> []" "w_jobs w i = Some j"
  shows "ID j = i \<and> spec_ok (Transformation j) \<and> OriginalKey j = original_key i \<and> status_valid (Status j) \<and>
    mem_objs w (original_path env i) \<noteq> None \<and>
    (Status j = StatusDone \<longrightarrow>
       ResultKey j = result_key i (Transformation j) \<and> mem_objs w (result_path env i (Transformation j)) \<noteq> None) \<and>
    (Error j \<noteq> [] \<longleftrightarrow> Status j = StatusFailed) \<and> set_mset (mem_waiting w) \<subseteq> dom (w_jobs w)"
proof -
  have ok: "mem_system_ok env (w, as)" using mem_system_ok_reachable [OF assms(1)] assms(2) by simp
  note j = mem_system_ok_jobs [OF ok assms(5)]
  have i: "id_ok i" using j(2) assms(4) by (rule mem_used_id_ok)
  have q: "set_mset (mem_waiting w) \<subseteq> dom (w_jobs w)" using ok by (simp add: mem_system_ok_def system_ok_def)
  have f: "format_valid (Format (Transformation j))" using j(1) by (simp add: job_ok_def spec_ok_def)
  have "Status j = StatusDone \<Longrightarrow> ResultKey j = result_key i (Transformation j) \<and> mem_objs w (result_path env i (Transformation j)) \<noteq> None"
    using j(1) mem_loc_result [OF assms(3) i f] unfolding job_ok_def stored_at_def by metis
  with j(1) mem_loc_original [OF assms(3) i] show ?thesis
    unfolding job_ok_def stored_at_def by (simp add: q)
qed

text \<open>An environment whose identifiers never repeat, and a job created and processed in it.\<close>

definition sys_env :: "(int \<times> int) mem_env" where
  "sys_env =
     ex_env\<lparr>env_rand := \<lambda>t. if t = 0 then [CHR 0xA1, CHR 0x0F] else replicate (t + 2) CHR ''a''\<rparr>"

definition sys_job :: job where
  "sys_job = created_job ''a10f'' ex_spec 2"

definition sys_queue :: mem_queue where
  "sys_queue = (mq_new 0)\<lparr>mq_buf := [\<lparr>JobID = ''a10f'', Meta = CtxCarrier Background\<rparr>]\<rparr>"

definition sys_queued :: mem_world where
  "sys_queued = ex_queued\<lparr>w_jobs := [''a10f'' \<mapsto> sys_job]\<rparr>"

lemma sys_put:
  "local_put ex_faults ''/data'' None ''originals/a10f'' (Some (Reader ''pixels'' None)) Map.empty =
    (None, let t = ''/data/originals/.tmp-7'' in [FsCreate t, FsAppend t ''pi'', FsAppend t ''xels'',
     FsRename t ''/data/originals/a10f'', FsRemove t])"
  by code_simp

lemma sys_values: "hex_encode [CHR 0xA1, CHR 0x0F] = ''a10f''" "root_of [''data''] = ''/data''"
  "original_key ''a10f'' = ''originals/a10f''" "spec_validate ex_spec = None"
  by code_simp+

lemma sys_create_runs:
  "create_job_execute (mem_create sys_env) Background (Some (Reader ''pixels'' None)) ex_spec ex_world
     = (Inr sys_job, sys_queued\<lparr>w_queue := sys_queue\<rparr>)"
  by (simp add: create_job_execute_def mem_create_def new_create_job_def mem_new_id_def mem_now_def new_id_def
      mem_storage_def mem_jobs_def mem_enqueue_def after_call_def ex_world_def sys_env_def ex_env_def
      sys_values sys_put Let_def)
    (simp add: memrepo_save_def mq_enqueue_def mq_new_def DefaultBuffer_def sys_queued_def sys_queue_def
      sys_job_def ex_queued_def ex_world_def Let_def memrepo_new_def)

lemma sys_queue_taken:
  "mq_receive sys_queue = Some (Some \<lparr>JobID = ''a10f'', Meta = CtxCarrier Background\<rparr>, mq_new 0)"
  by (simp add: sys_queue_def mq_receive_def mq_new_def Let_def)

definition sys_process :: "(job option \<times> goerr option) \<times> mem_world" where
  "sys_process = process_job_execute (mem_process sys_env) Background ''a10f'' (sys_queued\<lparr>w_queue := mq_new 0\<rparr>)"

lemma sys_process_runs:
  "case w_jobs (snd sys_process) ''a10f'' of
     Some j \<Rightarrow> Status j = StatusDone \<and> Transformation j = ex_spec | None \<Rightarrow> False"
  by code_simp

lemma sys_env_fresh: "inj_on (env_rand sys_env) A"
  by (rule inj_onI) (auto simp: sys_env_def split: if_splits dest: arg_cong [where f = size])

lemma sys_env_rand: "env_rand sys_env t \<noteq> []"
  by (simp add: sys_env_def)

lemma sys_root_ok: "root_ok (env_root sys_env)"
  using ex_root_ok by (simp add: sys_env_def)

lemma sys_created:
  "mem_reachable sys_env (sys_queued\<lparr>w_queue := sys_queue\<rparr>,
     [Creating Background (Some (Reader ''pixels'' None)) ex_spec (CReturned (Inr sys_job))])"
proof -
  have "ex_world = mem_start Map.empty 0" by (simp add: ex_world_def mem_start_def)
  then have "mem_reachable sys_env (ex_world, [])"
    unfolding mem_reachable_def by (metis rtranclp.rtrancl_refl)
  from mem_reachable_steps [OF this create_runs_steps [OF sys_create_runs]] show ?thesis by simp
qed

lemma sys_processed:
  "\<exists>bs. (mem_system_step sys_env)\<^sup>*\<^sup>* (sys_queued\<lparr>w_queue := sys_queue\<rparr>, as) (snd sys_process, bs)"
proof -
  have t: "mq_receive (w_queue (sys_queued\<lparr>w_queue := sys_queue\<rparr>))
      = Some (Some \<lparr>JobID = ''a10f'', Meta = CtxCarrier Background\<rparr>, mq_new 0)" by (simp add: sys_queue_taken)
  from process_runs_steps [OF t, of sys_env Background "fst sys_process" "snd sys_process" as]
  show ?thesis by (auto simp: sys_process_def)
qed

theorem system_invariant_witness:
  "\<exists>w as j. mem_reachable sys_env (w, as) \<and> w_jobs w ''a10f'' = Some j \<and> Status j = StatusDone \<and>
     mem_objs w ''/data/results/a10f.png'' \<noteq> None \<and> mem_objs w ''/data/originals/a10f'' \<noteq> None"
proof -
  obtain as where r: "mem_reachable sys_env (snd sys_process, as)"
    using sys_processed mem_reachable_steps [OF sys_created] by blast
  from sys_process_runs obtain j where j: "w_jobs (snd sys_process) ''a10f'' = Some j"
    "Status j = StatusDone" "Transformation j = ex_spec" by (auto split: option.splits)
  have "result_path sys_env ''a10f'' ex_spec = ''/data/results/a10f.png''"
    "original_path sys_env ''a10f'' = ''/data/originals/a10f''" by code_simp+
  with system_invariant [OF r sys_env_fresh sys_root_ok sys_env_rand j(1)] j r show ?thesis by auto
qed

text \<open>
  What is stored stays. From any reachable state, whatever uploads and workers do from there, a
  stored job is never lost, its identifier, original key, specification and time of creation never
  change, and the file of its original is never written again.
\<close>

theorem stored_job_stays:
  assumes "mem_reachable env s" "(mem_system_step env)\<^sup>*\<^sup>* s t" "inj_on (env_rand env) {..w_tick (fst t)}"
    and "root_ok (env_root env)" "\<And>n. env_rand env n \<noteq> []" "w_jobs (fst s) i = Some j"
  shows "mem_objs (fst t) (original_path env i) = mem_objs (fst s) (original_path env i) \<and>
    (\<exists>j'. w_jobs (fst t) i = Some j' \<and> ID j' = ID j \<and> OriginalKey j' = OriginalKey j \<and>
       Transformation j' = Transformation j \<and> CreatedAt j' = CreatedAt j)"
proof -
  have "w_tick (fst s) \<le> w_tick (fst t)" using assms(2) by (rule mem_steps_tick)
  then have "inj_on (env_rand env) {..w_tick (fst s)}" using assms(3) by (auto elim: inj_on_subset)
  with assms(1) have "mem_system_ok env s" by (rule mem_system_ok_reachable)
  from mem_steps_keep [OF assms(2) this assms(3-6)] assms(6) show ?thesis
    by (auto simp: extends_def same_job_def)
qed

theorem stored_job_stays_witness:
  "\<exists>j'. w_jobs (snd sys_process) ''a10f'' = Some j' \<and> Status j' = StatusDone \<and> CreatedAt j' = CreatedAt sys_job \<and>
     mem_objs (snd sys_process) ''/data/originals/a10f'' = mem_objs sys_queued ''/data/originals/a10f''"
proof -
  let ?s = "(sys_queued\<lparr>w_queue := sys_queue\<rparr>,
    [Creating Background (Some (Reader ''pixels'' None)) ex_spec (CReturned (Inr sys_job))])"
  obtain bs where m: "(mem_system_step sys_env)\<^sup>*\<^sup>* ?s (snd sys_process, bs)" using sys_processed by blast
  have j: "w_jobs (fst ?s) ''a10f'' = Some sys_job" by (simp add: sys_queued_def)
  have p: "original_path sys_env ''a10f'' = ''/data/originals/a10f''" by code_simp
  from stored_job_stays [OF sys_created m sys_env_fresh sys_root_ok sys_env_rand j] sys_process_runs p
  show ?thesis by (auto split: option.splits)
qed

end
