(* ===== verification/Mem_Progress.thy ===== *)
theory Mem_Progress
  imports Mem_System
begin

text \<open>
  No job is forgotten: in every state the in-process program can reach, a stored job that has not
  settled is on the queue, or somebody who is still under way will take it on, or its own context ended
  and it was let go of. With theory \<open>Steps\<close>, by which every use case returns, the
  jobs of a pool that has come to rest are done or failed, those let go of excepted.
\<close>

section \<open>Who answers for a job\<close>

fun ctx_of :: "activity \<Rightarrow> ctx" where
  "ctx_of (Creating c src sp pc) = c"
| "ctx_of (Delivering c i) = c"
| "ctx_of (Dropped c i) = c"
| "ctx_of (Processing c i pc) = c"

text \<open>
  The pending job a use case will queue, mark or claim, or the consumer will hand over, and the
  claimed job a use case will settle.
\<close>

fun keeps_pending :: "activity \<Rightarrow> string set" where
  "keeps_pending (Creating c src sp (CEnqueue j)) = {ID j}"
| "keeps_pending (Creating c src sp (CMark j e)) = {ID j}"
| "keeps_pending (Delivering c i) = {i}"
| "keeps_pending (Processing c i PLoad) = {i}"
| "keeps_pending (Processing c i (PClaim j)) = {i}"
| "keeps_pending a = {}"

fun keeps_claimed :: "activity \<Rightarrow> string set" where
  "keeps_claimed (Processing c i (PRead j)) = {i}"
| "keeps_claimed (Processing c i (PTransform j src)) = {i}"
| "keeps_claimed (Processing c i (PStore j src out)) = {i}"
| "keeps_claimed (Processing c i (PClose j src r)) = {i}"
| "keeps_claimed (Processing c i (PFail j e)) = {i}"
| "keeps_claimed (Processing c i (PFinish j rk)) = {i}"
| "keeps_claimed a = {}"

text \<open>
  The job that was let go of: the consumer dropped its delivery, its run returned an error and no
  job, or its creation could neither queue it nor mark it. It is counted as let go of only when the
  context of whoever did so has ended.
\<close>

fun lets_go :: "activity \<Rightarrow> string set" where
  "lets_go (Dropped c i) = {i}"
| "lets_go (Processing c i (PReturned (None, Some e))) = {i}"
| "lets_go (Creating c src sp (CReturned (Inl e))) =
     {i. \<exists>x y. e = EJoin [EWrap (''create job '' @ i @ '': enqueue: '') x [], EWrap ''mark failed: '' y []]}"
| "lets_go a = {}"

definition let_go :: "nat \<Rightarrow> activity \<Rightarrow> string set" where
  "let_go now a = (if \<exists>t \<le> now. CtxErr (ctx_of a) t \<noteq> None then lets_go a else {})"

lemma let_go_mono: "now \<le> later \<Longrightarrow> let_go now a \<subseteq> let_go later a"
  by (auto simp: let_go_def intro: order_trans)

lemma let_go_over: "CtxErr (ctx_of a) t \<noteq> None \<Longrightarrow> t \<le> now \<Longrightarrow> i \<in> lets_go a \<Longrightarrow> i \<in> let_go now a"
  by (auto simp: let_go_def)

lemma let_go_none [simp]: "lets_go a = {} \<Longrightarrow> let_go now a = {}"
  by (simp add: let_go_def)

definition accounted :: "nat \<Rightarrow> (string \<rightharpoonup> job) \<Rightarrow> string set \<Rightarrow> activity list \<Rightarrow> bool" where
  "accounted now m queued as \<longleftrightarrow>
     (\<forall>i j. m i = Some j \<longrightarrow>
        (Status j = StatusPending \<longrightarrow> i \<in> queued \<or> (\<exists>a \<in> set as. i \<in> keeps_pending a \<union> let_go now a)) \<and>
        (Status j = StatusProcessing \<longrightarrow> (\<exists>a \<in> set as. i \<in> keeps_claimed a \<union> let_go now a)))"

text \<open>What one step hands on, from one time to another.\<close>

definition hands_on ::
  "nat \<Rightarrow> activity \<Rightarrow> nat \<Rightarrow> activity \<Rightarrow> (string \<rightharpoonup> job) \<Rightarrow> string set \<Rightarrow> (string \<rightharpoonup> job) \<Rightarrow> string set \<Rightarrow> bool" where
  "hands_on now a later a' m queued m' queued' \<longleftrightarrow>
     queued \<subseteq> queued' \<and> now \<le> later \<and>
     (\<forall>i j. m' i = Some j \<longrightarrow>
        (Status j = StatusPending \<longrightarrow> i \<in> queued' \<or> i \<in> keeps_pending a' \<union> let_go later a' \<or>
           i \<notin> keeps_pending a \<union> let_go now a \<and> (\<exists>k. m i = Some k \<and> Status k = StatusPending)) \<and>
        (Status j = StatusProcessing \<longrightarrow> i \<in> keeps_claimed a' \<union> let_go later a' \<or>
           i \<notin> keeps_claimed a \<union> let_go now a \<and> (\<exists>k. m i = Some k \<and> Status k = StatusProcessing)))"

lemma other_stays: "a \<in> set as \<Longrightarrow> k < length as \<Longrightarrow> a \<noteq> as ! k \<Longrightarrow> a \<in> set (as[k := a'])"
  by (metis in_set_conv_nth length_list_update nth_list_update_neq)

lemma accounted_step:
  assumes "accounted now m queued as" "k < length as" "hands_on now (as ! k) later a' m queued m' queued'"
  shows "accounted later m' queued' (as[k := a'])"
  unfolding accounted_def
proof (intro allI impI conjI)
  fix i j
  assume j: "m' i = Some j"
  have new: "a' \<in> set (as[k := a'])" using assms(2) by (rule set_update_memI)
  have sub: "queued \<subseteq> queued'" and t: "now \<le> later" using assms(3) by (simp_all add: hands_on_def)
  have other: "\<exists>a \<in> set (as[k := a']). i \<in> f a \<union> let_go later a"
    if "a \<in> set as" "i \<in> f a \<union> let_go now a" "i \<notin> f (as ! k) \<union> let_go now (as ! k)" for a and f :: "activity \<Rightarrow> string set"
  proof -
    have "a \<noteq> as ! k" using that(2,3) by blast
    with that(1) assms(2) have "a \<in> set (as[k := a'])" by (rule other_stays)
    then show ?thesis using that(2) let_go_mono [OF t, of a] by blast
  qed
  {
    assume "Status j = StatusPending"
    with assms(3) j have "i \<in> queued' \<or> i \<in> keeps_pending a' \<union> let_go later a' \<or>
        i \<notin> keeps_pending (as ! k) \<union> let_go now (as ! k) \<and> (\<exists>k. m i = Some k \<and> Status k = StatusPending)"
      by (simp add: hands_on_def)
    then show "i \<in> queued' \<or> (\<exists>a \<in> set (as[k := a']). i \<in> keeps_pending a \<union> let_go later a)"
    proof (elim disjE conjE)
      assume n: "i \<notin> keeps_pending (as ! k) \<union> let_go now (as ! k)" and "\<exists>k. m i = Some k \<and> Status k = StatusPending"
      then have "i \<in> queued \<or> (\<exists>a \<in> set as. i \<in> keeps_pending a \<union> let_go now a)"
        using assms(1) unfolding accounted_def by blast
      with n sub show ?thesis using other [of _ keeps_pending] by blast
    qed (use new in blast)+
  }
  {
    assume "Status j = StatusProcessing"
    with assms(3) j have "i \<in> keeps_claimed a' \<union> let_go later a' \<or>
        i \<notin> keeps_claimed (as ! k) \<union> let_go now (as ! k) \<and> (\<exists>k. m i = Some k \<and> Status k = StatusProcessing)"
      by (simp add: hands_on_def)
    then show "\<exists>a \<in> set (as[k := a']). i \<in> keeps_claimed a \<union> let_go later a"
    proof (elim disjE conjE)
      assume n: "i \<notin> keeps_claimed (as ! k) \<union> let_go now (as ! k)" and "\<exists>k. m i = Some k \<and> Status k = StatusProcessing"
      then have "\<exists>a \<in> set as. i \<in> keeps_claimed a \<union> let_go now a" using assms(1) unfolding accounted_def by blast
      with n show ?thesis using other [of _ keeps_claimed] by blast
    qed (use new in blast)
  }
qed

lemma hands_on_quiet:
  "now \<le> later \<Longrightarrow> lets_go a = {} \<Longrightarrow> keeps_pending a \<subseteq> keeps_pending a' \<Longrightarrow> keeps_claimed a \<subseteq> keeps_claimed a' \<Longrightarrow>
   hands_on now a later a' m queued m queued"
  by (auto simp: hands_on_def)

lemma hands_on_same: "now \<le> later \<Longrightarrow> hands_on now a later a m queued m queued"
  using let_go_mono [of now later a] by (auto simp: hands_on_def)

lemma hands_on_update:
  "now \<le> later \<Longrightarrow> lets_go a = {} \<Longrightarrow> keeps_pending a \<subseteq> {i} \<Longrightarrow> keeps_claimed a \<subseteq> {i} \<Longrightarrow>
   (Status j = StatusPending \<Longrightarrow> i \<in> keeps_pending a') \<Longrightarrow>
   (Status j = StatusProcessing \<Longrightarrow> i \<in> keeps_claimed a') \<Longrightarrow> hands_on now a later a' m queued (m(i \<mapsto> j)) queued"
  by (auto simp: hands_on_def)

text \<open>A use case that gives up on its job because its context is over.\<close>

lemma hands_on_over:
  "now \<le> later \<Longrightarrow> lets_go a = {} \<Longrightarrow> keeps_pending a \<subseteq> {i} \<Longrightarrow> keeps_claimed a \<subseteq> {i} \<Longrightarrow>
   CtxErr (ctx_of a') now \<noteq> None \<Longrightarrow> i \<in> lets_go a' \<Longrightarrow> hands_on now a later a' m queued m queued"
  using let_go_over [of a' now later i] by (auto simp: hands_on_def)

section \<open>The steps of the use cases\<close>

lemma statuses_differ: "StatusFailed \<noteq> StatusPending" "StatusFailed \<noteq> StatusProcessing"
  "StatusDone \<noteq> StatusPending" "StatusDone \<noteq> StatusProcessing" "StatusProcessing \<noteq> StatusPending"
  by (simp_all add: status_defs)

lemma process_hands_on:
  assumes step: "process_step (mem_process env) c i (pc, w) = (pc', w')"
    and kn: "knows (\<lambda>t. True) (stored_at (mem_loc env) (mem_objs w)) (w_jobs w) (Processing c i pc)"
  shows "hands_on (w_tick w) (Processing c i pc) (w_tick w') (Processing c i pc') (w_jobs w) (set_mset (mem_waiting w))
           (w_jobs w') (set_mset (mem_waiting w'))"
proof -
  have t: "w_tick w \<le> w_tick w'" using mem_process_step_tick [OF step] .
  have wk: "\<exists>k. w_jobs w i = Some k \<and> ID j = i" if "works_on (w_jobs w) i j" for j
    using that by (auto simp: works_on_def)
  have upd: "hands_on (w_tick w) (Processing c i pc) (w_tick w') (Processing c i pc') (w_jobs w) (set_mset (mem_waiting w))
           (w_jobs w1) (set_mset (mem_waiting w1))"
    if u: "UpdateStatus (mem_jobs env) c i s rk pe w = (x, w1)" and "w_jobs w i = Some k" "status_valid s"
      and own: "lets_go (Processing c i pc) = {}" "keeps_pending (Processing c i pc) \<subseteq> {i}"
        "keeps_claimed (Processing c i pc) \<subseteq> {i}"
      and ok: "x = None \<Longrightarrow> s \<noteq> StatusPending \<and> (s = StatusProcessing \<longrightarrow> i \<in> keeps_claimed (Processing c i pc'))"
      and er: "x \<noteq> None \<Longrightarrow> i \<in> lets_go (Processing c i pc')" for s rk pe x w1 k
    using u that(3,2)
  proof (cases rule: mem_update_cases)
    case recorded
    then have "hands_on (w_tick w) (Processing c i pc) (w_tick w') (Processing c i pc') (w_jobs w) (set_mset (mem_waiting w))
        ((w_jobs w)(i \<mapsto> updated_job s rk pe (env_clock env (w_tick w)) k)) (set_mset (mem_waiting w))"
      using ok by (intro hands_on_update t own) auto
    then show ?thesis using recorded mem_jobs_other(3) [OF u] by simp
  next
    case (over e)
    then show ?thesis
      using mem_jobs_other(3) [OF u] er hands_on_over [OF t own, of "Processing c i pc'"] by simp
  qed
  show ?thesis
  proof (cases pc)
    case PLoad
    show ?thesis
    proof (cases "CtxErr c (w_tick w)")
      case None
      from kn obtain k where k: "w_jobs w i = Some k" by (auto simp: PLoad)
      from step mem_load_live [OF None k, of env] show ?thesis
        by (auto simp: PLoad hands_on_def k split: if_splits)
    next
      case (Some e)
      then have "pc' = PReturned (None, Some (EWrap (''process job '' @ i @ '': load: '') e []))" "w' = after_call w"
        using step by (auto simp: PLoad mem_jobs_def memrepo_get_def)
      with t Some hands_on_over [of "w_tick w" "w_tick w'" "Processing c i pc" i "Processing c i pc'"] show ?thesis
        by (simp add: PLoad)
    qed
  next
    case (PClaim j)
    with kn wk obtain k where k: "w_jobs w i = Some k" by auto
    obtain x w1 where u: "UpdateStatus (mem_jobs env) c i StatusProcessing [] None w = (x, w1)" by fastforce
    with step have "w' = w1" by (auto simp: PClaim split: option.splits)
    moreover have "hands_on (w_tick w) (Processing c i pc) (w_tick w') (Processing c i pc') (w_jobs w) (set_mset (mem_waiting w))
           (w_jobs w1) (set_mset (mem_waiting w1))"
      by (rule upd [OF u k]) (use step u in \<open>auto simp: PClaim statuses_differ split: option.splits\<close>)
    ultimately show ?thesis by simp
  next
    case (PRead j)
    obtain x w1 where g: "GetObject (mem_storage env) c (OriginalKey j) w = (x, w1)" by fastforce
    from step g mem_storage_other(2) [OF g] t show ?thesis
      by (auto simp: PRead intro!: hands_on_quiet split: sum.splits)
  next
    case (PTransform j src)
    obtain x w1 where g: "Process (mem_processor env) c (Some src) (Transformation j) w = (x, w1)" by fastforce
    from step g mem_processor_other [OF g] t show ?thesis
      by (auto simp: PTransform intro!: hands_on_quiet split: sum.splits)
  next
    case (PStore j src out)
    obtain x w1 where g: "Put (mem_storage env) c (result_key (ID j) (Transformation j)) (Some out) w = (x, w1)"
      by fastforce
    from step g mem_storage_other(1) [OF g] t show ?thesis
      by (auto simp: PStore Let_def intro!: hands_on_quiet split: option.splits)
  next
    case (PClose j src r)
    from step t show ?thesis
      by (auto simp: PClose mem_storage_other(3,4) intro!: hands_on_quiet split: sum.splits)
  next
    case (PFail j e)
    with kn wk obtain k where k: "w_jobs w i = Some k" "ID j = i" by auto
    let ?e = "EWrap (''process job '' @ ID j @ '': '') e []"
    obtain x w1 where u: "UpdateStatus (mem_jobs env) c i StatusFailed [] (Some ?e) w = (x, w1)" by fastforce
    with step k(2) have "w' = w1" by (auto simp: PFail fail_job_def Let_def split: option.splits)
    moreover have "hands_on (w_tick w) (Processing c i pc) (w_tick w') (Processing c i pc') (w_jobs w) (set_mset (mem_waiting w))
           (w_jobs w1) (set_mset (mem_waiting w1))"
      by (rule upd [OF u k(1)])
        (use step u k(2) in \<open>auto simp: PFail fail_job_def Let_def statuses_differ split: option.splits\<close>)
    ultimately show ?thesis by simp
  next
    case (PFinish j rk)
    with kn wk obtain k where k: "w_jobs w i = Some k" by auto
    obtain x w1 where u: "UpdateStatus (mem_jobs env) c i StatusDone rk None w = (x, w1)" by fastforce
    with step have "w' = w1" by (auto simp: PFinish split: option.splits)
    moreover have "hands_on (w_tick w) (Processing c i pc) (w_tick w') (Processing c i pc') (w_jobs w) (set_mset (mem_waiting w))
           (w_jobs w1) (set_mset (mem_waiting w1))"
      by (rule upd [OF u k]) (use step u in \<open>auto simp: PFinish statuses_differ split: option.splits\<close>)
    ultimately show ?thesis by simp
  next
    case (PReturned r)
    with step t show ?thesis by (auto intro!: hands_on_same)
  qed
qed

lemma create_hands_on:
  assumes step: "create_step (mem_create env) c src sp (pc, w) = (pc', w')"
    and kn: "knows (\<lambda>t. True) (stored_at (mem_loc env) (mem_objs w)) (w_jobs w) (Creating c src sp pc)"
  shows "hands_on (w_tick w) (Creating c src sp pc) (w_tick w') (Creating c src sp pc') (w_jobs w) (set_mset (mem_waiting w))
           (w_jobs w') (set_mset (mem_waiting w'))"
proof -
  have t: "w_tick w \<le> w_tick w'" using mem_create_step_tick [OF step] .
  have sel: "cj_storage (mem_create env) = mem_storage env" "cj_jobs (mem_create env) = mem_jobs env"
    "cj_queue (mem_create env) = mem_enqueue env" "cj_newID (mem_create env) = mem_new_id env"
    "cj_now (mem_create env) = mem_now env"
    by (simp_all add: mem_create_def new_create_job_def)
  show ?thesis
  proof (cases pc)
    case CStart
    with step t show ?thesis
      by (auto simp: sel mem_new_id_def intro!: hands_on_quiet split: option.splits)
  next
    case (CPut i)
    obtain x w1 where g: "Put (mem_storage env) c (original_key i) src w = (x, w1)" by fastforce
    from step g mem_storage_other(1) [OF g] t show ?thesis
      by (auto simp: CPut sel intro!: hands_on_quiet split: option.splits)
  next
    case (CNow i)
    with step t show ?thesis by (auto simp: sel mem_now_def intro!: hands_on_quiet)
  next
    case (CSave j)
    obtain x w1 where g: "Save (mem_jobs env) c (Some j) w = (x, w1)" by fastforce
    with step have w1: "w' = w1" by (auto simp: CSave sel split: option.splits)
    from mem_jobs_other(1) [OF g] have q: "mem_waiting w' = mem_waiting w" using w1 by simp
    show ?thesis
    proof (cases x)
      case None
      with g have "w_jobs w' = (w_jobs w)(ID j \<mapsto> j)" using w1 by (auto dest: mem_repo.ssave_ok)
      moreover have "pc' = CEnqueue j" using step g None by (simp add: CSave sel)
      moreover have "Status j = StatusPending"
      proof -
        from kn obtain t where "j = created_job (ID j) sp t" by (auto simp: CSave)
        from arg_cong [OF this, of Status] show ?thesis by simp
      qed
      ultimately show ?thesis using q t by (auto simp: CSave statuses_differ intro!: hands_on_update)
    next
      case (Some e)
      with g have "w_jobs w' = w_jobs w" using w1 by (auto dest: mem_repo.ssave_err)
      with q t show ?thesis by (auto simp: CSave intro!: hands_on_quiet)
    qed
  next
    case (CEnqueue j)
    obtain x w1 where g: "Enqueue (mem_enqueue env) c (ID j) w = (x, w1)" by fastforce
    from step g mem_enqueue_other [OF g] t show ?thesis
      by (auto simp: CEnqueue sel hands_on_def dest: mem_work.senq_ok mem_work.senq_err split: option.splits)
  next
    case (CMark j e)
    with kn obtain k x where k: "w_jobs w (ID j) = Some k" and e: "e = EWrap (''create job '' @ ID j @ '': enqueue: '') x []"
      by auto
    obtain y w1 where u: "UpdateStatus (mem_jobs env) c (ID j) StatusFailed [] (Some e) w = (y, w1)" by fastforce
    with step have w1: "w' = w1" by (auto simp: CMark sel split: option.splits)
    note q = mem_jobs_other(3) [OF u]
    from u statuses_valid(4) k show ?thesis
    proof (cases rule: mem_update_cases)
      case recorded
      then show ?thesis using q w1 t by (auto simp: CMark statuses_differ intro!: hands_on_update)
    next
      case (over z)
      then have "ID j \<in> lets_go (Creating c src sp pc')" using step u e by (auto simp: CMark sel)
      with over q w1 t show ?thesis
        using hands_on_over [of "w_tick w" "w_tick w'" "Creating c src sp pc" "ID j" "Creating c src sp pc'"]
        by (simp add: CMark)
    qed
  next
    case (CReturned r)
    with step t show ?thesis by (auto intro!: hands_on_same)
  qed
qed

section \<open>Every reachable state\<close>

definition mem_accounted :: "mem_world \<times> activity list \<Rightarrow> bool" where
  "mem_accounted s = (case s of (w, as) \<Rightarrow> accounted (w_tick w) (w_jobs w) (set_mset (mem_waiting w)) as)"

lemma accounted_mono:
  assumes "accounted now m queued as" "now \<le> later" "set as \<subseteq> set bs"
  shows "accounted later m queued bs"
  using assms(1,3) let_go_mono [OF assms(2)] unfolding accounted_def by blast

lemma accounted_deliver:
  assumes "accounted now m queued as" "queued \<subseteq> insert i queued'"
  shows "accounted now m queued' (as @ [Delivering c i])"
  using assms unfolding accounted_def by (simp only: set_append list.set Un_iff) fastforce

lemma mem_accounted_step:
  assumes "mem_system_step env (w, as) (w', as')" "mem_accounted (w, as)" "mem_system_ok env (w, as)"
  shows "mem_accounted (w', as')"
  using assms(1)
proof cases
  case (upload c src sp)
  with assms(2) show ?thesis by (auto simp: mem_accounted_def elim!: accounted_mono)
next
  case (pull d q c)
  then obtain ds where "mq_buf (w_queue w) = d # ds" "q = (w_queue w)\<lparr>mq_buf := ds\<rparr>"
    by (auto simp: mq_receive_simps)
  then have "set_mset (mem_waiting w) \<subseteq> insert (JobID d) (set_mset (mem_waiting (w\<lparr>w_queue := q\<rparr>)))"
    by (simp add: mem_waiting_def)
  with assms(2) pull show ?thesis by (auto simp: mem_accounted_def intro!: accounted_deliver)
next
  case (hand k c i c')
  have "hands_on (w_tick w) (as ! k) (w_tick w) (Processing c' i PLoad) (w_jobs w) (set_mset (mem_waiting w))
      (w_jobs w) (set_mset (mem_waiting w))"
    unfolding hand(4) by (intro hands_on_quiet) simp_all
  from accounted_step [OF assms(2) [unfolded mem_accounted_def prod.case] hand(3) this] hand
  show ?thesis by (simp add: mem_accounted_def)
next
  case (drop k c i)
  have "hands_on (w_tick w) (as ! k) (w_tick w) (Dropped c i) (w_jobs w) (set_mset (mem_waiting w))
      (w_jobs w) (set_mset (mem_waiting w))"
    unfolding drop(4) by (rule hands_on_over [where i = i]) (use drop(5) in simp_all)
  from accounted_step [OF assms(2) [unfolded mem_accounted_def prod.case] drop(3) this] drop
  show ?thesis by (simp add: mem_accounted_def)
next
  case (create k c src sp pc pc')
  have "knows (\<lambda>t. True) (stored_at (mem_loc env) (mem_objs w)) (w_jobs w) (as ! k)"
    using system_ok_at(1) [OF assms(3) [unfolded mem_system_ok_def prod.case] create(2)] .
  then have "hands_on (w_tick w) (as ! k) (w_tick w') (Creating c src sp pc') (w_jobs w) (set_mset (mem_waiting w))
      (w_jobs w') (set_mset (mem_waiting w'))"
    unfolding create(3) by (intro create_hands_on [OF create(4)])
  from accounted_step [OF assms(2) [unfolded mem_accounted_def prod.case] create(2) this]
  show ?thesis by (simp add: mem_accounted_def create(1))
next
  case (process k c i pc pc')
  have "knows (\<lambda>t. True) (stored_at (mem_loc env) (mem_objs w)) (w_jobs w) (as ! k)"
    using system_ok_at(1) [OF assms(3) [unfolded mem_system_ok_def prod.case] process(2)] .
  then have "hands_on (w_tick w) (as ! k) (w_tick w') (Processing c i pc') (w_jobs w) (set_mset (mem_waiting w))
      (w_jobs w') (set_mset (mem_waiting w'))"
    unfolding process(3) by (intro process_hands_on [OF process(4)])
  from accounted_step [OF assms(2) [unfolded mem_accounted_def prod.case] process(2) this]
  show ?thesis by (simp add: mem_accounted_def process(1))
next
  case shut
  with assms(2) show ?thesis by (simp add: mem_accounted_def mem_waiting_def)
next
  case pass
  with assms(2) show ?thesis by (auto simp: mem_accounted_def elim!: accounted_mono)
qed

lemma mem_accounted_reachable:
  assumes "mem_reachable env s" "inj_on (env_rand env) {..w_tick (fst s)}"
  shows "mem_accounted s"
proof -
  from assms(1) obtain m buffer where run: "(mem_system_step env)\<^sup>*\<^sup>* (mem_start m buffer, []) s"
    by (auto simp: mem_reachable_def)
  from run assms(2) show ?thesis
  proof induction
    case base
    show ?case by (simp add: mem_accounted_def accounted_def mem_start_def memrepo_new_def)
  next
    case (step s t)
    obtain w as w' as' where st: "s = (w, as)" "t = (w', as')" by fastforce
    note m = step.hyps(2) [unfolded st]
    have inj: "inj_on (env_rand env) {..w_tick (fst s)}"
      using step.prems(1) st mem_step_tick [OF m] by (auto elim: inj_on_subset)
    have "mem_reachable env s" using step.hyps(1) by (auto simp: mem_reachable_def)
    from mem_system_ok_reachable [OF this inj] step.IH [OF inj] st
    show ?case unfolding st(2) by (intro mem_accounted_step [OF m]) simp_all
  qed
qed

text \<open>Whether an activity is at an end: a use case has returned, a delivery was dropped.\<close>

fun has_returned :: "activity \<Rightarrow> bool" where
  "has_returned (Creating c src sp pc) = (create_left pc = 0)"
| "has_returned (Delivering c i) = False"
| "has_returned (Dropped c i) = True"
| "has_returned (Processing c i pc) = (process_left pc = 0)"

lemma minds_not_returned:
  "i \<in> keeps_pending a \<Longrightarrow> \<not> has_returned a" "i \<in> keeps_claimed a \<Longrightarrow> \<not> has_returned a"
  by (cases a rule: keeps_pending.cases; simp)
    (cases a rule: keeps_claimed.cases; simp)

text \<open>
  C5: no job is forgotten. In every state that uploads, the queue's consumers and workers can bring
  the in-process program to, contexts ending whenever they like, a stored job is done or failed; or
  its identifier is on the queue; or somebody not at an end yet will take it on: a creation in
  the middle of queueing or marking it, a consumer that holds its delivery, a worker that is about to
  claim it or has claimed it. Otherwise it was let go of, and then because a context had ended: a
  consumer whose context was over dropped its delivery, a worker whose run's context was over
  returned without settling it, or a creation whose context was over could neither queue it nor mark
  it as failed. (As long as the random bytes drawn for identifiers have not repeated.)
\<close>

theorem no_job_forgotten:
  assumes "mem_reachable env (w, as)" "inj_on (env_rand env) {..w_tick w}" "w_jobs w i = Some j"
  shows "status_terminal (Status j) \<or> i \<in># mem_waiting w \<or>
    (\<exists>a \<in> set as. \<not> has_returned a \<and> i \<in> keeps_pending a \<union> keeps_claimed a) \<or>
    (\<exists>a \<in> set as. i \<in> lets_go a \<and> (\<exists>t \<le> w_tick w. CtxErr (ctx_of a) t \<noteq> None))"
proof -
  have "mem_system_ok env (w, as)" using mem_system_ok_reachable [OF assms(1)] assms(2) by simp
  then have "status_valid (Status j)" using mem_system_ok_jobs(1) assms(3) by (fastforce simp: job_ok_def)
  then have st: "status_terminal (Status j) \<or> Status j = StatusPending \<or> Status j = StatusProcessing"
    by (auto simp: status_valid_def status_terminal_def split: if_splits)
  have "accounted (w_tick w) (w_jobs w) (set_mset (mem_waiting w)) as"
    using mem_accounted_reachable [OF assms(1)] assms(2) by (simp add: mem_accounted_def)
  with assms(3) st have "status_terminal (Status j) \<or> i \<in># mem_waiting w \<or>
      (\<exists>a \<in> set as. i \<in> keeps_pending a \<union> keeps_claimed a \<union> let_go (w_tick w) a)"
    unfolding accounted_def by blast
  then consider "status_terminal (Status j) \<or> i \<in># mem_waiting w"
    | a where "a \<in> set as" "i \<in> keeps_pending a \<union> keeps_claimed a"
    | a where "a \<in> set as" "i \<in> let_go (w_tick w) a" by blast
  then show ?thesis
  proof cases
    case 2
    then have "\<not> has_returned a" using minds_not_returned [of i a] by blast
    with 2 show ?thesis by blast
  next
    case 3
    then have "i \<in> lets_go a \<and> (\<exists>t \<le> w_tick w. CtxErr (ctx_of a) t \<noteq> None)"
      unfolding let_go_def by (metis empty_iff)
    with 3(1) show ?thesis by blast
  qed blast
qed

theorem no_job_forgotten_witness:
  "\<exists>w as j. mem_reachable sys_env (w, as) \<and> w_jobs w ''a10f'' = Some j \<and> Status j = StatusPending \<and>
     ''a10f'' \<in># mem_waiting w"
proof -
  have "w_jobs (sys_queued\<lparr>w_queue := sys_queue\<rparr>) ''a10f'' = Some sys_job" by (simp add: sys_queued_def)
  then have "status_terminal (Status sys_job) \<or> ''a10f'' \<in># mem_waiting (sys_queued\<lparr>w_queue := sys_queue\<rparr>)"
    using no_job_forgotten [OF sys_created sys_env_fresh] by fastforce
  moreover have "Status sys_job = StatusPending" by (simp add: sys_job_def)
  ultimately show ?thesis
    using sys_created by (intro exI conjI) (auto simp: sys_queued_def status_terminal_def statuses_differ)
qed

section \<open>Coming to rest\<close>

text \<open>
  The steps a pool of the given size makes to get work done: its one consumer takes a delivery when
  it holds none, and hands it over when a worker is idle; a use case that has not returned makes its
  next call, unless it has to wait.
\<close>

definition holding :: "activity list \<Rightarrow> bool" where
  "holding as \<longleftrightarrow> list_ex (\<lambda>a. case a of Delivering c i \<Rightarrow> True | _ \<Rightarrow> False) as"

definition busy :: "activity list \<Rightarrow> nat" where
  "busy as = length (filter (\<lambda>a. case a of Processing c i pc \<Rightarrow> 0 < process_left pc | _ \<Rightarrow> False) as)"

inductive mem_move ::
  "'p mem_env \<Rightarrow> nat \<Rightarrow> mem_world \<times> activity list \<Rightarrow> mem_world \<times> activity list \<Rightarrow> bool"
  for env :: "'p mem_env" and pool :: nat where
  pull: "\<not> holding as \<Longrightarrow> mq_receive (w_queue w) = Some (Some d, q) \<Longrightarrow>
    mem_move env pool (w, as) (w\<lparr>w_queue := q\<rparr>, as @ [Delivering c (JobID d)])"
| hand: "k < length as \<Longrightarrow> as ! k = Delivering c i \<Longrightarrow> busy as < pool \<Longrightarrow>
    mem_move env pool (w, as) (w, as[k := Processing c' i PLoad])"
| create: "k < length as \<Longrightarrow> as ! k = Creating c src sp pc \<Longrightarrow> 0 < create_left pc \<Longrightarrow>
    create_step (mem_create env) c src sp (pc, w) = (pc', w') \<Longrightarrow> \<not> mem_blocked env c pc w \<Longrightarrow>
    mem_move env pool (w, as) (w', as[k := Creating c src sp pc'])"
| process: "k < length as \<Longrightarrow> as ! k = Processing c i pc \<Longrightarrow> 0 < process_left pc \<Longrightarrow>
    process_step (mem_process env) c i (pc, w) = (pc', w') \<Longrightarrow>
    mem_move env pool (w, as) (w', as[k := Processing c i pc'])"

lemma mem_move_step: "mem_move env pool s t \<Longrightarrow> mem_system_step env s t"
  by (induction rule: mem_move.induct) (auto intro: mem_system_step.intros)

lemma mem_moves_steps: "(mem_move env pool ^^ n) s t \<Longrightarrow> (mem_system_step env)\<^sup>*\<^sup>* s t"
proof (induction n arbitrary: t)
  case (Suc n)
  then show ?case by (auto intro: rtranclp.rtrancl_into_rtrancl mem_move_step)
qed simp

text \<open>
  What is left to do: for an identifier on the queue, nine moves, for one in the consumer's hand
  eight; for a creation that may still put one there, those too.
\<close>

fun moves_left :: "activity \<Rightarrow> nat" where
  "moves_left (Creating c src sp pc) = create_left pc + (if 2 \<le> create_left pc then 9 else 0)"
| "moves_left (Delivering c i) = 8"
| "moves_left (Dropped c i) = 0"
| "moves_left (Processing c i pc) = process_left pc"

definition work_left :: "mem_world \<times> activity list \<Rightarrow> nat" where
  "work_left s = (case s of (w, as) \<Rightarrow> 9 * size (mem_waiting w) + sum_list (map moves_left as))"

lemma sum_list_update_less:
  "k < length xs \<Longrightarrow> f y + d < f (xs ! k) + e \<Longrightarrow>
   sum_list (map f (xs[k := y])) + d < sum_list (map f xs) + (e :: nat)"
proof (induction xs arbitrary: k)
  case (Cons x xs)
  then show ?case by (cases k) auto
qed simp

lemma create_step_waiting:
  assumes "create_step (mem_create env) c src sp (pc, w) = (pc', w')"
  shows "mem_waiting w' = mem_waiting w \<or>
    (\<exists>j r. pc = CEnqueue j \<and> pc' = CReturned r \<and> mem_waiting w' = add_mset (ID j) (mem_waiting w))"
proof (cases pc)
  case (CEnqueue j)
  obtain x w1 where g: "Enqueue (mem_enqueue env) c (ID j) w = (x, w1)" by fastforce
  then show ?thesis
    using assms
    by (auto simp: CEnqueue mem_create_def new_create_job_def dest: mem_work.senq_ok mem_work.senq_err split: option.splits)
qed (use assms in \<open>auto simp: mem_create_def new_create_job_def mem_new_id_def mem_now_def
      dest: mem_storage_other(1) mem_jobs_other split: prod.splits option.splits\<close>)

lemma process_step_waiting:
  "process_step (mem_process env) c i (pc, w) = (pc', w') \<Longrightarrow> mem_waiting w' = mem_waiting w"
  by (cases pc)
    (auto simp: fail_job_def Let_def mem_storage_other(4)
      dest: mem_storage_other(1,2) mem_jobs_other(2,3) mem_processor_other
      split: prod.splits option.splits sum.splits if_splits)

lemma times_waiting:
  "times n (process_step (mem_process env) c i) (pc, w) = (pc', w') \<Longrightarrow> mem_waiting w' = mem_waiting w"
proof (induction n arbitrary: pc w)
  case (Suc n)
  obtain pc1 w1 where s: "process_step (mem_process env) c i (pc, w) = (pc1, w1)" by fastforce
  from Suc.IH [of pc1 w1] Suc.prems s process_step_waiting [OF s] show ?case by simp
qed simp

lemma mem_move_less: "mem_move env pool s t \<Longrightarrow> work_left t < work_left s"
proof (induction rule: mem_move.induct)
  case (pull as w d q c)
  then have "size (mem_waiting w) = Suc (size (mem_waiting (w\<lparr>w_queue := q\<rparr>)))"
    by (auto simp: mq_receive_simps mem_waiting_def)
  then show ?case by (simp add: work_left_def)
next
  case (hand k as c i w c')
  then have "moves_left (Processing c' i PLoad) + 0 < moves_left (as ! k) + 0" by simp
  from sum_list_update_less [OF hand(1) this] show ?case by (simp add: work_left_def)
next
  case (create k as c src sp pc w pc' w')
  have l: "create_left pc' \<le> create_left pc - 1"
    using create_left_step [of "mem_create env" c src sp pc w] create(4) by simp
  from create_step_waiting [OF create(4)]
  have "moves_left (Creating c src sp pc') + 9 * size (mem_waiting w')
      < moves_left (as ! k) + 9 * size (mem_waiting w)"
    using l create(2,3) by auto
  from sum_list_update_less [OF create(1) this] show ?case by (simp add: work_left_def)
next
  case (process k as c i pc w pc' w')
  have "process_left pc' \<le> process_left pc - 1"
    using process_left_step [of "mem_process env" c i pc w] process(4) by simp
  then have "moves_left (Processing c i pc') + 9 * size (mem_waiting w')
      < moves_left (as ! k) + 9 * size (mem_waiting w)"
    using process(2,3) process_step_waiting [OF process(4)] by simp
  from sum_list_update_less [OF process(1) this] show ?case by (simp add: work_left_def)
qed

lemma mem_moves_bound: "(mem_move env pool ^^ n) s t \<Longrightarrow> n + work_left t \<le> work_left s"
proof (induction n arbitrary: t)
  case (Suc n)
  then obtain u where "(mem_move env pool ^^ n) s u" "mem_move env pool u t" by auto
  with Suc.IH [of u] mem_move_less [of env pool u t] show ?case by simp
qed simp

text \<open>The buffer has room for something, always.\<close>

lemma create_step_cap:
  "create_step (mem_create env) c src sp (pc, w) = (pc', w') \<Longrightarrow> mq_cap (w_queue w') = mq_cap (w_queue w)"
  by (cases pc)
    (auto simp: mem_create_def new_create_job_def mem_new_id_def mem_now_def mem_storage_def mem_jobs_def
        mem_enqueue_def mq_enqueue_def after_call_def Let_def split: prod.splits option.splits if_splits)

lemma process_step_cap:
  "process_step (mem_process env) c i (pc, w) = (pc', w') \<Longrightarrow> mq_cap (w_queue w') = mq_cap (w_queue w)"
  by (cases pc)
    (auto simp: fail_job_def Let_def mem_storage_def mem_jobs_def mem_processor_def after_call_def
      split: prod.splits option.splits sum.splits if_splits)

lemma mem_step_cap: "mem_system_step env s t \<Longrightarrow> mq_cap (w_queue (fst t)) = mq_cap (w_queue (fst s))"
  by (induction rule: mem_system_step.induct)
    (auto simp: mq_receive_simps dest: create_step_cap process_step_cap)

lemma mem_reachable_room:
  assumes "mem_reachable env s"
  shows "0 < mq_cap (w_queue (fst s))"
proof -
  from assms obtain m buffer where "(mem_system_step env)\<^sup>*\<^sup>* (mem_start m buffer, []) s"
    by (auto simp: mem_reachable_def)
  then show ?thesis
    by induction (auto simp: mem_start_def mq_new_room dest: mem_step_cap)
qed

lemma at_rest:
  assumes "\<nexists>u. mem_move env pool (w, as) u" "0 < pool" "0 < mq_cap (w_queue w)"
  shows "mem_waiting w = {#} \<and> (\<forall>a \<in> set as. has_returned a)"
proof -
  have processed: "process_left pc = 0" if "Processing c i pc \<in> set as" for c i pc
  proof -
    from that obtain k where k: "k < length as" "as ! k = Processing c i pc" by (auto simp: in_set_conv_nth)
    obtain pc' w' where "process_step (mem_process env) c i (pc, w) = (pc', w')" by fastforce
    from mem_move.process [OF k _ this] assms(1) show ?thesis by blast
  qed
  then have "busy as = 0" by (auto simp: busy_def filter_empty_conv split: activity.splits)
  then have handed: "Delivering c i \<notin> set as" for c i
    using mem_move.hand [of _ as c i pool env w c] assms(1,2) by (auto simp: in_set_conv_nth)
  then have "\<not> holding as" by (auto simp: holding_def list_ex_iff split: activity.splits)
  then have buf: "mq_buf (w_queue w) = []"
    using mem_move.pull [of as w _ _ env pool] assms(1) by (cases "mq_buf (w_queue w)") (auto simp: mq_receive_def)
  have created: "create_left pc = 0" if "Creating c src sp pc \<in> set as" for c src sp pc
  proof -
    from that obtain k where k: "k < length as" "as ! k = Creating c src sp pc" by (auto simp: in_set_conv_nth)
    have "\<not> mem_blocked env c pc w"
      using assms(3) buf by (auto simp: mem_blocked_def mq_enqueue_blocks split: create_pc.splits)
    moreover obtain pc' w' where "create_step (mem_create env) c src sp (pc, w) = (pc', w')" by fastforce
    ultimately show ?thesis using mem_move.create [OF k] assms(1) by blast
  qed
  have "has_returned a" if "a \<in> set as" for a
    using that processed created handed by (cases a rule: activity.exhaust) auto
  with buf show ?thesis by (simp add: mem_waiting_def)
qed

text \<open>
  C6: the worker's process comes to rest. Take its pool, of one worker or more, with the consumer it
  reads the queue through, and jobs created meanwhile or before. From any reachable state at most
  \<open>work_left\<close> moves remain once no more creations begin, in whatever order they are made and however
  contexts end; and as long as no move is left to make, no stored job is left to process: each is done or failed, or
  was let go of when a context ended. So nobody waits for ever: a full buffer is emptied, and a
  consumer's delivery finds a worker. (The API's process has no pool: there jobs stay pending.)
\<close>

theorem system_settles:
  assumes "mem_reachable env s" "(mem_move env pool ^^ n) s (w, as)" "inj_on (env_rand env) {..w_tick w}" "0 < pool"
  shows "n + work_left (w, as) \<le> work_left s \<and>
    ((\<nexists>u. mem_move env pool (w, as) u) \<longrightarrow>
       (\<forall>i j. w_jobs w i = Some j \<longrightarrow> status_terminal (Status j) \<or>
          (\<exists>a \<in> set as. i \<in> lets_go a \<and> (\<exists>t \<le> w_tick w. CtxErr (ctx_of a) t \<noteq> None))))"
proof (intro conjI impI allI)
  show "n + work_left (w, as) \<le> work_left s" using assms(2) by (rule mem_moves_bound)
next
  fix i j
  assume rest: "\<nexists>u. mem_move env pool (w, as) u" and j: "w_jobs w i = Some j"
  have r: "mem_reachable env (w, as)" using assms(1) mem_moves_steps [OF assms(2)] by (rule mem_reachable_steps)
  have "mem_waiting w = {#} \<and> (\<forall>a \<in> set as. has_returned a)"
    using at_rest [OF rest assms(4)] mem_reachable_room [OF r] by simp
  moreover have "accounted (w_tick w) (w_jobs w) (set_mset (mem_waiting w)) as"
    using mem_accounted_reachable [OF r] assms(3) by (simp add: mem_accounted_def)
  ultimately have "Status j \<noteq> StatusPending \<and> Status j \<noteq> StatusProcessing \<or> (\<exists>a \<in> set as. i \<in> let_go (w_tick w) a)"
    using j minds_not_returned unfolding accounted_def by fastforce
  moreover have "status_valid (Status j)"
    using mem_system_ok_jobs(1) [OF _ j] mem_system_ok_reachable [OF r] assms(3) by (fastforce simp: job_ok_def)
  ultimately show "status_terminal (Status j) \<or>
      (\<exists>a \<in> set as. i \<in> lets_go a \<and> (\<exists>t \<le> w_tick w. CtxErr (ctx_of a) t \<noteq> None))"
    by (auto simp: status_valid_def let_go_def split: if_splits)
qed

text \<open>The example again: the delivery is taken, handed over, processed, and nothing is left to do.\<close>

lemma process_moves:
  "times n (process_step (mem_process env) c i) (pc, w) = (pc', w') \<Longrightarrow>
   (mem_move env pool)\<^sup>*\<^sup>* (w, as @ [Processing c i pc]) (w', as @ [Processing c i pc'])"
proof (induction n arbitrary: pc w)
  case (Suc n)
  obtain pc1 w1 where s: "process_step (mem_process env) c i (pc, w) = (pc1, w1)" by fastforce
  have r: "(mem_move env pool)\<^sup>*\<^sup>* (w1, as @ [Processing c i pc1]) (w', as @ [Processing c i pc'])"
    using Suc s by simp
  show ?case
  proof (cases "process_left pc = 0")
    case True
    with s r show ?thesis by (auto simp: process_left_0)
  next
    case False
    with mem_move.process [OF _ _ _ s, of "length as" "as @ [Processing c i pc]"]
    have "mem_move env pool (w, as @ [Processing c i pc]) (w1, as @ [Processing c i pc1])" by simp
    then show ?thesis using r by (rule converse_rtranclp_into_rtranclp)
  qed
qed simp

abbreviation sys_upload :: activity where
  "sys_upload \<equiv> Creating Background (Some (Reader ''pixels'' None)) ex_spec (CReturned (Inr sys_job))"

lemma sys_moves:
  "(mem_move sys_env 1)\<^sup>*\<^sup>* (sys_queued\<lparr>w_queue := sys_queue\<rparr>, [sys_upload])
     (snd sys_process, [sys_upload] @ [Processing Background ''a10f'' (PReturned (fst sys_process))])"
proof -
  let ?w = "sys_queued\<lparr>w_queue := mq_new 0\<rparr>"
  have "\<not> holding [sys_upload]" by (simp add: holding_def)
  moreover have "mq_receive (w_queue (sys_queued\<lparr>w_queue := sys_queue\<rparr>))
      = Some (Some \<lparr>JobID = ''a10f'', Meta = CtxCarrier Background\<rparr>, mq_new 0)" by (simp add: sys_queue_taken)
  ultimately have p: "mem_move sys_env 1 (sys_queued\<lparr>w_queue := sys_queue\<rparr>, [sys_upload])
      (?w, [sys_upload, Delivering Background ''a10f''])"
    using mem_move.pull [of "[sys_upload]" "sys_queued\<lparr>w_queue := sys_queue\<rparr>" _ _ sys_env 1 Background] by fastforce
  have h: "mem_move sys_env 1 (?w, [sys_upload, Delivering Background ''a10f''])
      (?w, [sys_upload] @ [Processing Background ''a10f'' PLoad])"
    using mem_move.hand [of 1 "[sys_upload, Delivering Background ''a10f'']" Background "''a10f''" 1 sys_env ?w Background]
    by (simp add: busy_def)
  have "times (7 + 0) (process_step (mem_process sys_env) Background ''a10f'') (PLoad, ?w)
      = (PReturned (fst sys_process), snd sys_process)"
    by (simp only: process_run sys_process_def split_beta)
  from p h process_moves [OF this] show ?thesis by (meson converse_rtranclp_into_rtranclp)
qed

lemma sys_process_waiting: "mem_waiting (snd sys_process) = {#}"
proof -
  have "process_job_execute (mem_process sys_env) Background ''a10f'' (sys_queued\<lparr>w_queue := mq_new 0\<rparr>)
      = (fst sys_process, snd sys_process)" by (simp add: sys_process_def)
  then have "times (7 + 0) (process_step (mem_process sys_env) Background ''a10f'') (PLoad, sys_queued\<lparr>w_queue := mq_new 0\<rparr>)
      = (PReturned (fst sys_process), snd sys_process)" by (simp only: process_run prod.case)
  from times_waiting [OF this] show ?thesis by (simp add: mem_waiting_def mq_new_def Let_def)
qed

theorem system_settles_witness:
  "\<exists>n as. (mem_move sys_env 1 ^^ n) (sys_queued\<lparr>w_queue := sys_queue\<rparr>, [sys_upload]) (snd sys_process, as) \<and>
     n \<le> 9 \<and> (\<forall>i j. w_jobs (snd sys_process) i = Some j \<longrightarrow> status_terminal (Status j))"
proof -
  let ?bs = "[sys_upload] @ [Processing Background ''a10f'' (PReturned (fst sys_process))]"
  obtain n where n: "(mem_move sys_env 1 ^^ n) (sys_queued\<lparr>w_queue := sys_queue\<rparr>, [sys_upload]) (snd sys_process, ?bs)"
    using sys_moves rtranclp_imp_relpowp by metis
  have "mq_buf (w_queue (snd sys_process)) = []" using sys_process_waiting by (simp add: mem_waiting_def)
  then have rest: "\<nexists>u. mem_move sys_env 1 (snd sys_process, ?bs) u"
    by (auto simp: mq_receive_def nth_Cons split: if_splits nat.splits elim!: mem_move.cases)
  have "work_left (sys_queued\<lparr>w_queue := sys_queue\<rparr>, [sys_upload]) = 9"
    by (simp add: work_left_def mem_waiting_def sys_queue_def)
  moreover have "CtxErr (ctx_of a) t = None" if "a \<in> set ?bs" for a t using that by auto
  ultimately show ?thesis
    using system_settles [OF sys_created n sys_env_fresh zero_less_one] rest n by fastforce
qed

end
