(* ===== verification/Aws_System.thy ===== *)
theory Aws_System
  imports Interleaving Aws_Backend Scenarios
begin

text \<open>
  The program on AWS under load: many API processes and workers share a bucket, a table and a
  queue that delivers at least once, and a call that fails may have taken effect. Whatever comes
  between the calls of a use case, what the table holds keeps its promise.
\<close>

section \<open>Keys the bucket takes\<close>

lemma plain_key:
  assumes "k \<noteq> []" "\<forall>c \<in> set k. plain_char c"
  shows "s3_loc k = Some k"
proof -
  have "trim_space k = k"
    using assms by (intro trim_space_plain [of "hd k" "last k" _ "tl k" "butlast k"]) auto
  moreover have "\<not> contains_str k [CHR 0x00]" using assms(2) by (induction k) (auto simp: plain_char_def)
  ultimately show ?thesis using assms(1) by (simp add: s3_loc_def validate_key_def)
qed

lemma id_key_valid:
  assumes "id_ok i"
  shows "s3_loc (original_key i) = Some (original_key i)"
    "format_valid (Format sp) \<Longrightarrow> s3_loc (result_key i sp) = Some (result_key i sp)"
proof -
  note i = id_ok_chars [OF assms]
  show "s3_loc (original_key i) = Some (original_key i)"
    by (rule plain_key) (use i in \<open>auto simp: original_key_def plain_char_def\<close>)
  show "s3_loc (result_key i sp) = Some (result_key i sp)" if "format_valid (Format sp)"
    by (rule plain_key) (use i format_ext_chars [OF that] that in \<open>auto simp: result_key_valid plain_char_def\<close>)
qed

section \<open>Runs to completion are runs of the system\<close>

lemma create_step_started: "create_step uc c src sp (pc, w) = (pc', w') \<Longrightarrow> pc' \<noteq> CStart"
  by (cases pc) (auto split: prod.splits option.splits)

lemma system_create_steps:
  assumes "times n (create_step cu c src sp) (pc, w) = (pc', w')" "pc = CStart \<Longrightarrow> fst (cj_newID cu w) \<notin> U"
  shows "\<exists>U'. (system_step cu pu objs jobs waiting)\<^sup>*\<^sup>* (w, U, as @ [Creating c src sp pc]) (w', U', as @ [Creating c src sp pc'])"
  using assms
proof (induction n arbitrary: pc w U)
  case (Suc n)
  obtain pc1 w1 where s: "create_step cu c src sp (pc, w) = (pc1, w1)" by fastforce
  let ?V = "U \<union> reserved (Creating c src sp pc1)"
  from system_step.create [OF _ _ _ s, of "length as" "as @ [Creating c src sp pc]"] Suc.prems(2)
  have "system_step cu pu objs jobs waiting (w, U, as @ [Creating c src sp pc]) (w1, ?V, as @ [Creating c src sp pc1])"
    by simp
  moreover obtain U' where "(system_step cu pu objs jobs waiting)\<^sup>*\<^sup>*
      (w1, ?V, as @ [Creating c src sp pc1]) (w', U', as @ [Creating c src sp pc'])"
    using Suc.IH [of pc1 w1 ?V] Suc.prems(1) s create_step_started [OF s] by auto
  ultimately show ?case by (blast intro: converse_rtranclp_into_rtranclp)
qed auto

lemma system_process_steps:
  assumes "times n (process_step pu c i) (pc, w) = (pc', w')"
  shows "(system_step cu pu objs jobs waiting)\<^sup>*\<^sup>* (w, U, as @ [Processing c i pc]) (w', U, as @ [Processing c i pc'])"
  using assms
proof (induction n arbitrary: pc w)
  case (Suc n)
  obtain pc1 w1 where s: "process_step pu c i (pc, w) = (pc1, w1)" by fastforce
  from system_step.process [OF _ _ s, of "length as" "as @ [Processing c i pc]"]
  have "system_step cu pu objs jobs waiting (w, U, as @ [Processing c i pc]) (w1, U, as @ [Processing c i pc1])" by simp
  moreover have "(system_step cu pu objs jobs waiting)\<^sup>*\<^sup>* (w1, U, as @ [Processing c i pc1]) (w', U, as @ [Processing c i pc'])"
    using Suc s by simp
  ultimately show ?case by (rule converse_rtranclp_into_rtranclp)
qed simp

lemma system_create_runs:
  assumes "create_job_execute cu c src sp w = (r, w')" "fst (cj_newID cu w) \<notin> U"
  shows "\<exists>U'. (system_step cu pu objs jobs waiting)\<^sup>*\<^sup>* (w, U, as) (w', U', as @ [Creating c src sp (CReturned r)])"
proof -
  have "times (6 + 0) (create_step cu c src sp) (CStart, w) = (CReturned r, w')"
    using assms(1) by (simp only: create_run prod.case)
  from system_create_steps [OF this assms(2)] obtain U' where
    "(system_step cu pu objs jobs waiting)\<^sup>*\<^sup>* (w, U, as @ [Creating c src sp CStart])
       (w', U', as @ [Creating c src sp (CReturned r)])" by blast
  with system_step.upload have "(system_step cu pu objs jobs waiting)\<^sup>*\<^sup>* (w, U, as)
       (w', U', as @ [Creating c src sp (CReturned r)])" by (rule converse_rtranclp_into_rtranclp)
  then show ?thesis by blast
qed

lemma system_process_runs:
  assumes "i \<in># waiting w" "process_job_execute pu c i w = (r, w')"
  shows "(system_step cu pu objs jobs waiting)\<^sup>*\<^sup>* (w, U, as) (w', U, as @ [Processing c i (PReturned r)])"
proof -
  have "times (7 + 0) (process_step pu c i) (PLoad, w) = (PReturned r, w')"
    using assms(2) by (simp only: process_run prod.case)
  from system_step.deliver [where waiting = waiting, OF assms(1)] system_process_steps [OF this]
  show ?thesis by (rule converse_rtranclp_into_rtranclp)
qed

section \<open>The invariant on AWS\<close>

definition aws_system_step where
  "aws_system_step a v pp nid nw =
     system_step (new_create_job (aws_storage_port a) (aws_repo a) (aws_queue_port a) nid nw)
       (new_process_job (aws_storage_port a) (aws_repo a) pp) (v_objs v) (aws_jobs a v) (v_waiting v)"

text \<open>From an empty table and an empty queue.\<close>

definition aws_reachable where
  "aws_reachable a v pp nid nw s \<longleftrightarrow>
     (\<exists>w. aws_jobs a v w = Map.empty \<and> v_waiting v w = {#} \<and> (aws_system_step a v pp nid nw)\<^sup>*\<^sup>* (w, {}, []) s)"

definition aws_system_ok where
  "aws_system_ok a v s =
     (case s of (w, U, as) \<Rightarrow>
        system_ok in_i64 (stored_at s3_loc (v_objs v w)) (aws_jobs a v w) (set_mset (v_waiting v w)) U as \<and>
        (\<forall>i \<in> U. id_ok i))"

text \<open>The process's own part: processor, identifiers and clock.\<close>

definition aws_local where
  "aws_local v pp nid nw \<longleftrightarrow>
     local_processor v pp \<and> local_source v nid \<and> local_source v nw \<and>
     (\<forall>w. id_ok (fst (nid w)) \<and> in_i64 (fst (nw w)))"

lemma spec_ok_storable: "spec_ok sp \<Longrightarrow> in_i64 t \<Longrightarrow> dyn_storable (created_job i sp t)"
  by (auto simp: dyn_storable_def created_job_def spec_ok_def dimensions_ok_def quality_ok_def in_i64_def MaxDimension_def)

lemma aws_timed_env:
  assumes "aws_ok a v" "aws_local v pp nid nw"
  shows "timed_env (aws_storage_port a) s3_loc (v_objs v) (aws_repo a) dyn_storable (aws_jobs a v)
    (aws_queue_port a) (v_waiting v) pp nid nw in_i64"
  unfolding timed_env_def timed_env_axioms_def
proof (intro conjI allI impI)
  show "create_env (aws_storage_port a) s3_loc (v_objs v) (aws_repo a) dyn_storable (aws_jobs a v)
    (aws_queue_port a) (v_waiting v) pp nid nw"
    using assms by (intro aws_create_env) (auto simp: aws_local_def)
  show "nw w = (t, w') \<Longrightarrow> in_i64 t" for w t w'
    using assms(2) unfolding aws_local_def by (metis fst_conv)
  show "spec_ok sp \<Longrightarrow> in_i64 t \<Longrightarrow> dyn_storable (created_job i sp t)" for sp t i by (rule spec_ok_storable)
qed

lemma aws_system_ok_step:
  assumes "aws_ok a v" "aws_local v pp nid nw" "aws_system_step a v pp nid nw (w, U, as) (w', U', as')"
    and "aws_system_ok a v (w, U, as)"
  shows "aws_system_ok a v (w', U', as')"
proof -
  have ok: "system_ok in_i64 (stored_at s3_loc (v_objs v w)) (aws_jobs a v w) (set_mset (v_waiting v w)) U as"
    and ids: "\<forall>i \<in> U. id_ok i" using assms(4) by (simp_all add: aws_system_ok_def)
  note step = assms(3) [unfolded aws_system_step_def]
  have "\<forall>i \<in> U'. id_ok i"
    using step
  proof cases
    case (create k c src sp pc pc')
    have "reserved (Creating c src sp pc') \<subseteq> U \<union> {fst (nid w)}"
    proof (cases "pc = CStart")
      case True
      with create(6) show ?thesis
        by (auto simp: new_create_job_def split: option.splits prod.splits)
    next
      case False
      from create_reserved [OF this create(6)] system_ok_at(2) [OF ok create(3)] create(4) show ?thesis by auto
    qed
    with ids assms(2) create(1) show ?thesis by (auto simp: aws_local_def)
  qed (use ids in simp_all)
  with timed_env.system_kept [OF aws_timed_env [OF assms(1,2)] step ok] show ?thesis
    by (simp add: aws_system_ok_def)
qed

lemma aws_system_ok_reachable:
  assumes "aws_ok a v" "aws_local v pp nid nw" "aws_reachable a v pp nid nw s"
  shows "aws_system_ok a v s"
proof -
  from assms(3) obtain w0 where w0: "aws_jobs a v w0 = Map.empty" "v_waiting v w0 = {#}"
    "(aws_system_step a v pp nid nw)\<^sup>*\<^sup>* (w0, {}, []) s" by (auto simp: aws_reachable_def)
  from w0(3) show ?thesis
  proof induction
    case base
    show ?case using w0(1,2) by (simp add: aws_system_ok_def system_ok_def)
  next
    case (step s t)
    then show ?case using aws_system_ok_step [OF assms(1,2)] by (metis prod_cases3)
  qed
qed

text \<open>Nothing writes to the original of a job in the table.\<close>

lemma aws_step_originals:
  assumes "aws_ok a v" "aws_local v pp nid nw" "aws_system_step a v pp nid nw (w, U, as) (w', U', as')"
    and "aws_system_ok a v (w, U, as)" "aws_jobs a v w i = Some j"
  shows "v_objs v w' (original_key i) = v_objs v w (original_key i)"
proof -
  have ok: "system_ok in_i64 (stored_at s3_loc (v_objs v w)) (aws_jobs a v w) (set_mset (v_waiting v w)) U as"
    using assms(4) by (simp add: aws_system_ok_def)
  note env = aws_timed_env [OF assms(1,2)]
  have key: "k = l" if "s3_loc k = Some l" for k l using that by (simp add: s3_loc_def split: if_splits)
  from assms(3) [unfolded aws_system_step_def] show ?thesis
  proof cases
    case (create k c src sp pc pc')
    note at = system_ok_at [OF ok create(3), unfolded create(4)]
    show ?thesis
    proof (rule ccontr)
      assume "\<not> ?thesis"
      with create(6) obtain l where "pc = CPut l" "s3_loc (original_key l) = Some (original_key i)"
        by (rule timed_env.create_writes [OF env])
      with key [of "original_key l" "original_key i"] have "pc = CPut i" by (simp add: original_key_inj)
      with at(3) assms(5) show False by auto
    qed
  next
    case (process k c l pc pc')
    show ?thesis
    proof (rule ccontr)
      assume "\<not> ?thesis"
      with process(5) obtain q src out where "pc = PStore q src out" "s3_loc (result_key (ID q) (Transformation q)) = Some (original_key i)"
        by (rule timed_env.process_writes [OF env])
      with key show False by (metis original_result_keys_differ)
    qed
  qed simp_all
qed

lemma aws_system_steps:
  assumes "aws_ok a v" "aws_local v pp nid nw" "(aws_system_step a v pp nid nw)\<^sup>*\<^sup>* s t" "aws_system_ok a v s"
    and "aws_jobs a v (fst s) i = Some j"
  shows "aws_system_ok a v t \<and> extends (aws_jobs a v (fst s)) (aws_jobs a v (fst t)) \<and>
    v_objs v (fst t) (original_key i) = v_objs v (fst s) (original_key i)"
  using assms(3)
proof induction
  case base
  show ?case using assms(4) by simp
next
  case (step t u)
  obtain w U as w' U' as' where st: "t = (w, U, as)" "u = (w', U', as')" by (metis prod_cases3)
  note m = step.hyps(2) [unfolded st]
  have ih: "aws_system_ok a v (w, U, as)" "extends (aws_jobs a v (fst s)) (aws_jobs a v w)"
    "v_objs v w (original_key i) = v_objs v (fst s) (original_key i)" using step.IH st by simp_all
  then obtain k where k: "aws_jobs a v w i = Some k" using assms(5) by (auto simp: extends_def)
  have "extends (aws_jobs a v w) (aws_jobs a v w')"
    using timed_env.system_kept [OF aws_timed_env [OF assms(1,2)] m [unfolded aws_system_step_def]] ih(1)
    by (simp add: aws_system_ok_def)
  with extends_trans [OF ih(2)] aws_system_ok_step [OF assms(1,2) m ih(1)] aws_step_originals [OF assms(1,2) m ih(1) k] ih(3)
  show ?case by (simp add: st)
qed

text \<open>
  C4: whatever API processes and workers do at once on AWS, with deliveries repeated and failed
  calls that may have taken effect, a job once in the table stays there: its identifier, original
  key, specification and time of creation never change, the object of its original is there and
  is never written again, its status is one of the lifecycle's, when it is done its result is an
  object under its result key, and it carries an error exactly when it failed; and every
  identifier on the queue is that of a job in the table. (The identifiers are hexadecimal and none
  is drawn twice.)
\<close>

theorem aws_system_invariant:
  assumes "aws_ok a v" "aws_local v pp nid nw" "aws_reachable a v pp nid nw s"
    and "(aws_system_step a v pp nid nw)\<^sup>*\<^sup>* s (w, U, as)" "aws_jobs a v (fst s) i = Some j"
  shows "set_mset (v_waiting v w) \<subseteq> dom (aws_jobs a v w) \<and>
    v_objs v w (original_key i) \<noteq> None \<and> v_objs v w (original_key i) = v_objs v (fst s) (original_key i) \<and>
    (\<exists>j'. aws_jobs a v w i = Some j' \<and> ID j' = i \<and> OriginalKey j' = original_key i \<and>
       Transformation j' = Transformation j \<and> spec_ok (Transformation j') \<and> CreatedAt j' = CreatedAt j \<and>
       status_valid (Status j') \<and> (Error j' \<noteq> [] \<longleftrightarrow> Status j' = StatusFailed) \<and>
       (Status j' = StatusDone \<longrightarrow>
          ResultKey j' = result_key i (Transformation j') \<and> v_objs v w (result_key i (Transformation j')) \<noteq> None))"
proof -
  from aws_system_steps [OF assms(1,2,4) aws_system_ok_reachable [OF assms(1-3)] assms(5)]
  have ok: "aws_system_ok a v (w, U, as)" and e: "extends (aws_jobs a v (fst s)) (aws_jobs a v w)"
    and o: "v_objs v w (original_key i) = v_objs v (fst s) (original_key i)" by simp_all
  from e assms(5) obtain j' where j': "aws_jobs a v w i = Some j'" "same_job j j'" by (auto simp: extends_def)
  from ok j'(1) have j: "job_ok (stored_at s3_loc (v_objs v w)) i j'"
    and q: "set_mset (v_waiting v w) \<subseteq> dom (aws_jobs a v w)" and i: "id_ok i"
    by (auto simp: aws_system_ok_def system_ok_def)
  have f: "format_valid (Format (Transformation j'))" using j by (simp add: job_ok_def spec_ok_def)
  note loc = id_key_valid(1) [OF i] id_key_valid(2) [OF i f]
  have "Status j' = StatusDone \<Longrightarrow>
      ResultKey j' = result_key i (Transformation j') \<and> v_objs v w (result_key i (Transformation j')) \<noteq> None"
    using j loc(2) unfolding job_ok_def stored_at_def by metis
  moreover have "v_objs v w (original_key i) \<noteq> None" using j loc(1) unfolding job_ok_def stored_at_def by simp
  ultimately show ?thesis using j j' o q by (simp add: job_ok_def same_job_def)
qed

text \<open>A job created and processed in the sample cloud.\<close>

definition cloud_start :: cloud where
  "cloud_start = \<lparr>cl_objs = Map.empty, cl_items = Map.empty, cl_sent = []\<rparr>"

definition cloud_job :: job where
  "cloud_job = created_job ''a1'' ex_spec 5"

definition cloud_queued :: cloud where
  "cloud_queued =
     \<lparr>cl_objs = [''originals/a1'' \<mapsto> ''px''], cl_items = [''a1'' \<mapsto> item_attrs (new_item cloud_job)],
      cl_sent = [''a1'']\<rparr>"

abbreviation cloud_id :: "cloud \<Rightarrow> string \<times> cloud" where "cloud_id \<equiv> \<lambda>w. (''a1'', w)"
abbreviation cloud_now :: "cloud \<Rightarrow> int \<times> cloud" where "cloud_now \<equiv> \<lambda>w. (5, w)"
abbreviation cloud_processor :: "cloud processor_port" where
  "cloud_processor \<equiv> \<lparr>Process = \<lambda>c r sp w. (Inr (Reader ''out'' None), w)\<rparr>"

lemma cloud_local: "aws_local sample_view cloud_processor cloud_id cloud_now"
  by (simp add: aws_local_def local_processor_def local_source_def untouched_def id_ok_def in_i64_def)

lemma cloud_creates:
  "create_job_execute (new_create_job (aws_storage_port sample_aws) (aws_repo sample_aws)
      (aws_queue_port sample_aws) cloud_id cloud_now) Background (Some (Reader ''px'' None)) ex_spec cloud_start
   = (Inr cloud_job, cloud_queued)"
proof -
  have "validate_key (original_key ''a1'') = None" "spec_validate ex_spec = None" "original_key ''a1'' = ''originals/a1''"
    by code_simp+
  moreover have "key_of (item_attrs (new_item (created_job ''a1'' ex_spec 5))) = ''a1''" by code_simp
  ultimately show ?thesis
    by (simp add: create_job_execute_def new_create_job_def aws_storage_port_def aws_repo_def
        aws_queue_port_def s3_port_def dyn_port_def sqs_port_def s3_put_def dyn_save_def sqs_enqueue_def
        sample_aws_def sample_s3_def sample_dynamo_def sample_sqs_def Let_def cloud_start_def cloud_queued_def
        cloud_job_def)
qed

definition cloud_run :: "(job option \<times> goerr option) \<times> cloud" where
  "cloud_run = process_job_execute
     (new_process_job (aws_storage_port sample_aws) (aws_repo sample_aws) cloud_processor) Background ''a1'' cloud_queued"

lemma cloud_processes:
  "case aws_jobs sample_aws sample_view (snd cloud_run) ''a1'' of
     Some j \<Rightarrow> Status j = StatusDone \<and> Transformation j = ex_spec | None \<Rightarrow> False"
  by code_simp

lemma aws_spec_ok: "spec_ok ex_spec"
proof -
  have "spec_validate ex_spec = None" by code_simp
  then show ?thesis by (simp only: spec_validate_None)
qed

lemma cloud_created:
  "\<exists>U. aws_reachable sample_aws sample_view cloud_processor cloud_id cloud_now
     (cloud_queued, U, [Creating Background (Some (Reader ''px'' None)) ex_spec (CReturned (Inr cloud_job))])"
proof -
  have "aws_jobs sample_aws sample_view cloud_start = Map.empty" "v_waiting sample_view cloud_start = {#}"
    by (simp_all add: aws_jobs_def dyn_jobs_def sample_view_def cloud_start_def fun_eq_iff)
  moreover obtain U where "(aws_system_step sample_aws sample_view cloud_processor cloud_id cloud_now)\<^sup>*\<^sup>*
      (cloud_start, {}, []) (cloud_queued, U, [] @ [Creating Background (Some (Reader ''px'' None)) ex_spec (CReturned (Inr cloud_job))])"
    using system_create_runs [OF cloud_creates, of "{}"] unfolding aws_system_step_def by blast
  ultimately show ?thesis unfolding aws_reachable_def by auto
qed

theorem aws_system_invariant_witness:
  "v_objs sample_view (snd cloud_run) ''originals/a1'' = Some ''px'' \<and>
   v_objs sample_view (snd cloud_run) (result_key ''a1'' ex_spec) \<noteq> None"
proof -
  obtain U where r: "aws_reachable sample_aws sample_view cloud_processor cloud_id cloud_now
     (cloud_queued, U, [Creating Background (Some (Reader ''px'' None)) ex_spec (CReturned (Inr cloud_job))])"
    using cloud_created by blast
  have m: "(aws_system_step sample_aws sample_view cloud_processor cloud_id cloud_now)\<^sup>*\<^sup>*
     (cloud_queued, U, as) (snd cloud_run, U, as @ [Processing Background ''a1'' (PReturned (fst cloud_run))])" for as
    unfolding aws_system_step_def
    by (rule system_process_runs) (simp_all add: sample_view_def cloud_queued_def cloud_run_def)
  have "item_ok (new_item cloud_job)"
    by (simp add: new_item_ok cloud_job_def created_job_def ex_spec_def in_i64_def)
  then have j: "aws_jobs sample_aws sample_view cloud_queued ''a1'' = Some cloud_job"
    using sample_codec spec_ok_storable [of ex_spec 5 "''a1''", THEN item_roundtrip] aws_spec_ok
    by (simp add: aws_jobs_def dyn_jobs_def sample_aws_def sample_view_def codec_ok_def cloud_queued_def
        cloud_job_def in_i64_def)
  from cloud_processes obtain k where k: "aws_jobs sample_aws sample_view (snd cloud_run) ''a1'' = Some k"
    "Status k = StatusDone" "Transformation k = ex_spec" by (auto split: option.splits)
  have o: "original_key ''a1'' = ''originals/a1''" by code_simp
  have "v_objs sample_view cloud_queued ''originals/a1'' = Some ''px''" by (simp add: sample_view_def cloud_queued_def)
  with aws_system_invariant [OF sample_aws_ok cloud_local r m, of "''a1''" cloud_job] j k o show ?thesis by auto
qed

end
