(* ===== verification/Lifecycle.thy ===== *)
theory Lifecycle
  imports Config Healthcheck Telemetry
begin

text \<open>
  The start and the end of the two commands: \<open>main\<close>, \<open>run\<close> and \<open>shutdownTracing\<close> of
  \<open>cmd/api/main.go\<close> and \<open>cmd/worker/main.go\<close>. A run is the trace of what it opened, served and
  closed, with its error; Go's \<open>defer\<close> is a stack of what is still to be closed, unwound on every
  return and by a panic, which then ends the process with status 2. How the servers end, what the processor's start and the SDK's flush report, and what the
  pool's \<open>Run\<close> returns are given by the outcome; the steps in between are the definitions of
  theories \<open>Config\<close>, \<open>Telemetry\<close>, \<open>Metrics\<close> and \<open>Healthcheck\<close>. Log lines are left out.
\<close>

section \<open>The two servers\<close>

record http_server =
  hs_addr :: string
  hs_read_header :: int
  hs_read :: int
  hs_write :: int
  hs_idle :: int

definition readHeaderTimeout :: int where "readHeaderTimeout = 10 * 10 ^ 9"
definition readTimeout :: int where "readTimeout = 60 * 10 ^ 9"
definition writeTimeout :: int where "writeTimeout = 60 * 10 ^ 9"
definition idleTimeout :: int where "idleTimeout = 120 * 10 ^ 9"

definition api_server :: "api_settings \<Rightarrow> http_server" where
  "api_server cfg =
     \<lparr>hs_addr = as_addr cfg, hs_read_header = readHeaderTimeout, hs_read = readTimeout,
      hs_write = writeTimeout, hs_idle = idleTimeout\<rparr>"

definition metrics_server :: "string \<Rightarrow> http_server" where
  "metrics_server addr =
     \<lparr>hs_addr = addr, hs_read_header = 5 * 10 ^ 9, hs_read = 15 * 10 ^ 9, hs_write = 30 * 10 ^ 9,
      hs_idle = 60 * 10 ^ 9\<rparr>"

section \<open>Deferred calls\<close>

datatype life =
    SignalsTrapped
  | SignalsRestored
  | SignalsReleased
  | TracingUp bool
  | TracingFlushed "goerr option"
  | BackendUp string
  | BackendDown
  | ProcessorUp
  | ProcessorDown
  | ApiUp
  | ApiDown
  | ServerUp http_server
  | ServerDown bool
  | MetricsUp http_server
  | MetricsDown bool
  | SeededJobs "goerr option" "job list"
  | PoolRan "goerr option"

record frame =
  fr_trace :: "life list"
  fr_defers :: "life list"

definition entered :: frame where
  "entered = \<lparr>fr_trace = [], fr_defers = []\<rparr>"

definition happened :: "life \<Rightarrow> frame \<Rightarrow> frame" where
  "happened x f = f\<lparr>fr_trace := fr_trace f @ [x]\<rparr>"

text \<open>Something is opened and its closing deferred.\<close>

definition opened :: "life \<Rightarrow> life \<Rightarrow> frame \<Rightarrow> frame" where
  "opened x d f = \<lparr>fr_trace = fr_trace f @ [x], fr_defers = d # fr_defers f\<rparr>"

datatype run_end = Ended "goerr option" | Crashed

definition leave :: "goerr option \<Rightarrow> frame \<Rightarrow> run_end \<times> life list" where
  "leave err f = (Ended err, fr_trace f @ fr_defers f)"

definition panic :: "frame \<Rightarrow> run_end \<times> life list" where
  "panic f = (Crashed, fr_trace f @ fr_defers f)"

definition exit_status :: "run_end \<Rightarrow> int" where
  "exit_status r = (case r of Ended None \<Rightarrow> 0 | Ended (Some e) \<Rightarrow> 1 | Crashed \<Rightarrow> 2)"

section \<open>What the commands find around them\<close>

record ('u, 'x, 'c, 'w) host =
  ho_url :: "'u url_lib"
  ho_merge :: "attrs \<Rightarrow> goerr option"
  ho_exporter :: "exporter_option list \<Rightarrow> 'x res"
  ho_flush :: "goerr option"
  ho_cwd :: "string res"
  ho_mkdir :: "string \<Rightarrow> goerr option"
  ho_sdk :: "('c, 'w) aws_sdk"
  ho_rand :: "string res"
  ho_new_request :: "string \<Rightarrow> goerr option"
  ho_do_request :: "string \<Rightarrow> (int \<times> string) res"

definition start_tracing ::
  "('u, 'x, 'c, 'w) host \<Rightarrow> environ \<Rightarrow> string \<Rightarrow> string \<Rightarrow> 'x tracer option res" where
  "start_tracing h en service version =
     setup_tracing (ho_url h) (ho_merge h) (ho_exporter h) (config_from_env en service version)"

text \<open>\<open>shutdownTracing\<close>: what it logs, if anything.\<close>

definition shutdown_tracing :: "('u, 'x, 'c, 'w) host \<Rightarrow> 'x tracer option \<Rightarrow> goerr option" where
  "shutdown_tracing h tracing = telemetry_shutdown tracing (ho_flush h)"

section \<open>cmd/api\<close>

text \<open>
  Which case of the \<open>select\<close> comes first: the server ended by itself with what \<open>ListenAndServe\<close>
  returned, or a signal came, and then what \<open>Shutdown\<close> reported and how \<open>ListenAndServe\<close> ended.
\<close>

datatype api_end = ServeEnded "goerr option" | Signalled "goerr option" "goerr option"

definition api_serve :: "goerr option \<Rightarrow> goerr option" where
  "api_serve err =
     (case err of
        Some e \<Rightarrow> if \<not> errors_is e ErrServerClosed then Some e else None
      | None \<Rightarrow> None)"

definition api_run ::
  "('u, 'x, 'c, 'w) host \<Rightarrow> api_end \<Rightarrow> environ \<Rightarrow> ctx \<Rightarrow> string \<Rightarrow> 'w \<Rightarrow> (run_end \<times> life list) \<times> 'w" where
  "api_run h fin en c version w =
     (let cfg = api_load_config en;
          f = opened SignalsTrapped SignalsReleased entered in
      case start_tracing h en ''imageforge-api'' version of
        Inl e \<Rightarrow> (leave (Some e) f, w)
      | Inr tracing \<Rightarrow>
     (let f = opened (TracingUp (exporting tracing)) (TracingFlushed (shutdown_tracing h tracing)) f in
      case open_backend (ho_cwd h) (ho_mkdir h) (ho_sdk h) en c (as_backend cfg)
             \<lparr>adc_storage_dir = as_storage_dir cfg, adc_queue_buffer = as_queue_buffer cfg\<rparr> w of
        (None, w) \<Rightarrow> (panic f, w)
      | (Some (Inl e), w) \<Rightarrow> (leave (Some e) f, w)
      | (Some (Inr aset), w) \<Rightarrow>
     (let f = opened (BackendUp (as_name aset)) BackendDown f in
      case new_issuer_from (ho_rand h) cfg of
        Inl e \<Rightarrow> (leave (Some e) f, w)
      | Inr issuer \<Rightarrow>
     (let f = happened (ServerUp (api_server cfg)) (opened ApiUp ApiDown f) in
      case fin of
        ServeEnded err \<Rightarrow>
          (let f = happened (ServerDown False) f in
           case api_serve err of
             Some e \<Rightarrow> (leave (Some (EWrap ''serve: '' e [])) f, w)
           | None \<Rightarrow> (leave None f, w))
      | Signalled shut served \<Rightarrow>
          (let f = happened SignalsRestored f in
           case shut of
             Some e \<Rightarrow> (leave (Some (EWrap ''graceful shutdown: '' e [])) (happened (ServerDown True) f), w)
           | None \<Rightarrow> (leave (api_serve served) (happened (ServerDown False) f), w))))))"

text \<open>\<open>main\<close>: the exit status.\<close>

definition api_main ::
  "('u, 'x, 'c, 'w) host \<Rightarrow> api_end \<Rightarrow> string list \<Rightarrow> environ \<Rightarrow> ctx \<Rightarrow> string \<Rightarrow> 'w \<Rightarrow> int" where
  "api_main h fin args en c version w =
     (if requested args then
        health_main (ho_new_request h) (ho_do_request h) (api_env_string en ''IMAGEFORGE_ADDR'' '':8080'')
      else exit_status (fst (fst (api_run h fin en c version w))))"

section \<open>cmd/worker\<close>

text \<open>
  \<open>wo_create\<close> is \<open>CreateJob\<close> over the set's adapters, \<open>wo_processor\<close> the error of the processor's
  start, \<open>wo_pool\<close> the pool's \<open>Run\<close> and \<open>wo_metrics\<close> what stopping the metrics server reports.
\<close>

record 'w worker_outcome =
  wo_open :: "string \<Rightarrow> reader res"
  wo_create :: "adapter_set \<Rightarrow> 'w create_job"
  wo_processor :: "goerr option"
  wo_pool :: "adapter_set \<Rightarrow> worker_settings \<Rightarrow> 'w \<Rightarrow> goerr option \<times> 'w"
  wo_metrics :: "goerr option"

definition worker_run ::
  "('u, 'x, 'c, 'w) host \<Rightarrow> 'w worker_outcome \<Rightarrow> string list \<Rightarrow> environ \<Rightarrow> ctx \<Rightarrow> string \<Rightarrow> 'w \<Rightarrow>
   (run_end \<times> life list) \<times> 'w" where
  "worker_run h out args en c version w =
     (let cfg = worker_load_config en;
          f = opened SignalsTrapped SignalsReleased entered in
      case start_tracing h en ''imageforge-worker'' version of
        Inl e \<Rightarrow> (leave (Some e) f, w)
      | Inr tracing \<Rightarrow>
     (let f = opened (TracingUp (exporting tracing)) (TracingFlushed (shutdown_tracing h tracing)) f in
      case open_backend (ho_cwd h) (ho_mkdir h) (ho_sdk h) en c (ws_backend cfg)
             \<lparr>adc_storage_dir = ws_storage_dir cfg, adc_queue_buffer = ws_queue_buffer cfg\<rparr> w of
        (None, w) \<Rightarrow> (panic f, w)
      | (Some (Inl e), w) \<Rightarrow> (leave (Some e) f, w)
      | (Some (Inr aset), w) \<Rightarrow>
     (let f = opened (BackendUp (as_name aset)) BackendDown f in
      case wo_processor out of
        Some e \<Rightarrow> (leave (Some (EWrap ''image processor: '' e [])) f, w)
      | None \<Rightarrow>
     (let f = happened (MetricsUp (metrics_server (ws_metrics_addr cfg))) (opened ProcessorUp ProcessorDown f) in
      case (if args \<noteq> [] then seed (wo_open out) (wo_create out aset) c (ws_seed_spec cfg) args w
            else ((None, []), w)) of
        ((Some e, jobs), w) \<Rightarrow> (leave (Some e) (happened (SeededJobs (Some e) jobs) f), w)
      | ((None, jobs), w) \<Rightarrow>
     (case wo_pool out aset cfg w of
        (run_err, w) \<Rightarrow>
          (let f = happened (MetricsDown (snd (metrics_shutdown (wo_metrics out))))
                     (happened (PoolRan run_err) (happened (SeededJobs None jobs) f)) in
           case run_err of
             Some e \<Rightarrow> (leave (Some (EWrap ''pool: '' e [])) f, w)
           | None \<Rightarrow> (leave None f, w)))))))"

definition worker_main ::
  "('u, 'x, 'c, 'w) host \<Rightarrow> 'w worker_outcome \<Rightarrow> string list \<Rightarrow> environ \<Rightarrow> ctx \<Rightarrow> string \<Rightarrow> 'w \<Rightarrow> int" where
  "worker_main h out args en c version w =
     (if requested args then
        health_main (ho_new_request h) (ho_do_request h) (worker_env_string en ''IMAGEFORGE_METRICS_ADDR'' '':9090'')
      else exit_status (fst (fst (worker_run h out args en c version w))))"

section \<open>Everything opened is closed\<close>

datatype held = Signals | Tracing | BackendSet | Processor | Api | Server

text \<open>
  A trace replayed on the stack of what is open. Closing anything but what was opened last is an
  error, and so is running the pool, or seeding, without the processor on top. Beside the stack is
  whether the metrics server listens: it is started on top of the processor, the pool runs only
  while it is up, and it is stopped before the processor is.
\<close>

fun replay :: "bool \<Rightarrow> held list \<Rightarrow> life list \<Rightarrow> (bool \<times> held list) option" where
  "replay up st [] = Some (up, st)"
| "replay up st (x # xs) =
     (let shut = (\<lambda>r. case st of s # ss \<Rightarrow> if s = r then replay up ss xs else None | [] \<Rightarrow> None);
          working = (st \<noteq> [] \<and> hd st = Processor) in
      case x of
        SignalsTrapped \<Rightarrow> replay up (Signals # st) xs
      | SignalsRestored \<Rightarrow> if Signals \<in> set st then replay up st xs else None
      | SignalsReleased \<Rightarrow> shut Signals
      | TracingUp b \<Rightarrow> replay up (Tracing # st) xs
      | TracingFlushed e \<Rightarrow> shut Tracing
      | BackendUp name \<Rightarrow> replay up (BackendSet # st) xs
      | BackendDown \<Rightarrow> shut BackendSet
      | ProcessorUp \<Rightarrow> replay up (Processor # st) xs
      | ProcessorDown \<Rightarrow> shut Processor
      | ApiUp \<Rightarrow> replay up (Api # st) xs
      | ApiDown \<Rightarrow> shut Api
      | ServerUp a \<Rightarrow> if st \<noteq> [] \<and> hd st = Api then replay up (Server # st) xs else None
      | ServerDown b \<Rightarrow> shut Server
      | MetricsUp a \<Rightarrow> if working \<and> \<not> up then replay True st xs else None
      | MetricsDown b \<Rightarrow> if working \<and> up then replay False st xs else None
      | SeededJobs e js \<Rightarrow> if working then replay up st xs else None
      | PoolRan e \<Rightarrow> if working \<and> up then replay up st xs else None)"

lemmas run_simps = entered_def happened_def opened_def leave_def panic_def Let_def

lemma exit_status_simps [simp]:
  "exit_status r = 0 \<longleftrightarrow> r = Ended None" "exit_status r = 2 \<longleftrightarrow> r = Crashed"
  by (auto simp: exit_status_def split: run_end.split option.split)

text \<open>
  The API: tracing, backend and limiter are closed in the reverse order of their opening on every
  path, and the server only listens while all are open.
\<close>

lemma api_lifecycle:
  "case api_run h fin en c version w of
     ((r, trace), w') \<Rightarrow>
       replay False [] trace = Some (False, []) \<and>
       (r = Ended None \<longleftrightarrow> ServerUp (api_server (api_load_config en)) \<in> set trace \<and>
          (case fin of ServeEnded e \<Rightarrow> api_serve e = None
           | Signalled shut served \<Rightarrow> shut = None \<and> api_serve served = None))"
  unfolding api_run_def run_simps
  by (auto split: sum.split prod.split option.split api_end.split)

text \<open>
  The worker: likewise, and the metrics server is stopped after the pool and only then, so that it
  is left running where seeding fails.
\<close>

lemma worker_lifecycle:
  "case worker_run h out args en c version w of
     ((r, trace), w') \<Rightarrow>
       replay False [] trace = Some (\<exists>e js. SeededJobs (Some e) js \<in> set trace, []) \<and>
       (r = Ended None \<longleftrightarrow> PoolRan None \<in> set trace)"
proof (cases "start_tracing h en ''imageforge-worker'' version")
  case (Inl e)
  then show ?thesis by (simp add: worker_run_def run_simps)
next
  case tracing: (Inr tracing)
  define cfg where "cfg = worker_load_config en"
  obtain ad w1 where ad: "open_backend (ho_cwd h) (ho_mkdir h) (ho_sdk h) en c (ws_backend cfg)
      \<lparr>adc_storage_dir = ws_storage_dir cfg, adc_queue_buffer = ws_queue_buffer cfg\<rparr> w = (ad, w1)" by fastforce
  note start = worker_run_def cfg_def [symmetric] tracing ad run_simps
  consider (crash) "ad = None" | (fail) e where "ad = Some (Inl e)" | (ok) aset where "ad = Some (Inr aset)"
    by (metis obj_sumE option.exhaust)
  then show ?thesis
  proof cases
    case crash
    then show ?thesis by (simp add: start)
  next
    case fail
    then show ?thesis by (simp add: start)
  next
    case ok
    show ?thesis
    proof (cases "wo_processor out")
      case (Some e)
      then show ?thesis by (simp add: start ok)
    next
      case None
      obtain err jobs w2 where sd: "(if args \<noteq> [] then seed (wo_open out) (wo_create out aset) c (ws_seed_spec cfg) args w1
            else ((None, []), w1)) = ((err, jobs), w2)" by (metis prod.exhaust)
      obtain rerr w3 where run: "wo_pool out aset cfg w2 = (rerr, w3)" by fastforce
      show ?thesis unfolding start(1-3) by (cases err; cases rerr) (simp_all add: start ok None sd run)
    qed
  qed
qed

text \<open>
  C39: what the commands leave open. Whatever the environment, the adapters and the servers do, a
  panic while the backend is made included, the trace of \<open>run\<close> is well bracketed: what was opened is closed in the
  reverse order, an error in starting closes exactly what was open by then, the API's server
  listens only while everything is open and has ended before anything is closed, and the worker
  seeds and runs its pool only while the processor and the adapters are open, and the pool while
  the metrics server is up, which is stopped after it. The one thing left open is that metrics
  server, exactly when seeding fails. Not asked for a probe, the API exits with status 0 exactly
  when its server was started and then ended closed or was drained in time; the worker, exactly
  when its pool ran and drained; and either with 2 exactly when it panicked.
\<close>

theorem commands_close_up:
  "(case api_run h fin en c version w of
      ((r, trace), w') \<Rightarrow>
        replay False [] trace = Some (False, []) \<and>
        (if requested args then True
         else (api_main h fin args en c version w = 0) =
           (ServerUp (api_server (api_load_config en)) \<in> set trace \<and>
            (case fin of ServeEnded e \<Rightarrow> api_serve e = None
             | Signalled shut served \<Rightarrow> shut = None \<and> api_serve served = None)) \<and>
           (api_main h fin args en c version w = 2) = (r = Crashed))) \<and>
   (case worker_run h out args en c version w of
      ((r, trace), w') \<Rightarrow>
        replay False [] trace = Some (\<exists>e jobs. SeededJobs (Some e) jobs \<in> set trace, []) \<and>
        (if requested args then True
         else (worker_main h out args en c version w = 0) = (PoolRan None \<in> set trace) \<and>
           (worker_main h out args en c version w = 2) = (r = Crashed)))"
proof (rule conjI, goal_cases)
  case 1
  show ?case
    using api_lifecycle [where h = h and fin = fin and en = en and c = c and version = version and w = w]
    by (simp add: api_main_def split: prod.splits)
next
  case 2
  show ?case
    using worker_lifecycle [where h = h and out = out and args = args and en = en and c = c and version = version and w = w]
    by (simp add: worker_main_def split: prod.splits)
qed

end
