(* ===== verification/Mem_Exclusive.thy ===== *)
theory Mem_Exclusive
  imports Mem_Progress
begin

text \<open>
  Who may change a job. The in-process queue hands an identifier on once, and each use case lets go
  of the job it works on before another can take it up: in every state the program can reach, a
  stored job has at most one owner, and its status is what its owner believes it to be. So its
  status only ever moves along the lifecycle, and what is settled stays as it is.
\<close>

section \<open>Owners\<close>

text \<open>The job a use case works on, and the status that job has meanwhile.\<close>

fun works_for :: "activity \<Rightarrow> string multiset" where
  "works_for (Creating c src sp (CPut i)) = {#i#}"
| "works_for (Creating c src sp (CNow i)) = {#i#}"
| "works_for (Creating c src sp (CSave j)) = {#ID j#}"
| "works_for (Creating c src sp (CEnqueue j)) = {#ID j#}"
| "works_for (Creating c src sp (CMark j e)) = {#ID j#}"
| "works_for (Delivering c i) = {#i#}"
| "works_for (Processing c i (PReturned r)) = {#}"
| "works_for (Processing c i pc) = {#i#}"
| "works_for a = {#}"

fun believes :: "activity \<Rightarrow> job_status" where
  "believes (Processing c i PLoad) = StatusPending"
| "believes (Processing c i (PClaim j)) = StatusPending"
| "believes (Processing c i pc) = StatusProcessing"
| "believes a = StatusPending"

definition agrees :: "(string \<rightharpoonup> job) \<Rightarrow> string multiset \<Rightarrow> job_status \<Rightarrow> bool" where
  "agrees m q s \<longleftrightarrow> (\<forall>i \<in># q. \<forall>k. m i = Some k \<longrightarrow> Status k = s)"

text \<open>The queue is an owner like the others: what it holds is pending.\<close>

definition owners :: "string multiset \<Rightarrow> activity list \<Rightarrow> string multiset" where
  "owners q as = q + sum_list (map works_for as)"

definition exclusive :: "(string \<rightharpoonup> job) \<Rightarrow> string multiset \<Rightarrow> activity list \<Rightarrow> bool" where
  "exclusive m q as \<longleftrightarrow>
     (\<forall>i. count (owners q as) i \<le> 1) \<and> agrees m q StatusPending \<and>
     (\<forall>a \<in> set as. agrees m (works_for a) (believes a))"

text \<open>Of two moments: no job is lost, and each is as it was or has moved along its lifecycle.\<close>

definition advances :: "(string \<rightharpoonup> job) \<Rightarrow> (string \<rightharpoonup> job) \<Rightarrow> bool" where
  "advances m m' \<longleftrightarrow> (\<forall>i j. m i = Some j \<longrightarrow> (\<exists>j'. m' i = Some j' \<and> (j' = j \<or> job_progress j j')))"

lemma advances_refl [simp]: "advances m m"
  by (simp add: advances_def)

lemma advances_trans: "advances a b \<Longrightarrow> advances b c \<Longrightarrow> advances a c"
  unfolding advances_def by (metis job_progress_trans)

lemma advances_update: "m i = Some j \<Longrightarrow> job_progress j j' \<Longrightarrow> advances m (m(i \<mapsto> j'))"
  by (auto simp: advances_def)

lemma advances_new: "m i = None \<Longrightarrow> advances m (m(i \<mapsto> j))"
  by (auto simp: advances_def)

lemma job_progress_reject: "Status j = StatusPending \<Longrightarrow> job_progress j (updated_job StatusFailed rk pe t j)"
  by (auto simp: job_progress_def intro: lc_step.reject)

lemma job_progress_settled:
  assumes "job_progress j j'"
  shows "\<not> status_terminal (Status j)"
proof -
  from assms obtain a b where "abs_status (Status j) = Some a" "lc_step\<^sup>+\<^sup>+ a b" by (auto simp: job_progress_def)
  then show ?thesis using abs_status_terminal by (metis tranclpD)
qed

text \<open>What a step of a use case may do: touch its own job only, and pass it on or let it go.\<close>

definition minds_own ::
  "activity \<Rightarrow> activity \<Rightarrow> (string \<rightharpoonup> job) \<Rightarrow> string multiset \<Rightarrow> (string \<rightharpoonup> job) \<Rightarrow> string multiset \<Rightarrow> bool" where
  "minds_own a a' m q m' q' \<longleftrightarrow>
     q' + works_for a' \<subseteq># q + works_for a \<and> (\<forall>i. i \<notin># works_for a \<longrightarrow> m' i = m i) \<and>
     advances m m' \<and> agrees m' (works_for a') (believes a') \<and>
     (\<forall>i \<in># q'. i \<in># q \<or> (\<exists>k. m' i = Some k \<and> Status k = StatusPending))"

lemma agrees_empty [simp]: "agrees m {#} s"
  by (simp add: agrees_def)

lemma agrees_same: "agrees m q s \<Longrightarrow> (\<And>i. i \<in># q \<Longrightarrow> m' i = m i) \<Longrightarrow> agrees m' q s"
  by (simp add: agrees_def)

lemma sum_list_update_mset:
  "k < length xs \<Longrightarrow> sum_list (map f (xs[k := y])) + f (xs ! k) = sum_list (map f xs) + (f y :: 'a multiset)"
proof (induction xs arbitrary: k)
  case (Cons x xs)
  then show ?case by (cases k) (auto simp: ac_simps)
qed simp

lemma works_for_owned: "a \<in> set as \<Longrightarrow> works_for a \<subseteq># sum_list (map works_for as)"
  by (induction as) (auto intro: subset_mset.add_increasing subset_mset.add_increasing2)

lemma owned_count:
  "k < length as \<Longrightarrow> count (sum_list (map works_for as)) i =
     count (works_for (as ! k)) i + count (sum_list (map works_for (as[k := Creating c src sp CStart]))) i"
  using arg_cong [OF sum_list_update_mset [of k as works_for "Creating c src sp CStart"], of "\<lambda>q. count q i"]
  by simp

lemma owned_apart:
  assumes "\<forall>i. count (owners q as) i \<le> 1" "k < length as" "i \<in># works_for (as ! k)"
  shows "i \<notin># q" "l < length as \<Longrightarrow> l \<noteq> k \<Longrightarrow> i \<notin># works_for (as ! l)"
proof -
  let ?bs = "as[k := Creating undefined undefined undefined CStart]"
  have c: "count q i + count (works_for (as ! k)) i + count (sum_list (map works_for ?bs)) i \<le> 1"
    using assms(1) [rule_format, of i] owned_count [OF assms(2)] unfolding owners_def by (simp add: add.assoc)
  moreover have "0 < count (works_for (as ! k)) i" using assms(3) by simp
  ultimately have z: "count q i = 0" "count (sum_list (map works_for ?bs)) i = 0" by linarith+
  then show "i \<notin># q" by (simp add: not_in_iff)
  assume "l < length as" "l \<noteq> k"
  then have "as ! l \<in> set ?bs" by (metis in_set_conv_nth length_list_update nth_list_update_neq)
  with z(2) show "i \<notin># works_for (as ! l)"
    using mset_subset_eqD [OF works_for_owned] by (metis not_in_iff)
qed

lemma exclusive_step:
  assumes "exclusive m q as" "k < length as" "minds_own (as ! k) a' m q m' q'"
  shows "exclusive m' q' (as[k := a'])"
proof -
  have ex: "\<forall>i. count (owners q as) i \<le> 1" "agrees m q StatusPending"
    "\<And>a. a \<in> set as \<Longrightarrow> agrees m (works_for a) (believes a)"
    using assms(1) by (simp_all add: exclusive_def)
  have mo: "q' + works_for a' \<subseteq># q + works_for (as ! k)" "\<And>i. i \<notin># works_for (as ! k) \<Longrightarrow> m' i = m i"
    "agrees m' (works_for a') (believes a')"
    "\<And>i. i \<in># q' \<Longrightarrow> i \<in># q \<or> (\<exists>k. m' i = Some k \<and> Status k = StatusPending)"
    using assms(3) by (simp_all add: minds_own_def)
  note apart = owned_apart [OF ex(1) assms(2)]
  have "count (owners q' (as[k := a'])) i \<le> 1" for i
  proof -
    have "count (sum_list (map works_for (as[k := a']))) i + count (works_for (as ! k)) i
        = count (sum_list (map works_for as)) i + count (works_for a') i"
      using arg_cong [OF sum_list_update_mset [OF assms(2), of works_for a'], of "\<lambda>q. count q i"] by simp
    moreover have "count q' i + count (works_for a') i \<le> count q i + count (works_for (as ! k)) i"
      using mset_subset_eq_count [OF mo(1), of i] by simp
    ultimately show ?thesis using ex(1) [rule_format, of i] by (simp add: owners_def)
  qed
  moreover have "agrees m' q' StatusPending"
    unfolding agrees_def
  proof (intro ballI allI impI)
    fix i k'
    assume i: "i \<in># q'" "m' i = Some k'"
    from mo(4) [OF i(1)] show "Status k' = StatusPending"
    proof
      assume q: "i \<in># q"
      then have "i \<notin># works_for (as ! k)" using apart(1) by blast
      with mo(2) i(2) ex(2) q show ?thesis by (auto simp: agrees_def)
    qed (use i(2) in auto)
  qed
  moreover have "agrees m' (works_for b) (believes b)" if b: "b \<in> set (as[k := a'])" for b
  proof -
    from b obtain l where l: "l < length as" "b = as[k := a'] ! l" by (auto simp: in_set_conv_nth)
    show ?thesis
    proof (cases "l = k")
      case False
      then have bl: "b = as ! l" using l(2) by simp
      then have "agrees m (works_for b) (believes b)" using ex(3) l(1) nth_mem by blast
      then show ?thesis
      proof (rule agrees_same)
        fix i
        assume "i \<in># works_for b"
        then show "m' i = m i" using apart(2) [OF _ l(1) False] mo(2) bl by blast
      qed
    qed (use l mo(3) in simp)
  qed
  ultimately show ?thesis by (simp add: exclusive_def)
qed

text \<open>The shapes a step has: nothing stored changes, or the use case's own job does.\<close>

lemma minds_own_quiet:
  "works_for a' \<subseteq># works_for a \<Longrightarrow> agrees m (works_for a') (believes a') \<Longrightarrow> minds_own a a' m q m q"
  by (simp add: minds_own_def)

lemma minds_own_believing:
  "works_for a' = works_for a \<Longrightarrow> believes a' = believes a \<Longrightarrow> agrees m (works_for a) (believes a) \<Longrightarrow>
   minds_own a a' m q m q"
  by (simp add: minds_own_def)

lemma minds_own_update:
  "works_for a = {#i#} \<Longrightarrow> works_for a' \<subseteq># {#i#} \<Longrightarrow> advances m (m(i \<mapsto> j)) \<Longrightarrow> (works_for a' \<noteq> {#} \<Longrightarrow> Status j = believes a') \<Longrightarrow>
   minds_own a a' m q (m(i \<mapsto> j)) q"
  by (cases "works_for a' = {#}") (auto simp: minds_own_def agrees_def dest: mset_subset_eqD)

lemma minds_own_enqueue:
  "works_for a = {#i#} \<Longrightarrow> works_for a' = {#} \<Longrightarrow> m i = Some k \<Longrightarrow> Status k = StatusPending \<Longrightarrow>
   minds_own a a' m q m (add_mset i q)"
  by (simp add: minds_own_def)

section \<open>The steps of the use cases\<close>

lemma process_minds_own:
  assumes step: "process_step (mem_process env) c i (pc, w) = (pc', w')"
    and kn: "knows (\<lambda>t. True) (stored_at (mem_loc env) (mem_objs w)) (w_jobs w) (Processing c i pc)"
    and bl: "agrees (w_jobs w) (works_for (Processing c i pc)) (believes (Processing c i pc))"
  shows "minds_own (Processing c i pc) (Processing c i pc') (w_jobs w) (mem_waiting w) (w_jobs w') (mem_waiting w')"
proof -
  have upd: "minds_own (Processing c i pc) a' (w_jobs w) (mem_waiting w) (w_jobs w1) (mem_waiting w1)"
    if u: "UpdateStatus (mem_jobs env) c i s rk pe w = (x, w1)" and k: "w_jobs w i = Some k"
      and pr: "\<And>t. job_progress k (updated_job s rk pe t k)"
      and own: "works_for (Processing c i pc) = {#i#}" "works_for a' \<subseteq># {#i#}"
      and ok: "x = None \<Longrightarrow> works_for a' \<noteq> {#} \<Longrightarrow> s = believes a'"
      and er: "x \<noteq> None \<Longrightarrow> works_for a' = {#}" for s rk pe x w1 k a'
  proof (cases x)
    case None
    with u k obtain t where "w_jobs w1 = (w_jobs w)(i \<mapsto> updated_job s rk pe t k)"
      by (auto dest: mem_repo.supd_ok)
    with mem_jobs_other(3) [OF u] show ?thesis
      using advances_update [of "w_jobs w" i k, OF k pr [of t]] ok None by (auto intro!: minds_own_update own)
  next
    case (Some e)
    with u have "w_jobs w1 = w_jobs w" by (auto dest: mem_repo.supd_err)
    with mem_jobs_other(3) [OF u] er Some show ?thesis by (auto intro!: minds_own_quiet)
  qed
  have wk: "\<exists>k. w_jobs w i = Some k \<and> ID j = i" if "works_on (w_jobs w) i j" for j
    using that by (auto simp: works_on_def)
  show ?thesis
  proof (cases pc)
    case PLoad
    obtain x w1 where g: "GetJob (mem_jobs env) c i w = (x, w1)" by fastforce
    with step mem_jobs_other(2) [OF g] mem_repo.load_jobs [OF g] bl show ?thesis
      by (auto simp: PLoad intro!: minds_own_believing minds_own_quiet split: sum.splits if_splits)
  next
    case (PClaim j)
    obtain x w1 where u: "UpdateStatus (mem_jobs env) c i StatusProcessing [] None w = (x, w1)" by fastforce
    from kn wk obtain k where k: "w_jobs w i = Some k" by (auto simp: PClaim)
    with bl have "Status k = StatusPending" by (simp add: PClaim agrees_def)
    then have "minds_own (Processing c i pc) (Processing c i pc') (w_jobs w) (mem_waiting w) (w_jobs w1) (mem_waiting w1)"
      using step u by (intro upd [OF u k]) (auto simp: PClaim job_progress_claim split: option.splits)
    with step u show ?thesis by (auto simp: PClaim split: option.splits)
  next
    case (PRead j)
    obtain x w1 where g: "GetObject (mem_storage env) c (OriginalKey j) w = (x, w1)" by fastforce
    from step g mem_storage_other(2) [OF g] bl show ?thesis
      by (auto simp: PRead intro!: minds_own_believing split: sum.splits)
  next
    case (PTransform j src)
    obtain x w1 where g: "Process (mem_processor env) c (Some src) (Transformation j) w = (x, w1)" by fastforce
    from step g mem_processor_other [OF g] bl show ?thesis
      by (auto simp: PTransform intro!: minds_own_believing split: sum.splits)
  next
    case (PStore j src out)
    obtain x w1 where g: "Put (mem_storage env) c (result_key (ID j) (Transformation j)) (Some out) w = (x, w1)"
      by fastforce
    from step g mem_storage_other(1) [OF g] bl show ?thesis
      by (auto simp: PStore Let_def intro!: minds_own_believing split: option.splits)
  next
    case (PClose j src r)
    from step bl show ?thesis
      by (auto simp: PClose mem_storage_other(3,4) intro!: minds_own_believing split: sum.splits)
  next
    case (PFail j e)
    let ?e = "EWrap (''process job '' @ ID j @ '': '') e []"
    from kn wk obtain k where k: "w_jobs w i = Some k" "ID j = i" by (auto simp: PFail)
    obtain x w1 where u: "UpdateStatus (mem_jobs env) c i StatusFailed [] (Some ?e) w = (x, w1)" by fastforce
    from bl k have "Status k = StatusProcessing" by (simp add: PFail agrees_def)
    then have "minds_own (Processing c i pc) (Processing c i pc') (w_jobs w) (mem_waiting w) (w_jobs w1) (mem_waiting w1)"
      using step u k(2) by (intro upd [OF u k(1)]) (auto simp: PFail fail_job_def Let_def job_progress_give_up split: option.splits)
    with step u k(2) show ?thesis by (auto simp: PFail fail_job_def Let_def split: option.splits)
  next
    case (PFinish j rk)
    obtain x w1 where u: "UpdateStatus (mem_jobs env) c i StatusDone rk None w = (x, w1)" by fastforce
    from kn wk obtain k where k: "w_jobs w i = Some k" by (auto simp: PFinish)
    with bl have "Status k = StatusProcessing" by (simp add: PFinish agrees_def)
    then have "minds_own (Processing c i pc) (Processing c i pc') (w_jobs w) (mem_waiting w) (w_jobs w1) (mem_waiting w1)"
      using step u by (intro upd [OF u k]) (auto simp: PFinish job_progress_finish split: option.splits)
    with step u show ?thesis by (auto simp: PFinish split: option.splits)
  next
    case (PReturned r)
    with step show ?thesis by (auto intro!: minds_own_quiet)
  qed
qed

lemma create_minds_own:
  assumes step: "create_step (mem_create env) c src sp (pc, w) = (pc', w')" and pc: "pc \<noteq> CStart"
    and kn: "knows (\<lambda>t. True) (stored_at (mem_loc env) (mem_objs w)) (w_jobs w) (Creating c src sp pc)"
    and rd: "reserved (Creating c src sp pc) \<inter> dom (w_jobs w) = {}"
    and bl: "agrees (w_jobs w) (works_for (Creating c src sp pc)) (believes (Creating c src sp pc))"
  shows "minds_own (Creating c src sp pc) (Creating c src sp pc') (w_jobs w) (mem_waiting w) (w_jobs w') (mem_waiting w')"
proof -
  have sel: "cj_storage (mem_create env) = mem_storage env" "cj_jobs (mem_create env) = mem_jobs env"
    "cj_queue (mem_create env) = mem_enqueue env" "cj_now (mem_create env) = mem_now env"
    by (simp_all add: mem_create_def new_create_job_def)
  show ?thesis
  proof (cases pc)
    case (CPut i)
    obtain x w1 where g: "Put (mem_storage env) c (original_key i) src w = (x, w1)" by fastforce
    from step g mem_storage_other(1) [OF g] bl show ?thesis
      by (auto simp: CPut sel intro!: minds_own_quiet minds_own_believing split: option.splits)
  next
    case (CNow i)
    with step bl show ?thesis by (auto simp: sel mem_now_def created_job_def intro!: minds_own_believing)
  next
    case (CSave j)
    obtain x w1 where g: "Save (mem_jobs env) c (Some j) w = (x, w1)" by fastforce
    with step have w1: "w' = w1" by (auto simp: CSave sel split: option.splits)
    from mem_jobs_other(1) [OF g] have q: "mem_waiting w' = mem_waiting w" using w1 by simp
    show ?thesis
    proof (cases x)
      case None
      with g have m: "w_jobs w' = (w_jobs w)(ID j \<mapsto> j)" using w1 by (auto dest: mem_repo.ssave_ok)
      from kn obtain t where "j = created_job (ID j) sp t" by (auto simp: CSave)
      from arg_cong [OF this, of Status] have "Status j = StatusPending" by simp
      moreover have "w_jobs w (ID j) = None" using rd by (auto simp: CSave)
      ultimately show ?thesis
        using q m step g None by (auto simp: CSave sel advances_new intro!: minds_own_update)
    next
      case (Some e)
      with g have "w_jobs w' = w_jobs w" using w1 by (auto dest: mem_repo.ssave_err)
      with q step g Some show ?thesis by (auto simp: CSave sel intro!: minds_own_quiet)
    qed
  next
    case (CEnqueue j)
    obtain x w1 where g: "Enqueue (mem_enqueue env) c (ID j) w = (x, w1)" by fastforce
    from kn obtain k where k: "w_jobs w (ID j) = Some k" by (auto simp: CEnqueue)
    with bl have "Status k = StatusPending" by (simp add: CEnqueue agrees_def)
    show ?thesis
    proof (cases x)
      case None
      with g have "mem_waiting w1 = add_mset (ID j) (mem_waiting w)" by (auto dest: mem_work.senq_ok)
      with step g mem_enqueue_other [OF g] \<open>Status k = StatusPending\<close> k None show ?thesis
        by (auto simp: CEnqueue sel intro!: minds_own_enqueue)
    next
      case (Some e)
      with g have "mem_waiting w1 = mem_waiting w" by (auto dest: mem_work.senq_err)
      with step g mem_enqueue_other [OF g] bl Some show ?thesis
        by (auto simp: CEnqueue sel intro!: minds_own_believing)
    qed
  next
    case (CMark j e)
    obtain x w1 where u: "UpdateStatus (mem_jobs env) c (ID j) StatusFailed [] (Some e) w = (x, w1)" by fastforce
    have w1: "w' = w1" and ret: "works_for (Creating c src sp pc') = {#}"
      using step u by (auto simp: CMark sel split: option.splits)
    from kn obtain k where k: "w_jobs w (ID j) = Some k" by (auto simp: CMark)
    with bl have pend: "Status k = StatusPending" by (simp add: CMark agrees_def)
    show ?thesis
    proof (cases x)
      case None
      with u k obtain t where "w_jobs w1 = (w_jobs w)(ID j \<mapsto> updated_job StatusFailed [] (Some e) t k)"
        by (auto dest: mem_repo.supd_ok)
      with mem_jobs_other(3) [OF u] ret show ?thesis
        using advances_update [of "w_jobs w" "ID j" k, OF k job_progress_reject [OF pend]] w1
        by (auto simp: CMark intro!: minds_own_update)
    next
      case (Some y)
      with u have "w_jobs w1 = w_jobs w" by (auto dest: mem_repo.supd_err)
      with mem_jobs_other(3) [OF u] ret w1 show ?thesis by (auto intro!: minds_own_quiet)
    qed
  next
    case (CReturned r)
    with step show ?thesis by (auto intro!: minds_own_quiet)
  qed (use pc in simp)
qed

text \<open>A creation that begins takes an identifier nobody has.\<close>

lemma works_for_known: "knows tk present m a \<Longrightarrow> set_mset (works_for a) \<subseteq> reserved a \<union> dom m"
  by (induction tk present m a rule: knows.induct) (auto simp: works_on_def)

lemma owners_used:
  assumes "system_ok tk present m (set_mset q) used as"
  shows "set_mset (owners q as) \<subseteq> used"
proof
  fix i
  assume "i \<in># owners q as"
  then consider "i \<in># q" | "i \<in># sum_list (map works_for as)" by (auto simp: owners_def)
  then show "i \<in> used"
  proof cases
    case 1
    with assms show ?thesis by (auto simp: system_ok_def)
  next
    case 2
    then obtain a where a: "a \<in> set as" "i \<in># works_for a" by (induction as) auto
    with assms have "knows tk present m a" "reserved a \<subseteq> used" "dom m \<subseteq> used" by (auto simp: system_ok_def)
    with works_for_known [of tk present m a] a(2) show ?thesis by blast
  qed
qed

lemma exclusive_fresh:
  assumes "exclusive m q as" "k < length as" "works_for (as ! k) = {#}" "works_for a' = {#i#}"
    and "i \<notin># owners q as" "m i = None"
  shows "exclusive m q (as[k := a'])"
proof -
  have "count (owners q (as[k := a'])) l \<le> 1" for l
  proof -
    have "sum_list (map works_for (as[k := a'])) = add_mset i (sum_list (map works_for as))"
      using sum_list_update_mset [OF assms(2), of works_for a'] assms(3,4) by simp
    then have "owners q (as[k := a']) = add_mset i (owners q as)" by (simp add: owners_def)
    then show ?thesis using assms(1,5) by (auto simp: exclusive_def not_in_iff)
  qed
  moreover have "agrees m (works_for b) (believes b)" if "b \<in> set (as[k := a'])" for b
    using that set_update_subset_insert [of as k a'] assms(1,4,6) by (auto simp: exclusive_def agrees_def)
  ultimately show ?thesis using assms(1) by (simp add: exclusive_def)
qed

lemma exclusive_begin:
  "exclusive m q as \<Longrightarrow> works_for a = {#} \<Longrightarrow> exclusive m q (as @ [a])"
  by (auto simp: exclusive_def owners_def)

lemma exclusive_take:
  "exclusive m (add_mset i q) as \<Longrightarrow> exclusive m q (as @ [Delivering c i])"
  by (auto simp: exclusive_def owners_def agrees_def)

lemma exclusive_swap:
  assumes "exclusive m q as" "k < length as" "works_for a' = works_for (as ! k) \<or> works_for a' = {#}"
    "believes a' = believes (as ! k)"
  shows "exclusive m q (as[k := a'])"
proof -
  have "agrees m (works_for (as ! k)) (believes (as ! k))" using assms(1,2) by (simp add: exclusive_def)
  then have "minds_own (as ! k) a' m q m q"
    using assms(3,4) by (auto intro: minds_own_believing minds_own_quiet)
  with assms(1,2) show ?thesis by (rule exclusive_step)
qed

section \<open>The steps of the program\<close>

definition mem_exclusive :: "mem_world \<times> activity list \<Rightarrow> bool" where
  "mem_exclusive s = (case s of (w, as) \<Rightarrow> exclusive (w_jobs w) (mem_waiting w) as)"

lemma mem_exclusive_step:
  assumes "mem_system_step env (w, as) (w', as')" "mem_exclusive (w, as)" "mem_system_ok env (w, as)"
    and inj: "inj_on (env_rand env) {..w_tick w}"
  shows "mem_exclusive (w', as') \<and> advances (w_jobs w) (w_jobs w')"
  using assms(1)
proof cases
  case (upload c src sp)
  with assms(2) show ?thesis by (simp add: mem_exclusive_def exclusive_begin)
next
  case (hand k c i c')
  with assms(2) exclusive_swap [of "w_jobs w" "mem_waiting w" as k "Processing c' i PLoad"]
  show ?thesis by (simp add: mem_exclusive_def)
next
  case (drop k c i)
  with assms(2) exclusive_swap [of "w_jobs w" "mem_waiting w" as k "Dropped c i"]
  show ?thesis by (simp add: mem_exclusive_def)
next
  case (pull d q c)
  then obtain ds where "mq_buf (w_queue w) = d # ds" "q = (w_queue w)\<lparr>mq_buf := ds\<rparr>"
    by (auto simp: mq_receive_simps)
  then have "mem_waiting w = add_mset (JobID d) (mem_waiting (w\<lparr>w_queue := q\<rparr>))" by (simp add: mem_waiting_def)
  with assms(2) have "exclusive (w_jobs w) (add_mset (JobID d) (mem_waiting (w\<lparr>w_queue := q\<rparr>))) as"
    by (simp add: mem_exclusive_def)
  from exclusive_take [OF this] pull show ?thesis by (simp add: mem_exclusive_def)
next
  case (create k c src sp pc pc')
  note ok = assms(3) [unfolded mem_system_ok_def prod.case]
  note at = system_ok_at [OF ok create(2)]
  have ex: "exclusive (w_jobs w) (mem_waiting w) as" using assms(2) by (simp add: mem_exclusive_def)
  then have bl: "agrees (w_jobs w) (works_for (as ! k)) (believes (as ! k))"
    using create(2) by (simp add: exclusive_def)
  show ?thesis
  proof (cases "pc = CStart")
    case False
    have "minds_own (as ! k) (Creating c src sp pc') (w_jobs w) (mem_waiting w) (w_jobs w') (mem_waiting w')"
      using create_minds_own [OF create(4) False] at bl unfolding create(3) by blast
    with exclusive_step [OF ex create(2) this] show ?thesis
      by (simp add: mem_exclusive_def create(1) minds_own_def)
  next
    case True
    have m: "w_jobs w' = w_jobs w" "mem_waiting w' = mem_waiting w"
      using create(4) by (auto simp: True mem_create_def new_create_job_def mem_new_id_def split: option.splits)
    have "works_for (Creating c src sp pc') = {#} \<or>
        works_for (Creating c src sp pc') = {#fst (mem_new_id env w)#}"
      using create(4) by (auto simp: True mem_create_def new_create_job_def mem_new_id_def split: option.splits)
    then show ?thesis
    proof
      assume "works_for (Creating c src sp pc') = {#}"
      then have "minds_own (as ! k) (Creating c src sp pc') (w_jobs w) (mem_waiting w) (w_jobs w') (mem_waiting w')"
        unfolding m by (intro minds_own_quiet) simp_all
      from exclusive_step [OF ex create(2) this] m show ?thesis by (simp add: mem_exclusive_def create(1))
    next
      assume "works_for (Creating c src sp pc') = {#fst (mem_new_id env w)#}"
      moreover have "fst (mem_new_id env w) \<notin> mem_used env w" using inj by (rule mem_id_fresh)
      moreover from this have "fst (mem_new_id env w) \<notin># owners (mem_waiting w) as"
        "w_jobs w (fst (mem_new_id env w)) = None"
        using owners_used [OF ok] at(4) by auto
      ultimately show ?thesis
        using exclusive_fresh [OF ex create(2), of "Creating c src sp pc'"] m create(1,3)
        by (simp add: mem_exclusive_def True)
    qed
  qed
next
  case (process k c i pc pc')
  note at = system_ok_at [OF assms(3) [unfolded mem_system_ok_def prod.case] process(2)]
  have ex: "exclusive (w_jobs w) (mem_waiting w) as" using assms(2) by (simp add: mem_exclusive_def)
  then have bl: "agrees (w_jobs w) (works_for (as ! k)) (believes (as ! k))"
    using process(2) by (simp add: exclusive_def)
  have "minds_own (as ! k) (Processing c i pc') (w_jobs w) (mem_waiting w) (w_jobs w') (mem_waiting w')"
    using process_minds_own [OF process(4)] at(1) bl unfolding process(3) by blast
  with exclusive_step [OF ex process(2) this] show ?thesis
    by (simp add: mem_exclusive_def process(1) minds_own_def)
next
  case shut
  with assms(2) show ?thesis by (simp add: mem_exclusive_def mem_waiting_def)
next
  case pass
  with assms(2) show ?thesis by (simp add: mem_exclusive_def)
qed

lemma mem_exclusive_reachable:
  assumes "mem_reachable env s" "inj_on (env_rand env) {..w_tick (fst s)}"
  shows "mem_exclusive s"
proof -
  from assms(1) obtain m buffer where run: "(mem_system_step env)\<^sup>*\<^sup>* (mem_start m buffer, []) s"
    by (auto simp: mem_reachable_def)
  from run assms(2) show ?thesis
  proof induction
    case base
    show ?case
      by (simp add: mem_exclusive_def exclusive_def owners_def mem_start_def mem_waiting_def mq_new_def Let_def)
  next
    case (step s t)
    obtain w as w' as' where st: "s = (w, as)" "t = (w', as')" by fastforce
    note m = step.hyps(2) [unfolded st]
    have inj: "inj_on (env_rand env) {..w_tick w}"
      using step.prems st mem_step_tick [OF m] by (auto elim: inj_on_subset)
    have "mem_reachable env s" using step.hyps(1) by (auto simp: mem_reachable_def)
    from mem_system_ok_reachable [OF this] inj st have "mem_system_ok env (w, as)" by simp
    from mem_exclusive_step [OF m _ this inj] step.IH inj st show ?case by simp
  qed
qed

section \<open>Results are written once\<close>

lemma stem_inj:
  assumes "i @ ''.'' @ x = k @ ''.'' @ y" "CHR ''.'' \<notin> set i" "CHR ''.'' \<notin> set k"
  shows "i = k"
proof -
  have "takeWhile (\<lambda>c. c \<noteq> CHR ''.'') (i @ CHR ''.'' # x) = i" "takeWhile (\<lambda>c. c \<noteq> CHR ''.'') (k @ CHR ''.'' # y) = k"
    using assms(2,3) by (subst takeWhile_append2; force)+
  with assms(1) show ?thesis by simp
qed

lemma result_path_inj:
  assumes "root_ok (env_root env)" "id_ok i" "id_ok k" "format_valid (Format a)" "format_valid (Format b)"
    and "result_path env i a = result_path env k b"
  shows "i = k"
proof -
  have "env_root env @ [''results'', i @ ''.'' @ format_ext (Format a)]
      = env_root env @ [''results'', k @ ''.'' @ format_ext (Format b)]"
    by (rule root_of_inj)
      (use assms id_path_names(2) in \<open>auto simp: root_ok_def path_name_def [of "''results''"]\<close>)
  then have "i @ ''.'' @ format_ext (Format a) = k @ ''.'' @ format_ext (Format b)" by simp
  moreover have "CHR ''.'' \<notin> set i" "CHR ''.'' \<notin> set k"
    using id_ok_chars [OF assms(2)] id_ok_chars [OF assms(3)] by blast+
  ultimately show ?thesis by (rule stem_inj)
qed

lemma mem_step_results:
  assumes "mem_system_step env (w, as) (w', as')" "mem_system_ok env (w, as)" "mem_exclusive (w, as)"
    and j: "w_jobs w i = Some j" "Status j = StatusDone"
    and root: "root_ok (env_root env)" and rand: "\<And>t. env_rand env t \<noteq> []"
  shows "mem_objs w' (result_path env i (Transformation j)) = mem_objs w (result_path env i (Transformation j))"
proof -
  note ok = assms(2) [unfolded mem_system_ok_def prod.case]
  note ji = mem_system_ok_jobs [OF assms(2) j(1)]
  have i: "id_ok i" using ji(2) rand by (rule mem_used_id_ok)
  have f: "format_valid (Format (Transformation j))" using ji(1) by (simp add: job_ok_def spec_ok_def)
  show ?thesis
    using assms(1)
  proof cases
    case (create k c src sp pc pc')
    show ?thesis
    proof (rule ccontr)
      assume "\<not> ?thesis"
      with create(4) obtain l where l: "pc = CPut l" "mem_loc env (original_key l) = Some (result_path env i (Transformation j))"
        unfolding mem_create_def by (rule mem_ids.create_writes)
      with system_ok_at [OF ok create(2)] create(3) have "l \<in> mem_used env w" by auto
      then have "id_ok l" using rand by (rule mem_used_id_ok)
      then have "original_path env l = result_path env i (Transformation j)"
        using mem_loc_original [OF root] l(2) by simp
      with original_path_not_result [OF root \<open>id_ok l\<close> i f] show False ..
    qed
  next
    case (process k c l pc pc')
    note at = system_ok_at [OF ok process(2)]
    show ?thesis
    proof (rule ccontr)
      assume "\<not> ?thesis"
      with process(4) obtain q src out where q: "pc = PStore q src out"
        "mem_loc env (result_key (ID q) (Transformation q)) = Some (result_path env i (Transformation j))"
        unfolding mem_process_def by (rule mem_ids.process_writes)
      with at(1) process(3) obtain kk where kk: "ID q = l" "w_jobs w l = Some kk" "same_job q kk"
        by (auto simp: works_on_def)
      note kl = mem_system_ok_jobs [OF assms(2) kk(2)]
      have l: "id_ok l" using kl(2) rand by (rule mem_used_id_ok)
      have fl: "format_valid (Format (Transformation q))"
        using kl(1) kk(3) by (simp add: job_ok_def same_job_def spec_ok_def)
      have "i = l"
        using result_path_inj [OF root i l f fl] q(2) mem_loc_result [OF root l fl] kk(1) by simp
      moreover have "agrees (w_jobs w) (works_for (as ! k)) (believes (as ! k))"
        using assms(3) process(2) by (simp add: mem_exclusive_def exclusive_def)
      ultimately show False using kk(2) j by (simp add: process(3) q(1) agrees_def statuses_differ)
    qed
  qed simp_all
qed

lemma mem_steps_advance:
  assumes "(mem_system_step env)\<^sup>*\<^sup>* s t" "mem_reachable env s" "inj_on (env_rand env) {..w_tick (fst t)}"
    and "root_ok (env_root env)" "\<And>t. env_rand env t \<noteq> []" "w_jobs (fst s) i = Some j"
  shows "advances (w_jobs (fst s)) (w_jobs (fst t)) \<and>
    (Status j = StatusDone \<longrightarrow>
       mem_objs (fst t) (result_path env i (Transformation j)) = mem_objs (fst s) (result_path env i (Transformation j)))"
  using assms(1,3)
proof induction
  case base
  show ?case by simp
next
  case (step t u)
  obtain w as w' as' where tu: "t = (w, as)" "u = (w', as')" by fastforce
  note m = step.hyps(2) [unfolded tu]
  have inj: "inj_on (env_rand env) {..w_tick w}"
    using step.prems tu mem_step_tick [OF m] by (auto elim: inj_on_subset)
  have r: "mem_reachable env (w, as)" using assms(2) step.hyps(1) tu mem_reachable_steps by blast
  have ok: "mem_system_ok env (w, as)" using mem_system_ok_reachable [OF r] inj by simp
  have ex: "mem_exclusive (w, as)" using mem_exclusive_reachable [OF r] inj by simp
  have ih: "advances (w_jobs (fst s)) (w_jobs w)"
    "Status j = StatusDone \<Longrightarrow> mem_objs w (result_path env i (Transformation j)) = mem_objs (fst s) (result_path env i (Transformation j))"
    using step.IH inj tu by simp_all
  have "advances (w_jobs w) (w_jobs w')" using mem_exclusive_step [OF m ex ok inj] by simp
  moreover have "mem_objs w' (result_path env i (Transformation j)) = mem_objs w (result_path env i (Transformation j))"
    if d: "Status j = StatusDone"
  proof -
    have "w_jobs w i = Some j"
      using ih(1) assms(6) job_progress_settled [of j] d by (fastforce simp: advances_def status_terminal_def)
    from mem_step_results [OF m ok ex this d assms(4,5)] show ?thesis .
  qed
  ultimately show ?case using ih tu advances_trans by auto
qed

section \<open>One worker to a job\<close>

lemma owners_count:
  assumes "\<forall>i. count (owners q as) i \<le> 1"
  shows "count q i + length (filter (\<lambda>a. i \<in># works_for a) as) \<le> 1"
proof -
  have "length (filter (\<lambda>a. i \<in># works_for a) as) \<le> count (sum_list (map works_for as)) i"
    by (induction as) (auto simp flip: count_greater_zero_iff)
  then show ?thesis using assms [rule_format, of i] by (simp add: owners_def)
qed

text \<open>
  C3: no job is worked on twice. In every state that uploads and workers can bring the in-process
  program to, an identifier is on the queue at most once and then with no use case working on it, or
  in the hands of at most one use case or queue consumer; a job on the queue, held by a consumer, or
  handed to a worker that has not claimed it yet, is pending, and one that a worker has claimed and not let go of is processing. So
  the claim, which does not compare before it sets, never takes a job from another worker here, and
  no delivery is refused for a job that is no longer pending.
\<close>

theorem one_worker_per_job:
  assumes "mem_reachable env (w, as)" "inj_on (env_rand env) {..w_tick w}"
  shows "count (mem_waiting w) i + length (filter (\<lambda>a. i \<in># works_for a) as) \<le> 1 \<and>
    agrees (w_jobs w) (mem_waiting w) StatusPending \<and>
    (\<forall>a \<in> set as. agrees (w_jobs w) (works_for a) (believes a)) \<and>
    (Processing c i PLoad \<in> set as \<longrightarrow>
       (\<nexists>j e w'. process_step (mem_process env) c i (PLoad, w) = (PReturned (Some j, Some e), w')))"
proof -
  have ex: "exclusive (w_jobs w) (mem_waiting w) as"
    using mem_exclusive_reachable [OF assms(1)] assms(2) by (simp add: mem_exclusive_def)
  then have c: "count (mem_waiting w) i + length (filter (\<lambda>a. i \<in># works_for a) as) \<le> 1"
    by (intro owners_count) (simp add: exclusive_def)
  have "\<nexists>j e w'. process_step (mem_process env) c i (PLoad, w) = (PReturned (Some j, Some e), w')"
    if "Processing c i PLoad \<in> set as"
  proof -
    obtain x w1 where g: "GetJob (mem_jobs env) c i w = (x, w1)" by fastforce
    from ex that have "agrees (w_jobs w) {#i#} StatusPending" by (force simp: exclusive_def)
    then have "Status j = StatusPending" if "x = Inr j" for j
      using mem_repo.load_ok [OF g [unfolded that]] by (simp add: agrees_def)
    with g show ?thesis by (auto split: sum.splits if_splits)
  qed
  with c ex show ?thesis by (simp add: exclusive_def)
qed

theorem one_worker_per_job_witness:
  "\<exists>w as. mem_reachable sys_env (w, as) \<and> Processing Background ''a10f'' PLoad \<in> set as \<and>
     ''a10f'' \<notin># mem_waiting w \<and> length (filter (\<lambda>a. ''a10f'' \<in># works_for a) as) = 1"
proof -
  let ?w = "sys_queued\<lparr>w_queue := mq_new 0\<rparr>"
  let ?a = "Processing Background ''a10f'' PLoad"
  let ?as = "[Creating Background (Some (Reader ''pixels'' None)) ex_spec (CReturned (Inr sys_job)), ?a]"
  have "mq_receive (w_queue (sys_queued\<lparr>w_queue := sys_queue\<rparr>))
      = Some (Some \<lparr>JobID = ''a10f'', Meta = CtxCarrier Background\<rparr>, mq_new 0)" by (simp add: sys_queue_taken)
  from mem_system_step.pull [OF this, of sys_env
      "[Creating Background (Some (Reader ''pixels'' None)) ex_spec (CReturned (Inr sys_job))]" Background]
  have "mem_system_step sys_env (sys_queued\<lparr>w_queue := sys_queue\<rparr>,
      [Creating Background (Some (Reader ''pixels'' None)) ex_spec (CReturned (Inr sys_job))])
      (?w, [Creating Background (Some (Reader ''pixels'' None)) ex_spec (CReturned (Inr sys_job)),
            Delivering Background ''a10f''])" by simp
  moreover have "mem_system_step sys_env
      (?w, [Creating Background (Some (Reader ''pixels'' None)) ex_spec (CReturned (Inr sys_job)),
            Delivering Background ''a10f'']) (?w, ?as)"
    using mem_system_step.hand [of 1 "[Creating Background (Some (Reader ''pixels'' None)) ex_spec (CReturned (Inr sys_job)),
        Delivering Background ''a10f'']" Background "''a10f''" sys_env ?w Background] by simp
  ultimately have "(mem_system_step sys_env)\<^sup>*\<^sup>* (sys_queued\<lparr>w_queue := sys_queue\<rparr>,
      [Creating Background (Some (Reader ''pixels'' None)) ex_spec (CReturned (Inr sys_job))]) (?w, ?as)"
    by (meson converse_rtranclp_into_rtranclp rtranclp.rtrancl_refl)
  with sys_created have r: "mem_reachable sys_env (?w, ?as)" by (rule mem_reachable_steps)
  have "count (mem_waiting ?w) ''a10f'' + length (filter (\<lambda>a. ''a10f'' \<in># works_for a) ?as) \<le> 1"
    using one_worker_per_job [OF r sys_env_fresh, of "''a10f''" Background] by (rule conjunct1)
  then have "''a10f'' \<notin># mem_waiting ?w \<and> length (filter (\<lambda>a. ''a10f'' \<in># works_for a) ?as) = 1"
    by (simp add: not_in_iff)
  with r show ?thesis by (intro exI conjI) auto
qed

section \<open>Settled for good\<close>

text \<open>
  C2: what is stored stays, a job only moves along its lifecycle, and what is settled is left alone.
  From any reachable state, whatever uploads and workers do from there, a stored job is never lost;
  it is later as it was, or further along (pending, processing, done or failed, never back) with the
  same identifier, original key, specification and time of creation. The file of its original is
  never written again. A job that is done or failed is never changed again, and the file with the
  result of one that is done is never written again.
\<close>

theorem settled_for_good:
  assumes "mem_reachable env s" "(mem_system_step env)\<^sup>*\<^sup>* s t" "inj_on (env_rand env) {..w_tick (fst t)}"
    and "root_ok (env_root env)" "\<And>n. env_rand env n \<noteq> []" "w_jobs (fst s) i = Some j"
  shows "mem_objs (fst t) (original_path env i) = mem_objs (fst s) (original_path env i) \<and>
    (\<exists>j'. w_jobs (fst t) i = Some j' \<and> (j' = j \<or> job_progress j j') \<and>
       (status_terminal (Status j) \<longrightarrow> j' = j)) \<and>
    (Status j = StatusDone \<longrightarrow>
       mem_objs (fst t) (result_path env i (Transformation j)) = mem_objs (fst s) (result_path env i (Transformation j)))"
proof -
  have "w_tick (fst s) \<le> w_tick (fst t)" using assms(2) by (rule mem_steps_tick)
  then have "inj_on (env_rand env) {..w_tick (fst s)}" using assms(3) by (auto elim: inj_on_subset)
  with assms(1) have ok: "mem_system_ok env s" by (rule mem_system_ok_reachable)
  have "mem_objs (fst t) (original_path env i) = mem_objs (fst s) (original_path env i)"
    using mem_steps_keep [OF assms(2) ok assms(3-6)] by blast
  with mem_steps_advance [OF assms(2,1,3-6)] assms(6) job_progress_settled [of j]
  show ?thesis unfolding advances_def by blast
qed

theorem settled_for_good_witness:
  "\<exists>j'. w_jobs (snd sys_process) ''a10f'' = Some j' \<and> Status j' = StatusDone \<and> job_progress sys_job j'"
proof -
  let ?s = "(sys_queued\<lparr>w_queue := sys_queue\<rparr>,
    [Creating Background (Some (Reader ''pixels'' None)) ex_spec (CReturned (Inr sys_job))])"
  obtain bs where m: "(mem_system_step sys_env)\<^sup>*\<^sup>* ?s (snd sys_process, bs)" using sys_processed by blast
  have j: "w_jobs (fst ?s) ''a10f'' = Some sys_job" by (simp add: sys_queued_def)
  from settled_for_good [OF sys_created m sys_env_fresh sys_root_ok sys_env_rand j] sys_process_runs
  show ?thesis by (auto simp: sys_job_def statuses_differ split: option.splits)
qed

end
