(* ===== verification/Polling.thy ===== *)
theory Polling
  imports Mem_Exclusive Handlers
begin

text \<open>
  What a client sees. An upload that was accepted is answered with the job and its identifier, and
  the client then asks \<open>GET /jobs/{id}\<close> until the job is done or failed, while other uploads and the
  workers go on. The answers are those of \<open>handleGetJob\<close> over the in-process repository.
\<close>

section \<open>An accepted upload\<close>

text \<open>The job a creation is about to announce, or has announced, is the stored one.\<close>

fun announces :: "(string \<rightharpoonup> job) \<Rightarrow> activity \<Rightarrow> bool" where
  "announces m (Creating c src sp (CSave j)) = (Transformation j = sp)"
| "announces m (Creating c src sp (CEnqueue j)) = (Transformation j = sp \<and> works_on m (ID j) j)"
| "announces m (Creating c src sp (CReturned (Inr j))) = (Transformation j = sp \<and> works_on m (ID j) j)"
| "announces m a = True"

lemma announces_stable: "announces m a \<Longrightarrow> extends m m' \<Longrightarrow> announces m' a"
  by (induction m a rule: announces.induct) (auto intro: works_on_stable)

lemma create_announces:
  assumes step: "create_step (mem_create env) c src sp (pc, w) = (pc', w')"
    and an: "announces (w_jobs w) (Creating c src sp pc)" and ext: "extends (w_jobs w) (w_jobs w')"
  shows "announces (w_jobs w') (Creating c src sp pc')"
proof (cases pc)
  case (CSave j)
  obtain x w1 where g: "Save (mem_jobs env) c (Some j) w = (x, w1)" by fastforce
  show ?thesis
  proof (cases x)
    case None
    with g have "w_jobs w1 = (w_jobs w)(ID j \<mapsto> j)" by (auto dest: mem_repo.ssave_ok)
    with step g None an show ?thesis by (auto simp: CSave mem_create_def new_create_job_def works_on_def)
  next
    case (Some e)
    with step g show ?thesis by (auto simp: CSave mem_create_def new_create_job_def)
  qed
next
  case (CEnqueue j)
  with announces_stable [OF an ext] step show ?thesis
    by (auto split: prod.splits option.splits)
next
  case (CReturned r)
  with announces_stable [OF an ext] step show ?thesis by simp
qed (use step in \<open>auto simp: created_job_def split: prod.splits option.splits\<close>)

lemma mem_announces_reachable:
  assumes "mem_reachable env s" "inj_on (env_rand env) {..w_tick (fst s)}"
  shows "\<forall>a \<in> set (snd s). announces (w_jobs (fst s)) a"
proof -
  from assms(1) obtain m buffer where run: "(mem_system_step env)\<^sup>*\<^sup>* (mem_start m buffer, []) s"
    by (auto simp: mem_reachable_def)
  from run assms(2) show ?thesis
  proof induction
    case base
    show ?case by simp
  next
    case (step s t)
    obtain w as w' as' where st: "s = (w, as)" "t = (w', as')" by fastforce
    note m = step.hyps(2) [unfolded st]
    have inj: "inj_on (env_rand env) {..w_tick w}"
      using step.prems st mem_step_tick [OF m] by (auto elim: inj_on_subset)
    have "mem_reachable env s" using step.hyps(1) by (auto simp: mem_reachable_def)
    from mem_system_ok_reachable [OF this] inj st have ok: "mem_system_ok env (w, as)" by simp
    have ext: "extends (w_jobs w) (w_jobs w')" using mem_step_extends [OF m ok inj] .
    have ih: "announces (w_jobs w') a" if "a \<in> set as" for a
      using step.IH inj st that announces_stable [OF _ ext] by simp
    have upd: "announces (w_jobs w') a" if "a \<in> set (as[k := b])" "announces (w_jobs w') b" for a b k
      using that set_update_subset_insert [of as k b] ih by blast
    from m have "\<forall>a \<in> set as'. announces (w_jobs w') a"
    proof cases
      case (create k c src sp pc pc')
      have "announces (w_jobs w) (as ! k)" using step.IH inj st create(2) by simp
      then have "announces (w_jobs w') (Creating c src sp pc')"
        using create_announces [OF create(4) _ ext] create(3) by simp
      with upd create(1) show ?thesis by blast
    next
      case (process k c i pc pc')
      with upd show ?thesis by (metis announces.simps)
    next
      case (hand k c i c')
      with upd show ?thesis by (metis announces.simps)
    next
      case (drop k c i)
      with upd show ?thesis by (metis announces.simps)
    qed (use ih in auto)
    then show ?case by (simp add: st)
  qed
qed

section \<open>Asking for the job\<close>

lemma get_job_found:
  assumes "CtxErr c (w_tick w) = None" "w_jobs w i = Some j" "i \<noteq> []"
  shows "handle_get_job (mem_jobs env) cfg r c i w = (write_json r [] 200 (JobBody (new_job_response cfg j)), after_call w)"
  using assms(3) by (simp add: handle_get_job_def mem_load_live [OF assms(1,2)])

lemma get_job_missing:
  assumes "CtxErr c (w_tick w) = None" "w_jobs w i = None" "i \<noteq> []"
  shows "rs_status (fst (handle_get_job (mem_jobs env) cfg r c i w)) = 404"
proof -
  obtain e where "memrepo_get None i (w_jobs w) = Inl e" "errors_is e ErrJobNotFound"
    using memrepo_get_missing [of "w_jobs w" i] assms(2) by blast
  then show ?thesis using assms(1,3) by (simp add: handle_get_job_def mem_jobs_def)
qed

lemma job_response_simps [simp]:
  "jr_id (new_job_response cfg j) = ID j" "jr_status (new_job_response cfg j) = Status j"
  "to_domain (jr_transformation (new_job_response cfg j)) = Transformation j"
  "jr_created_at (new_job_response cfg j) = CreatedAt j" "jr_result_key (new_job_response cfg j) = ResultKey j"
  "jr_error (new_job_response cfg j) = Error j"
  by (simp_all add: new_job_response_def Let_def to_domain_def spec_from_domain_def)

lemma job_progress_same: "job_progress j j' \<Longrightarrow> same_job j j'"
  by (simp add: job_progress_def same_job_def)

lemma advances_at:
  "advances m m' \<Longrightarrow> m i = Some j \<Longrightarrow> \<exists>j'. m' i = Some j' \<and> same_job j j' \<and> (j' = j \<or> job_progress j j')"
  unfolding advances_def by (metis job_progress_same same_job_refl)

text \<open>
  C33: a client can trust what it polls. Take an upload that was accepted with a job, and two polls
  for that job, one after the other, at any later moments of the in-process program and under
  contexts that are not over, whatever uploads and workers do in between. Both are answered 200 with
  the job, under the identifier and with the specification and time of creation that were accepted.
  The second answer is the first, or shows a status further along the lifecycle; once the status is
  done or failed every later answer is the same. An error is shown exactly for a job that failed.
  When a job is shown as done, the key of its result is shown with it, the result is there, and it
  is the same at the second poll. An identifier no job has is answered 404.
\<close>

theorem polls_tell_progress:
  assumes "mem_reachable env s" "Creating c src sp (CReturned (Inr j)) \<in> set (snd s)"
    and "(mem_system_step env)\<^sup>*\<^sup>* s t" "(mem_system_step env)\<^sup>*\<^sup>* t u"
    and "inj_on (env_rand env) {..w_tick (fst u)}" "root_ok (env_root env)" "\<And>n. env_rand env n \<noteq> []"
    and "CtxErr d (w_tick (fst t)) = None" "CtxErr d' (w_tick (fst u)) = None"
  shows "(l \<noteq> [] \<and> w_jobs (fst t) l = None \<longrightarrow>
      rs_status (fst (handle_get_job (mem_jobs env) cfg r d l (fst t))) = 404) \<and>
    (\<exists>b b'.
    fst (handle_get_job (mem_jobs env) cfg r d (ID j) (fst t)) = write_json r [] 200 (JobBody b) \<and>
    fst (handle_get_job (mem_jobs env) cfg r' d' (ID j) (fst u)) = write_json r' [] 200 (JobBody b') \<and>
    jr_id b = ID j \<and> to_domain (jr_transformation b) = sp \<and> jr_created_at b = CreatedAt j \<and>
    jr_id b' = ID j \<and> to_domain (jr_transformation b') = sp \<and> jr_created_at b' = CreatedAt j \<and>
    (b' = b \<or> (\<exists>x y. abs_status (jr_status b) = Some x \<and> abs_status (jr_status b') = Some y \<and> lc_step\<^sup>+\<^sup>+ x y)) \<and>
    (status_terminal (jr_status b) \<longrightarrow> b' = b) \<and> (jr_error b \<noteq> [] \<longleftrightarrow> jr_status b = StatusFailed) \<and>
    (jr_status b = StatusDone \<longrightarrow>
       jr_result_key b = result_key (ID j) sp \<and> mem_objs (fst t) (result_path env (ID j) sp) \<noteq> None \<and>
       mem_objs (fst u) (result_path env (ID j) sp) = mem_objs (fst t) (result_path env (ID j) sp)))"
    (is "?missing \<and> (\<exists>b b'. ?found b b')")
proof -
  have tick: "w_tick (fst s) \<le> w_tick (fst t)" "w_tick (fst t) \<le> w_tick (fst u)"
    using assms(3,4) by (auto dest: mem_steps_tick)
  have inj: "inj_on (env_rand env) {..w_tick (fst s)}" "inj_on (env_rand env) {..w_tick (fst t)}"
    using assms(5) tick by (auto elim!: inj_on_subset)
  have rt: "mem_reachable env t" using assms(1,3) by (rule mem_reachable_steps)
  have ok: "mem_system_ok env t" using rt inj(2) by (rule mem_system_ok_reachable)
  obtain k where k: "w_jobs (fst s) (ID j) = Some k" "same_job j k" "Transformation j = sp"
    using mem_announces_reachable [OF assms(1) inj(1)] assms(2) by (fastforce simp: works_on_def)
  obtain kt where kt: "w_jobs (fst t) (ID j) = Some kt" "same_job k kt"
    using mem_steps_advance [OF assms(3,1) inj(2) assms(6,7) k(1)] advances_at k(1) by blast
  note tu = mem_steps_advance [OF assms(4) rt assms(5,6,7) kt(1)]
  obtain ku where ku: "w_jobs (fst u) (ID j) = Some ku" "same_job kt ku" "ku = kt \<or> job_progress kt ku"
    using advances_at [OF conjunct1 [OF tu] kt(1)] by blast
  have jt: "job_ok (stored_at (mem_loc env) (mem_objs (fst t))) (ID j) kt" "ID j \<in> mem_used env (fst t)"
    using mem_system_ok_jobs [of env "fst t" "snd t" "ID j" kt] ok kt(1) by simp_all
  have i: "id_ok (ID j)" using jt(2) assms(7) by (rule mem_used_id_ok)
  then have ne: "ID j \<noteq> []" by (simp add: id_ok_def)
  have same: "Transformation kt = sp" "ID kt = ID j" "CreatedAt kt = CreatedAt j"
    "Transformation ku = sp" "ID ku = ID j" "CreatedAt ku = CreatedAt j"
    using k(2,3) kt(2) ku(2) by (simp_all add: same_job_def)
  have f: "format_valid (Format sp)" using jt(1) same(1) by (auto simp: job_ok_def spec_ok_def)
  have res: "ResultKey kt = result_key (ID j) sp \<and> mem_objs (fst t) (result_path env (ID j) sp) \<noteq> None \<and>
      mem_objs (fst u) (result_path env (ID j) sp) = mem_objs (fst t) (result_path env (ID j) sp)"
    if "Status kt = StatusDone"
  proof -
    have "ResultKey kt = result_key (ID j) sp" "stored_at (mem_loc env) (mem_objs (fst t)) (result_key (ID j) sp)"
      using jt(1) that same(1) unfolding job_ok_def by metis+
    with mem_loc_result [OF assms(6) i f] tu that same(1) show ?thesis by (simp add: stored_at_def)
  qed
  have prog: "new_job_response cfg ku = new_job_response cfg kt \<or>
      (\<exists>x y. abs_status (Status kt) = Some x \<and> abs_status (Status ku) = Some y \<and> lc_step\<^sup>+\<^sup>+ x y)"
    using ku(3) by (auto simp: job_progress_def)
  have fin: "status_terminal (Status kt) \<Longrightarrow> new_job_response cfg ku = new_job_response cfg kt"
    using ku(3) job_progress_settled by blast
  have err: "Error kt \<noteq> [] \<longleftrightarrow> Status kt = StatusFailed" using jt(1) by (simp add: job_ok_def)
  have "?missing" using get_job_missing [OF assms(8)] by blast
  moreover have "?found (new_job_response cfg kt) (new_job_response cfg ku)"
    by (use get_job_found [OF assms(8) kt(1) ne, of env cfg r] get_job_found [OF assms(9) ku(1) ne, of env cfg r'] same prog fin err res in simp)
  ultimately show ?thesis by blast
qed

text \<open>The example again, with a client that polls before and after the worker.\<close>

definition poll_config :: api_config where
  "poll_config =
     api_defaults \<lparr>ac_max_upload = 0, ac_origins = [], ac_base_url = ''https://cdn.example/'', ac_rate_limit = 0,
       ac_rate_burst = 0\<rparr>"

theorem polls_tell_progress_witness:
  "\<exists>b b'. fst (handle_get_job (mem_jobs sys_env) poll_config sample_request Background ''a10f''
        (sys_queued\<lparr>w_queue := sys_queue\<rparr>)) = write_json sample_request [] 200 (JobBody b) \<and>
      fst (handle_get_job (mem_jobs sys_env) poll_config sample_request Background ''a10f''
        (snd sys_process)) = write_json sample_request [] 200 (JobBody b') \<and>
      jr_status b = StatusPending \<and> jr_status b' = StatusDone \<and> jr_id b' = jr_id b \<and> jr_created_at b' = 2"
proof -
  let ?a = "Creating Background (Some (Reader ''pixels'' None)) ex_spec (CReturned (Inr sys_job))"
  let ?s = "(sys_queued\<lparr>w_queue := sys_queue\<rparr>, [?a])"
  obtain bs where m: "(mem_system_step sys_env)\<^sup>*\<^sup>* ?s (snd sys_process, bs)" using sys_processed by blast
  have a: "?a \<in> set (snd ?s)" by simp
  have live: "CtxErr Background n = None" for n by (rule ex_live)
  have job: "ID sys_job = ''a10f''" "Status sys_job = StatusPending" "CreatedAt sys_job = 2"
    by (simp_all add: sys_job_def created_job_def)
  have jobs: "w_jobs (sys_queued\<lparr>w_queue := sys_queue\<rparr>) ''a10f'' = Some sys_job" by (simp add: sys_queued_def)
  from sys_process_runs obtain j where j: "w_jobs (snd sys_process) ''a10f'' = Some j" "Status j = StatusDone"
    by (auto split: option.splits)
  from polls_tell_progress [OF sys_created a rtranclp.rtrancl_refl m sys_env_fresh sys_root_ok sys_env_rand
      live live, where cfg = poll_config and r = sample_request and r' = sample_request]
  obtain b b' where b: "fst (handle_get_job (mem_jobs sys_env) poll_config sample_request Background ''a10f''
        (sys_queued\<lparr>w_queue := sys_queue\<rparr>)) = write_json sample_request [] 200 (JobBody b)"
      "fst (handle_get_job (mem_jobs sys_env) poll_config sample_request Background ''a10f''
        (snd sys_process)) = write_json sample_request [] 200 (JobBody b')"
      "jr_id b = ''a10f''" "jr_id b' = ''a10f''" "jr_created_at b' = 2"
    unfolding job fst_conv by blast
  moreover have "b = new_job_response poll_config sys_job" "b' = new_job_response poll_config j"
    using b(1,2) get_job_found [OF live jobs, of sys_env poll_config sample_request]
      get_job_found [OF live j(1), of sys_env poll_config sample_request] by (simp_all add: write_json_def)
  ultimately show ?thesis
    using j(2) job(2) by (intro exI [of _ b] exI [of _ b'] conjI) simp_all
qed

end
