(* ===== verification/Queue_Lock.thy ===== *)
theory Queue_Lock
  imports Memqueue
begin

text \<open>
  \<open>Enqueue\<close> and \<open>Close\<close> of \<open>internal/adapters/memqueue\<close> statement by statement. Theory \<open>Memqueue\<close>
  takes each for one step; in the program they read and write \<open>closed\<close> and the channel in several
  statements, kept apart by the queue's \<open>sync.RWMutex\<close>. Here the callers move one statement at a
  time, sending on a closed channel and closing it twice panic as they do in Go, and the methods are
  shown to be the steps of theory \<open>Memqueue\<close>.
\<close>

section \<open>Where a caller is\<close>

text \<open>
  In \<open>Enqueue\<close>: before \<open>RLock\<close>, about to look at \<open>closed\<close>, in the \<open>select\<close>, about to run the
  deferred \<open>RUnlock\<close> with the result, or back. In \<open>Close\<close>: before \<open>Lock\<close>, inside it and keeping
  new readers out, about to look at \<open>closed\<close>, about to close the channel, about to unlock, or back.
\<close>

datatype caller =
    ELock string "(string \<rightharpoonup> string) option"
  | ECheck string "(string \<rightharpoonup> string) option"
  | ESelect string "(string \<rightharpoonup> string) option"
  | EUnlock "goerr option"
  | EBack "goerr option"
  | CLock
  | CWait
  | CCheck
  | CChan
  | CUnlock
  | CBack

fun reads_locked :: "caller \<Rightarrow> bool" where
  "reads_locked (ECheck i m) = True"
| "reads_locked (ESelect i m) = True"
| "reads_locked (EUnlock r) = True"
| "reads_locked a = False"

fun selecting :: "caller \<Rightarrow> bool" where
  "selecting (ESelect i m) = True"
| "selecting a = False"

definition writes_locked :: "caller \<Rightarrow> bool" where
  "writes_locked a \<longleftrightarrow> a = CCheck \<or> a = CChan \<or> a = CUnlock"

definition keeps_out :: "caller \<Rightarrow> bool" where
  "keeps_out a \<longleftrightarrow> a = CWait \<or> writes_locked a"

definition sent :: "caller \<Rightarrow> bool" where
  "sent a \<longleftrightarrow> a = EUnlock None \<or> a = EBack None"

fun is_back :: "caller \<Rightarrow> bool" where
  "is_back (EBack r) = True"
| "is_back CBack = True"
| "is_back a = False"

text \<open>An empty identifier is refused before the lock.\<close>

fun named :: "caller \<Rightarrow> bool" where
  "named (ELock i m) = (i \<noteq> [])"
| "named (ECheck i m) = (i \<noteq> [])"
| "named (ESelect i m) = (i \<noteq> [])"
| "named a = True"

text \<open>How many callers are somewhere.\<close>

definition num :: "('a \<Rightarrow> bool) \<Rightarrow> 'a list \<Rightarrow> nat" where
  "num P xs = length (filter P xs)"

lemma num_simps [simp]:
  "num P [] = 0" "num P (x # xs) = of_bool (P x) + num P xs" "num P (xs @ ys) = num P xs + num P ys"
  by (simp_all add: num_def)

lemma num_update:
  "k < length xs \<Longrightarrow> num P (xs[k := y]) + of_bool (P (xs ! k)) = num P xs + of_bool (P y)"
proof (induction xs arbitrary: k)
  case (Cons x xs)
  then show ?case by (cases k) auto
qed simp

lemma num_pos: "k < length xs \<Longrightarrow> P (xs ! k) \<Longrightarrow> 0 < num P xs"
  unfolding num_def length_greater_0_conv filter_empty_conv using nth_mem by blast

lemma num_0: "num P xs = 0 \<longleftrightarrow> (\<forall>k < length xs. \<not> P (xs ! k))"
  by (simp add: num_def filter_empty_conv all_set_conv_all_nth)

lemma num_mono: "(\<And>x. P x \<Longrightarrow> Q x) \<Longrightarrow> num P xs \<le> num Q xs"
  by (induction xs) auto

section \<open>The statements\<close>

text \<open>
  The channel and its consumers are those of theory \<open>Memqueue\<close>, \<open>mq_closed\<close> being whether the
  channel is closed; the field \<open>closed\<close> of the queue is apart from it. \<open>lk_over\<close> are the callers
  whose context is over.
\<close>

record lock_sys =
  lk_sys :: mq_sys
  lk_closed :: bool
  lk_callers :: "caller list"
  lk_over :: "nat set"
  lk_panicked :: bool

definition lock_init :: "int \<Rightarrow> lock_sys" where
  "lock_init buffer =
     \<lparr>lk_sys = mq_sys_init buffer, lk_closed = False, lk_callers = [], lk_over = {}, lk_panicked = False\<rparr>"

definition at :: "lock_sys \<Rightarrow> nat \<Rightarrow> caller \<Rightarrow> bool" where
  "at s k a \<longleftrightarrow> k < length (lk_callers s) \<and> lk_callers s ! k = a"

definition goes :: "nat \<Rightarrow> caller \<Rightarrow> lock_sys \<Rightarrow> lock_sys" where
  "goes k a s = s\<lparr>lk_callers := (lk_callers s)[k := a]\<rparr>"

text \<open>The send of the \<open>select\<close>, and \<open>close(q.ch)\<close>.\<close>

definition chan_send :: "string \<Rightarrow> (string \<rightharpoonup> string) option \<Rightarrow> lock_sys \<Rightarrow> lock_sys" where
  "chan_send i m s =
     (let y = lk_sys s; d = \<lparr>JobID = i, Meta = m\<rparr> in
      if mq_closed (sys_q y) then s\<lparr>lk_panicked := True\<rparr>
      else s\<lparr>lk_sys := y\<lparr>sys_q := (sys_q y)\<lparr>mq_buf := mq_buf (sys_q y) @ [d]\<rparr>,
                          sys_accepted := sys_accepted y @ [d]\<rparr>\<rparr>)"

definition chan_close :: "lock_sys \<Rightarrow> lock_sys" where
  "chan_close s =
     (let y = lk_sys s in
      if mq_closed (sys_q y) then s\<lparr>lk_panicked := True\<rparr>
      else s\<lparr>lk_sys := y\<lparr>sys_q := (sys_q y)\<lparr>mq_closed := True\<rparr>\<rparr>\<rparr>)"

text \<open>A send is ready when there is room, and also when the channel is closed: then it panics.\<close>

definition send_ready :: "lock_sys \<Rightarrow> bool" where
  "send_ready s \<longleftrightarrow>
     mq_closed (sys_q (lk_sys s)) \<or> length (mq_buf (sys_q (lk_sys s))) < mq_cap (sys_q (lk_sys s))"

inductive lock_move :: "lock_sys \<Rightarrow> lock_sys \<Rightarrow> bool" where
  rlock: "at s k (ELock i m) \<Longrightarrow> num keeps_out (lk_callers s) = 0 \<Longrightarrow> lock_move s (goes k (ECheck i m) s)"
| refused: "at s k (ECheck i m) \<Longrightarrow> lk_closed s \<Longrightarrow>
    lock_move s (goes k (EUnlock (Some (EWrap (''memqueue: enqueue '' @ i @ '': '') ErrClosed []))) s)"
| accepted: "at s k (ECheck i m) \<Longrightarrow> \<not> lk_closed s \<Longrightarrow> lock_move s (goes k (ESelect i m) s)"
| send: "at s k (ESelect i m) \<Longrightarrow> send_ready s \<Longrightarrow> lock_move s (goes k (EUnlock None) (chan_send i m s))"
| give_up: "at s k (ESelect i m) \<Longrightarrow> k \<in> lk_over s \<Longrightarrow>
    lock_move s (goes k (EUnlock (Some (EWrap (''memqueue: enqueue '' @ i @ '': '') e []))) s)"
| runlock: "at s k (EUnlock r) \<Longrightarrow> lock_move s (goes k (EBack r) s)"
| announce: "at s k CLock \<Longrightarrow> num keeps_out (lk_callers s) = 0 \<Longrightarrow> lock_move s (goes k CWait s)"
| wlock: "at s k CWait \<Longrightarrow> num reads_locked (lk_callers s) = 0 \<Longrightarrow> lock_move s (goes k CCheck s)"
| closed_before: "at s k CCheck \<Longrightarrow> lk_closed s \<Longrightarrow> lock_move s (goes k CUnlock s)"
| set_closed: "at s k CCheck \<Longrightarrow> \<not> lk_closed s \<Longrightarrow> lock_move s (goes k CChan (s\<lparr>lk_closed := True\<rparr>))"
| close_chan: "at s k CChan \<Longrightarrow> lock_move s (goes k CUnlock (chan_close s))"
| wunlock: "at s k CUnlock \<Longrightarrow> lock_move s (goes k CBack s)"

inductive_cases lock_moveE: "lock_move s t"

text \<open>Calls come in, contexts end, and the consumers move as in theory \<open>Memqueue\<close>.\<close>

inductive lock_step :: "lock_sys \<Rightarrow> lock_sys \<Rightarrow> bool" where
  move: "lock_move s t \<Longrightarrow> lock_step s t"
| call_enqueue: "lock_step s (s\<lparr>lk_callers := lk_callers s @
    [if i = [] then EBack (Some (EText ''memqueue: empty job id'')) else ELock i m]\<rparr>)"
| call_close: "lock_step s (s\<lparr>lk_callers := lk_callers s @ [CLock]\<rparr>)"
| over: "lock_step s (s\<lparr>lk_over := insert k (lk_over s)\<rparr>)"
| consumers: "mq_step (lk_sys s) y \<Longrightarrow> sys_accepted y = sys_accepted (lk_sys s) \<Longrightarrow>
    mq_closed (sys_q y) = mq_closed (sys_q (lk_sys s)) \<Longrightarrow> lock_step s (s\<lparr>lk_sys := y\<rparr>)"

inductive lock_reachable :: "int \<Rightarrow> lock_sys \<Rightarrow> bool" for buffer :: int where
  start: "lock_reachable buffer (lock_init buffer)"
| step: "lock_reachable buffer s \<Longrightarrow> lock_step s t \<Longrightarrow> lock_reachable buffer t"

section \<open>What the mutex keeps\<close>

definition lock_inv :: "int \<Rightarrow> lock_sys \<Rightarrow> bool" where
  "lock_inv buffer s \<longleftrightarrow>
     (let cs = lk_callers s; q = sys_q (lk_sys s) in
      \<not> lk_panicked s \<and> mq_reachable buffer (lk_sys s) \<and>
      num keeps_out cs \<le> 1 \<and> (num writes_locked cs = 0 \<or> num reads_locked cs = 0) \<and>
      (lk_closed s \<longleftrightarrow> mq_closed q \<or> 0 < num (\<lambda>a. a = CChan) cs) \<and>
      (mq_closed q \<longrightarrow> num (\<lambda>a. a = CChan) cs = 0) \<and>
      (lk_closed s \<longrightarrow> num selecting cs = 0) \<and>
      (\<forall>a \<in> set cs. named a) \<and>
      num sent cs = length (sys_accepted (lk_sys s)))"

lemma num_le:
  "num (\<lambda>a. a = CChan) cs \<le> num writes_locked cs" "num writes_locked cs \<le> num keeps_out cs"
  "num selecting cs \<le> num reads_locked cs"
  by (rule num_mono; auto simp: writes_locked_def keeps_out_def elim: selecting.elims)+

lemma at_named: "at s k a \<Longrightarrow> \<forall>a \<in> set (lk_callers s). named a \<Longrightarrow> named a"
  by (auto simp: at_def)

lemma named_goes: "\<forall>a \<in> set cs. named a \<Longrightarrow> named b \<Longrightarrow> \<forall>a \<in> set (cs[k := b]). named a"
  using set_update_subset_insert [of cs k b] by blast

lemma goes_simps [simp]:
  "lk_callers (goes k a s) = (lk_callers s)[k := a]" "lk_sys (goes k a s) = lk_sys s"
  "lk_closed (goes k a s) = lk_closed s" "lk_panicked (goes k a s) = lk_panicked s"
  by (simp_all add: goes_def)

text \<open>A caller moves on and nothing else changes.\<close>

lemma lock_inv_goes:
  assumes "lock_inv buffer s" "at s k a" "named b"
    and "num keeps_out (lk_callers s) + of_bool (keeps_out b) \<le> 1 + of_bool (keeps_out a)"
    and "writes_locked b \<Longrightarrow> \<not> writes_locked a \<Longrightarrow> num reads_locked (lk_callers s) = 0"
    and "reads_locked b \<Longrightarrow> \<not> reads_locked a \<Longrightarrow> num writes_locked (lk_callers s) = 0"
    and "writes_locked b \<Longrightarrow> \<not> reads_locked b" "a \<noteq> CChan" "b \<noteq> CChan"
    and "selecting b \<Longrightarrow> \<not> lk_closed s" "sent b = sent a"
  shows "lock_inv buffer (goes k b s)"
proof -
  have k: "k < length (lk_callers s)" "lk_callers s ! k = a" using assms(2) by (simp_all add: at_def)
  have u: "num P ((lk_callers s)[k := b]) + of_bool (P a) = num P (lk_callers s) + of_bool (P b)" for P
    using num_update [OF k(1), of P b] k(2) by simp
  have p: "P a \<Longrightarrow> 0 < num P (lk_callers s)" for P using num_pos [OF k(1), of P] k(2) by simp
  let ?cs = "lk_callers s" and ?ds = "(lk_callers s)[k := b]"
  have ex: "num writes_locked ?cs = 0 \<or> num reads_locked ?cs = 0" "num sent ?cs = length (sys_accepted (lk_sys s))"
    "lk_closed s \<Longrightarrow> num selecting ?cs = 0" "\<forall>a \<in> set ?cs. named a"
    using assms(1) by (simp_all add: lock_inv_def Let_def)
  have "num keeps_out ?ds \<le> 1" using u [of keeps_out] assms(4) by linarith
  moreover have "num writes_locked ?ds = 0 \<or> num reads_locked ?ds = 0"
  proof (cases "writes_locked b")
    case True
    with ex(1) p [of writes_locked] assms(5) have "num reads_locked ?cs = 0" by (cases "writes_locked a") auto
    with u [of reads_locked] assms(7) True show ?thesis by auto
  next
    case w: False
    show ?thesis
    proof (cases "reads_locked b")
      case True
      with ex(1) p [of reads_locked] assms(6) have "num writes_locked ?cs = 0" by (cases "reads_locked a") auto
      with u [of writes_locked] w show ?thesis by auto
    next
      case False
      with ex(1) u [of reads_locked] u [of writes_locked] w show ?thesis by auto
    qed
  qed
  moreover have "num (\<lambda>a. a = CChan) ?ds = num (\<lambda>a. a = CChan) ?cs"
    using u [of "\<lambda>a. a = CChan"] assms(8,9) by simp
  moreover have "num selecting ?ds = 0" if "lk_closed s"
    using u [of selecting] ex(3) [OF that] assms(10) that by (cases "selecting b") auto
  moreover have "num sent ?ds = num sent ?cs" using u [of sent] assms(11) by simp
  moreover have "\<forall>a \<in> set ?ds. named a" using ex(4) assms(3) by (rule named_goes)
  ultimately show ?thesis using assms(1) ex(2) by (simp add: lock_inv_def Let_def)
qed

text \<open>The three statements that change the queue.\<close>

lemma chan_send_step:
  assumes "mq_closed (sys_q (lk_sys s)) = False" "send_ready s" "i \<noteq> []"
  shows "mq_step (lk_sys s) (lk_sys (chan_send i m s))"
proof -
  let ?q = "sys_q (lk_sys s)"
  have "mq_enqueue True None m i ?q = Some (None, ?q\<lparr>mq_buf := mq_buf ?q @ [\<lparr>JobID = i, Meta = m\<rparr>]\<rparr>)"
    using assms by (simp add: mq_enqueue_ok send_ready_def)
  from mq_step.enqueue [OF this] show ?thesis using assms(1) by (simp add: chan_send_def Let_def)
qed

lemma chan_close_step:
  "mq_closed (sys_q (lk_sys s)) = False \<Longrightarrow> mq_step (lk_sys s) (lk_sys (chan_close s))"
  using mq_step.close [of "lk_sys s"] by (simp add: chan_close_def Let_def mq_close_def)

lemma lock_inv_parts:
  assumes "lock_inv buffer s"
  shows "\<not> lk_panicked s" "mq_reachable buffer (lk_sys s)" "num keeps_out (lk_callers s) \<le> 1"
    "num writes_locked (lk_callers s) = 0 \<or> num reads_locked (lk_callers s) = 0"
    "lk_closed s \<longleftrightarrow> mq_closed (sys_q (lk_sys s)) \<or> 0 < num (\<lambda>a. a = CChan) (lk_callers s)"
    "mq_closed (sys_q (lk_sys s)) \<Longrightarrow> num (\<lambda>a. a = CChan) (lk_callers s) = 0"
    "lk_closed s \<Longrightarrow> num selecting (lk_callers s) = 0" "\<forall>a \<in> set (lk_callers s). named a"
    "num sent (lk_callers s) = length (sys_accepted (lk_sys s))"
  using assms by (simp_all add: lock_inv_def Let_def)

lemma lock_inv_send:
  assumes "lock_inv buffer s" "at s k (ESelect i m)" "send_ready s"
  shows "lock_inv buffer (goes k (EUnlock None) (chan_send i m s)) \<and>
    mq_step (lk_sys s) (lk_sys (goes k (EUnlock None) (chan_send i m s)))"
proof -
  let ?cs = "lk_callers s" and ?ds = "(lk_callers s)[k := EUnlock None]"
  note iv = lock_inv_parts [OF assms(1)]
  have k: "k < length ?cs" "?cs ! k = ESelect i m" using assms(2) by (simp_all add: at_def)
  have sel: "0 < num selecting ?cs" "0 < num reads_locked ?cs" using num_pos [OF k(1)] k(2) by simp_all
  then have open_: "\<not> lk_closed s" "\<not> mq_closed (sys_q (lk_sys s))" using iv(5,7) by auto
  have i: "i \<noteq> []" using at_named [OF assms(2) iv(8)] by simp
  have st: "mq_step (lk_sys s) (lk_sys (chan_send i m s))"
    using open_ assms(3) i by (intro chan_send_step) simp_all
  have u: "num P ?ds + of_bool (P (ESelect i m)) = num P ?cs + of_bool (P (EUnlock None))" for P
    using num_update [OF k(1), of P "EUnlock None"] k(2) by simp
  have "num keeps_out ?ds = num keeps_out ?cs" "num writes_locked ?ds = num writes_locked ?cs"
    "num (\<lambda>a. a = CChan) ?ds = num (\<lambda>a. a = CChan) ?cs" "num sent ?ds = Suc (num sent ?cs)"
    using u [of keeps_out] u [of writes_locked] u [of "\<lambda>a. a = CChan"] u [of sent]
    by (simp_all add: keeps_out_def writes_locked_def sent_def)
  moreover have "num writes_locked ?cs = 0" using iv(4) sel(2) by simp
  moreover have "mq_reachable buffer (lk_sys (chan_send i m s))" using iv(2) st by (rule mq_reachable.step)
  moreover have "\<forall>a \<in> set ?ds. named a" using iv(8) by (rule named_goes) simp
  ultimately show ?thesis
    using iv open_ st by (simp add: lock_inv_def Let_def chan_send_def)
qed

lemma lock_inv_set_closed:
  assumes "lock_inv buffer s" "at s k CCheck" "\<not> lk_closed s"
  shows "lock_inv buffer (goes k CChan (s\<lparr>lk_closed := True\<rparr>))"
proof -
  let ?cs = "lk_callers s" and ?ds = "(lk_callers s)[k := CChan]"
  note iv = lock_inv_parts [OF assms(1)]
  have k: "k < length ?cs" "?cs ! k = CCheck" using assms(2) by (simp_all add: at_def)
  have "0 < num writes_locked ?cs" using num_pos [OF k(1)] k(2) by (simp add: writes_locked_def)
  then have r: "num reads_locked ?cs = 0" "num selecting ?cs = 0" using iv(4) num_le(3) [of ?cs] by simp_all
  have u: "num P ?ds + of_bool (P CCheck) = num P ?cs + of_bool (P CChan)" for P
    using num_update [OF k(1), of P CChan] k(2) by simp
  have "num keeps_out ?ds = num keeps_out ?cs" "num reads_locked ?ds = 0" "num selecting ?ds = 0"
    "num (\<lambda>a. a = CChan) ?ds = Suc (num (\<lambda>a. a = CChan) ?cs)" "num sent ?ds = num sent ?cs"
    using u [of keeps_out] u [of reads_locked] u [of selecting] u [of "\<lambda>a. a = CChan"] u [of sent] r
    by (simp_all add: keeps_out_def writes_locked_def sent_def)
  moreover have "\<forall>a \<in> set ?ds. named a" using iv(8) by (rule named_goes) simp
  ultimately show ?thesis using iv assms(3) by (simp add: lock_inv_def Let_def)
qed

lemma lock_inv_close_chan:
  assumes "lock_inv buffer s" "at s k CChan"
  shows "lock_inv buffer (goes k CUnlock (chan_close s)) \<and>
    mq_step (lk_sys s) (lk_sys (goes k CUnlock (chan_close s)))"
proof -
  let ?cs = "lk_callers s" and ?ds = "(lk_callers s)[k := CUnlock]"
  note iv = lock_inv_parts [OF assms(1)]
  have k: "k < length ?cs" "?cs ! k = CChan" using assms(2) by (simp_all add: at_def)
  have c: "0 < num (\<lambda>a. a = CChan) ?cs" using num_pos [OF k(1)] k(2) by simp
  then have nc: "\<not> mq_closed (sys_q (lk_sys s))" and cl: "lk_closed s" using iv(5,6) by auto
  have st: "mq_step (lk_sys s) (lk_sys (chan_close s))" using nc by (intro chan_close_step) simp
  have le: "num (\<lambda>a. a = CChan) ?cs \<le> 1" using num_le(1,2) [of ?cs] iv(3) by linarith
  have r: "num reads_locked ?cs = 0" using iv(4) c num_le(1) [of ?cs] by linarith
  have u: "num P ?ds + of_bool (P CChan) = num P ?cs + of_bool (P CUnlock)" for P
    using num_update [OF k(1), of P CUnlock] k(2) by simp
  have "num keeps_out ?ds = num keeps_out ?cs" "num reads_locked ?ds = 0" "num selecting ?ds = 0"
    "num (\<lambda>a. a = CChan) ?ds = 0" "num sent ?ds = num sent ?cs"
    using u [of keeps_out] u [of reads_locked] u [of selecting] u [of "\<lambda>a. a = CChan"] u [of sent] r le c
      iv(7) [OF cl]
    by (simp_all add: keeps_out_def writes_locked_def sent_def)
  moreover have "mq_reachable buffer (lk_sys (chan_close s))" using iv(2) st by (rule mq_reachable.step)
  moreover have "\<forall>a \<in> set ?ds. named a" using iv(8) by (rule named_goes) simp
  ultimately show ?thesis using iv nc cl st by (simp add: lock_inv_def Let_def chan_close_def)
qed

lemma at_keeps_out: "at s k a \<Longrightarrow> keeps_out a \<Longrightarrow> 0 < num keeps_out (lk_callers s)"
  by (auto simp: at_def intro: num_pos)

lemma writes_keeps_out: "num keeps_out cs = 0 \<Longrightarrow> num writes_locked cs = 0"
  using num_le(2) [of cs] by simp

lemmas locks = keeps_out_def writes_locked_def sent_def

lemma lock_inv_move:
  assumes "lock_move s t" "lock_inv buffer s"
  shows "lock_inv buffer t \<and> (lk_sys t = lk_sys s \<or> mq_step (lk_sys s) (lk_sys t))"
  using assms(1)
proof cases
  case (rlock k i m)
  from lock_inv_goes [OF assms(2) rlock(2), of "ECheck i m"] rlock at_named [OF rlock(2)] lock_inv_parts(8) [OF assms(2)]
  show ?thesis by (simp add: locks writes_keeps_out)
next
  case (refused k i m)
  from lock_inv_goes [OF assms(2) refused(2), of "EUnlock (Some (EWrap (''memqueue: enqueue '' @ i @ '': '') ErrClosed []))"]
    refused lock_inv_parts(3) [OF assms(2)]
  show ?thesis by (simp add: locks)
next
  case (accepted k i m)
  from lock_inv_goes [OF assms(2) accepted(2), of "ESelect i m"] accepted at_named [OF accepted(2)]
    lock_inv_parts(3,8) [OF assms(2)]
  show ?thesis by (simp add: locks)
next
  case (send k i m)
  with lock_inv_send [OF assms(2)] show ?thesis by simp
next
  case (give_up k i m e)
  from lock_inv_goes [OF assms(2) give_up(2), of "EUnlock (Some (EWrap (''memqueue: enqueue '' @ i @ '': '') e []))"]
    give_up lock_inv_parts(3) [OF assms(2)]
  show ?thesis by (simp add: locks)
next
  case (runlock k r)
  from lock_inv_goes [OF assms(2) runlock(2), of "EBack r"] runlock lock_inv_parts(3) [OF assms(2)]
  show ?thesis by (simp add: locks)
next
  case (announce k)
  from lock_inv_goes [OF assms(2) announce(2), of CWait] announce show ?thesis by (simp add: locks)
next
  case (wlock k)
  from lock_inv_goes [OF assms(2) wlock(2), of CCheck] wlock lock_inv_parts(3) [OF assms(2)]
  show ?thesis by (simp add: locks)
next
  case (closed_before k)
  from lock_inv_goes [OF assms(2) closed_before(2), of CUnlock] closed_before lock_inv_parts(3) [OF assms(2)]
  show ?thesis by (simp add: locks)
next
  case (set_closed k)
  with lock_inv_set_closed [OF assms(2)] show ?thesis by simp
next
  case (close_chan k)
  with lock_inv_close_chan [OF assms(2)] show ?thesis by simp
next
  case (wunlock k)
  from lock_inv_goes [OF assms(2) wunlock(2), of CBack] wunlock lock_inv_parts(3) [OF assms(2)]
  show ?thesis by (simp add: locks)
qed

lemma lock_inv_step:
  assumes "lock_step s t" "lock_inv buffer s"
  shows "lock_inv buffer t \<and> (lk_sys t = lk_sys s \<or> mq_step (lk_sys s) (lk_sys t))"
  using assms(1)
proof cases
  case move
  from lock_inv_move [OF move assms(2)] show ?thesis .
next
  case (call_enqueue i m)
  with assms(2) show ?thesis by (auto simp: lock_inv_def Let_def locks)
next
  case call_close
  with assms(2) show ?thesis by (auto simp: lock_inv_def Let_def locks)
next
  case (over k)
  with assms(2) show ?thesis by (simp add: lock_inv_def Let_def)
next
  case (consumers y)
  have "mq_reachable buffer y" using lock_inv_parts(2) [OF assms(2)] consumers(2) by (rule mq_reachable.step)
  with assms(2) consumers show ?thesis by (simp add: lock_inv_def Let_def)
qed

lemma lock_inv_init: "lock_inv buffer (lock_init buffer)"
  by (simp add: lock_inv_def lock_init_def Let_def mq_reachable.start)
    (simp add: mq_sys_init_def mq_new_def Let_def)

lemma lock_reachable_inv: "lock_reachable buffer s \<Longrightarrow> lock_inv buffer s"
  by (induction rule: lock_reachable.induct) (auto simp: lock_inv_init dest: lock_inv_step)

section \<open>Nobody waits for the mutex alone\<close>

fun statements_left :: "caller \<Rightarrow> nat" where
  "statements_left (ELock i m) = 4"
| "statements_left (ECheck i m) = 3"
| "statements_left (ESelect i m) = 2"
| "statements_left (EUnlock r) = 1"
| "statements_left (EBack r) = 0"
| "statements_left CLock = 5"
| "statements_left CWait = 4"
| "statements_left CCheck = 3"
| "statements_left CChan = 2"
| "statements_left CUnlock = 1"
| "statements_left CBack = 0"

definition lock_left :: "lock_sys \<Rightarrow> nat" where
  "lock_left s = sum_list (map statements_left (lk_callers s))"

lemma lock_left_goes:
  "at s k a \<Longrightarrow> lk_callers s' = lk_callers s \<Longrightarrow> statements_left b < statements_left a \<Longrightarrow>
   lock_left (goes k b s') < lock_left s"
proof -
  have "k < length cs \<Longrightarrow> sum_list (map statements_left (cs[k := b])) + statements_left (cs ! k)
      = sum_list (map statements_left cs) + statements_left b" for cs
    by (induction cs arbitrary: k) (auto split: nat.split)
  then show "at s k a \<Longrightarrow> lk_callers s' = lk_callers s \<Longrightarrow> statements_left b < statements_left a \<Longrightarrow>
      lock_left (goes k b s') < lock_left s"
    by (fastforce simp: lock_left_def at_def)
qed

lemma chan_callers [simp]:
  "lk_callers (chan_send i m s) = lk_callers s" "lk_callers (chan_close s) = lk_callers s"
  by (simp_all add: chan_send_def chan_close_def Let_def)

lemma lock_move_less: "lock_move s t \<Longrightarrow> lock_left t < lock_left s"
  by (induction rule: lock_move.induct) (erule lock_left_goes; simp)+

definition send_blocked :: "lock_sys \<Rightarrow> nat \<Rightarrow> bool" where
  "send_blocked s k \<longleftrightarrow>
     k < length (lk_callers s) \<and> selecting (lk_callers s ! k) \<and> \<not> send_ready s \<and> k \<notin> lk_over s"

lemma lock_stuck:
  assumes "\<nexists>t. lock_move s t" "k < length (lk_callers s)" "\<not> is_back (lk_callers s ! k)"
  shows "\<exists>l. send_blocked s l"
proof (rule ccontr)
  assume nb: "\<nexists>l. send_blocked s l"
  have mv: "\<not> lock_move s t" for t using assms(1) by blast
  have r: "\<not> reads_locked (lk_callers s ! l)" if l: "l < length (lk_callers s)" for l
  proof
    assume "reads_locked (lk_callers s ! l)"
    then consider i m where "at s l (ECheck i m)" | i m where "at s l (ESelect i m)" | x where "at s l (EUnlock x)"
      using l by (cases "lk_callers s ! l") (auto simp: at_def)
    then show False
    proof cases
      case 1
      then show ?thesis using mv lock_move.refused lock_move.accepted by blast
    next
      case (2 i m)
      with nb have "send_ready s \<or> l \<in> lk_over s" by (auto simp: send_blocked_def at_def)
      with 2 show ?thesis using mv lock_move.send lock_move.give_up by blast
    qed (use mv lock_move.runlock in blast)
  qed
  then have r0: "num reads_locked (lk_callers s) = 0" by (simp add: num_0)
  have "\<not> keeps_out (lk_callers s ! l)" if l: "l < length (lk_callers s)" for l
  proof
    assume "keeps_out (lk_callers s ! l)"
    then consider "at s l CWait" | "at s l CCheck" | "at s l CChan" | "at s l CUnlock"
      using l by (auto simp: at_def locks)
    then show False
      using mv r0 lock_move.wlock lock_move.closed_before lock_move.set_closed lock_move.close_chan lock_move.wunlock
      by cases blast+
  qed
  then have k0: "num keeps_out (lk_callers s) = 0" by (simp add: num_0)
  from assms(2,3) r [OF assms(2)] \<open>\<And>l. l < length (lk_callers s) \<Longrightarrow> \<not> keeps_out (lk_callers s ! l)\<close> [OF assms(2)]
  consider i m where "at s k (ELock i m)" | "at s k CLock"
    by (cases "lk_callers s ! k") (auto simp: at_def locks)
  then show False using mv k0 lock_move.rlock lock_move.announce by cases blast+
qed

section \<open>Properties\<close>

text \<open>
  C22: the mutex makes \<open>Enqueue\<close> and \<open>Close\<close> the steps they are taken for. However the statements of
  any number of callers interleave with the consumers, nothing ever sends on the closed channel or
  closes it again, the field \<open>closed\<close> says whether the channel is closed except while a \<open>Close\<close> is
  between the two, every statement is a step of theory \<open>Memqueue\<close> or leaves the channel alone, and as
  many callers of \<open>Enqueue\<close> have been told of success as deliveries were accepted. The callers have a
  bounded number of statements left, and when none of them can move, all are back, or one \<open>Enqueue\<close> call
  holds the read lock in its \<open>select\<close>, waiting for room on a full channel under a context that is not
  over: that is the only thing \<open>Close\<close>, and every \<open>Enqueue\<close> behind it, can be waiting for.
\<close>

theorem queue_lock_safe:
  assumes "lock_reachable buffer s"
  shows "\<not> lk_panicked s \<and> mq_reachable buffer (lk_sys s) \<and>
    (lk_closed s \<longleftrightarrow> mq_closed (sys_q (lk_sys s)) \<or> CChan \<in> set (lk_callers s)) \<and>
    (\<forall>t. lock_step s t \<longrightarrow> lk_sys t = lk_sys s \<or> mq_step (lk_sys s) (lk_sys t)) \<and>
    num sent (lk_callers s) = length (sys_accepted (lk_sys s)) \<and>
    (\<forall>t. lock_move s t \<longrightarrow> lock_left t < lock_left s) \<and>
    ((\<nexists>t. lock_move s t) \<longrightarrow> (\<forall>a \<in> set (lk_callers s). is_back a) \<or> (\<exists>k. send_blocked s k))"
proof -
  have inv: "lock_inv buffer s" using assms by (rule lock_reachable_inv)
  have "0 < num (\<lambda>a. a = CChan) (lk_callers s) \<longleftrightarrow> CChan \<in> set (lk_callers s)"
    by (auto simp: num_def filter_empty_conv)
  with lock_inv_parts(5) [OF inv]
  have "lk_closed s \<longleftrightarrow> mq_closed (sys_q (lk_sys s)) \<or> CChan \<in> set (lk_callers s)" by simp
  moreover have "\<forall>t. lock_step s t \<longrightarrow> lk_sys t = lk_sys s \<or> mq_step (lk_sys s) (lk_sys t)"
    using lock_inv_step [OF _ inv] by blast
  moreover have "\<forall>t. lock_move s t \<longrightarrow> lock_left t < lock_left s" using lock_move_less by blast
  moreover have "(\<nexists>t. lock_move s t) \<longrightarrow> (\<forall>a \<in> set (lk_callers s). is_back a) \<or> (\<exists>k. send_blocked s k)"
    unfolding all_set_conv_all_nth using lock_stuck [of s] by blast
  ultimately show ?thesis using lock_inv_parts(1,2,9) [OF inv] by (intro conjI)
qed

text \<open>An \<open>Enqueue\<close> fills the channel, another waits for room, and a \<open>Close\<close> waits behind it.\<close>

definition lock_example :: lock_sys where
  "lock_example =
     \<lparr>lk_sys = (mq_sys_init 1)\<lparr>sys_q := (mq_new 1)\<lparr>mq_buf := [\<lparr>JobID = ''a'', Meta = None\<rparr>]\<rparr>,
                               sys_accepted := [\<lparr>JobID = ''a'', Meta = None\<rparr>]\<rparr>,
      lk_closed = False, lk_callers = [EBack None, ESelect ''b'' None, CWait], lk_over = {}, lk_panicked = False\<rparr>"

lemma lock_example_reachable: "lock_reachable 1 lock_example"
proof -
  let ?s = "\<lambda>cs. (lock_init 1)\<lparr>lk_callers := cs\<rparr>"
  let ?t = "\<lambda>cs. lock_example\<lparr>lk_callers := cs\<rparr>"
  note step = lock_reachable.step
  note mv = lock_step.move
  note ini = lock_init_def goes_def at_def locks
  have "lock_reachable 1 (?s [ELock ''a'' None])"
    using step [OF lock_reachable.start lock_step.call_enqueue [of "lock_init 1" "''a''" None]] by (simp add: ini)
  from step [OF this mv [OF lock_move.rlock [of _ 0 "''a''" None]]]
  have "lock_reachable 1 (?s [ECheck ''a'' None])" by (simp add: ini)
  from step [OF this mv [OF lock_move.accepted [of _ 0 "''a''" None]]]
  have "lock_reachable 1 (?s [ESelect ''a'' None])" by (simp add: ini)
  from step [OF this mv [OF lock_move.send [of _ 0 "''a''" None]]]
  have "lock_reachable 1 (?t [EUnlock None])"
    by (simp add: ini send_ready_def chan_send_def lock_example_def mq_sys_init_def mq_new_def Let_def)
  from step [OF this mv [OF lock_move.runlock [of _ 0 None]]]
  have "lock_reachable 1 (?t [EBack None])" by (simp add: ini)
  from step [OF this lock_step.call_enqueue [of _ "''b''" None]]
  have "lock_reachable 1 (?t [EBack None, ELock ''b'' None])" by simp
  from step [OF this mv [OF lock_move.rlock [of _ 1 "''b''" None]]]
  have "lock_reachable 1 (?t [EBack None, ECheck ''b'' None])" by (simp add: ini)
  from step [OF this mv [OF lock_move.accepted [of _ 1 "''b''" None]]]
  have "lock_reachable 1 (?t [EBack None, ESelect ''b'' None])" by (simp add: ini lock_example_def)
  from step [OF this lock_step.call_close]
  have "lock_reachable 1 (?t [EBack None, ESelect ''b'' None, CLock])" by simp
  from step [OF this mv [OF lock_move.announce [of _ 2]]]
  have "lock_reachable 1 (?t [EBack None, ESelect ''b'' None, CWait])" by (simp add: ini)
  then show ?thesis by (simp add: lock_example_def)
qed

theorem queue_lock_safe_witness:
  "lock_reachable 1 lock_example \<and> mq_reachable 1 (lk_sys lock_example) \<and> num sent (lk_callers lock_example) = 1 \<and>
   (\<nexists>t. lock_move lock_example t) \<and> (\<exists>k. send_blocked lock_example k)"
proof -
  have st: "\<not> lock_move lock_example t" for t
    by (rule notI, erule lock_moveE)
      (auto simp: lock_example_def at_def locks nth_Cons send_ready_def mq_new_def Let_def split: nat.splits)
  have "\<not> is_back (ESelect ''b'' None)" "ESelect ''b'' None \<in> set (lk_callers lock_example)"
    by (simp_all add: lock_example_def)
  moreover have "length (sys_accepted (lk_sys lock_example)) = 1" by (simp add: lock_example_def)
  ultimately show ?thesis
    using queue_lock_safe [OF lock_example_reachable] st lock_example_reachable by metis
qed

end
