(* ===== verification/Snapshots.thy ===== *)
theory Snapshots
  imports Worker
begin

text \<open>
  \<open>Stats\<close> of \<open>worker/pool.go\<close> while jobs are running. It loads the three counters one after the
  other, and the workers go on in between; what it returns is bounded by what had ended before the
  first load and what has ended after the last.
\<close>

text \<open>The pool as each of the three loads finds it.\<close>

definition pool_stats :: "pool_sys \<Rightarrow> pool_sys \<Rightarrow> pool_sys \<Rightarrow> stats" where
  "pool_stats s1 s2 s3 =
     \<lparr>Processed = Processed (ps_stats s1), Failed = Failed (ps_stats s2), Skipped = Skipped (ps_stats s3)\<rparr>"

lemma pool_steps_ended: "pool_step\<^sup>*\<^sup>* s t \<Longrightarrow> \<exists>es. ps_ended t = ps_ended s @ es"
proof (induction rule: rtranclp_induct)
  case (step t u)
  from step.hyps(2) have "\<exists>es. ps_ended u = ps_ended t @ es" by (cases rule: pool_step.cases) auto
  with step.IH show ?case by auto
qed simp

lemma observed_count_le: "observed_count x es \<le> length es" "observed_count x es \<le> observed_count x (es @ fs)"
  by (simp_all add: observed_count_def)

lemma pool_stats_at:
  assumes "pool_reachable p s" "length (ps_ended s) < uint64_size"
  shows "Processed (ps_stats s) = observed_count StatusProcessed (ps_ended s)"
    "Failed (ps_stats s) = observed_count OutcomeFailed (ps_ended s)"
    "Skipped (ps_stats s) = observed_count StatusSkipped (ps_ended s)"
proof -
  have "ps_stats s = stats_of (ps_ended s)" using pool_reachable_inv [OF assms(1)] by (simp add: pool_inv_def)
  moreover have "observed_count x (ps_ended s) < uint64_size" for x
    using observed_count_le(1) assms(2) by (rule le_less_trans)
  ultimately show "Processed (ps_stats s) = observed_count StatusProcessed (ps_ended s)"
    "Failed (ps_stats s) = observed_count OutcomeFailed (ps_ended s)"
    "Skipped (ps_stats s) = observed_count StatusSkipped (ps_ended s)"
    by (simp_all add: stats_of_def)
qed

lemma pool_reachable_steps: "pool_step\<^sup>*\<^sup>* s t \<Longrightarrow> pool_reachable p s \<Longrightarrow> pool_reachable p t"
  by (induction rule: rtranclp_induct) (auto intro: pool_reachable.step)

text \<open>
  A snapshot taken across running jobs: each counter lies between its values before and after, so
  nothing is reported that did not happen and nothing that had happened is missed.
\<close>

lemma stats_bounded:
  assumes "pool_reachable p s1" "pool_step\<^sup>*\<^sup>* s1 s2" "pool_step\<^sup>*\<^sup>* s2 s3"
    and "length (ps_ended s3) < uint64_size"
  shows "Processed (ps_stats s1) \<le> Processed (pool_stats s1 s2 s3) \<and>
    Processed (pool_stats s1 s2 s3) \<le> Processed (ps_stats s3) \<and>
    Failed (ps_stats s1) \<le> Failed (pool_stats s1 s2 s3) \<and>
    Failed (pool_stats s1 s2 s3) \<le> Failed (ps_stats s3) \<and>
    Skipped (ps_stats s1) \<le> Skipped (pool_stats s1 s2 s3) \<and>
    Skipped (pool_stats s1 s2 s3) \<le> Skipped (ps_stats s3)"
proof -
  obtain e1 where e1: "ps_ended s2 = ps_ended s1 @ e1" using pool_steps_ended [OF assms(2)] by blast
  obtain e2 where e2: "ps_ended s3 = ps_ended s2 @ e2" using pool_steps_ended [OF assms(3)] by blast
  have r: "pool_reachable p s2" "pool_reachable p s3"
    using pool_reachable_steps assms(1-3) by blast+
  have l: "length (ps_ended s1) < uint64_size" "length (ps_ended s2) < uint64_size" using assms(4) e1 e2 by simp_all
  show ?thesis
    unfolding pool_stats_def stats.simps pool_stats_at [OF assms(1) l(1)] pool_stats_at [OF r(1) l(2)]
      pool_stats_at [OF r(2) assms(4)] e1 e2
    by (simp add: observed_count_def)
qed

text \<open>
  It need not be the counters of any one moment, as the comment on \<open>Stats\<close> warns: here a job is
  processed and then another fails, both after the load of \<open>processed\<close> and before that of \<open>failed\<close>,
  and what is returned shows the failure without the success before it.
\<close>

lemma stats_torn:
  "\<exists>s m t. pool_reachable sample_pool s \<and> pool_step s m \<and> pool_step m t \<and>
     pool_stats s t t \<notin> {ps_stats s, ps_stats m, ps_stats t}"
proof -
  let ?d = "\<lparr>JobID = ''a'', Meta = None\<rparr>" and ?e = "\<lparr>JobID = ''b'', Meta = None\<rparr>"
  let ?a = "pool_start sample_pool"
  let ?b = "?a\<lparr>ps_workers := [Busy ?d, Idle], ps_taken := [?d]\<rparr>"
  let ?s = "?b\<lparr>ps_workers := [Busy ?d, Busy ?e], ps_taken := [?d, ?e]\<rparr>"
  let ?m = "?s\<lparr>ps_workers := [Idle, Busy ?e], ps_stats := \<lparr>Processed = 1, Failed = 0, Skipped = 0\<rparr>,
    ps_ended := [(?d, StatusProcessed, True)]\<rparr>"
  let ?t = "?m\<lparr>ps_workers := [Idle, Idle], ps_stats := \<lparr>Processed = 1, Failed = 1, Skipped = 0\<rparr>,
    ps_ended := [(?d, StatusProcessed, True), (?e, OutcomeFailed, False)]\<rparr>"
  have w: "ps_workers ?a = [Idle, Idle]" by (simp add: pool_start_def sample_pool_def new_pool_def numeral_2_eq_2)
  have size: "0 < p_size sample_pool" by (simp add: sample_pool_def new_pool_def)
  have one: "add_one 0 = 1" by (simp add: add_one_def uint64_size_def)
  have "pool_step ?a ?b" using pool_step.take [of 0 ?a ?d] w size by (simp add: pool_start_def)
  moreover have "pool_step ?b ?s" using pool_step.take [of 1 ?b ?e] by (simp add: pool_start_def)
  ultimately have r: "pool_reachable sample_pool ?s"
    using pool_reachable.start [of sample_pool] by (meson pool_reachable.step)
  have "pool_step ?s ?m"
    using pool_step.finish [of 0 ?s ?d None] by (simp add: record_outcome_def one pool_start_def)
  moreover have "pool_step ?m ?t"
    using pool_step.finish [of 1 ?m ?e "Some (EText [])" _ _ False]
    by (simp add: record_outcome_def one pool_start_def ErrJobNotPending_def go_errors)
  moreover have "pool_stats ?s ?t ?t \<notin> {ps_stats ?s, ps_stats ?m, ps_stats ?t}"
    by (simp add: pool_stats_def pool_start_def)
  ultimately show ?thesis using r by blast
qed

end
