(* ===== verification/Vips_Process.thy ===== *)
theory Vips_Process
  imports Vips
begin

text \<open>
  libvips is one to a process: the package variables of \<open>imageproc/vips.go\<close>, which \<open>New\<close> and
  \<open>Shutdown\<close> share, each guarded by a \<open>sync.Once\<close>. The count of the calls made to libvips is kept to
  state that they are made once.
\<close>

record vips_process =
  startupOnce :: bool
  startupErr :: "goerr option"
  shutdownOnce :: bool
  vips_startups :: nat
  vips_shutdowns :: nat

definition vips_process_init :: vips_process where
  "vips_process_init =
     \<lparr>startupOnce = False, startupErr = None, shutdownOnce = False, vips_startups = 0, vips_shutdowns = 0\<rparr>"

text \<open>\<open>outcome\<close> is what \<open>vips.Startup\<close> reports if it is called.\<close>

definition vips_new_in :: "goerr option \<Rightarrow> img_option list \<Rightarrow> vips_process \<Rightarrow> config res \<times> vips_process" where
  "vips_new_in outcome opts p =
     (let p = (if startupOnce p then p
               else p\<lparr>startupOnce := True, startupErr := outcome, vips_startups := Suc (vips_startups p)\<rparr>)
      in (vips_new (startupErr p) opts, p))"

definition vips_shutdown_in :: "vips_process \<Rightarrow> vips_process" where
  "vips_shutdown_in p =
     (if shutdownOnce p then p else p\<lparr>shutdownOnce := True, vips_shutdowns := Suc (vips_shutdowns p)\<rparr>)"

datatype vips_call = CallNew "goerr option" "img_option list" | CallShutdown

fun vips_run :: "vips_call list \<Rightarrow> vips_process \<Rightarrow> config res list \<times> vips_process" where
  "vips_run [] p = ([], p)"
| "vips_run (CallNew outcome opts # cs) p =
     (case vips_new_in outcome opts p of (r, p) \<Rightarrow> (case vips_run cs p of (rs, p) \<Rightarrow> (r # rs, p)))"
| "vips_run (CallShutdown # cs) p = vips_run cs (vips_shutdown_in p)"

text \<open>The configurations asked for, in order.\<close>

fun asked :: "vips_call list \<Rightarrow> img_option list list" where
  "asked [] = []"
| "asked (CallNew outcome opts # cs) = opts # asked cs"
| "asked (CallShutdown # cs) = asked cs"

fun first_outcome :: "vips_call list \<Rightarrow> goerr option" where
  "first_outcome [] = None"
| "first_outcome (CallNew outcome opts # cs) = outcome"
| "first_outcome (CallShutdown # cs) = first_outcome cs"

lemma vips_shutdown_in_simps [simp]:
  "startupOnce (vips_shutdown_in p) = startupOnce p" "startupErr (vips_shutdown_in p) = startupErr p"
  "vips_startups (vips_shutdown_in p) = vips_startups p"
  by (simp_all add: vips_shutdown_in_def)

lemma vips_run_started:
  "startupOnce p \<Longrightarrow> vips_run cs p = (rs, p') \<Longrightarrow>
   rs = map (vips_new (startupErr p)) (asked cs) \<and> vips_startups p' = vips_startups p \<and>
   startupErr p' = startupErr p"
  by (induction cs p arbitrary: rs rule: vips_run.induct)
    (auto simp: vips_new_in_def Let_def split: prod.splits)

lemma vips_run_shutdowns:
  "vips_run cs p = (rs, p') \<Longrightarrow> vips_shutdowns p' \<le> vips_shutdowns p + of_bool (\<not> shutdownOnce p)"
  by (induction cs p arbitrary: rs rule: vips_run.induct)
    (auto simp: vips_new_in_def vips_shutdown_in_def Let_def split: prod.splits if_splits)

lemma vips_run_fresh:
  "\<not> startupOnce p \<Longrightarrow> vips_run cs p = (rs, p') \<Longrightarrow>
   rs = map (vips_new (first_outcome cs)) (asked cs) \<and> vips_startups p' \<le> Suc (vips_startups p)"
proof (induction cs arbitrary: p rs)
  case (Cons x cs)
  show ?case
  proof (cases x)
    case (CallNew outcome opts)
    let ?q = "p\<lparr>startupOnce := True, startupErr := outcome, vips_startups := Suc (vips_startups p)\<rparr>"
    obtain ss q' where q: "vips_run cs ?q = (ss, q')" by fastforce
    have "startupOnce ?q" by simp
    from vips_run_started [OF this q] Cons.prems q show ?thesis
      by (auto simp: CallNew vips_new_in_def Let_def)
  next
    case CallShutdown
    with Cons.IH [of "vips_shutdown_in p" rs] Cons.prems show ?thesis by (simp add: CallShutdown)
  qed
qed simp

text \<open>
  Whatever processors a process creates and however often it shuts libvips down, libvips is started
  at most once and stopped at most once, and each \<open>New\<close> answers by the outcome of the first.
\<close>

lemma vips_once:
  assumes "vips_run cs vips_process_init = (rs, p)"
  shows "vips_startups p \<le> 1 \<and> vips_shutdowns p \<le> 1 \<and> rs = map (vips_new (first_outcome cs)) (asked cs)"
  using vips_run_fresh [OF _ assms] vips_run_shutdowns [OF assms] by (simp add: vips_process_init_def)

end
