(* ===== verification/Spec2Isabelle.thy ===== *)
theory Spec2Isabelle
  imports Scenarios Redelivery Uploads Relay Vips Middleware Config Healthcheck Pool_Metrics Telemetry
    Mem_Progress Aws_System Lifecycle Polling Queue_Lock Snapshots Vips_Process
begin

text \<open>
  ImageForge accepts an image and a transformation over HTTP (\<open>cmd/api\<close>), stores the source,
  records a job and queues its identifier; a pool of workers (\<open>cmd/worker\<close>) takes identifiers off
  the queue, transforms the image and stores the result, and clients poll the job. Everything
  sits behind the interfaces of \<open>internal/ports\<close>, with two sets of adapters: in process (files, a
  map, a channel) and on AWS (S3, DynamoDB, SQS). All paths below are under \<open>src/internal/\<close>
  unless they begin with \<open>cmd/\<close>.

  \<^bold>\<open>Which theory models what.\<close>
  \<^item> \<open>Go_Base\<close>, \<open>Strconv\<close>, \<open>Filepath\<close>, \<open>Json\<close>, \<open>Json_Facts\<close>, \<open>Environ\<close>, \<open>Backoff\<close> (first part): what the code uses of
    the language and its standard library. Strings are lists of bytes, machine integers are \<open>int\<close>
    with the wrap-around \<open>i64\<close> written out, errors are trees (\<open>goerr\<close>) with \<open>errors.Is\<close> and their
    text, \<open>float64\<close> is rounding to 53 bits.
  \<^item> \<open>Domain\<close>: \<open>domain/job.go\<close>, \<open>domain/transformation.go\<close>, and the abstract lifecycle \<open>lc_step\<close>.
  \<^item> \<open>Ports\<close>: \<open>ports/ports.go\<close>. An interface is a record of operations on a world \<open>'w\<close>; its contract
    is a locale (\<open>blob_store\<close>, \<open>job_store\<close>, \<open>work_queue\<close>, \<open>backend\<close>, and strict variants for adapters whose
    failed calls have no effect).
  \<^item> \<open>Usecase\<close>: \<open>usecase/*.go\<close>. \<open>Usecase_Contracts\<close> proves, inside the locales, what \<open>CreateJob\<close> and
    \<open>ProcessJob\<close> guarantee over any adapters that keep the contracts.
  \<^item> \<open>Memrepo\<close>, \<open>Memqueue\<close>, \<open>Localstorage\<close>: \<open>adapters/memrepo\<close>, \<open>memqueue\<close>, \<open>localstorage\<close>. \<open>Memory_Backend\<close>
    puts them behind the ports and interprets the locales; \<open>Scenarios\<close> has facts about whole runs
    on that wiring, for contexts that may end at any time, and a concrete environment for the examples.
  \<^item> \<open>S3storage\<close>, \<open>Dynamorepo\<close>, \<open>Sqsqueue\<close>, \<open>Backoff\<close>: \<open>adapters/s3storage\<close>, \<open>dynamorepo\<close>, \<open>sqsqueue\<close>. \<open>Aws_Backend\<close> puts
    them behind the ports; the locales hold of them under \<open>aws_ok\<close>. \<open>Redelivery\<close>: the worker's pool on AWS with
    the queue as its acknowledger, and what becomes of a failed delivery.
  \<^item> \<open>Geometry\<close>, \<open>Pipeline\<close>, \<open>Vips\<close>: \<open>adapters/imageproc\<close>; the pipeline is written over a record of
    operations, with locale \<open>image_backend\<close> and both backends as its interpretations. \<open>Vips_Process\<close>: the
    start and end of libvips, once to a process.
  \<^item> \<open>Relay\<close>: \<open>Consume\<close> of both queues and the pool's fallback. \<open>Worker\<close>: \<open>worker/pool.go\<close>; \<open>Snapshots\<close>: its \<open>Stats\<close>. \<open>Metrics\<close>:
    \<open>metrics/metrics.go\<close>. \<open>Pool_Metrics\<close>: the pool again, each statement of \<open>handle\<close> a step, with the metrics as
    its observer. \<open>Telemetry\<close>: \<open>telemetry/*.go\<close>, its sampling ratio by \<open>Floats\<close>: \<open>float64\<close> and its texts. \<open>Healthcheck\<close>: \<open>healthcheck/healthcheck.go\<close>.
  \<^item> \<open>Http_Base\<close>, \<open>Auth\<close>, \<open>Ratelimit\<close>, \<open>Media\<close>, \<open>Handlers\<close>, \<open>Middleware\<close>: \<open>adapters/httpapi\<close>, from requests and problems up to
    the assembled server \<open>serve\<close>, whose handlers may panic. \<open>Uploads\<close>: the upload handler on the in-process wiring.
  \<^item> \<open>Config\<close>: \<open>adapters/awscfg\<close>, \<open>adapters/backend.go\<close>, and the settings, issuer, pool and seeding of
    \<open>cmd/api/main.go\<close> and \<open>cmd/worker/main.go\<close>. \<open>Lifecycle\<close>: their \<open>run\<close> and \<open>main\<close>, as traces of what is
    opened, served and closed, with Go's deferred calls and its panic when a channel is made too large.
  \<^item> \<open>Steps\<close>: both use cases again, one port call at a time, proved equal to those of \<open>Usecase\<close> when they
    run alone. \<open>Interleaving\<close>: an invariant of any number of them at once, over any adapters (locale
    \<open>timed_env\<close>), and the step relation. \<open>Aws_System\<close>: that on AWS, where deliveries repeat.
    \<open>Mem_System\<close>: the in-process program as a step relation, and what its reachable states promise. A send
    on a full buffer waits there, and a delivery passes through the hand of the consumer's goroutine.
    It has any number of uploads and workers in one process: the API's has no workers, and the worker's
    creates jobs only to seed, so the states of either are among its own, and what holds of all of
    them holds of theirs.
    \<open>Mem_Progress\<close>: who answers for each unsettled job, and that the program comes to rest.
    \<open>Mem_Exclusive\<close>: that nobody else changes a job meanwhile, and that settled jobs stay as they are.
    \<open>Polling\<close>: what the clients that poll for their jobs are told.
  \<^item> \<open>Queue_Lock\<close>: \<open>Enqueue\<close> and \<open>Close\<close> of \<open>adapters/memqueue\<close> statement by statement under the mutex, refining
    the steps of \<open>Memqueue\<close>.
  This theory holds the properties that span components.

  \<^bold>\<open>State and operations.\<close> A method is a function from the state before it to its result and the
  state after; a struct is a record whose fields are the code's. Goroutines that share state are
  step relations (\<open>mq_step\<close>, \<open>sqs_step\<close>, \<open>pool_step\<close>, \<open>observed_step\<close>, \<open>relay_step\<close>, \<open>limiter_step\<close>,
  \<open>mem_system_step\<close>, \<open>system_step\<close>, \<open>lock_step\<close>): one step per critical
  section, channel operation or call, in any order. A context is what \<open>ctx.Err()\<close> answers at each
  logical time. A run-time panic is \<open>None\<close>; a Go pair of a value and an error is a pair, or a sum
  where exactly one of the two is used. In the functions of \<open>Usecase\<close> a use case runs to its end; in
  \<open>Mem_System\<close> and \<open>Aws_System\<close> its calls come between those of all the others.

  \<^bold>\<open>What the lemmas show.\<close> The use cases: what a success guarantees, what each failure leaves
  behind, that jobs only move along the lifecycle, that everything opened is closed (this theory);
  whatever uploads and workers do at once, stored jobs are complete, never lost and their originals
  never rewritten, none is forgotten unless its own context ends, and once no more are created a pool
  settles the others after a bounded number of moves; in process each has one owner at a time, moves only forward and is left
  alone once settled, and polls show just that (\<open>Steps\<close>, \<open>Mem_System\<close>, \<open>Mem_Progress\<close>,
  \<open>Mem_Exclusive\<close>, \<open>Polling\<close>, \<open>Aws_System\<close>);
  the components: sizes, path confinement, atomic writes, conservation of queued jobs, a mutex that is enough, accounting
  and termination of the pool, retry delays, tokens, rate limits kept apart, content sniffing,
  round trips of specifications and metadata, one answer per request even when a handler panics, no
  access without a token, what any settings give, commands that close what they opened, metrics that
  follow the counters (the other theories). Some
  theorems state defects: a job whose context ends in the middle is stranded, a claim is not
  exclusive (in process the queue makes up for that), a failure is final, a queue buffer that is too
  large panics, a worker whose seeding fails leaves its metrics server up.

  \<^bold>\<open>Parameters and what is relied on.\<close> Code that is not in the repository is an argument: the image
  codecs and scaler (\<open>pixel_lib\<close>, \<open>vips_lib\<close>), the AWS clients (\<open>s3_api\<close>, \<open>dynamo_api\<close>, \<open>sqs_api\<close>, \<open>aws_sdk\<close>), the
  JWT library (\<open>jwt_lib\<close>), the token bucket (\<open>rate_lib\<close>), the router and the CORS layer, multipart
  parsing, \<open>url.Parse\<close> and the OpenTelemetry SDK. What a theorem relies on of them is a named
  hypothesis (\<open>pixel_lib_ok\<close>, \<open>vips_lib_ok\<close>, \<open>aws_ok\<close>, \<open>jwt_ok\<close>, \<open>router_ok\<close>, \<open>cors_ok\<close>, \<open>codec_ok\<close>, \<open>acks_ok\<close>) that states documented
  behaviour, with a concrete instance in its witness. The operating system and the clock are
  oracles (\<open>os_faults\<close>, \<open>mem_env\<close>).

  \<^bold>\<open>Bounds and fuel.\<close> The JSON scanner has fuel \<open>2 * length + 1\<close>, which \<open>Json_Facts\<close> proves enough for every
  input. Floating point is exact where it is modelled: retry delays for bounds up to \<open>2^53\<close>
  nanoseconds, token lifetimes below \<open>2^23\<close> seconds, scale factors of sides up to \<open>10^7\<close>.

  A use case makes at most seven calls (theory \<open>Steps\<close>), so each identifier on the queue is nine
  moves of work, being taken and handed over included (\<open>work_left\<close>).

  \<^bold>\<open>Not modelled, and why.\<close> The mocks (test doubles); log texts beyond those whose content is a
  property, spans of tracing, and measured durations (they do not affect results); the
  delivery of signals, the listeners' loops, the start of spans and the Prometheus text format
  (library calls); memory that runs out. 
\<close>

section \<open>Creating a job\<close>

text \<open>
  C7: when \<open>CreateJob\<close> succeeds on the in-process wiring, the request was valid, the job it
  returns is the pending job now stored under its fresh identifier, the file of its original
  holds exactly the bytes of the source, which ended without an error, its identifier was
  added to the queue, and nothing else changed: no other job, object or queue entry.
\<close>

theorem create_job_success:
  assumes "create_job_execute (mem_create env) c src sp w = (Inr j, w')"
    and "root_ok (env_root env)" "env_rand env (w_tick w) \<noteq> []"
  shows "spec_ok sp \<and> j = created_job (hex_encode (env_rand env (w_tick w))) sp (CreatedAt j) \<and>
    (\<exists>b. src = Some (Reader b None) \<and>
         mem_objs w' = (mem_objs w)(root_of (env_root env @ [''originals'', ID j]) \<mapsto> b)) \<and>
    w_jobs w' = (w_jobs w)(ID j \<mapsto> j) \<and> mem_waiting w' = add_mset (ID j) (mem_waiting w)"
proof -
  have i: "fst (mem_new_id env w) = hex_encode (env_rand env (w_tick w))"
    by (simp add: mem_new_id_def new_id_def)
  from mem.create_ok [OF assms(1) [unfolded mem_create_def]]
  have f: "spec_ok sp" "j = created_job (fst (mem_new_id env w)) sp (CreatedAt j)"
    "\<exists>b. src = Some (Reader b None) \<and> mem_objs w' = store_at (mem_loc env (OriginalKey j)) b (mem_objs w)"
    "w_jobs w' = (w_jobs w)(ID j \<mapsto> j)" "mem_waiting w' = add_mset (ID j) (mem_waiting w)" by auto
  from f(2) i have j: "j = created_job (hex_encode (env_rand env (w_tick w))) sp (CreatedAt j)" by simp
  then have "ID j = hex_encode (env_rand env (w_tick w))" "OriginalKey j = original_key (ID j)"
    by (metis created_job_simps(1), metis created_job_simps(1,2))
  then have "mem_loc env (OriginalKey j) = Some (root_of (env_root env @ [''originals'', ID j]))"
    using mem_loc_original [OF assms(2) id_ok_new [OF assms(3)]] by simp
  with f j show ?thesis by auto
qed

theorem create_job_success_witness:
  "\<exists>j w'. create_job_execute (mem_create ex_env) Background (Some (Reader ''pixels'' None)) ex_spec ex_world
      = (Inr j, w') \<and> w_jobs w' (ID j) = Some j \<and> mem_waiting w' = {#ID j#}"
proof -
  let ?run = "create_job_execute (mem_create ex_env) Background (Some (Reader ''pixels'' None)) ex_spec ex_world"
  obtain j where j: "fst ?run = Inr j" using ex_create_runs by (rule res_okE)
  obtain w' where r: "?run = (Inr j, w')" using j by (metis prod.collapse)
  have "env_rand ex_env (w_tick ex_world) \<noteq> []" by (simp add: ex_env_def)
  from create_job_success [OF r ex_root_ok this]
  have "w_jobs w' (ID j) = Some j" "mem_waiting w' = add_mset (ID j) (mem_waiting ex_world)" by simp_all
  moreover have "mem_waiting ex_world = {#}"
    by (simp add: mem_waiting_def ex_world_def mq_new_def Let_def)
  ultimately show ?thesis using r by auto
qed

text \<open>
  C8: what a \<open>CreateJob\<close> that failed leaves on the in-process wiring: nothing on the queue, no
  object touched but the original's own, and of the jobs either none changed, or the new job
  is there marked failed with the very error returned, or, only when marking it failed too, it
  is there still pending and the error says so.
\<close>

theorem create_job_failure:
  assumes "create_job_execute (mem_create env) c src sp w = (Inl e, w')"
  defines "i \<equiv> hex_encode (env_rand env (w_tick w))"
  shows "mem_waiting w' = mem_waiting w \<and>
    (\<forall>p. mem_loc env (original_key i) = Some p \<or> mem_objs w' p = mem_objs w p) \<and>
    (w_jobs w' = w_jobs w \<or>
     (\<exists>t t'. w_jobs w' = (w_jobs w)(i \<mapsto> updated_job StatusFailed [] (Some e) t' (created_job i sp t))) \<or>
     (\<exists>t x m. w_jobs w' = (w_jobs w)(i \<mapsto> created_job i sp t) \<and> e = EJoin [x, EWrap ''mark failed: '' m []]))"
proof -
  have i: "fst (mem_new_id env w) = i" by (simp add: mem_new_id_def new_id_def i_def)
  from mem.create_failed [OF assms(1) [unfolded mem_create_def]] show ?thesis unfolding i by blast
qed

theorem create_job_failure_witness:
  "create_job_execute (mem_create ex_env) Background None ex_spec ex_world = (Inl ErrNoSource, ex_world) \<and>
   mem_waiting (snd (create_job_execute (mem_create ex_env) Background None ex_spec ex_world)) = mem_waiting ex_world"
proof -
  have r: "create_job_execute (mem_create ex_env) Background None ex_spec ex_world = (Inl ErrNoSource, ex_world)"
    by (rule create_rejects)
  from create_job_failure [OF r] r show ?thesis by simp
qed

section \<open>Processing a job\<close>

text \<open>
  C9: when \<open>ProcessJob\<close> returns without an error on the in-process wiring, the job was pending
  with a valid specification, its original was read and decoded, and now its result file
  holds the encoding, as JPEG or PNG, of an image of the size the specification asks for; the
  job is stored as done with that result key and no error; nothing else changed.
\<close>

theorem process_job_success:
  assumes "process_job_execute (mem_process env) c i w = ((Some j, None), w')"
    and "memrepo_inv (w_jobs w)" "root_ok (env_root env)" "id_ok i" "pixel_lib_ok (env_lib env)"
  shows "\<exists>j0 src img p out t.
    w_jobs w i = Some j0 \<and> Status j0 = StatusPending \<and> spec_ok (Transformation j0) \<and>
    (\<forall>q. mem_loc env (OriginalKey j0) = Some q \<longrightarrow> reads_from src (mem_objs w q)) \<and>
    px_decode (env_lib env) src = Inr img \<and>
    target_size (px_dx (env_lib env) img) (px_dy (env_lib env) img) (Width (Transformation j0))
      (Height (Transformation j0)) (Width (Transformation j0) = 0 \<or> Height (Transformation j0) = 0)
      = Some (Inr (px_dx (env_lib env) p, px_dy (env_lib env) p)) \<and>
    pure_convert (env_lib env) (Format (Transformation j0)) (Quality (Transformation j0)) p = Inr out \<and>
    mem_objs w' = (mem_objs w)
      (root_of (env_root env @ [''results'', i @ ''.'' @ format_ext (Format (Transformation j0))]) \<mapsto> out) \<and>
    j = j0\<lparr>Status := StatusDone, ResultKey := result_key i (Transformation j0), Error := []\<rparr> \<and>
    w_jobs w' = (w_jobs w)(i \<mapsto> j\<lparr>UpdatedAt := t\<rparr>) \<and> mem_waiting w' = mem_waiting w"
proof -
  have id: "\<And>j. w_jobs w i = Some j \<Longrightarrow> ID j = i" using assms(2) by (rule memrepo_inv_ID)
  from mem.process_ok [OF assms(1) [unfolded mem_process_def] id]
  obtain j0 s src w1 out w2 where f:
    "w_jobs w i = Some j0" "Status j0 = StatusPending"
    "\<forall>p. mem_loc env (OriginalKey j0) = Some p \<longrightarrow> reads_from src (mem_objs w p)"
    "Process (mem_processor env) c (Some src) (Transformation j0) w1 = (Inr (Reader out None), w2)"
    "mem_objs w' = store_at (mem_loc env (result_key i (Transformation j0))) out (mem_objs w)"
    "w_jobs w' = (w_jobs w)(i \<mapsto> s)" "mem_waiting w' = mem_waiting w"
    "j = j0\<lparr>Status := StatusDone, ResultKey := result_key i (Transformation j0), Error := []\<rparr>"
    "s = j\<lparr>UpdatedAt := UpdatedAt s\<rparr>" by metis
  from f(4) obtain n where
    "imageproc_process (pure_ops (env_lib env)) (env_cfg env) (CtxErr c (w_tick w1))
       (CtxErr c (Suc (w_tick w1))) (Some src) (Transformation j0) (w_images w1)
     = (Some (Inr (Reader out None)), n)"
    by (auto simp: mem_processor_def split: prod.splits option.splits)
  from pure_process_ok [OF assms(5) this] obtain img p where g:
    "spec_ok (Transformation j0)" "px_decode (env_lib env) src = Inr img"
    "target_size (px_dx (env_lib env) img) (px_dy (env_lib env) img) (Width (Transformation j0))
      (Height (Transformation j0)) (Width (Transformation j0) = 0 \<or> Height (Transformation j0) = 0)
      = Some (Inr (px_dx (env_lib env) p, px_dy (env_lib env) p))"
    "pure_convert (env_lib env) (Format (Transformation j0)) (Quality (Transformation j0)) p = Inr out"
    by (metis option.inject reader.sel(1))
  then have "format_valid (Format (Transformation j0))" by (simp add: spec_ok_def)
  note loc = mem_loc_result [OF assms(3,4) this]
  have o: "mem_objs w' = (mem_objs w)
      (root_of (env_root env @ [''results'', i @ ''.'' @ format_ext (Format (Transformation j0))]) \<mapsto> out)"
    using f(5) unfolding loc by simp
  have s: "w_jobs w' = (w_jobs w)(i \<mapsto> j\<lparr>UpdatedAt := UpdatedAt s\<rparr>)" using f(6,9) by simp
  from f(1,2,3,7,8) g o s show ?thesis by blast
qed

theorem process_job_success_witness:
  "\<exists>j w'. process_job_execute (mem_process ex_env) Background ''a10f'' ex_queued = ((Some j, None), w') \<and>
     (\<exists>out. mem_objs w' = (mem_objs ex_queued)(''/data/results/a10f.png'' \<mapsto> out))"
proof -
  let ?run = "process_job_execute (mem_process ex_env) Background ''a10f'' ex_queued"
  obtain j where j: "fst ?run = (Some j, None)"
    using ex_process_runs by (auto split: prod.splits option.splits)
  then obtain w' where r: "?run = ((Some j, None), w')" by (metis prod.collapse)
  have lib: "pixel_lib_ok (env_lib ex_env)" using ex_lib_ok by (simp add: ex_env_def)
  have path: "root_of (env_root ex_env @ [''results'', ''a10f'' @ ''.'' @ format_ext (Format (Transformation ex_job))])
      = ''/data/results/a10f.png''" by code_simp
  from process_job_success [OF r ex_queued_inv ex_root_ok ex_id_ok lib] ex_queued_job(1) obtain out where
    "mem_objs w' = (mem_objs ex_queued)
      (root_of (env_root ex_env @ [''results'', ''a10f'' @ ''.'' @ format_ext (Format (Transformation ex_job))]) \<mapsto> out)"
    by auto
  with r path show ?thesis by auto
qed

text \<open>
  C10: refinement of the job lifecycle: whatever \<open>ProcessJob\<close> meets and returns, the repository
  after it is the one before, or differs in the one job it was asked to process, whose
  identity and specification are unchanged and whose status has moved along the transitions
  of the lifecycle, pending to processing to done or failed, never back.
\<close>

theorem process_job_lifecycle:
  assumes "memrepo_inv (w_jobs w)"
  shows "w_jobs (snd (process_job_execute (mem_process env) c i w)) = w_jobs w \<or>
    (\<exists>j j' a b. w_jobs w i = Some j \<and>
       w_jobs (snd (process_job_execute (mem_process env) c i w)) = (w_jobs w)(i \<mapsto> j') \<and>
       ID j' = ID j \<and> OriginalKey j' = OriginalKey j \<and> Transformation j' = Transformation j \<and>
       CreatedAt j' = CreatedAt j \<and> abs_status (Status j) = Some a \<and> abs_status (Status j') = Some b \<and>
       lc_step\<^sup>+\<^sup>+ a b \<and> a < b)"
proof -
  obtain r w' where run: "process_job_execute (mem_process env) c i w = (r, w')" by fastforce
  have "lc_step\<^sup>+\<^sup>+ a b \<Longrightarrow> a < b" for a b
    by (induction rule: tranclp_induct) (auto dest: lc_step_less intro: less_trans)
  moreover have "jobs_progress i (w_jobs w) (w_jobs w')"
    using mem.process_jobs_progress [OF run [unfolded mem_process_def]] memrepo_inv_ID [OF assms] by blast
  ultimately show ?thesis by (auto simp: run jobs_progress_def job_progress_def)
qed

theorem process_job_lifecycle_witness:
  "w_jobs (snd (process_job_execute (mem_process ex_env) Background ''zz'' ex_queued)) = w_jobs ex_queued"
proof -
  have "w_jobs ex_queued ''zz'' = None" by (simp add: ex_queued_def)
  with process_job_lifecycle [OF ex_queued_inv, of ex_env Background "''zz''"] show ?thesis by auto
qed

text \<open>
  A pending job processed under a context that lasts as long as the run is settled: it ends done,
  and then the call returned the job and no error, or failed, and then the call returned the error
  whose text the job records.
\<close>

lemma process_job_settles:
  assumes "live_during c (w_tick w) (w_tick w')" "memrepo_inv (w_jobs w)" "w_jobs w i = Some j"
    "Status j = StatusPending" "process_job_execute (mem_process env) c i w = ((jo, err), w')"
  shows "\<exists>j'. w_jobs w' i = Some j' \<and>
    (case err of None \<Rightarrow> jo \<noteq> None \<and> Status j' = StatusDone \<and> Error j' = []
     | Some e \<Rightarrow> Status j' = StatusFailed \<and> Error j' = error_text e)"
proof -
  have id: "ID j = i" using memrepo_inv_ID [OF assms(2,3)] .
  from assms(3) id assms(4,5) show ?thesis
  proof (cases rule: process_outcomes)
    case (cut e x)
    then have "w_tick w \<le> w_tick w' - 1 \<and> w_tick w' - 1 < w_tick w'" by simp
    with assms(1) cut(3) show ?thesis by (auto simp: live_during_def)
  qed (auto simp: err_string_def)
qed

text \<open>
  A delivery of a job that is not pending has no effect: the call returns the job and an error
  that is \<open>ErrJobNotPending\<close>, and the world is the one before.
\<close>

theorem process_job_skips:
  assumes "CtxErr c (w_tick w) = None" "w_jobs w i = Some j" "Status j \<noteq> StatusPending"
  shows "\<exists>e. process_job_execute (mem_process env) c i w = ((Some j, Some e), after_call w) \<and>
    errors_is e ErrJobNotPending"
  using assms mem_load_live [OF assms(1,2), of env]
  by (simp add: process_job_execute_def go_errors ErrJobNotPending_def)

theorem process_job_skips_witness:
  "\<exists>e. process_job_execute (mem_process ex_env) Background ''a10f''
       (ex_queued\<lparr>w_jobs := [''a10f'' \<mapsto> ex_job\<lparr>Status := StatusDone\<rparr>]\<rparr>)
     = ((Some (ex_job\<lparr>Status := StatusDone\<rparr>), Some e),
        after_call (ex_queued\<lparr>w_jobs := [''a10f'' \<mapsto> ex_job\<lparr>Status := StatusDone\<rparr>]\<rparr>))"
  using process_job_skips [of Background "ex_queued\<lparr>w_jobs := [''a10f'' \<mapsto> ex_job\<lparr>Status := StatusDone\<rparr>]\<rparr>"
      "''a10f''" "ex_job\<lparr>Status := StatusDone\<rparr>" ex_env]
  by (auto simp: status_defs)

text \<open>
  C11: \<open>ProcessJob\<close> leaks nothing: on every path it closed the source it opened, and the
  pipeline the image it decoded.
\<close>

theorem process_job_closes:
  "w_open (snd (process_job_execute (mem_process env) c i w)) = w_open w \<and>
   w_images (snd (process_job_execute (mem_process env) c i w)) = w_images w"
  using mem_process_handles [of env c i w "fst (process_job_execute (mem_process env) c i w)"
      "snd (process_job_execute (mem_process env) c i w)"] by simp

text \<open>
  C12: the failure is recorded under the same context that failed. If the job's context ends at any
  time after the claim and before the last call of the run, whether the job's own timeout or a
  shutdown ends it, \<open>ProcessJob\<close> returns an error but the job stays in processing. Whatever
  deliveries follow, of this job and of others, under whatever contexts, the job stays exactly as it
  is and no delivery of it succeeds: no client ever sees it done or failed.
\<close>

theorem expired_context_strands:
  assumes "memrepo_inv (w_jobs w)" "w_jobs w i = Some j" "Status j = StatusPending"
    "CtxErr c (w_tick w) = None" "CtxErr c (Suc (w_tick w)) = None"
    "process_job_execute (mem_process env) c i w = (r, w')"
    "\<And>t. T \<le> t \<Longrightarrow> CtxErr c t \<noteq> None" "T < w_tick w'"
  shows "fst r = None \<and> snd r \<noteq> None \<and>
    (\<exists>t. w_jobs w' i = Some (updated_job StatusProcessing [] None t j)) \<and>
    (case redeliver env ds w' of
       (rs, w'') \<Rightarrow> w_jobs w'' i = w_jobs w' i \<and> list_all2 (\<lambda>(c', k) r'. k = i \<longrightarrow> snd r' \<noteq> None) ds rs)"
proof -
  have id: "ID j = i" using memrepo_inv_ID [OF assms(1,2)] .
  have over: "CtxErr c (w_tick w' - 1) \<noteq> None" using assms(7,8) by simp
  let ?p = "updated_job StatusProcessing [] None (env_clock env (Suc (w_tick w))) j"
  have r: "fst r = None \<and> snd r \<noteq> None \<and> w_jobs w' i = Some ?p"
    using assms(2) id assms(3,6) by (cases rule: process_outcomes) (use over assms(4,5) in auto)
  obtain rs w'' where d: "redeliver env ds w' = (rs, w'')" by fastforce
  have "Status ?p \<noteq> StatusPending" by (simp add: status_defs)
  from redeliver_settled [OF d process_keeps_others(1) [OF assms(6,1)] _ this] r d show ?thesis by auto
qed

theorem expired_context_strands_witness:
  "\<exists>r w'. process_job_execute (mem_process ex_env) (with_deadline 9 Background) ''a10f'' ex_queued = (r, w') \<and>
     map_option Status (w_jobs w' ''a10f'') = Some StatusProcessing \<and>
     map_option Status (w_jobs (snd (redeliver ex_env
       [(Background, ''a10f''), (with_deadline 40 Background, ''a10f'')] w')) ''a10f'') = Some StatusProcessing"
proof -
  let ?c = "with_deadline 9 Background"
  obtain r w' where run: "process_job_execute (mem_process ex_env) ?c ''a10f'' ex_queued = (r, w')" by fastforce
  have "9 < w_tick (snd (process_job_execute (mem_process ex_env) ?c ''a10f'' ex_queued))" by code_simp
  with run have T: "9 < w_tick w'" by simp
  have t: "w_tick ex_queued = 5" by (simp add: ex_queued_def)
  have c: "CtxErr ?c (w_tick ex_queued) = None" "CtxErr ?c (Suc (w_tick ex_queued)) = None"
    "\<And>t. 9 \<le> t \<Longrightarrow> CtxErr ?c t \<noteq> None"
    unfolding t by (simp_all add: with_deadline_def Background_def)
  from expired_context_strands [OF ex_queued_inv ex_queued_job(1,2) c(1,2) run c(3) T,
      of "[(Background, ''a10f''), (with_deadline 40 Background, ''a10f'')]"] run
  show ?thesis by (auto split: prod.splits)
qed

text \<open>
  The claim is a read and a write, not one conditional step: two workers with deliveries of
  the same pending job, each loading it before the other claims it, both see it pending and
  both claims succeed, so both go on to process it.
\<close>

theorem claim_not_exclusive:
  assumes "live_during c (w_tick w) (w_tick w + 4)" "live_during d (w_tick w) (w_tick w + 4)"
    "w_jobs w i = Some j" "Status j = StatusPending"
  shows "\<exists>w1 w2 w3 w4.
    GetJob (mem_jobs env) c i w = (Inr j, w1) \<and> GetJob (mem_jobs env) d i w1 = (Inr j, w2) \<and>
    UpdateStatus (mem_jobs env) c i StatusProcessing [] None w2 = (None, w3) \<and>
    UpdateStatus (mem_jobs env) d i StatusProcessing [] None w3 = (None, w4)"
proof -
  have l: "CtxErr c (w_tick w + n) = None" "CtxErr d (w_tick w + n) = None" if "n < 4" for n
    using assms(1,2) that by (auto simp: live_during_def)
  note at_call = l(1) [of 0] l(2) [of 1] l(1) [of 2] l(2) [of 3]
  have g: "GetJob (mem_jobs env) c i w = (Inr j, after_call w)"
    "GetJob (mem_jobs env) d i (after_call w) = (Inr j, after_call (after_call w))"
    using at_call assms(3) by (simp_all add: mem_load_live)
  let ?w2 = "after_call (after_call w)"
  let ?p = "updated_job StatusProcessing [] None (env_clock env (w_tick ?w2)) j"
  let ?w3 = "after_call (?w2\<lparr>w_jobs := (w_jobs ?w2)(i \<mapsto> ?p)\<rparr>)"
  have u: "UpdateStatus (mem_jobs env) c i StatusProcessing [] None ?w2 = (None, ?w3)"
    by (rule mem_update_live) (use at_call assms(3) in \<open>simp_all add: numeral_eq_Suc\<close>)
  have "CtxErr d (w_tick ?w3) = None" "w_jobs ?w3 i = Some ?p"
    using at_call by (simp_all add: numeral_eq_Suc)
  from mem_update_live [OF this(1) statuses_valid(2) this(2)] g u show ?thesis by blast
qed

theorem claim_not_exclusive_witness:
  "\<exists>w1 w2 w3. GetJob (mem_jobs ex_env) Background ''a10f'' ex_queued = (Inr ex_job, w1) \<and>
     GetJob (mem_jobs ex_env) Background ''a10f'' w1 = (Inr ex_job, w2) \<and>
     UpdateStatus (mem_jobs ex_env) Background ''a10f'' StatusProcessing [] None w2 = (None, w3)"
  using claim_not_exclusive [OF _ _ ex_queued_job(1,2), of Background Background ex_env]
  by (auto simp: live_during_def)

section \<open>Workers\<close>

text \<open>
  C27: what a worker of the in-process pool reports of a delivery is what the repository says,
  whatever happens to the job's context. It counts and observes the job as processed exactly when
  the run took it from pending to done. A delivery of a job that is not pending, or not there,
  changes no job, and is counted as skipped if there is one and its context was not over. A pending
  job that is not reported as processed is stored as failed, with the error that decided what was
  reported; or the context was over when the run last asked the repository, and the job is still
  pending or in processing. The counter of what was observed, and no other, goes up by one.
\<close>

theorem worker_reports_truth:
  assumes "p_process p = mem_process env" "p_acker p = None" "memrepo_inv (w_jobs w)"
    "handle p propagate deadline limit c d st w = (observed, st', w')"
  shows "(observed = StatusProcessed \<longleftrightarrow>
      map_option Status (w_jobs w (JobID d)) = Some StatusPending \<and>
      map_option Status (w_jobs w' (JobID d)) = Some StatusDone) \<and>
    st' = (if observed = StatusProcessed then st\<lparr>Processed := add_one (Processed st)\<rparr>
           else if observed = StatusSkipped then st\<lparr>Skipped := add_one (Skipped st)\<rparr>
           else st\<lparr>Failed := add_one (Failed st)\<rparr>) \<and>
    (case w_jobs w (JobID d) of
       None \<Rightarrow> w_jobs w' = w_jobs w
     | Some j \<Rightarrow>
         if Status j \<noteq> StatusPending
         then w_jobs w' = w_jobs w \<and>
           (if CtxErr (job_ctx p propagate deadline c d) (w_tick w) = None then observed = StatusSkipped else True)
         else observed = StatusProcessed \<or>
           (\<exists>j' e. w_jobs w' (JobID d) = Some j' \<and> Status j' = StatusFailed \<and>
              Error j' = error_text e \<and> observed = outcome_of (Some e)) \<or>
           (\<exists>j'. w_jobs w' (JobID d) = Some j' \<and> Status j' \<in> {StatusPending, StatusProcessing} \<and>
              w_tick w < w_tick w' \<and>
              CtxErr (job_ctx p propagate deadline c d) (w_tick w' - 1) \<noteq> None))"
proof -
  let ?c = "job_ctx p propagate deadline c d" and ?i = "JobID d"
  obtain jo err w1 where run: "process_job_execute (mem_process env) ?c ?i w = ((jo, err), w1)"
    by (metis prod.exhaust)
  obtain a ob k where o: "record_outcome err st = (a, ob, k)" by (metis prod.exhaust)
  with run assms(1,2,4) have h: "ob = observed" "a = st'" "w1 = w'"
    by (simp_all add: handle_def settle_def Let_def)
  have ob: "observed = outcome_of err" using record_outcome_observed [of err st] o h by simp
  have st: "st' = (if observed = StatusProcessed then st\<lparr>Processed := add_one (Processed st)\<rparr>
           else if observed = StatusSkipped then st\<lparr>Skipped := add_one (Skipped st)\<rparr>
           else st\<lparr>Failed := add_one (Failed st)\<rparr>)"
    using o h by (auto simp: record_outcome_def split: option.splits if_splits)
  have nok: "outcome_of (Some e) \<noteq> StatusProcessed" for e by (simp add: outcome_of_def)
  show ?thesis
  proof (cases "\<exists>j. w_jobs w ?i = Some j \<and> Status j = StatusPending")
    case True
    then obtain j where j: "w_jobs w ?i = Some j" "Status j = StatusPending" by blast
    have id: "ID j = ?i" using memrepo_inv_ID [OF assms(3) j(1)] .
    from j(1) id j(2) run show ?thesis
    proof (cases rule: process_outcomes)
      case (finished rk t)
      then have "observed = StatusProcessed" "Status (the (w_jobs w' ?i)) = StatusDone" "w_jobs w' ?i \<noteq> None"
        using ob h by (simp_all add: outcome_of_def)
      then show ?thesis using st j by auto
    next
      case (failed e t)
      then have "observed = outcome_of (Some e)" and w': "w_jobs w' ?i = Some (updated_job StatusFailed [] (Some e) t
         (updated_job StatusProcessing [] None (env_clock env (Suc (w_tick w))) j))"
        using ob h by simp_all
      then have "\<exists>j' e. w_jobs w' ?i = Some j' \<and> Status j' = StatusFailed \<and>
          Error j' = error_text e \<and> observed = outcome_of (Some e)" "observed \<noteq> StatusProcessed"
        by (auto simp: err_string_def nok)
      then show ?thesis using st j w' by (simp add: status_defs)
    next
      case (cut e x)
      then have "observed \<noteq> StatusProcessed" using ob nok by simp
      moreover have "\<exists>j'. w_jobs w' ?i = Some j' \<and> Status j' \<in> {StatusPending, StatusProcessing}"
        using cut(4) h j by auto
      moreover have "w_tick w < w_tick w' \<and> CtxErr ?c (w_tick w' - 1) \<noteq> None" using cut h by simp
      ultimately show ?thesis using st j by (auto simp: status_defs)
    qed
  next
    case False
    then have "\<And>j. w_jobs w ?i = Some j \<Longrightarrow> Status j \<noteq> StatusPending" by blast
    with run obtain e where e: "err = Some e" "w_jobs w1 = w_jobs w"
      "CtxErr ?c (w_tick w) = None \<Longrightarrow> w_jobs w ?i \<noteq> None \<Longrightarrow> errors_is e ErrJobNotPending"
      by (rule process_idle) auto
    then have "observed \<noteq> StatusProcessed"
      "CtxErr ?c (w_tick w) = None \<Longrightarrow> w_jobs w ?i \<noteq> None \<Longrightarrow> observed = StatusSkipped"
      using ob nok by (auto simp: outcome_of_def)
    with e(2) h False st show ?thesis by (auto split: option.split)
  qed
qed

theorem worker_reports_truth_witness:
  "\<exists>st' w' j'. handle (new_pool (mem_process ex_env) None []) (\<lambda>m c. c) 40 40
       Background \<lparr>JobID = ''a10f'', Meta = None\<rparr> \<lparr>Processed = 0, Failed = 0, Skipped = 0\<rparr> ex_queued
     = (StatusProcessed, st', w') \<and> w_jobs w' ''a10f'' = Some j' \<and> Status j' = StatusDone \<and> Processed st' = 1"
proof -
  let ?p = "new_pool (mem_process ex_env) None []" and ?d = "\<lparr>JobID = ''a10f'', Meta = None\<rparr>"
    and ?st = "\<lparr>Processed = 0, Failed = 0, Skipped = 0\<rparr>"
  have p: "p_process ?p = mem_process ex_env" "p_acker ?p = None" by (simp_all add: new_pool_def)
  have c: "job_ctx ?p (\<lambda>m c. c) 40 Background ?d = with_deadline 40 Background"
    by (simp add: job_ctx_def extract_ctx_def new_pool_def DefaultJobTimeout_def)
  have "case fst (process_job_execute (mem_process ex_env) (with_deadline 40 Background) ''a10f'' ex_queued) of
     (Some j, None) \<Rightarrow> True | _ \<Rightarrow> False" by code_simp
  then obtain jo where "fst (process_job_execute (mem_process ex_env) (with_deadline 40 Background) ''a10f'' ex_queued)
      = (Some jo, None)"
    by (auto split: prod.splits option.splits)
  then obtain w1 where "process_job_execute (mem_process ex_env) (with_deadline 40 Background) ''a10f'' ex_queued
      = ((Some jo, None), w1)"
    by (metis prod.collapse)
  with c p obtain st' w' where h: "handle ?p (\<lambda>m c. c) 40 40 Background ?d ?st ex_queued = (StatusProcessed, st', w')"
    by (simp add: handle_def record_outcome_def Let_def)
  from worker_reports_truth [OF p ex_queued_inv h] h show ?thesis
    by (auto simp: add_one_def uint64_size_def)
qed

section \<open>The AWS wiring\<close>

text \<open>
  On S3, DynamoDB and SQS behaving as documented, a \<open>CreateJob\<close> that succeeds had a valid
  request, its job is in the table as returned, its source is the object of its original key,
  its identifier is on the queue, and no other job or object changed. The specification's
  numbers are Go's \<open>int\<close>s and the clock is within the range of an \<open>int64\<close> of nanoseconds.
\<close>

theorem aws_create_success:
  assumes "aws_ok a v" "local_source v nid" "local_source v nw" "dyn_storable j"
    "create_job_execute (new_create_job (aws_storage_port a) (aws_repo a) (aws_queue_port a) nid nw) c src sp w
     = (Inr j, w')"
  shows "spec_ok sp \<and> j = created_job (fst (nid w)) sp (CreatedAt j) \<and>
    (\<exists>b. src = Some (Reader b None) \<and> v_objs v w' = store_at (s3_loc (OriginalKey j)) b (v_objs v w)) \<and>
    aws_jobs a v w' = (aws_jobs a v w)(ID j \<mapsto> j) \<and>
    v_waiting v w' = add_mset (ID j) (v_waiting v w)"
proof -
  have "local_processor v \<lparr>Process = \<lambda>c r s w. (Inl ErrNoSource, w)\<rparr>"
    by (simp add: local_processor_def untouched_def)
  from create_env.create_ok [OF aws_create_env [OF assms(1) this assms(2,3)] assms(5,4)]
  show ?thesis .
qed

theorem aws_create_success_witness:
  "\<exists>w'. create_job_execute (new_create_job (aws_storage_port sample_aws) (aws_repo sample_aws)
        (aws_queue_port sample_aws) (\<lambda>w. (''a1'', w)) (\<lambda>w. (5, w)))
      Background (Some (Reader ''px'' None)) ex_spec \<lparr>cl_objs = Map.empty, cl_items = Map.empty, cl_sent = []\<rparr>
      = (Inr (created_job ''a1'' ex_spec 5), w') \<and>
    aws_jobs sample_aws sample_view w' ''a1'' = Some (created_job ''a1'' ex_spec 5)"
proof -
  let ?w = "\<lparr>cl_objs = Map.empty, cl_items = Map.empty, cl_sent = []\<rparr>"
  let ?run = "create_job_execute (new_create_job (aws_storage_port sample_aws) (aws_repo sample_aws)
      (aws_queue_port sample_aws) (\<lambda>w. (''a1'', w)) (\<lambda>w. (5, w)))
      Background (Some (Reader ''px'' None)) ex_spec ?w"
  have src: "local_source sample_view (\<lambda>w. (''a1'', w))" "local_source sample_view (\<lambda>w. (5 :: int, w))"
    by (simp_all add: local_source_def untouched_def)
  have st: "dyn_storable (created_job ''a1'' ex_spec 5)"
    by (simp add: dyn_storable_def created_job_def ex_spec_def in_i64_def)
  have "validate_key (original_key ''a1'') = None" by code_simp
  moreover have "spec_validate ex_spec = None" by code_simp
  ultimately have "fst ?run = Inr (created_job ''a1'' ex_spec 5)"
    by (simp add: create_job_execute_def new_create_job_def aws_storage_port_def aws_repo_def
        aws_queue_port_def s3_port_def dyn_port_def sqs_port_def s3_put_def dyn_save_def sqs_enqueue_def
        sample_aws_def sample_s3_def sample_dynamo_def sample_sqs_def Let_def)
  then obtain w' where r: "?run = (Inr (created_job ''a1'' ex_spec 5), w')" by (metis prod.collapse)
  from aws_create_success [OF sample_aws_ok src st r] r show ?thesis by auto
qed

text \<open>
  The lifecycle holds on AWS too, where a call that reports an error may have taken effect:
  whatever \<open>ProcessJob\<close> meets, the jobs in the table are those before, or differ in the one job,
  which has moved along the lifecycle with its identity and specification unchanged, and the
  queue is untouched.
\<close>

theorem aws_process_lifecycle:
  assumes "aws_ok a v" "local_processor v pp" "aws_jobs a v w i = Some j" "ID j = i"
  shows "jobs_progress i (aws_jobs a v w)
    (aws_jobs a v (snd (process_job_execute (new_process_job (aws_storage_port a) (aws_repo a) pp) c i w)))"
proof -
  have id: "\<And>k. aws_jobs a v w i = Some k \<Longrightarrow> ID k = i" using assms(3,4) by simp
  from backend.process_jobs_progress [OF aws_backend [OF assms(1,2)] prod.collapse [symmetric] id]
  show ?thesis .
qed

theorem aws_process_lifecycle_witness:
  "let w = \<lparr>cl_objs = Map.empty, cl_items = [''a1'' \<mapsto> item_attrs (new_item (created_job ''a1'' ex_spec 5))],
            cl_sent = []\<rparr> in
   jobs_progress ''a1'' (aws_jobs sample_aws sample_view w)
     (aws_jobs sample_aws sample_view (snd (process_job_execute
        (new_process_job (aws_storage_port sample_aws) (aws_repo sample_aws)
           \<lparr>Process = \<lambda>c r s w. (Inl ErrNoSource, w)\<rparr>) Background ''a1'' w)))"
proof -
  let ?w = "\<lparr>cl_objs = Map.empty, cl_items = [''a1'' \<mapsto> item_attrs (new_item (created_job ''a1'' ex_spec 5))],
            cl_sent = []\<rparr>"
  have st: "dyn_storable (created_job ''a1'' ex_spec 5)"
    by (simp add: dyn_storable_def created_job_def ex_spec_def in_i64_def)
  then have "item_ok (new_item (created_job ''a1'' ex_spec 5))" by (simp add: dyn_storable_def new_item_ok)
  then have j: "aws_jobs sample_aws sample_view ?w ''a1'' = Some (created_job ''a1'' ex_spec 5)"
    using sample_codec item_roundtrip [OF st]
    by (simp add: aws_jobs_def dyn_jobs_def sample_aws_def sample_view_def codec_ok_def)
  have lp: "local_processor sample_view \<lparr>Process = \<lambda>c r s w. (Inl ErrNoSource, w)\<rparr>"
    by (simp add: local_processor_def untouched_def)
  show ?thesis
    unfolding Let_def by (rule aws_process_lifecycle [OF sample_aws_ok lp j created_job_simps(1)])
qed

end
